(* ===== verification/Prelude.thy ===== *)
theory Prelude
  imports Main
begin

text \<open>
  Shared vocabulary of the development.

  \<^item> Strings. A Rust \<open>str\<close> is its list of \<open>char\<close>s (Unicode scalar values, as
    numbers), so \<open>chars().count()\<close> is the length of the list; the model of a string
    literal is \<open>lit\<close> of the HOL literal. \<open>trim\<close>, the UTF-8 encoding (for
    \<open>len()\<close> and \<open>bytes()\<close>) and \<open>split\<close> are written out after the standard
    library's documentation.
  \<^item> Results. \<open>Result<T, DomainError>\<close> is the sum \<open>domain_error + 't\<close> and
    \<open>rbind\<close> is the question-mark operator.
  \<^item> Times. \<open>i64\<close> seconds are integers; \<open>saturating_add\<close> is written out with its
    two bounds.
  \<^item> Ids. One single-constructor datatype per phantom tag, so an id of one kind is never
    an id of another; user ids are ordered, as the SQL \<open>ORDER BY id\<close> orders them.
\<close>

named_theorems result_simps "inversion of successful results"

section \<open>Strings\<close>

type_synonym rstr = "int list"

definition lit :: "string \<Rightarrow> rstr" where
  "lit s = map of_char s"

lemma lit_inject [simp]: "lit s = lit t \<longleftrightarrow> s = t"
  unfolding lit_def by (rule inj_map_eq_map) (rule inj_onI, simp)

lemma lit_eq_Nil [simp]: "lit s = [] \<longleftrightarrow> s = []" "[] = lit s \<longleftrightarrow> s = []"
  by (auto simp: lit_def)

lemma length_lit [simp]: "length (lit s) = length s"
  by (simp add: lit_def)

text \<open>The Unicode \<open>White_Space\<close> property, which \<open>str::trim\<close> strips.\<close>

definition is_whitespace :: "int \<Rightarrow> bool" where
  "is_whitespace c \<longleftrightarrow>
     (9 \<le> c \<and> c \<le> 13) \<or> c = 32 \<or> c = 133 \<or> c = 160 \<or> c = 5760 \<or>
     (8192 \<le> c \<and> c \<le> 8202) \<or> c = 8232 \<or> c = 8233 \<or> c = 8239 \<or> c = 8287 \<or> c = 12288"

definition trim :: "rstr \<Rightarrow> rstr" where
  "trim s = rev (dropWhile is_whitespace (rev (dropWhile is_whitespace s)))"

lemma dropWhile_idem_hd: "dropWhile P (dropWhile P xs) = dropWhile P xs"
  by (induction xs) auto

lemma trim_idem [simp]: "trim (trim s) = trim s"
proof -
  let ?D = "dropWhile is_whitespace"
  let ?t = "?D s"
  have "?D (rev (?D (rev ?t))) = rev (?D (rev ?t))"
  proof (cases "rev (?D (rev ?t))")
    case Nil
    show ?thesis by (simp only: Nil dropWhile.simps)
  next
    case (Cons y ys)
    obtain zs where "rev ?t = zs @ ?D (rev ?t)"
      by (metis takeWhile_dropWhile_id)
    then have "?t = rev (?D (rev ?t)) @ rev zs"
      by (metis rev_append rev_rev_ident)
    with Cons have "?t = y # (ys @ rev zs)" by simp
    then have "\<not> is_whitespace y"
      by (metis hd_dropWhile list.distinct(1) list.sel(1))
    with Cons show ?thesis by simp
  qed
  then show ?thesis
    by (simp add: trim_def dropWhile_idem_hd)
qed

lemma set_trim_subset: "set (trim s) \<subseteq> set s"
  by (auto simp: trim_def dest!: set_dropWhileD)

lemma length_trim_le: "length (trim s) \<le> length s"
proof -
  have "length (dropWhile P xs) \<le> length xs" for P :: "int \<Rightarrow> bool" and xs
    by (induction xs) auto
  then show ?thesis unfolding trim_def by (metis length_rev order_trans)
qed

text \<open>UTF-8, for \<open>str::len\<close> and \<open>str::bytes\<close>.\<close>

definition utf8_char :: "int \<Rightarrow> int list" where
  "utf8_char c =
     (if c < 128 then [c]
      else if c < 2048 then [192 + c div 64, 128 + c mod 64]
      else if c < 65536 then [224 + c div 4096, 128 + c div 64 mod 64, 128 + c mod 64]
      else [240 + c div 262144, 128 + c div 4096 mod 64, 128 + c div 64 mod 64, 128 + c mod 64])"

definition str_bytes :: "rstr \<Rightarrow> int list" where
  "str_bytes s = concat (map utf8_char s)"

definition str_len :: "rstr \<Rightarrow> nat" where
  "str_len s = length (str_bytes s)"

definition is_ascii_lowercase :: "int \<Rightarrow> bool" where
  "is_ascii_lowercase b \<longleftrightarrow> 97 \<le> b \<and> b \<le> 122"

definition is_ascii_uppercase :: "int \<Rightarrow> bool" where
  "is_ascii_uppercase b \<longleftrightarrow> 65 \<le> b \<and> b \<le> 90"

definition is_ascii_digit :: "int \<Rightarrow> bool" where
  "is_ascii_digit b \<longleftrightarrow> 48 \<le> b \<and> b \<le> 57"

definition is_ascii_alphabetic :: "int \<Rightarrow> bool" where
  "is_ascii_alphabetic b \<longleftrightarrow> is_ascii_lowercase b \<or> is_ascii_uppercase b"

definition is_ascii_alphanumeric :: "int \<Rightarrow> bool" where
  "is_ascii_alphanumeric b \<longleftrightarrow> is_ascii_alphabetic b \<or> is_ascii_digit b"

lemmas ascii_defs =
  is_ascii_lowercase_def is_ascii_uppercase_def is_ascii_digit_def
  is_ascii_alphabetic_def is_ascii_alphanumeric_def

text \<open>\<open>str::split\<close> on a predicate over characters: always at least one piece.\<close>

fun split_on :: "(int \<Rightarrow> bool) \<Rightarrow> rstr \<Rightarrow> rstr list" where
  "split_on P [] = [[]]"
| "split_on P (c # cs) =
     (if P c then [] # split_on P cs
      else (case split_on P cs of [] \<Rightarrow> [[c]] | s # ss \<Rightarrow> (c # s) # ss))"

lemma split_on_not_Nil [simp]: "split_on P s \<noteq> []"
  by (cases s) (auto split: list.splits)

lemma split_on_free: "list_all (\<lambda>c. \<not> P c) s \<Longrightarrow> split_on P s = [s]"
  by (induction s) auto

lemma split_on_pieces: "x \<in> set (split_on P s) \<Longrightarrow> list_all (\<lambda>c. \<not> P c) x"
  by (induction s arbitrary: x) (auto split: if_splits list.splits)

lemma split_on_append_sep:
  "list_all (\<lambda>c. \<not> P c) s \<Longrightarrow> P c \<Longrightarrow> split_on P (s @ c # t) = s # split_on P t"
  by (induction s) auto

text \<open>Decimal rendering, for the numbers inside messages.\<close>

fun show_nat :: "nat \<Rightarrow> rstr" where
  "show_nat n = (if n < 10 then [48 + int n] else show_nat (n div 10) @ [48 + int (n mod 10)])"

declare show_nat.simps [simp del]

definition show_int :: "int \<Rightarrow> rstr" where
  "show_int i = (if i < 0 then [45] @ show_nat (nat (- i)) else show_nat (nat i))"

section \<open>Errors and results\<close>

datatype domain_error =
    NotFound rstr rstr
  | Conflict rstr
  | Validation rstr
  | Forbidden rstr
  | Precondition rstr
  | Repository rstr

definition rbind :: "'e + 'a \<Rightarrow> ('a \<Rightarrow> 'e + 'b) \<Rightarrow> 'e + 'b" where
  "rbind r f = (case r of Inl e \<Rightarrow> Inl e | Inr x \<Rightarrow> f x)"

definition ensure :: "bool \<Rightarrow> 'e \<Rightarrow> 'e + unit" where
  "ensure b e = (if b then Inr () else Inl e)"

lemma rbind_simps [simp]: "rbind (Inl e) f = Inl e" "rbind (Inr x) f = f x"
  by (simp_all add: rbind_def)

lemma rbind_Inr_iff [result_simps]: "rbind r f = Inr y \<longleftrightarrow> (\<exists>x. r = Inr x \<and> f x = Inr y)"
  by (cases r) auto

lemma rbind_Inl_iff [result_simps]:
  "rbind r f = Inl e \<longleftrightarrow> r = Inl e \<or> (\<exists>x. r = Inr x \<and> f x = Inl e)"
  by (cases r) auto

lemma ensure_Inr_iff [result_simps]: "ensure b e = Inr u \<longleftrightarrow> b"
  by (simp add: ensure_def)

lemma ensure_Inl_iff [result_simps]: "ensure b e = Inl e' \<longleftrightarrow> \<not> b \<and> e' = e"
  by (auto simp: ensure_def)

lemma ensure_simps [simp]: "ensure True e = Inr ()" "ensure False e = Inl e"
  by (simp_all add: ensure_def)

fun is_ok :: "'e + 'a \<Rightarrow> bool" where
  "is_ok (Inr _) = True"
| "is_ok (Inl _) = False"

text \<open>A fallible map over a list: the first error ends it, as \<open>collect\<close> does.\<close>

fun traverse :: "('a \<Rightarrow> 'e + 'b) \<Rightarrow> 'a list \<Rightarrow> 'e + 'b list" where
  "traverse f [] = Inr []"
| "traverse f (x # xs) = rbind (f x) (\<lambda>y. rbind (traverse f xs) (\<lambda>ys. Inr (y # ys)))"

lemma traverse_Inr_map: "(\<And>x. x \<in> set xs \<Longrightarrow> f x = Inr (g x)) \<Longrightarrow> traverse f xs = Inr (map g xs)"
  by (induction xs) auto

lemma traverse_Inr_length: "traverse f xs = Inr ys \<Longrightarrow> length ys = length xs"
  by (induction xs arbitrary: ys) (auto simp: result_simps)

section \<open>Machine integers\<close>

definition i64_max :: int where "i64_max = 9223372036854775807"
definition i64_min :: int where "i64_min = - 9223372036854775808"

definition saturating_add :: "int \<Rightarrow> int \<Rightarrow> int" where
  "saturating_add a b =
     (if a + b > i64_max then i64_max else if a + b < i64_min then i64_min else a + b)"

lemma saturating_add_exact:
  "i64_min \<le> a + b \<Longrightarrow> a + b \<le> i64_max \<Longrightarrow> saturating_add a b = a + b"
  by (simp add: saturating_add_def)

lemma saturating_add_ge: "0 \<le> b \<Longrightarrow> a \<le> i64_max \<Longrightarrow> i64_min \<le> a \<Longrightarrow> a \<le> saturating_add a b"
  by (simp add: saturating_add_def)

lemma saturating_add_gt: "0 < b \<Longrightarrow> a < i64_max \<Longrightarrow> i64_min \<le> a \<Longrightarrow> a < saturating_add a b"
  by (simp add: saturating_add_def)

lemma saturating_add_le: "0 \<le> b \<Longrightarrow> i64_min \<le> a \<Longrightarrow> saturating_add a b \<le> a + b"
  by (simp add: saturating_add_def)

lemma saturating_add_bounds: "i64_min \<le> saturating_add a b" "saturating_add a b \<le> i64_max"
  by (simp_all add: saturating_add_def i64_min_def i64_max_def)

definition as_u32 :: "nat \<Rightarrow> nat" where
  "as_u32 n = nat (int n mod 4294967296)"

section \<open>Ids\<close>

datatype user_id = UserId (uid_raw: nat)
datatype removal_id = RemovalId (rid_raw: nat)
datatype admission_id = AdmissionId (aid_raw: nat)
datatype user_proposal_id = UserProposalId (pid_raw: nat)

instantiation user_id :: linorder
begin
definition less_eq_user_id :: "user_id \<Rightarrow> user_id \<Rightarrow> bool" where
  "less_eq_user_id a b \<longleftrightarrow> uid_raw a \<le> uid_raw b"
definition less_user_id :: "user_id \<Rightarrow> user_id \<Rightarrow> bool" where
  "less_user_id a b \<longleftrightarrow> uid_raw a < uid_raw b"
instance
  by standard (auto simp: less_eq_user_id_def less_user_id_def user_id.expand)
end

section \<open>Lists\<close>

text \<open>\<open>iter_mut().find(p)\<close> followed by an assignment: the first match only.\<close>

fun update_first :: "('a \<Rightarrow> bool) \<Rightarrow> ('a \<Rightarrow> 'a) \<Rightarrow> 'a list \<Rightarrow> 'a list" where
  "update_first P f [] = []"
| "update_first P f (x # xs) = (if P x then f x # xs else x # update_first P f xs)"

lemma map_update_first:
  "(\<And>x. P x \<Longrightarrow> g (f x) = g x) \<Longrightarrow> map g (update_first P f xs) = map g xs"
  by (induction xs) auto

lemma length_update_first [simp]: "length (update_first P f xs) = length xs"
  by (induction xs) auto

lemma update_first_id: "find P xs = None \<Longrightarrow> update_first P f xs = xs"
  by (induction xs) (auto split: if_splits)

lemma set_update_first:
  "find P xs = Some x \<Longrightarrow> f x \<in> set (update_first P f xs)"
  by (induction xs) (auto split: if_splits)

lemma set_update_first_subset: "set (update_first P f xs) \<subseteq> set xs \<union> f ` {x \<in> set xs. P x}"
  by (induction xs) auto

lemma find_Some_in: "find P xs = Some x \<Longrightarrow> x \<in> set xs \<and> P x"
  by (induction xs) (auto split: if_splits)

lemma find_None_iff_all: "find P xs = None \<longleftrightarrow> (\<forall>x\<in>set xs. \<not> P x)"
  by (induction xs) auto

text \<open>An iterator's \<open>find\<close> used to leave with an error about the first offender.\<close>

lemma find_guard_Inr [result_simps]:
  "(case find P xs of None \<Rightarrow> r | Some x \<Rightarrow> Inl (f x)) = Inr u \<longleftrightarrow> (\<forall>x\<in>set xs. \<not> P x) \<and> r = Inr u"
  by (induction xs) auto

lemma find_eq_Some_distinct:
  "distinct (map g xs) \<Longrightarrow> x \<in> set xs \<Longrightarrow> find (\<lambda>y. g y = g x) xs = Some x"
  by (induction xs) (auto simp: image_iff)

section \<open>Runs\<close>

text \<open>A sequence of calls: one that errors leaves the aggregate as it was.\<close>

fun run_ops :: "('a \<Rightarrow> 'op \<Rightarrow> domain_error + 'a) \<Rightarrow> 'a \<Rightarrow> 'op list \<Rightarrow> 'a" where
  "run_ops step a [] = a"
| "run_ops step a (op # ops) =
     run_ops step (case step a op of Inl _ \<Rightarrow> a | Inr a' \<Rightarrow> a') ops"

lemma run_ops_invariant:
  assumes "I a" and "\<And>a op a'. I a \<Longrightarrow> op \<in> set ops \<Longrightarrow> step a op = Inr a' \<Longrightarrow> I a'"
  shows "I (run_ops step a ops)"
  using assms
proof (induction ops arbitrary: a)
  case Nil
  then show ?case by simp
next
  case (Cons op ops)
  have "I (case step a op of Inl _ \<Rightarrow> a | Inr a' \<Rightarrow> a')"
    using Cons.prems by (auto split: sum.splits)
  then have "I (run_ops step (case step a op of Inl _ \<Rightarrow> a | Inr a' \<Rightarrow> a') ops)"
    by (rule Cons.IH) (auto intro: Cons.prems(2))
  then show ?case by simp
qed

section \<open>Stored discriminants\<close>

text \<open>
  Every enumeration that is stored or crosses the wire has an \<open>as_str\<close> and a
  \<open>parse\<close>. Their contract, and what the adapters use of it.
\<close>

locale str_codec =
  fixes as_str :: "'a \<Rightarrow> rstr"
    and parse :: "rstr \<Rightarrow> domain_error + 'a"
  assumes parse_as_str: "parse (as_str x) = Inr x"
    and parse_sound: "parse s = Inr x \<Longrightarrow> s = as_str x"
begin

lemma as_str_eq_iff: "as_str x = as_str y \<longleftrightarrow> x = y"
  by (metis parse_as_str sum.inject(2))

lemma parse_Inr_iff: "parse s = Inr x \<longleftrightarrow> s = as_str x"
  using parse_as_str parse_sound by auto

lemma parse_Inl_iff: "(\<exists>e. parse s = Inl e) \<longleftrightarrow> s \<notin> range as_str"
  by (metis parse_as_str parse_sound rangeE rangeI sum.distinct(1) sum.exhaust)

end

end
