(* ===== verification/Consilium.thy ===== *)
theory Consilium
  imports Prelude
begin

text \<open>
  \<open>domain/src/governance.rs\<close>: the consilia. The three proposal aggregates (taking an
  owner's seat, granting one, deciding a person's standing), the two passing rules and
  the lifecycle they share.

  A method \<open>fn m(&mut self, ..) -> Result<(), DomainError>\<close> is a function from the
  aggregate to an error or the changed aggregate: every method of this file checks before
  it writes, so an error leaves the aggregate as it was and nothing is returned with it.
  Constructors of the enumerations are written qualified, as the source writes them
  (\<open>vote.Pending\<close>, \<open>ballot.Pending\<close>, \<open>outcome.Pending\<close>). Counters (\<open>u64\<close>, \<open>usize\<close>)
  are natural numbers, times (\<open>i64\<close>) integers with the saturating addition written out.
\<close>

section \<open>Constants\<close>

definition MIN_OWNERS :: nat where "MIN_OWNERS = 2"
definition PAYOUT_MIN_OWNERS :: nat where "PAYOUT_MIN_OWNERS = 3"
definition REMOVAL_TTL_SECS :: int where "REMOVAL_TTL_SECS = 72 * 60 * 60"
definition MAX_CODE_ATTEMPTS :: int where "MAX_CODE_ATTEMPTS = 5"
definition MAX_REASON_CHARS :: nat where "MAX_REASON_CHARS = 500"

section \<open>States, votes, ballots\<close>

datatype proposal_state = Open | Executed | Rejected | Expired | Cancelled | Void

definition proposal_state_as_str :: "proposal_state \<Rightarrow> rstr" where
  "proposal_state_as_str s = (case s of
     Open \<Rightarrow> lit ''open'' | Executed \<Rightarrow> lit ''executed'' | Rejected \<Rightarrow> lit ''rejected''
   | Expired \<Rightarrow> lit ''expired'' | Cancelled \<Rightarrow> lit ''cancelled'' | Void \<Rightarrow> lit ''void'')"

definition proposal_state_parse :: "rstr \<Rightarrow> domain_error + proposal_state" where
  "proposal_state_parse raw =
     (if raw = lit ''open'' then Inr Open
      else if raw = lit ''executed'' then Inr Executed
      else if raw = lit ''rejected'' then Inr Rejected
      else if raw = lit ''expired'' then Inr Expired
      else if raw = lit ''cancelled'' then Inr Cancelled
      else if raw = lit ''void'' then Inr Void
      else Inl (Validation (lit ''unknown proposal state: '' @ raw)))"

definition is_open :: "proposal_state \<Rightarrow> bool" where
  "is_open s \<longleftrightarrow> s = Open"

datatype vote = Pending | Remove | Keep

datatype ballot = Pending | For | Against

definition vote_ballot :: "vote \<Rightarrow> ballot" where
  "vote_ballot v = (case v of vote.Pending \<Rightarrow> ballot.Pending | Remove \<Rightarrow> For | Keep \<Rightarrow> Against)"

definition vote_as_str :: "vote \<Rightarrow> rstr" where
  "vote_as_str v = (case v of
     vote.Pending \<Rightarrow> lit ''pending'' | Remove \<Rightarrow> lit ''remove'' | Keep \<Rightarrow> lit ''keep'')"

definition vote_parse :: "rstr \<Rightarrow> domain_error + vote" where
  "vote_parse raw =
     (if raw = lit ''pending'' then Inr vote.Pending
      else if raw = lit ''remove'' then Inr Remove
      else if raw = lit ''keep'' then Inr Keep
      else Inl (Validation (lit ''unknown vote: '' @ raw)))"

definition vote_is_cast :: "vote \<Rightarrow> bool" where
  "vote_is_cast v \<longleftrightarrow> v \<noteq> vote.Pending"

datatype admission_vote = Pending | Admit | Reject

definition admission_vote_ballot :: "admission_vote \<Rightarrow> ballot" where
  "admission_vote_ballot v =
     (case v of admission_vote.Pending \<Rightarrow> ballot.Pending | Admit \<Rightarrow> For | Reject \<Rightarrow> Against)"

definition admission_vote_as_str :: "admission_vote \<Rightarrow> rstr" where
  "admission_vote_as_str v = (case v of
     admission_vote.Pending \<Rightarrow> lit ''pending'' | Admit \<Rightarrow> lit ''admit'' | Reject \<Rightarrow> lit ''reject'')"

definition admission_vote_parse :: "rstr \<Rightarrow> domain_error + admission_vote" where
  "admission_vote_parse raw =
     (if raw = lit ''pending'' then Inr admission_vote.Pending
      else if raw = lit ''admit'' then Inr Admit
      else if raw = lit ''reject'' then Inr Reject
      else Inl (Validation (lit ''unknown admission vote: '' @ raw)))"

definition admission_vote_is_cast :: "admission_vote \<Rightarrow> bool" where
  "admission_vote_is_cast v \<longleftrightarrow> v \<noteq> admission_vote.Pending"

datatype proposal_vote = Pending | For | Against

definition proposal_vote_ballot :: "proposal_vote \<Rightarrow> ballot" where
  "proposal_vote_ballot v = (case v of
     proposal_vote.Pending \<Rightarrow> ballot.Pending | proposal_vote.For \<Rightarrow> ballot.For
   | proposal_vote.Against \<Rightarrow> ballot.Against)"

definition proposal_vote_as_str :: "proposal_vote \<Rightarrow> rstr" where
  "proposal_vote_as_str v = (case v of
     proposal_vote.Pending \<Rightarrow> lit ''pending'' | proposal_vote.For \<Rightarrow> lit ''for''
   | proposal_vote.Against \<Rightarrow> lit ''against'')"

definition proposal_vote_parse :: "rstr \<Rightarrow> domain_error + proposal_vote" where
  "proposal_vote_parse raw =
     (if raw = lit ''pending'' then Inr proposal_vote.Pending
      else if raw = lit ''for'' then Inr proposal_vote.For
      else if raw = lit ''against'' then Inr proposal_vote.Against
      else Inl (Validation (lit ''unknown proposal vote: '' @ raw)))"

definition proposal_vote_is_cast :: "proposal_vote \<Rightarrow> bool" where
  "proposal_vote_is_cast v \<longleftrightarrow> v \<noteq> proposal_vote.Pending"

datatype user_proposal_kind = Suspension | Reinstatement | AdminAdmission

definition user_proposal_kind_as_str :: "user_proposal_kind \<Rightarrow> rstr" where
  "user_proposal_kind_as_str k = (case k of
     Suspension \<Rightarrow> lit ''suspension'' | Reinstatement \<Rightarrow> lit ''reinstatement''
   | AdminAdmission \<Rightarrow> lit ''admin_admission'')"

definition user_proposal_kind_parse :: "rstr \<Rightarrow> domain_error + user_proposal_kind" where
  "user_proposal_kind_parse raw =
     (if raw = lit ''suspension'' then Inr Suspension
      else if raw = lit ''reinstatement'' then Inr Reinstatement
      else if raw = lit ''admin_admission'' then Inr AdminAdmission
      else Inl (Validation (lit ''unknown user proposal kind: '' @ raw)))"

definition user_proposal_kind_rpc_name :: "user_proposal_kind \<Rightarrow> rstr" where
  "user_proposal_kind_rpc_name k = (case k of
     Suspension \<Rightarrow> lit ''GovernanceService.OpenUserSuspension''
   | Reinstatement \<Rightarrow> lit ''GovernanceService.OpenUserReinstatement''
   | AdminAdmission \<Rightarrow> lit ''GovernanceService.OpenAdminAdmission'')"

datatype governance_event =
  Opened | PeerVoted | TargetDecided | Cancelled | Expired | Executed | Rejected | Voided

definition governance_event_kind :: "governance_event \<Rightarrow> rstr" where
  "governance_event_kind e = (case e of
     Opened \<Rightarrow> lit ''OPENED'' | PeerVoted \<Rightarrow> lit ''PEER_VOTED''
   | TargetDecided \<Rightarrow> lit ''TARGET_DECIDED'' | governance_event.Cancelled \<Rightarrow> lit ''CANCELLED''
   | governance_event.Expired \<Rightarrow> lit ''EXPIRED'' | governance_event.Executed \<Rightarrow> lit ''EXECUTED''
   | governance_event.Rejected \<Rightarrow> lit ''REJECTED'' | Voided \<Rightarrow> lit ''VOIDED'')"

text \<open>The codec contract, discharged for every stored enumeration of this file.\<close>

interpretation state_codec: str_codec proposal_state_as_str proposal_state_parse
  by unfold_locales
    (auto simp: proposal_state_as_str_def proposal_state_parse_def
      split: proposal_state.splits if_splits)

interpretation vote_codec: str_codec vote_as_str vote_parse
  by unfold_locales (auto simp: vote_as_str_def vote_parse_def split: vote.splits if_splits)

interpretation admission_vote_codec: str_codec admission_vote_as_str admission_vote_parse
  by unfold_locales
    (auto simp: admission_vote_as_str_def admission_vote_parse_def
      split: admission_vote.splits if_splits)

interpretation proposal_vote_codec: str_codec proposal_vote_as_str proposal_vote_parse
  by unfold_locales
    (auto simp: proposal_vote_as_str_def proposal_vote_parse_def
      split: proposal_vote.splits if_splits)

interpretation kind_codec: str_codec user_proposal_kind_as_str user_proposal_kind_parse
  by unfold_locales
    (auto simp: user_proposal_kind_as_str_def user_proposal_kind_parse_def
      split: user_proposal_kind.splits if_splits)

section \<open>The passing rules\<close>

datatype outcome = Pending | Passes | Fails

text \<open>
  The loop of \<open>unanimity\<close>: \<open>any\<close> and \<open>all_for\<close> are its two mutable variables, and
  a ballot against returns at once.
\<close>

fun unanimity_loop :: "bool \<Rightarrow> bool \<Rightarrow> ballot list \<Rightarrow> outcome" where
  "unanimity_loop any all_for [] =
     (if any then (if all_for then Passes else outcome.Pending) else Fails)"
| "unanimity_loop any all_for (b # bs) =
     (case b of
        ballot.Against \<Rightarrow> Fails
      | ballot.Pending \<Rightarrow> unanimity_loop True False bs
      | ballot.For \<Rightarrow> unanimity_loop True all_for bs)"

definition unanimity :: "ballot list \<Rightarrow> outcome" where
  "unanimity bs = unanimity_loop False True bs"

definition needed_votes :: "nat \<Rightarrow> nat" where
  "needed_votes peers = peers div 2 + 1"

text \<open>The tally loop of \<open>majority\<close>, over \<open>(total, for_, against)\<close>.\<close>

fun tally :: "nat \<times> nat \<times> nat \<Rightarrow> ballot list \<Rightarrow> nat \<times> nat \<times> nat" where
  "tally acc [] = acc"
| "tally (tot, f, a) (b # bs) =
     (case b of
        ballot.For \<Rightarrow> tally (tot + 1, f + 1, a) bs
      | ballot.Against \<Rightarrow> tally (tot + 1, f, a + 1) bs
      | ballot.Pending \<Rightarrow> tally (tot + 1, f, a) bs)"

definition majority :: "ballot list \<Rightarrow> outcome" where
  "majority bs =
     (let (tot, fors, against) = tally (0, 0, 0) bs
      in if tot = 0 then Fails
         else let needed = needed_votes tot
              in if fors \<ge> needed then Passes
                 else if against > tot - needed then Fails
                 else outcome.Pending)"

text \<open>
  What the two rules promise. A list of ballots is completed by replacing every pending
  ballot with an answer. A rule is decisive for a condition on complete lists when it says
  \<open>Passes\<close> exactly when every completion meets the condition and \<open>Fails\<close> exactly when
  none does: it never answers too early and never later than it could.
\<close>

definition refines :: "ballot list \<Rightarrow> ballot list \<Rightarrow> bool" where
  "refines bs cs \<longleftrightarrow> list_all2 (\<lambda>b c. b = ballot.Pending \<or> c = b) bs cs"

definition completes :: "ballot list \<Rightarrow> ballot list \<Rightarrow> bool" where
  "completes bs cs \<longleftrightarrow> refines bs cs \<and> ballot.Pending \<notin> set cs"

definition all_agree :: "ballot list \<Rightarrow> bool" where
  "all_agree cs \<longleftrightarrow> cs \<noteq> [] \<and> list_all (\<lambda>c. c = ballot.For) cs"

definition most_agree :: "ballot list \<Rightarrow> bool" where
  "most_agree cs \<longleftrightarrow> length cs < 2 * count_list cs ballot.For"

definition fill :: "ballot \<Rightarrow> ballot list \<Rightarrow> ballot list" where
  "fill a bs = map (\<lambda>b. if b = ballot.Pending then a else b) bs"

lemma completes_fill: "a \<noteq> ballot.Pending \<Longrightarrow> completes bs (fill a bs)"
  by (auto simp: completes_def refines_def fill_def list_all2_conv_all_nth)

lemma refines_refl: "refines bs bs"
  by (simp add: refines_def list_all2_refl)

lemma refines_trans: "refines as bs \<Longrightarrow> refines bs cs \<Longrightarrow> refines as cs"
  unfolding refines_def by (erule list_all2_trans [rotated], assumption) auto

lemma refines_completes: "refines bs bs' \<Longrightarrow> completes bs' cs \<Longrightarrow> completes bs cs"
  by (auto simp: completes_def intro: refines_trans)

locale decisive_rule =
  fixes rule :: "ballot list \<Rightarrow> outcome"
    and carried :: "ballot list \<Rightarrow> bool"
  assumes passes_iff: "rule bs = Passes \<longleftrightarrow> (\<forall>cs. completes bs cs \<longrightarrow> carried cs)"
    and fails_iff: "rule bs = Fails \<longleftrightarrow> (\<forall>cs. completes bs cs \<longrightarrow> \<not> carried cs)"
    and not_carried_Nil: "\<not> carried []"
begin

lemma rule_Nil: "rule [] = Fails"
  using not_carried_Nil by (simp add: fails_iff completes_def refines_def)

text \<open>A verdict is never taken back by a later answer.\<close>

lemma verdict_stable:
  assumes "refines bs bs'" and "rule bs \<noteq> outcome.Pending"
  shows "rule bs' = rule bs"
proof (cases "rule bs")
  case Pending
  with assms show ?thesis by simp
next
  case Passes
  with assms(1) have "rule bs' = Passes"
    unfolding passes_iff by (blast intro: refines_completes)
  with Passes show ?thesis by simp
next
  case Fails
  with assms(1) have "rule bs' = Fails"
    unfolding fails_iff by (blast intro: refines_completes)
  with Fails show ?thesis by simp
qed

text \<open>Once everybody answered there is a verdict, and it is the condition itself.\<close>

lemma complete_decides:
  assumes "ballot.Pending \<notin> set bs"
  shows "rule bs = (if carried bs then Passes else Fails)"
proof -
  have "completes bs cs \<longleftrightarrow> cs = bs" for cs
  proof
    assume "completes bs cs"
    then show "cs = bs"
      using assms unfolding completes_def refines_def list_all2_conv_all_nth
      by (metis nth_equalityI nth_mem)
  next
    assume "cs = bs"
    with assms show "completes bs cs" by (simp add: completes_def refines_refl)
  qed
  then show ?thesis by (auto simp: passes_iff fails_iff)
qed

text \<open>A pending verdict can still go either way.\<close>

lemma pending_open:
  assumes "rule bs = outcome.Pending"
  shows "(\<exists>cs. completes bs cs \<and> rule cs = Passes) \<and> (\<exists>cs. completes bs cs \<and> rule cs = Fails)"
proof -
  have "rule bs \<noteq> Passes" "rule bs \<noteq> Fails" using assms by simp_all
  then obtain cs ds where cs: "completes bs cs" "\<not> carried cs"
    and ds: "completes bs ds" "carried ds"
    unfolding passes_iff fails_iff by blast
  then have "rule cs = Fails" "rule ds = Passes"
    by (simp_all add: complete_decides completes_def)
  with cs ds show ?thesis by blast
qed

end

lemma unanimity_loop_eq:
  "unanimity_loop any all_for bs =
     (if ballot.Against \<in> set bs then Fails
      else if any \<or> bs \<noteq> [] then
        (if all_for \<and> ballot.Pending \<notin> set bs then Passes else outcome.Pending)
      else Fails)"
  by (induction bs arbitrary: any all_for) (auto split: ballot.splits)

lemma unanimity_eq:
  "unanimity bs =
     (if bs = [] \<or> ballot.Against \<in> set bs then Fails
      else if ballot.Pending \<in> set bs then outcome.Pending else Passes)"
  by (auto simp: unanimity_def unanimity_loop_eq)

lemma completes_all_for: "ballot.Against \<notin> set bs \<Longrightarrow> ballot.Pending \<notin> set bs \<Longrightarrow>
    completes bs cs \<Longrightarrow> list_all (\<lambda>c. c = ballot.For) cs"
  unfolding completes_def refines_def
  by (auto simp: list_all2_conv_all_nth list_all_length in_set_conv_nth)
    (metis ballot.exhaust nth_mem)

lemma refines_length: "refines bs cs \<Longrightarrow> length cs = length bs"
  by (simp add: refines_def list_all2_lengthD)

lemma refines_keeps_against: "refines bs cs \<Longrightarrow> ballot.Against \<in> set bs \<Longrightarrow> ballot.Against \<in> set cs"
  unfolding refines_def by (induction rule: list_all2_induct) auto

interpretation unanimous: decisive_rule unanimity all_agree
proof unfold_locales
  fix bs
  show "unanimity bs = Passes \<longleftrightarrow> (\<forall>cs. completes bs cs \<longrightarrow> all_agree cs)"
  proof
    assume "unanimity bs = Passes"
    then have *: "bs \<noteq> []" "ballot.Against \<notin> set bs" "ballot.Pending \<notin> set bs"
      by (auto simp: unanimity_eq split: if_splits)
    show "\<forall>cs. completes bs cs \<longrightarrow> all_agree cs"
      using * completes_all_for [OF *(2,3)]
      by (auto simp: all_agree_def completes_def dest!: refines_length)
  next
    assume all: "\<forall>cs. completes bs cs \<longrightarrow> all_agree cs"
    have "all_agree (fill ballot.Against bs)"
      using all completes_fill [of ballot.Against bs] by blast
    then show "unanimity bs = Passes"
      by (auto simp: all_agree_def fill_def list_all_iff unanimity_eq split: if_splits)
  qed
  show "unanimity bs = Fails \<longleftrightarrow> (\<forall>cs. completes bs cs \<longrightarrow> \<not> all_agree cs)"
  proof
    assume "unanimity bs = Fails"
    then have "bs = [] \<or> ballot.Against \<in> set bs"
      by (auto simp: unanimity_eq split: if_splits)
    then show "\<forall>cs. completes bs cs \<longrightarrow> \<not> all_agree cs"
      by (auto simp: all_agree_def completes_def list_all_iff dest: refines_length)
        (metis ballot.distinct(5) refines_keeps_against)
  next
    assume all: "\<forall>cs. completes bs cs \<longrightarrow> \<not> all_agree cs"
    have "\<not> all_agree (fill ballot.For bs)"
      using all completes_fill [of ballot.For bs] by blast
    then show "unanimity bs = Fails"
      by (auto simp: all_agree_def fill_def list_all_iff unanimity_eq image_iff)
        (metis ballot.exhaust)
  qed
next
  show "\<not> all_agree []" by (simp add: all_agree_def)
qed

lemma tally_eq:
  "tally (t, f, a) bs =
     (t + length bs, f + count_list bs ballot.For, a + count_list bs ballot.Against)"
  by (induction bs arbitrary: t f a) (auto split: ballot.splits)

lemma ballot_counts:
  "count_list bs ballot.For + count_list bs ballot.Against + count_list bs ballot.Pending = length bs"
  by (induction bs) (auto, metis ballot.exhaust)

lemma majority_eq:
  "majority bs =
     (if length bs < 2 * count_list bs ballot.For then Passes
      else if 2 * (count_list bs ballot.For + count_list bs ballot.Pending) \<le> length bs then Fails
      else outcome.Pending)"
  using ballot_counts [of bs]
  by (cases "length bs") (auto simp: majority_def tally_eq needed_votes_def Let_def)

lemma refines_count_for:
  "refines bs cs \<Longrightarrow> count_list bs ballot.For \<le> count_list cs ballot.For"
  unfolding refines_def by (induction rule: list_all2_induct) auto

lemma completes_count_for:
  "completes bs cs \<Longrightarrow>
     count_list cs ballot.For \<le> count_list bs ballot.For + count_list bs ballot.Pending"
  unfolding completes_def refines_def
  by (elim conjE, induction rule: list_all2_induct) auto

lemma fill_counts:
  "length (fill a bs) = length bs"
  "count_list (fill ballot.Against bs) ballot.For = count_list bs ballot.For"
  "count_list (fill ballot.For bs) ballot.For =
     count_list bs ballot.For + count_list bs ballot.Pending"
  by (induction bs) (auto simp: fill_def)

interpretation majority_of: decisive_rule majority most_agree
proof unfold_locales
  fix bs
  show "majority bs = Passes \<longleftrightarrow> (\<forall>cs. completes bs cs \<longrightarrow> most_agree cs)"
  proof
    assume "majority bs = Passes"
    then have less: "length bs < 2 * count_list bs ballot.For"
      by (auto simp: majority_eq split: if_splits)
    show "\<forall>cs. completes bs cs \<longrightarrow> most_agree cs"
    proof (intro allI impI)
      fix cs assume "completes bs cs"
      then show "most_agree cs"
        using less refines_count_for [of bs cs] refines_length [of bs cs]
        by (simp add: completes_def most_agree_def)
    qed
  next
    assume "\<forall>cs. completes bs cs \<longrightarrow> most_agree cs"
    then have "most_agree (fill ballot.Against bs)"
      using completes_fill [of ballot.Against bs] by blast
    then show "majority bs = Passes"
      by (simp add: most_agree_def fill_counts majority_eq)
  qed
  show "majority bs = Fails \<longleftrightarrow> (\<forall>cs. completes bs cs \<longrightarrow> \<not> most_agree cs)"
  proof
    assume "majority bs = Fails"
    then have le: "2 * (count_list bs ballot.For + count_list bs ballot.Pending) \<le> length bs"
      by (auto simp: majority_eq split: if_splits)
    show "\<forall>cs. completes bs cs \<longrightarrow> \<not> most_agree cs"
    proof (intro allI impI)
      fix cs assume c: "completes bs cs"
      then have "length cs = length bs" by (simp add: completes_def refines_length)
      with le completes_count_for [OF c] show "\<not> most_agree cs"
        by (simp add: most_agree_def)
    qed
  next
    assume "\<forall>cs. completes bs cs \<longrightarrow> \<not> most_agree cs"
    then have "\<not> most_agree (fill ballot.For bs)"
      using completes_fill [of ballot.For bs] by blast
    then show "majority bs = Fails"
      by (simp add: most_agree_def fill_counts majority_eq)
  qed
next
  show "\<not> most_agree []" by (simp add: most_agree_def)
qed

text \<open>C25. The two passing rules are exact and never take a verdict back. \<open>unanimity\<close>
  (\<open>majority\<close>) passes exactly when every way of filling in the pending ballots has
  everybody (more than half) for it, fails exactly when none has, so that it is pending
  exactly while the missing ballots still matter; and an answer to a pending ballot never
  changes a verdict. An empty list of voters fails.\<close>

theorem rules_decisive:
  "(unanimity bs = Passes \<longleftrightarrow> (\<forall>cs. completes bs cs \<longrightarrow> cs \<noteq> [] \<and> (\<forall>c\<in>set cs. c = ballot.For)))
   \<and> (unanimity bs = Fails \<longleftrightarrow> (\<forall>cs. completes bs cs \<longrightarrow> \<not> (cs \<noteq> [] \<and> (\<forall>c\<in>set cs. c = ballot.For))))
   \<and> (majority bs = Passes \<longleftrightarrow> (\<forall>cs. completes bs cs \<longrightarrow> length cs < 2 * count_list cs ballot.For))
   \<and> (majority bs = Fails \<longleftrightarrow> (\<forall>cs. completes bs cs \<longrightarrow> \<not> length cs < 2 * count_list cs ballot.For))
   \<and> (refines bs bs' \<and> unanimity bs \<noteq> outcome.Pending \<longrightarrow> unanimity bs' = unanimity bs)
   \<and> (refines bs bs' \<and> majority bs \<noteq> outcome.Pending \<longrightarrow> majority bs' = majority bs)
   \<and> unanimity [] = Fails \<and> majority [] = Fails"
  using unanimous.passes_iff [of bs] unanimous.fails_iff [of bs] majority_of.passes_iff [of bs]
    majority_of.fails_iff [of bs] unanimous.verdict_stable [of bs bs'] majority_of.verdict_stable [of bs bs']
    unanimous.rule_Nil majority_of.rule_Nil
  by (auto simp: all_agree_def most_agree_def list_all_iff)

theorem rules_decisive_witness:
  "majority [ballot.For, ballot.For, ballot.Pending] = Passes
   \<and> majority [ballot.For, ballot.For, ballot.Against] = Passes"
proof -
  have "majority [ballot.For, ballot.For, ballot.Pending] = Passes"
    "refines [ballot.For, ballot.For, ballot.Pending] [ballot.For, ballot.For, ballot.Against]"
    by code_simp+
  then show ?thesis
    using rules_decisive [of "[ballot.For, ballot.For, ballot.Pending]" "[ballot.For, ballot.For, ballot.Against]"]
    by simp
qed

end
