(* ===== verification/Proposals.thy ===== *)
theory Proposals
  imports Consilium
begin

text \<open>
  \<open>domain/src/governance.rs\<close>, the second half: the lifecycle every consilium embeds and
  the three aggregates over it, \<open>OwnerRemoval\<close>, \<open>OwnerAdmission\<close> and \<open>UserProposal\<close>.
  The three peer structs have the same fields with a vote type of their own, so they are
  one record over the vote type. Record fields carry a prefix per struct
  (\<open>lc_\<close>, \<open>p_\<close>, \<open>rm_\<close>, \<open>ad_\<close>, \<open>pr_\<close>).
\<close>

section \<open>The shared lifecycle\<close>

record lifecycle =
  lc_state :: proposal_state
  lc_created_at :: int
  lc_expires_at :: int
  lc_decided_at :: int
  lc_void_reason :: rstr
  lc_version :: nat
  lc_pending :: "governance_event list"

definition lc_opened :: "int \<Rightarrow> int \<Rightarrow> lifecycle" where
  "lc_opened now ttl_secs =
     \<lparr>lc_state = Open, lc_created_at = now, lc_expires_at = saturating_add now ttl_secs,
      lc_decided_at = 0, lc_void_reason = [], lc_version = 0, lc_pending = []\<rparr>"

definition lc_rehydrate ::
  "proposal_state \<Rightarrow> int \<Rightarrow> int \<Rightarrow> int \<Rightarrow> rstr \<Rightarrow> nat \<Rightarrow> lifecycle" where
  "lc_rehydrate st created_at expires_at decided_at void_reason version =
     \<lparr>lc_state = st, lc_created_at = created_at, lc_expires_at = expires_at,
      lc_decided_at = decided_at, lc_void_reason = void_reason, lc_version = version,
      lc_pending = []\<rparr>"

definition lc_require_open :: "lifecycle \<Rightarrow> rstr \<Rightarrow> domain_error + unit" where
  "lc_require_open l noun =
     (if is_open (lc_state l) then Inr ()
      else Inl (Conflict (lit ''the '' @ noun @ lit '' is '' @ proposal_state_as_str (lc_state l))))"

definition bump_and_emit :: "lifecycle \<Rightarrow> governance_event \<Rightarrow> lifecycle" where
  "bump_and_emit l event =
     l\<lparr>lc_version := lc_version l + 1, lc_pending := lc_pending l @ [event]\<rparr>"

definition lc_close :: "lifecycle \<Rightarrow> proposal_state \<Rightarrow> governance_event \<Rightarrow> int \<Rightarrow> lifecycle" where
  "lc_close l st event now = bump_and_emit (l\<lparr>lc_state := st, lc_decided_at := now\<rparr>) event"

definition lc_close_void :: "lifecycle \<Rightarrow> rstr \<Rightarrow> int \<Rightarrow> lifecycle" where
  "lc_close_void l reason now =
     lc_close (l\<lparr>lc_void_reason := take 200 reason\<rparr>) Void Voided now"

definition lc_expire :: "lifecycle \<Rightarrow> rstr \<Rightarrow> int \<Rightarrow> domain_error + lifecycle" where
  "lc_expire l noun now =
     (if lc_state l = proposal_state.Expired then Inr l
      else rbind (lc_require_open l noun) (\<lambda>_.
        if now < lc_expires_at l
        then Inl (Conflict (lit ''the proposal has not expired yet''))
        else Inr (lc_close l proposal_state.Expired governance_event.Expired now)))"

section \<open>Shared checks\<close>

record 'v peer =
  p_user_id :: user_id
  p_vote :: 'v
  p_voted_at :: int

type_synonym removal_peer = "vote peer"
type_synonym admission_peer = "admission_vote peer"
type_synonym proposal_peer = "proposal_vote peer"

definition peer_pending :: "user_id \<Rightarrow> removal_peer" where
  "peer_pending u = \<lparr>p_user_id = u, p_vote = vote.Pending, p_voted_at = 0\<rparr>"

definition admission_peer_pending :: "user_id \<Rightarrow> admission_peer" where
  "admission_peer_pending u = \<lparr>p_user_id = u, p_vote = admission_vote.Pending, p_voted_at = 0\<rparr>"

definition proposal_peer_pending :: "user_id \<Rightarrow> proposal_peer" where
  "proposal_peer_pending u = \<lparr>p_user_id = u, p_vote = proposal_vote.Pending, p_voted_at = 0\<rparr>"

text \<open>The mutable borrow of the voter's own peer and the two assignments through it.\<close>

definition cast_by :: "user_id \<Rightarrow> 'v \<Rightarrow> int \<Rightarrow> 'v peer list \<Rightarrow> 'v peer list" where
  "cast_by voter v now =
     update_first (\<lambda>p. p_user_id p = voter) (\<lambda>p. p\<lparr>p_vote := v, p_voted_at := now\<rparr>)"

definition check_floor :: "nat \<Rightarrow> domain_error + unit" where
  "check_floor owners =
     (if owners - 1 < MIN_OWNERS
      then Inl (Conflict (lit ''a fund must keep at least '' @ show_nat MIN_OWNERS
             @ lit '' owners, and this would leave '' @ show_nat (owners - 1)))
      else Inr ())"

definition validate_reason :: "rstr \<Rightarrow> domain_error + rstr" where
  "validate_reason reason =
     (let reason = trim reason
      in if reason = [] \<or> length reason > MAX_REASON_CHARS
         then Inl (Validation (lit ''reason must be 1-'' @ show_nat MAX_REASON_CHARS @ lit '' characters''))
         else Inr reason)"

definition require_cast :: "vote \<Rightarrow> domain_error + unit" where
  "require_cast v =
     (if vote_is_cast v then Inr () else Inl (Validation (lit ''a vote must be REMOVE or KEEP'')))"

text \<open>A removal's passing rule.\<close>

definition removal_rule :: "vote \<Rightarrow> removal_peer list \<Rightarrow> outcome" where
  "removal_rule target peers =
     (if target = Remove then Passes
      else if list_ex (\<lambda>p. p_vote p = Keep) peers then Fails
      else (case unanimity (map (\<lambda>p. vote_ballot (p_vote p)) peers) of
              Passes \<Rightarrow> Passes
            | Fails \<Rightarrow> (if target = Keep then Fails else outcome.Pending)
            | outcome.Pending \<Rightarrow> outcome.Pending))"

section \<open>Owner removal\<close>

record owner_removal =
  rm_id :: removal_id
  rm_target :: user_id
  rm_initiator :: user_id
  rm_reason :: rstr
  rm_owner_count :: nat
  rm_peers :: "removal_peer list"
  rm_decision :: vote
  rm_decided_as_target_at :: int
  rm_target_notified :: bool
  rm_life :: lifecycle

definition removal_open ::
  "removal_id \<Rightarrow> user_id \<Rightarrow> user_id \<Rightarrow> rstr \<Rightarrow> user_id list \<Rightarrow> int \<Rightarrow> int \<Rightarrow> domain_error + owner_removal" where
  "removal_open rid target initiator reason owners now ttl_secs =
     rbind (validate_reason reason) (\<lambda>reason.
     if target = initiator
     then Inl (Conflict (lit ''resign your own seat rather than proposing your own removal''))
     else if initiator \<notin> set owners
     then Inl (Forbidden (lit ''only a fund owner may open a removal''))
     else if target \<notin> set owners
     then Inl (Validation (lit ''the target does not hold an owner seat''))
     else rbind (check_floor (length owners)) (\<lambda>_.
       Inr \<lparr>rm_id = rid, rm_target = target, rm_initiator = initiator, rm_reason = reason,
            rm_owner_count = as_u32 (length owners),
            rm_peers = map peer_pending (filter (\<lambda>ow. ow \<noteq> target \<and> ow \<noteq> initiator) owners),
            rm_decision = vote.Pending, rm_decided_as_target_at = 0, rm_target_notified = False,
            rm_life = bump_and_emit (lc_opened now ttl_secs) Opened\<rparr>))"

definition removal_rehydrate ::
  "removal_id \<Rightarrow> user_id \<Rightarrow> user_id \<Rightarrow> rstr \<Rightarrow> proposal_state \<Rightarrow> nat \<Rightarrow> removal_peer list \<Rightarrow> vote
     \<Rightarrow> int \<Rightarrow> bool \<Rightarrow> int \<Rightarrow> int \<Rightarrow> int \<Rightarrow> rstr \<Rightarrow> nat \<Rightarrow> owner_removal" where
  "removal_rehydrate rid target initiator reason st owner_count peers decision decided_as_target_at
     target_notified created_at expires_at decided_at void_reason version =
     \<lparr>rm_id = rid, rm_target = target, rm_initiator = initiator, rm_reason = reason,
      rm_owner_count = owner_count, rm_peers = peers, rm_decision = decision,
      rm_decided_as_target_at = decided_as_target_at, rm_target_notified = target_notified,
      rm_life = lc_rehydrate st created_at expires_at decided_at void_reason version\<rparr>"

definition removal_state :: "owner_removal \<Rightarrow> proposal_state" where
  "removal_state r = lc_state (rm_life r)"

definition removal_require_open :: "owner_removal \<Rightarrow> domain_error + unit" where
  "removal_require_open r = lc_require_open (rm_life r) (lit ''removal'')"

definition removal_outcome :: "owner_removal \<Rightarrow> outcome" where
  "removal_outcome r = removal_rule (rm_decision r) (rm_peers r)"

definition removal_outcome_among :: "owner_removal \<Rightarrow> user_id list \<Rightarrow> outcome" where
  "removal_outcome_among r owners_now =
     removal_rule (rm_decision r) (filter (\<lambda>p. p_user_id p \<in> set owners_now) (rm_peers r))"

definition removal_resolve :: "owner_removal \<Rightarrow> int \<Rightarrow> owner_removal" where
  "removal_resolve r now =
     (if is_open (removal_state r) \<and> removal_outcome r = Fails
      then r\<lparr>rm_life := lc_close (rm_life r) proposal_state.Rejected governance_event.Rejected now\<rparr>
      else r)"

definition removal_peer_vote :: "owner_removal \<Rightarrow> user_id \<Rightarrow> vote \<Rightarrow> int \<Rightarrow> domain_error + owner_removal" where
  "removal_peer_vote r voter v now =
     rbind (removal_require_open r) (\<lambda>_.
     rbind (require_cast v) (\<lambda>_.
     case find (\<lambda>p. p_user_id p = voter) (rm_peers r) of
       None \<Rightarrow> Inl (Forbidden (lit ''you are not an eligible peer on this removal''))
     | Some peer \<Rightarrow>
         if p_vote peer = v then Inr r
         else if vote_is_cast (p_vote peer) then Inl (Conflict (lit ''a cast vote is final''))
         else Inr (removal_resolve
                (r\<lparr>rm_peers := cast_by voter v now (rm_peers r),
                   rm_life := bump_and_emit (rm_life r) PeerVoted\<rparr>) now)))"

definition removal_target_decision :: "owner_removal \<Rightarrow> vote \<Rightarrow> int \<Rightarrow> domain_error + owner_removal" where
  "removal_target_decision r v now =
     rbind (removal_require_open r) (\<lambda>_.
     rbind (require_cast v) (\<lambda>_.
     if rm_decision r = v then Inr r
     else if vote_is_cast (rm_decision r)
     then Inl (Conflict (lit ''this invitation was already answered''))
     else Inr (removal_resolve
            (r\<lparr>rm_decision := v, rm_decided_as_target_at := now,
               rm_life := bump_and_emit (rm_life r) TargetDecided\<rparr>) now)))"

definition removal_cancel :: "owner_removal \<Rightarrow> user_id \<Rightarrow> int \<Rightarrow> domain_error + owner_removal" where
  "removal_cancel r by_user now =
     (if by_user \<noteq> rm_initiator r
      then Inl (Forbidden (lit ''only the initiator may withdraw a removal''))
      else if removal_state r = proposal_state.Cancelled then Inr r
      else rbind (removal_require_open r) (\<lambda>_.
        Inr (r\<lparr>rm_life := lc_close (rm_life r) proposal_state.Cancelled governance_event.Cancelled now\<rparr>)))"

definition removal_expire :: "owner_removal \<Rightarrow> int \<Rightarrow> domain_error + owner_removal" where
  "removal_expire r now =
     rbind (lc_expire (rm_life r) (lit ''removal'') now) (\<lambda>l. Inr (r\<lparr>rm_life := l\<rparr>))"

definition removal_execute ::
  "owner_removal \<Rightarrow> user_id list \<Rightarrow> int \<Rightarrow> domain_error + (owner_removal \<times> proposal_state)" where
  "removal_execute r owners_now now =
     (if removal_state r \<in> {proposal_state.Executed, Void} then Inr (r, removal_state r)
      else rbind (removal_require_open r) (\<lambda>_.
        if removal_outcome_among r owners_now \<noteq> Passes
        then Inl (Conflict (lit ''the consilium has not passed against the current roster''))
        else
          let r' = (if rm_initiator r \<notin> set owners_now
                    then r\<lparr>rm_life := lc_close_void (rm_life r) (lit ''the initiator no longer holds an owner seat'') now\<rparr>
                    else if length owners_now - 1 < MIN_OWNERS
                    then r\<lparr>rm_life := lc_close_void (rm_life r) (lit ''the fund would be left below the owner floor'') now\<rparr>
                    else r\<lparr>rm_life := lc_close (rm_life r) proposal_state.Executed governance_event.Executed now\<rparr>)
          in Inr (r', removal_state r')))"

definition removal_void :: "owner_removal \<Rightarrow> rstr \<Rightarrow> int \<Rightarrow> domain_error + owner_removal" where
  "removal_void r reason now =
     (if removal_state r = Void then Inr r
      else rbind (removal_require_open r) (\<lambda>_.
        Inr (r\<lparr>rm_life := lc_close_void (rm_life r) reason now\<rparr>)))"

definition removal_mark_target_notified :: "owner_removal \<Rightarrow> owner_removal" where
  "removal_mark_target_notified r = r\<lparr>rm_target_notified := True\<rparr>"

definition removal_drain_events :: "owner_removal \<Rightarrow> governance_event list \<times> owner_removal" where
  "removal_drain_events r = (lc_pending (rm_life r), r\<lparr>rm_life := (rm_life r)\<lparr>lc_pending := []\<rparr>\<rparr>)"

section \<open>Owner admission\<close>

record owner_admission =
  ad_id :: admission_id
  ad_candidate :: user_id
  ad_initiator :: user_id
  ad_reason :: rstr
  ad_owner_count :: nat
  ad_peers :: "admission_peer list"
  ad_life :: lifecycle

definition admission_open ::
  "admission_id \<Rightarrow> user_id \<Rightarrow> user_id \<Rightarrow> rstr \<Rightarrow> user_id list \<Rightarrow> int \<Rightarrow> int \<Rightarrow> domain_error + owner_admission" where
  "admission_open aid candidate initiator reason owners now ttl_secs =
     rbind (validate_reason reason) (\<lambda>reason.
     if candidate = initiator
     then Inl (Conflict (lit ''you cannot propose your own admission''))
     else if initiator \<notin> set owners
     then Inl (Forbidden (lit ''only a fund owner may open an admission''))
     else if candidate \<in> set owners
     then Inl (Conflict (lit ''the candidate already holds an owner seat''))
     else
       let peers = map admission_peer_pending (filter (\<lambda>ow. ow \<noteq> initiator) owners)
       in if peers = []
          then Inl (Conflict (lit ''an admission needs at least one other owner to agree, and there is none ''
                 @ [8212] @ lit '' a lone owner cannot mint a second''))
          else Inr \<lparr>ad_id = aid, ad_candidate = candidate, ad_initiator = initiator,
                    ad_reason = reason, ad_owner_count = as_u32 (length owners), ad_peers = peers,
                    ad_life = bump_and_emit (lc_opened now ttl_secs) Opened\<rparr>)"

definition admission_rehydrate ::
  "admission_id \<Rightarrow> user_id \<Rightarrow> user_id \<Rightarrow> rstr \<Rightarrow> proposal_state \<Rightarrow> nat \<Rightarrow> admission_peer list
     \<Rightarrow> int \<Rightarrow> int \<Rightarrow> int \<Rightarrow> rstr \<Rightarrow> nat \<Rightarrow> owner_admission" where
  "admission_rehydrate aid candidate initiator reason st owner_count peers created_at expires_at
     decided_at void_reason version =
     \<lparr>ad_id = aid, ad_candidate = candidate, ad_initiator = initiator, ad_reason = reason,
      ad_owner_count = owner_count, ad_peers = peers,
      ad_life = lc_rehydrate st created_at expires_at decided_at void_reason version\<rparr>"

definition admission_state :: "owner_admission \<Rightarrow> proposal_state" where
  "admission_state a = lc_state (ad_life a)"

definition admission_require_open :: "owner_admission \<Rightarrow> domain_error + unit" where
  "admission_require_open a = lc_require_open (ad_life a) (lit ''admission'')"

definition admission_outcome :: "owner_admission \<Rightarrow> outcome" where
  "admission_outcome a = unanimity (map (\<lambda>p. admission_vote_ballot (p_vote p)) (ad_peers a))"

definition admission_outcome_among :: "owner_admission \<Rightarrow> user_id list \<Rightarrow> outcome" where
  "admission_outcome_among a owners_now =
     unanimity (map (\<lambda>p. admission_vote_ballot (p_vote p))
       (filter (\<lambda>p. p_user_id p \<in> set owners_now) (ad_peers a)))"

definition admission_vote_by ::
  "owner_admission \<Rightarrow> user_id \<Rightarrow> admission_vote \<Rightarrow> int \<Rightarrow> domain_error + owner_admission" where
  "admission_vote_by a voter v now =
     rbind (admission_require_open a) (\<lambda>_.
     if \<not> admission_vote_is_cast v
     then Inl (Validation (lit ''a vote must be ADMIT or REJECT''))
     else case find (\<lambda>p. p_user_id p = voter) (ad_peers a) of
       None \<Rightarrow> Inl (Forbidden (lit ''you are not an eligible voter on this admission''))
     | Some peer \<Rightarrow>
         if p_vote peer = v then Inr a
         else if admission_vote_is_cast (p_vote peer)
         then Inl (Conflict (lit ''a cast vote is final''))
         else
           let a' = a\<lparr>ad_peers := cast_by voter v now (ad_peers a),
                      ad_life := bump_and_emit (ad_life a) PeerVoted\<rparr>
           in Inr (if is_open (admission_state a') \<and> admission_outcome a' = Fails
                   then a'\<lparr>ad_life := lc_close (ad_life a') proposal_state.Rejected governance_event.Rejected now\<rparr>
                   else a'))"

definition admission_cancel :: "owner_admission \<Rightarrow> user_id \<Rightarrow> int \<Rightarrow> domain_error + owner_admission" where
  "admission_cancel a by_user now =
     (if by_user \<noteq> ad_initiator a
      then Inl (Forbidden (lit ''only the initiator may withdraw an admission''))
      else if admission_state a = proposal_state.Cancelled then Inr a
      else rbind (admission_require_open a) (\<lambda>_.
        Inr (a\<lparr>ad_life := lc_close (ad_life a) proposal_state.Cancelled governance_event.Cancelled now\<rparr>)))"

definition admission_expire :: "owner_admission \<Rightarrow> int \<Rightarrow> domain_error + owner_admission" where
  "admission_expire a now =
     rbind (lc_expire (ad_life a) (lit ''admission'') now) (\<lambda>l. Inr (a\<lparr>ad_life := l\<rparr>))"

definition admission_execute ::
  "owner_admission \<Rightarrow> user_id list \<Rightarrow> int \<Rightarrow> domain_error + (owner_admission \<times> proposal_state)" where
  "admission_execute a owners_now now =
     (if admission_state a \<in> {proposal_state.Executed, Void} then Inr (a, admission_state a)
      else rbind (admission_require_open a) (\<lambda>_.
        if admission_outcome_among a owners_now \<noteq> Passes
        then Inl (Conflict (lit ''the consilium has not passed against the current roster''))
        else
          let a' = (if ad_initiator a \<notin> set owners_now
                    then a\<lparr>ad_life := lc_close_void (ad_life a) (lit ''the initiator no longer holds an owner seat'') now\<rparr>
                    else if ad_candidate a \<in> set owners_now
                    then a\<lparr>ad_life := lc_close_void (ad_life a) (lit ''the candidate already holds an owner seat'') now\<rparr>
                    else a\<lparr>ad_life := lc_close (ad_life a) proposal_state.Executed governance_event.Executed now\<rparr>)
          in Inr (a', admission_state a')))"

definition admission_void :: "owner_admission \<Rightarrow> rstr \<Rightarrow> int \<Rightarrow> domain_error + owner_admission" where
  "admission_void a reason now =
     (if admission_state a = Void then Inr a
      else rbind (admission_require_open a) (\<lambda>_.
        Inr (a\<lparr>ad_life := lc_close_void (ad_life a) reason now\<rparr>)))"

definition admission_drain_events :: "owner_admission \<Rightarrow> governance_event list \<times> owner_admission" where
  "admission_drain_events a = (lc_pending (ad_life a), a\<lparr>ad_life := (ad_life a)\<lparr>lc_pending := []\<rparr>\<rparr>)"

section \<open>User proposal\<close>

record user_proposal =
  pr_id :: user_proposal_id
  pr_kind :: user_proposal_kind
  pr_subject :: user_id
  pr_initiator :: user_id
  pr_reason :: rstr
  pr_owner_count :: nat
  pr_threshold :: nat
  pr_peers :: "proposal_peer list"
  pr_life :: lifecycle

definition proposal_open ::
  "user_proposal_id \<Rightarrow> user_proposal_kind \<Rightarrow> user_id \<Rightarrow> user_id \<Rightarrow> rstr \<Rightarrow> user_id list \<Rightarrow> int \<Rightarrow> int
     \<Rightarrow> domain_error + user_proposal" where
  "proposal_open pid kind subject initiator reason owners now ttl_secs =
     rbind (validate_reason reason) (\<lambda>reason.
     if initiator \<notin> set owners
     then Inl (Forbidden (lit ''only a fund owner may open a user proposal''))
     else if subject = initiator
     then Inl (Conflict (lit ''you cannot open a user proposal about yourself''))
     else
       let peers = map proposal_peer_pending (filter (\<lambda>ow. ow \<noteq> initiator) owners)
       in if peers = []
          then Inl (Conflict (lit ''a user proposal needs at least one other owner to agree, and there is none ''
                 @ [8212] @ lit '' one owner may not decide alone''))
          else Inr \<lparr>pr_id = pid, pr_kind = kind, pr_subject = subject, pr_initiator = initiator,
                    pr_reason = reason, pr_owner_count = as_u32 (length owners),
                    pr_threshold = as_u32 (needed_votes (length peers)), pr_peers = peers,
                    pr_life = bump_and_emit (lc_opened now ttl_secs) Opened\<rparr>)"

definition proposal_rehydrate ::
  "user_proposal_id \<Rightarrow> user_proposal_kind \<Rightarrow> user_id \<Rightarrow> user_id \<Rightarrow> rstr \<Rightarrow> proposal_state \<Rightarrow> nat \<Rightarrow> nat
     \<Rightarrow> proposal_peer list \<Rightarrow> int \<Rightarrow> int \<Rightarrow> int \<Rightarrow> rstr \<Rightarrow> nat \<Rightarrow> user_proposal" where
  "proposal_rehydrate pid kind subject initiator reason st owner_count threshold peers created_at
     expires_at decided_at void_reason version =
     \<lparr>pr_id = pid, pr_kind = kind, pr_subject = subject, pr_initiator = initiator,
      pr_reason = reason, pr_owner_count = owner_count, pr_threshold = threshold,
      pr_peers = peers,
      pr_life = lc_rehydrate st created_at expires_at decided_at void_reason version\<rparr>"

definition up_state :: "user_proposal \<Rightarrow> proposal_state" where
  "up_state p = lc_state (pr_life p)"

definition proposal_require_open :: "user_proposal \<Rightarrow> domain_error + unit" where
  "proposal_require_open p = lc_require_open (pr_life p) (lit ''proposal'')"

definition proposal_outcome :: "user_proposal \<Rightarrow> outcome" where
  "proposal_outcome p = majority (map (\<lambda>q. proposal_vote_ballot (p_vote q)) (pr_peers p))"

definition proposal_outcome_among :: "user_proposal \<Rightarrow> user_id list \<Rightarrow> outcome" where
  "proposal_outcome_among p owners_now =
     majority (map (\<lambda>q. proposal_vote_ballot (p_vote q))
       (filter (\<lambda>q. p_user_id q \<in> set owners_now) (pr_peers p)))"

definition proposal_vote_by ::
  "user_proposal \<Rightarrow> user_id \<Rightarrow> proposal_vote \<Rightarrow> int \<Rightarrow> domain_error + user_proposal" where
  "proposal_vote_by p voter v now =
     rbind (proposal_require_open p) (\<lambda>_.
     if \<not> proposal_vote_is_cast v
     then Inl (Validation (lit ''a vote must be FOR or AGAINST''))
     else case find (\<lambda>q. p_user_id q = voter) (pr_peers p) of
       None \<Rightarrow> Inl (Forbidden (lit ''you are not an eligible voter on this proposal''))
     | Some peer \<Rightarrow>
         if p_vote peer = v then Inr p
         else if proposal_vote_is_cast (p_vote peer)
         then Inl (Conflict (lit ''a cast vote is final''))
         else
           let p' = p\<lparr>pr_peers := cast_by voter v now (pr_peers p),
                      pr_life := bump_and_emit (pr_life p) PeerVoted\<rparr>
           in Inr (if is_open (up_state p') \<and> proposal_outcome p' = Fails
                   then p'\<lparr>pr_life := lc_close (pr_life p') proposal_state.Rejected governance_event.Rejected now\<rparr>
                   else p'))"

definition proposal_cancel :: "user_proposal \<Rightarrow> user_id \<Rightarrow> int \<Rightarrow> domain_error + user_proposal" where
  "proposal_cancel p by_user now =
     (if by_user \<noteq> pr_initiator p
      then Inl (Forbidden (lit ''only the initiator may withdraw a proposal''))
      else if up_state p = proposal_state.Cancelled then Inr p
      else rbind (proposal_require_open p) (\<lambda>_.
        Inr (p\<lparr>pr_life := lc_close (pr_life p) proposal_state.Cancelled governance_event.Cancelled now\<rparr>)))"

definition proposal_expire :: "user_proposal \<Rightarrow> int \<Rightarrow> domain_error + user_proposal" where
  "proposal_expire p now =
     rbind (lc_expire (pr_life p) (lit ''proposal'') now) (\<lambda>l. Inr (p\<lparr>pr_life := l\<rparr>))"

definition proposal_execute ::
  "user_proposal \<Rightarrow> user_id list \<Rightarrow> int \<Rightarrow> domain_error + (user_proposal \<times> proposal_state)" where
  "proposal_execute p owners_now now =
     (if up_state p \<in> {proposal_state.Executed, Void} then Inr (p, up_state p)
      else rbind (proposal_require_open p) (\<lambda>_.
        if proposal_outcome_among p owners_now \<noteq> Passes
        then Inl (Conflict (lit ''the consilium has not passed against the current roster''))
        else
          let p' = (if pr_initiator p \<in> set owners_now
                    then p\<lparr>pr_life := lc_close (pr_life p) proposal_state.Executed governance_event.Executed now\<rparr>
                    else p\<lparr>pr_life := lc_close_void (pr_life p) (lit ''the initiator no longer holds an owner seat'') now\<rparr>)
          in Inr (p', up_state p')))"

definition proposal_void :: "user_proposal \<Rightarrow> rstr \<Rightarrow> int \<Rightarrow> domain_error + user_proposal" where
  "proposal_void p reason now =
     (if up_state p = Void then Inr p
      else rbind (proposal_require_open p) (\<lambda>_.
        Inr (p\<lparr>pr_life := lc_close_void (pr_life p) reason now\<rparr>)))"

definition proposal_drain_events :: "user_proposal \<Rightarrow> governance_event list \<times> user_proposal" where
  "proposal_drain_events p = (lc_pending (pr_life p), p\<lparr>pr_life := (pr_life p)\<lparr>lc_pending := []\<rparr>\<rparr>)"

end
