(* ===== verification/Proposal_Runs.thy ===== *)
theory Proposal_Runs
  imports Proposals
begin

text \<open>
  Runs of the three aggregates of \<open>Proposals\<close>: any sequence of their methods, an erroring
  call changing nothing. The lifecycle contract is stated once, as a step relation and a
  locale over it, and interpreted on the three aggregates; the invariants and the safety
  theorems (who must have agreed for a proposal to be executed) follow.
\<close>

section \<open>Steps of the lifecycle\<close>

definition closing_event :: "proposal_state \<Rightarrow> governance_event option" where
  "closing_event s = (case s of
     Open \<Rightarrow> None
   | proposal_state.Executed \<Rightarrow> Some governance_event.Executed
   | proposal_state.Rejected \<Rightarrow> Some governance_event.Rejected
   | proposal_state.Expired \<Rightarrow> Some governance_event.Expired
   | proposal_state.Cancelled \<Rightarrow> Some governance_event.Cancelled
   | Void \<Rightarrow> Some Voided)"

definition is_closing :: "governance_event \<Rightarrow> bool" where
  "is_closing e \<longleftrightarrow> e \<notin> {Opened, PeerVoted, TargetDecided}"

inductive life_step :: "lifecycle \<Rightarrow> lifecycle \<Rightarrow> bool" where
  stay: "life_step l l"
| answer: "lc_state l = Open \<Longrightarrow> \<not> is_closing ev \<Longrightarrow> life_step l (bump_and_emit l ev)"
| close: "lc_state l = Open \<Longrightarrow> closing_event s = Some ev \<Longrightarrow> s \<noteq> Void \<Longrightarrow>
     life_step l (lc_close l s ev now)"
| answer_close: "lc_state l = Open \<Longrightarrow> \<not> is_closing ev \<Longrightarrow>
     life_step l (lc_close (bump_and_emit l ev) proposal_state.Rejected governance_event.Rejected now)"
| close_void: "lc_state l = Open \<Longrightarrow> life_step l (lc_close_void l reason now)"

inductive_cases life_stepE: "life_step l l'"

lemmas life_defs = bump_and_emit_def lc_close_def lc_close_void_def

text \<open>
  What a lifecycle keeps: its log holds one closing event exactly when it is closed, the
  event of the state it is in; a void reason only on a void proposal, within the column's
  bound; the version counts the events.
\<close>

definition life_ok :: "nat \<Rightarrow> lifecycle \<Rightarrow> bool" where
  "life_ok v0 l \<longleftrightarrow>
     filter is_closing (lc_pending l) =
       (case closing_event (lc_state l) of None \<Rightarrow> [] | Some e \<Rightarrow> [e])
     \<and> (lc_state l \<noteq> Void \<longrightarrow> lc_void_reason l = [])
     \<and> length (lc_void_reason l) \<le> 200
     \<and> lc_version l = v0 + length (lc_pending l)"

lemma not_closing [simp]: "\<not> is_closing PeerVoted" "\<not> is_closing TargetDecided" "\<not> is_closing Opened"
  by (simp_all add: is_closing_def)

lemmas life_step_answers =
  life_step.answer [where ev = PeerVoted, simplified]
  life_step.answer [where ev = TargetDecided, simplified]
  life_step.answer_close [where ev = PeerVoted, simplified]
  life_step.answer_close [where ev = TargetDecided, simplified]

lemmas life_step_closes =
  life_step.close [where s = proposal_state.Executed, unfolded closing_event_def, simplified]
  life_step.close [where s = proposal_state.Rejected, unfolded closing_event_def, simplified]
  life_step.close [where s = proposal_state.Expired, unfolded closing_event_def, simplified]
  life_step.close [where s = proposal_state.Cancelled, unfolded closing_event_def, simplified]

lemma closing_event_closing: "closing_event s = Some e \<Longrightarrow> is_closing e"
  by (auto simp: closing_event_def is_closing_def split: proposal_state.splits)

lemma closing_event_None [simp]: "closing_event s = None \<longleftrightarrow> s = Open"
  by (auto simp: closing_event_def split: proposal_state.splits)

lemma life_step_ok: "life_step l l' \<Longrightarrow> life_ok v0 l \<Longrightarrow> life_ok v0 l'"
proof (induction rule: life_step.induct)
  case (close l s ev now)
  then show ?case
    by (auto simp: life_ok_def life_defs closing_event_def is_closing_def
        split: proposal_state.splits)
qed (auto simp: life_ok_def life_defs closing_event_def is_closing_def)

lemma life_step_closed: "life_step l l' \<Longrightarrow> lc_state l \<noteq> Open \<Longrightarrow> l' = l"
  by (auto elim: life_stepE)

lemma life_step_frame:
  "life_step l l' \<Longrightarrow> lc_created_at l' = lc_created_at l \<and> lc_expires_at l' = lc_expires_at l
     \<and> (\<exists>evs. lc_pending l' = lc_pending l @ evs \<and> lc_version l' = lc_version l + length evs)"
  by (induction rule: life_step.induct) (auto simp: life_defs)

locale lifecycle_aggregate =
  fixes life :: "'a \<Rightarrow> lifecycle"
    and step :: "'a \<Rightarrow> 'op \<Rightarrow> domain_error + 'a"
  assumes step_life: "step a op = Inr a' \<Longrightarrow> life_step (life a) (life a')"
begin

lemma run_closed: "lc_state (life a) \<noteq> Open \<Longrightarrow> life (run_ops step a ops) = life a"
proof -
  assume closed: "lc_state (life a) \<noteq> Open"
  show ?thesis
    by (rule run_ops_invariant [where I = "\<lambda>b. life b = life a"])
      (use closed in \<open>auto dest!: step_life dest: life_step_closed\<close>)
qed

lemma run_ok: "life_ok v0 (life a) \<Longrightarrow> life_ok v0 (life (run_ops step a ops))"
  by (rule run_ops_invariant [where I = "\<lambda>b. life_ok v0 (life b)"])
    (auto dest!: step_life dest: life_step_ok)

lemma run_deadline:
  "lc_created_at (life (run_ops step a ops)) = lc_created_at (life a)
   \<and> lc_expires_at (life (run_ops step a ops)) = lc_expires_at (life a)"
  by (rule run_ops_invariant
      [where I = "\<lambda>b. lc_created_at (life b) = lc_created_at (life a)
                    \<and> lc_expires_at (life b) = lc_expires_at (life a)"])
    (auto dest!: step_life dest: life_step_frame)

end

section \<open>The operations as steps\<close>

datatype removal_op =
    R_PeerVote user_id vote int
  | R_TargetDecision vote int
  | R_Cancel user_id int
  | R_Expire int
  | R_Execute "user_id list" int
  | R_Void rstr int
  | R_MarkTargetNotified

fun removal_step :: "owner_removal \<Rightarrow> removal_op \<Rightarrow> domain_error + owner_removal" where
  "removal_step r (R_PeerVote u v now) = removal_peer_vote r u v now"
| "removal_step r (R_TargetDecision v now) = removal_target_decision r v now"
| "removal_step r (R_Cancel u now) = removal_cancel r u now"
| "removal_step r (R_Expire now) = removal_expire r now"
| "removal_step r (R_Execute owners now) = rbind (removal_execute r owners now) (\<lambda>x. Inr (fst x))"
| "removal_step r (R_Void reason now) = removal_void r reason now"
| "removal_step r R_MarkTargetNotified = Inr (removal_mark_target_notified r)"

datatype admission_op =
    A_Vote user_id admission_vote int
  | A_Cancel user_id int
  | A_Expire int
  | A_Execute "user_id list" int
  | A_Void rstr int

fun admission_step :: "owner_admission \<Rightarrow> admission_op \<Rightarrow> domain_error + owner_admission" where
  "admission_step a (A_Vote u v now) = admission_vote_by a u v now"
| "admission_step a (A_Cancel u now) = admission_cancel a u now"
| "admission_step a (A_Expire now) = admission_expire a now"
| "admission_step a (A_Execute owners now) = rbind (admission_execute a owners now) (\<lambda>x. Inr (fst x))"
| "admission_step a (A_Void reason now) = admission_void a reason now"

datatype proposal_op =
    P_Vote user_id proposal_vote int
  | P_Cancel user_id int
  | P_Expire int
  | P_Execute "user_id list" int
  | P_Void rstr int

fun proposal_step :: "user_proposal \<Rightarrow> proposal_op \<Rightarrow> domain_error + user_proposal" where
  "proposal_step p (P_Vote u v now) = proposal_vote_by p u v now"
| "proposal_step p (P_Cancel u now) = proposal_cancel p u now"
| "proposal_step p (P_Expire now) = proposal_expire p now"
| "proposal_step p (P_Execute owners now) = rbind (proposal_execute p owners now) (\<lambda>x. Inr (fst x))"
| "proposal_step p (P_Void reason now) = proposal_void p reason now"

lemmas removal_op_defs =
  removal_peer_vote_def removal_target_decision_def removal_cancel_def removal_expire_def
  removal_execute_def removal_void_def removal_mark_target_notified_def

lemmas admission_op_defs =
  admission_vote_by_def admission_cancel_def admission_expire_def admission_execute_def
  admission_void_def

lemmas proposal_op_defs =
  proposal_vote_by_def proposal_cancel_def proposal_expire_def proposal_execute_def
  proposal_void_def

lemma require_open_Inr [result_simps]:
  "lc_require_open l noun = Inr u \<longleftrightarrow> lc_state l = Open"
  "removal_require_open r = Inr u \<longleftrightarrow> lc_state (rm_life r) = Open"
  "admission_require_open a = Inr u \<longleftrightarrow> lc_state (ad_life a) = Open"
  "proposal_require_open p = Inr u \<longleftrightarrow> lc_state (pr_life p) = Open"
  by (simp_all add: lc_require_open_def removal_require_open_def admission_require_open_def
      proposal_require_open_def is_open_def)

lemma lc_expire_step: "lc_expire l noun now = Inr l' \<Longrightarrow> life_step l l'"
  by (auto simp: lc_expire_def result_simps
      intro: life_step.stay life_step_closes split: if_splits)

lemma removal_resolve_life:
  "lc_state l = Open \<Longrightarrow> \<not> is_closing ev \<Longrightarrow>
     life_step l (rm_life (removal_resolve (r\<lparr>rm_life := bump_and_emit l ev\<rparr>) now))"
  by (auto simp: removal_resolve_def intro: life_step.intros)

interpretation removal_life: lifecycle_aggregate rm_life removal_step
proof unfold_locales
  fix a op a'
  assume "removal_step a op = Inr a'"
  then show "life_step (rm_life a) (rm_life a')"
    by (cases op)
      (auto simp: removal_op_defs result_simps removal_resolve_def Let_def
        intro: life_step.stay life_step.close_void life_step_answers life_step_closes dest: lc_expire_step split: if_splits option.splits)
qed

interpretation admission_life: lifecycle_aggregate ad_life admission_step
proof unfold_locales
  fix a op a'
  assume "admission_step a op = Inr a'"
  then show "life_step (ad_life a) (ad_life a')"
    by (cases op)
      (auto simp: admission_op_defs result_simps Let_def
        intro: life_step.stay life_step.close_void life_step_answers life_step_closes dest: lc_expire_step split: if_splits option.splits)
qed

interpretation proposal_life: lifecycle_aggregate pr_life proposal_step
proof unfold_locales
  fix a op a'
  assume "proposal_step a op = Inr a'"
  then show "life_step (pr_life a) (pr_life a')"
    by (cases op)
      (auto simp: proposal_op_defs result_simps Let_def
        intro: life_step.stay life_step.close_void life_step_answers life_step_closes dest: lc_expire_step split: if_splits option.splits)
qed

end
