(* ===== verification/Proposal_Safety.thy ===== *)
theory Proposal_Safety
  imports Proposal_Runs
begin

text \<open>
  What the three consilia guarantee: the snapshotted set keeps out whoever must not vote,
  an open proposal can still be carried, and an executed one was agreed to by somebody
  other than its initiator. Execution is characterised against the roster of the moment.
\<close>

section \<open>Casting a vote\<close>

definition voters :: "'v peer list \<Rightarrow> user_id list" where
  "voters ps = map p_user_id ps"

lemma cast_by_voters [simp]: "voters (cast_by voter v now ps) = voters ps"
  by (simp add: cast_by_def voters_def map_update_first)

lemma pending_simps [simp]:
  "voters (map peer_pending us) = us" "p_vote (peer_pending u) = vote.Pending"
  "voters (map admission_peer_pending us) = us" "p_vote (admission_peer_pending u) = admission_vote.Pending"
  "voters (map proposal_peer_pending us) = us" "p_vote (proposal_peer_pending u) = proposal_vote.Pending"
  by (simp_all add: voters_def comp_def peer_pending_def admission_peer_pending_def
      proposal_peer_pending_def)

lemma in_voters: "p \<in> set ps \<Longrightarrow> p_user_id p \<in> set (voters ps)"
  by (simp add: voters_def)

lemma cast_by_cases:
  assumes "p \<in> set (cast_by voter v now ps)"
  shows "p \<in> set ps \<or> (p_user_id p = voter \<and> p_vote p = v \<and> p_voted_at p = now)"
  using assms set_update_first_subset unfolding cast_by_def by fastforce

lemma find_voter: "find (\<lambda>p. p_user_id p = voter) ps = Some q \<Longrightarrow> q \<in> set ps \<and> p_user_id q = voter"
  using find_Some_in [of "\<lambda>p. p_user_id p = voter"] by auto

section \<open>The passing rules on peers\<close>

lemma unanimity_Passes: "unanimity bs = Passes \<longleftrightarrow> bs \<noteq> [] \<and> (\<forall>b\<in>set bs. b = ballot.For)"
  by (auto simp: unanimity_eq) (metis ballot.exhaust)

lemma unanimity_Fails: "unanimity bs = Fails \<longleftrightarrow> bs = [] \<or> ballot.Against \<in> set bs"
  by (auto simp: unanimity_eq)

lemma majority_Passes: "majority bs = Passes \<longleftrightarrow> length bs < 2 * count_list bs ballot.For"
  by (auto simp: majority_eq)

lemma majority_Passes_nonempty: "majority bs = Passes \<Longrightarrow> ballot.For \<in> set bs"
  by (auto simp: majority_Passes) (metis count_notin mult_0_right not_less_zero)

lemma vote_ballot_iff [simp]:
  "vote_ballot v = ballot.For \<longleftrightarrow> v = Remove"
  "vote_ballot v = ballot.Against \<longleftrightarrow> v = Keep"
  "vote_ballot v = ballot.Pending \<longleftrightarrow> v = vote.Pending"
  "ballot.For = vote_ballot v \<longleftrightarrow> v = Remove"
  "ballot.Against = vote_ballot v \<longleftrightarrow> v = Keep"
  "ballot.Pending = vote_ballot v \<longleftrightarrow> v = vote.Pending"
  by (cases v; simp add: vote_ballot_def)+

lemma admission_vote_ballot_iff [simp]:
  "admission_vote_ballot v = ballot.For \<longleftrightarrow> v = Admit"
  "admission_vote_ballot v = ballot.Against \<longleftrightarrow> v = Reject"
  "admission_vote_ballot v = ballot.Pending \<longleftrightarrow> v = admission_vote.Pending"
  "ballot.For = admission_vote_ballot v \<longleftrightarrow> v = Admit"
  "ballot.Against = admission_vote_ballot v \<longleftrightarrow> v = Reject"
  "ballot.Pending = admission_vote_ballot v \<longleftrightarrow> v = admission_vote.Pending"
  by (cases v; simp add: admission_vote_ballot_def)+

lemma proposal_vote_ballot_iff [simp]:
  "proposal_vote_ballot v = ballot.For \<longleftrightarrow> v = proposal_vote.For"
  "proposal_vote_ballot v = ballot.Against \<longleftrightarrow> v = proposal_vote.Against"
  "proposal_vote_ballot v = ballot.Pending \<longleftrightarrow> v = proposal_vote.Pending"
  "ballot.For = proposal_vote_ballot v \<longleftrightarrow> v = proposal_vote.For"
  "ballot.Against = proposal_vote_ballot v \<longleftrightarrow> v = proposal_vote.Against"
  "ballot.Pending = proposal_vote_ballot v \<longleftrightarrow> v = proposal_vote.Pending"
  by (cases v; simp add: proposal_vote_ballot_def)+

lemma removal_rule_Passes:
  "removal_rule t ps = Passes \<longleftrightarrow> t = Remove \<or> (ps \<noteq> [] \<and> (\<forall>p\<in>set ps. p_vote p = Remove))"
proof (cases "t = Remove \<or> (\<exists>p\<in>set ps. p_vote p = Keep)")
  case True
  then show ?thesis by (auto simp: removal_rule_def list_ex_iff)
next
  case False
  then have "removal_rule t ps = Passes \<longleftrightarrow> unanimity (map (\<lambda>p. vote_ballot (p_vote p)) ps) = Passes"
    by (auto simp: removal_rule_def list_ex_iff split: outcome.splits)
  with False show ?thesis by (simp add: unanimity_Passes)
qed

lemma removal_rule_Fails:
  "removal_rule t ps = Fails \<longleftrightarrow>
     t \<noteq> Remove \<and> ((\<exists>p\<in>set ps. p_vote p = Keep) \<or> (ps = [] \<and> t = Keep))"
  by (auto simp: removal_rule_def list_ex_iff unanimity_eq split: outcome.splits if_splits)

lemma majority_all_pending: "bs \<noteq> [] \<Longrightarrow> \<forall>b\<in>set bs. b = ballot.Pending \<Longrightarrow> majority bs = outcome.Pending"
proof -
  assume "bs \<noteq> []" and all: "\<forall>b\<in>set bs. b = ballot.Pending"
  from all have "count_list bs ballot.For = 0"
    by (metis ballot.distinct(1) count_notin)
  moreover from all have "count_list bs ballot.Pending = length bs"
    by (induction bs) auto
  ultimately show ?thesis using \<open>bs \<noteq> []\<close> by (simp add: majority_eq)
qed

section \<open>Invariants of the aggregates\<close>

definition removal_inv :: "owner_removal \<Rightarrow> bool" where
  "removal_inv r \<longleftrightarrow>
     distinct (voters (rm_peers r))
     \<and> rm_target r \<notin> set (voters (rm_peers r))
     \<and> rm_initiator r \<notin> set (voters (rm_peers r))
     \<and> rm_target r \<noteq> rm_initiator r
     \<and> (removal_state r = Open \<longrightarrow> removal_outcome r \<noteq> Fails)
     \<and> (removal_state r = proposal_state.Executed \<longrightarrow>
          rm_decision r = Remove \<or> (\<exists>p\<in>set (rm_peers r). p_vote p = Remove))"

definition admission_inv :: "owner_admission \<Rightarrow> bool" where
  "admission_inv a \<longleftrightarrow>
     distinct (voters (ad_peers a))
     \<and> ad_candidate a \<notin> set (voters (ad_peers a))
     \<and> ad_initiator a \<notin> set (voters (ad_peers a))
     \<and> ad_candidate a \<noteq> ad_initiator a
     \<and> (admission_state a = Open \<longrightarrow> admission_outcome a \<noteq> Fails)
     \<and> (admission_state a = proposal_state.Executed \<longrightarrow>
          (\<exists>p\<in>set (ad_peers a). p_vote p = Admit))"

definition proposal_inv :: "user_proposal \<Rightarrow> bool" where
  "proposal_inv p \<longleftrightarrow>
     distinct (voters (pr_peers p))
     \<and> pr_initiator p \<notin> set (voters (pr_peers p))
     \<and> pr_subject p \<noteq> pr_initiator p
     \<and> (up_state p = Open \<longrightarrow> proposal_outcome p \<noteq> Fails)
     \<and> (up_state p = proposal_state.Executed \<longrightarrow>
          (\<exists>q\<in>set (pr_peers p). p_vote q = proposal_vote.For))"

lemmas inv_defs = removal_inv_def admission_inv_def proposal_inv_def
lemmas state_defs = removal_state_def admission_state_def up_state_def
lemmas outcome_defs =
  removal_outcome_def removal_outcome_among_def admission_outcome_def
  admission_outcome_among_def proposal_outcome_def proposal_outcome_among_def

lemma life_state_simps [simp]:
  "lc_state (bump_and_emit l ev) = lc_state l"
  "lc_state (lc_close l s ev now) = s"
  "lc_state (lc_close_void l reason now) = Void"
  "lc_state (lc_opened now ttl) = Open"
  by (simp_all add: life_defs lc_opened_def)

lemma lc_expire_state: "lc_expire l noun now = Inr l' \<Longrightarrow> lc_state l' = proposal_state.Expired"
  by (auto simp: lc_expire_def result_simps split: if_splits)

lemma removal_open_inv:
  assumes "removal_open rid t i reason owners now ttl = Inr r" and "distinct owners"
  shows "removal_inv r"
  using assms
  by (auto simp: removal_open_def result_simps inv_defs state_defs outcome_defs
      removal_rule_Fails split: if_splits)

lemma admission_open_inv:
  assumes "admission_open aid c i reason owners now ttl = Inr a" and "distinct owners"
  shows "admission_inv a"
  using assms
  by (auto simp: admission_open_def result_simps inv_defs state_defs outcome_defs Let_def
      unanimity_Fails image_iff split: if_splits)

lemma proposal_open_inv:
  assumes "proposal_open pid k s i reason owners now ttl = Inr p" and "distinct owners"
  shows "proposal_inv p"
proof -
  let ?ow = "filter (\<lambda>ow. ow \<noteq> i) owners"
  have ne: "?ow \<noteq> []" and "p = \<lparr>pr_id = pid, pr_kind = k, pr_subject = s, pr_initiator = i,
      pr_reason = pr_reason p, pr_owner_count = pr_owner_count p, pr_threshold = pr_threshold p,
      pr_peers = map proposal_peer_pending ?ow,
      pr_life = bump_and_emit (lc_opened now ttl) Opened\<rparr>" and "s \<noteq> i"
    using assms(1) by (auto simp: proposal_open_def result_simps Let_def split: if_splits)
  moreover have "majority (map (\<lambda>q. proposal_vote_ballot (p_vote (proposal_peer_pending q))) ?ow)
      = outcome.Pending"
    using ne by (intro majority_all_pending) auto
  ultimately show ?thesis
    using assms(2)
    by (cases p) (auto simp: inv_defs state_defs outcome_defs comp_def)
qed

text \<open>Every method keeps the invariant.\<close>

lemma removal_step_inv:
  assumes inv: "removal_inv r" and st: "removal_step r op = Inr r'"
  shows "removal_inv r'"
proof (cases op)
  case (R_PeerVote u v now)
  with inv st show ?thesis
    by (auto simp: removal_op_defs result_simps inv_defs state_defs removal_resolve_def
        removal_outcome_def is_open_def split: if_splits option.splits)
next
  case (R_TargetDecision v now)
  with inv st show ?thesis
    by (auto simp: removal_op_defs result_simps inv_defs state_defs removal_resolve_def
        removal_outcome_def is_open_def split: if_splits option.splits)
next
  case (R_Execute owners now)
  with inv st show ?thesis
    by (auto simp: removal_op_defs result_simps inv_defs state_defs removal_outcome_def
        removal_outcome_among_def removal_rule_Passes filter_empty_conv Let_def split: if_splits)
qed (use inv st in \<open>auto simp: removal_op_defs result_simps inv_defs state_defs removal_outcome_def
      dest: lc_expire_state split: if_splits\<close>)

lemma admission_step_inv:
  assumes inv: "admission_inv a" and st: "admission_step a op = Inr a'"
  shows "admission_inv a'"
proof (cases op)
  case (A_Vote u v now)
  with inv st show ?thesis
    by (auto simp: admission_op_defs result_simps inv_defs state_defs Let_def
        admission_outcome_def is_open_def split: if_splits option.splits)
next
  case (A_Execute owners now)
  with inv st show ?thesis
    by (auto simp: admission_op_defs result_simps inv_defs state_defs admission_outcome_def
        admission_outcome_among_def unanimity_Passes filter_empty_conv Let_def split: if_splits)
qed (use inv st in \<open>auto simp: admission_op_defs result_simps inv_defs state_defs
      admission_outcome_def dest: lc_expire_state split: if_splits\<close>)

lemma proposal_step_inv:
  assumes inv: "proposal_inv p" and st: "proposal_step p op = Inr p'"
  shows "proposal_inv p'"
proof (cases op)
  case (P_Vote u v now)
  with inv st show ?thesis
    by (auto simp: proposal_op_defs result_simps inv_defs state_defs Let_def
        proposal_outcome_def is_open_def split: if_splits option.splits)
next
  case (P_Execute owners now)
  with inv st show ?thesis
    by (auto simp: proposal_op_defs result_simps inv_defs state_defs proposal_outcome_def
        proposal_outcome_among_def Let_def dest!: majority_Passes_nonempty split: if_splits) blast
qed (use inv st in \<open>auto simp: proposal_op_defs result_simps inv_defs state_defs
      proposal_outcome_def dest: lc_expire_state split: if_splits\<close>)

text \<open>The votes on an aggregate were cast: by that person, with that answer.\<close>

lemma removal_step_frame:
  assumes "removal_step r op = Inr r'"
  shows "rm_target r' = rm_target r \<and> rm_initiator r' = rm_initiator r
    \<and> voters (rm_peers r') = voters (rm_peers r)
    \<and> (rm_decision r' = rm_decision r \<or> (\<exists>now. op = R_TargetDecision (rm_decision r') now))
    \<and> (\<forall>p\<in>set (rm_peers r'). p \<in> set (rm_peers r)
          \<or> (\<exists>now. op = R_PeerVote (p_user_id p) (p_vote p) now))"
  using assms
  by (cases op)
    (auto simp: removal_op_defs result_simps removal_resolve_def Let_def
      dest!: cast_by_cases split: if_splits option.splits)

lemma admission_step_frame:
  assumes "admission_step a op = Inr a'"
  shows "ad_initiator a' = ad_initiator a
    \<and> voters (ad_peers a') = voters (ad_peers a)
    \<and> (\<forall>p\<in>set (ad_peers a'). p \<in> set (ad_peers a)
          \<or> (\<exists>now. op = A_Vote (p_user_id p) (p_vote p) now))"
  using assms
  by (cases op)
    (auto simp: admission_op_defs result_simps Let_def
      dest!: cast_by_cases split: if_splits option.splits)

lemma proposal_step_frame:
  assumes "proposal_step a op = Inr a'"
  shows "pr_initiator a' = pr_initiator a
    \<and> voters (pr_peers a') = voters (pr_peers a)
    \<and> (\<forall>p\<in>set (pr_peers a'). p \<in> set (pr_peers a)
          \<or> (\<exists>now. op = P_Vote (p_user_id p) (p_vote p) now))"
  using assms
  by (cases op)
    (auto simp: proposal_op_defs result_simps Let_def
      dest!: cast_by_cases split: if_splits option.splits)

lemma removal_step_voters: "removal_step r op = Inr r' \<Longrightarrow> voters (rm_peers r') = voters (rm_peers r)"
  by (drule removal_step_frame) simp

lemma admission_step_voters: "admission_step a op = Inr a' \<Longrightarrow> voters (ad_peers a') = voters (ad_peers a)"
  by (drule admission_step_frame) simp

lemma proposal_step_voters: "proposal_step p op = Inr p' \<Longrightarrow> voters (pr_peers p') = voters (pr_peers p)"
  by (drule proposal_step_frame) simp

section \<open>Runs from an opened proposal\<close>

definition removal_backed :: "removal_op list \<Rightarrow> owner_removal \<Rightarrow> bool" where
  "removal_backed ops r \<longleftrightarrow>
     (rm_decision r = Remove \<longrightarrow> (\<exists>now. R_TargetDecision Remove now \<in> set ops))
     \<and> (\<forall>p\<in>set (rm_peers r). p_vote p = Remove \<longrightarrow>
          (\<exists>now. R_PeerVote (p_user_id p) Remove now \<in> set ops))"

definition admission_backed :: "admission_op list \<Rightarrow> owner_admission \<Rightarrow> bool" where
  "admission_backed ops a \<longleftrightarrow>
     (\<forall>p\<in>set (ad_peers a). p_vote p = Admit \<longrightarrow>
        (\<exists>now. A_Vote (p_user_id p) Admit now \<in> set ops))"

definition proposal_backed :: "proposal_op list \<Rightarrow> user_proposal \<Rightarrow> bool" where
  "proposal_backed ops p \<longleftrightarrow>
     (\<forall>q\<in>set (pr_peers p). p_vote q = proposal_vote.For \<longrightarrow>
        (\<exists>now. P_Vote (p_user_id q) proposal_vote.For now \<in> set ops))"

lemmas backed_defs = removal_backed_def admission_backed_def proposal_backed_def

lemma removal_step_backed:
  assumes "removal_backed ops r" and "op \<in> set ops" and "removal_step r op = Inr r'"
  shows "removal_backed ops r'"
  using assms(1,2) removal_step_frame [OF assms(3)] unfolding removal_backed_def by metis

lemma admission_step_backed:
  assumes "admission_backed ops a" and "op \<in> set ops" and "admission_step a op = Inr a'"
  shows "admission_backed ops a'"
  using assms(1,2) admission_step_frame [OF assms(3)] unfolding admission_backed_def by metis

lemma proposal_step_backed:
  assumes "proposal_backed ops p" and "op \<in> set ops" and "proposal_step p op = Inr p'"
  shows "proposal_backed ops p'"
  using assms(1,2) proposal_step_frame [OF assms(3)] unfolding proposal_backed_def by metis

lemma removal_open_fields:
  assumes "removal_open rid t i reason owners now ttl = Inr r"
  shows "removal_backed ops r" "set (voters (rm_peers r)) = set owners - {t, i}"
    "t \<in> set owners" "i \<in> set owners" "t \<noteq> i" "2 < length owners"
    "rm_life r = bump_and_emit (lc_opened now ttl) Opened"
  using assms
  by (auto simp: removal_open_def result_simps backed_defs check_floor_def MIN_OWNERS_def split: if_splits)

lemma admission_open_fields:
  assumes "admission_open aid c i reason owners now ttl = Inr a"
  shows "admission_backed ops a" "set (voters (ad_peers a)) = set owners - {i}"
    "c \<notin> set owners" "i \<in> set owners" "\<exists>u\<in>set owners. u \<noteq> i"
    "ad_life a = bump_and_emit (lc_opened now ttl) Opened"
proof -
  have *: "c \<notin> set owners" "i \<in> set owners" "filter (\<lambda>ow. ow \<noteq> i) owners \<noteq> []"
    "ad_peers a = map admission_peer_pending (filter (\<lambda>ow. ow \<noteq> i) owners)"
    "ad_life a = bump_and_emit (lc_opened now ttl) Opened"
    using assms by (simp_all add: admission_open_def result_simps Let_def split: if_splits, auto)
  then show "c \<notin> set owners" "i \<in> set owners"
    "ad_life a = bump_and_emit (lc_opened now ttl) Opened" by simp_all
  show "admission_backed ops a" by (auto simp: *(4) backed_defs)
  show "set (voters (ad_peers a)) = set owners - {i}" by (auto simp: *(4))
  show "\<exists>u\<in>set owners. u \<noteq> i" using *(3) by (auto simp: filter_empty_conv)
qed

lemma proposal_open_fields:
  assumes "proposal_open pid k s i reason owners now ttl = Inr p"
  shows "proposal_backed ops p" "set (voters (pr_peers p)) = set owners - {i}"
    "s \<noteq> i" "i \<in> set owners" "\<exists>u\<in>set owners. u \<noteq> i"
    "pr_life p = bump_and_emit (lc_opened now ttl) Opened"
    "pr_threshold p = as_u32 (needed_votes (length (pr_peers p)))"
  using assms
  by (auto simp: proposal_open_def result_simps backed_defs Let_def filter_empty_conv split: if_splits)

lemma removal_run:
  assumes "removal_open rid t i reason owners now ttl = Inr r0" and "distinct owners"
  shows "removal_inv (run_ops removal_step r0 ops)"
    and "removal_backed ops (run_ops removal_step r0 ops)"
    and "set (voters (rm_peers (run_ops removal_step r0 ops))) = set owners - {t, i}"
proof -
  note op = assms(1)
  show "removal_inv (run_ops removal_step r0 ops)"
    by (rule run_ops_invariant [where I = removal_inv])
      (auto intro: removal_open_inv [OF assms] removal_step_inv)
  show "removal_backed ops (run_ops removal_step r0 ops)"
    by (rule run_ops_invariant [where I = "removal_backed ops"])
      (auto intro: removal_open_fields(1) [OF op] removal_step_backed)
  show "set (voters (rm_peers (run_ops removal_step r0 ops))) = set owners - {t, i}"
    by (rule run_ops_invariant [where I = "\<lambda>x. set (voters (rm_peers x)) = set owners - {t, i}"])
      (simp_all add: removal_open_fields(2) [OF op] removal_step_voters)
qed

lemma admission_run:
  assumes "admission_open aid c i reason owners now ttl = Inr a0" and "distinct owners"
  shows "admission_inv (run_ops admission_step a0 ops)"
    and "admission_backed ops (run_ops admission_step a0 ops)"
    and "set (voters (ad_peers (run_ops admission_step a0 ops))) = set owners - {i}"
proof -
  note op = assms(1)
  show "admission_inv (run_ops admission_step a0 ops)"
    by (rule run_ops_invariant [where I = admission_inv])
      (auto intro: admission_open_inv [OF assms] admission_step_inv)
  show "admission_backed ops (run_ops admission_step a0 ops)"
    by (rule run_ops_invariant [where I = "admission_backed ops"])
      (auto intro: admission_open_fields(1) [OF op] admission_step_backed)
  show "set (voters (ad_peers (run_ops admission_step a0 ops))) = set owners - {i}"
    by (rule run_ops_invariant [where I = "\<lambda>x. set (voters (ad_peers x)) = set owners - {i}"])
      (simp_all add: admission_open_fields(2) [OF op] admission_step_voters)
qed

lemma proposal_run:
  assumes "proposal_open pid k s i reason owners now ttl = Inr p0" and "distinct owners"
  shows "proposal_inv (run_ops proposal_step p0 ops)"
    and "proposal_backed ops (run_ops proposal_step p0 ops)"
    and "set (voters (pr_peers (run_ops proposal_step p0 ops))) = set owners - {i}"
proof -
  note op = assms(1)
  show "proposal_inv (run_ops proposal_step p0 ops)"
    by (rule run_ops_invariant [where I = proposal_inv])
      (auto intro: proposal_open_inv [OF assms] proposal_step_inv)
  show "proposal_backed ops (run_ops proposal_step p0 ops)"
    by (rule run_ops_invariant [where I = "proposal_backed ops"])
      (auto intro: proposal_open_fields(1) [OF op] proposal_step_backed)
  show "set (voters (pr_peers (run_ops proposal_step p0 ops))) = set owners - {i}"
    by (rule run_ops_invariant [where I = "\<lambda>x. set (voters (pr_peers x)) = set owners - {i}"])
      (simp_all add: proposal_open_fields(2) [OF op] proposal_step_voters)
qed

lemma opened_life_ok: "life_ok 0 (bump_and_emit (lc_opened now ttl) Opened)"
  by (simp add: life_ok_def life_defs lc_opened_def closing_event_def)

section \<open>Properties\<close>

text \<open>Nobody is expelled by one owner. Whatever sequence of calls is made on an opened
  removal, if it ends executed then the target accepted it, or an owner of the snapshot who
  is neither the target nor the initiator voted REMOVE; both as calls that were made.\<close>

theorem removal_needs_consent:
  assumes "removal_open rid t i reason owners now ttl = Inr r0" and "distinct owners"
    and "removal_state (run_ops removal_step r0 ops) = proposal_state.Executed"
  shows "(\<exists>at. R_TargetDecision Remove at \<in> set ops)
    \<or> (\<exists>u at. u \<in> set owners - {t, i} \<and> R_PeerVote u Remove at \<in> set ops)"
proof -
  let ?r = "run_ops removal_step r0 ops"
  note run = removal_run [OF assms(1,2), of ops]
  have "rm_decision ?r = Remove \<or> (\<exists>p\<in>set (rm_peers ?r). p_vote p = Remove)"
    using run(1) assms(3) by (simp add: removal_inv_def)
  then show ?thesis
  proof
    assume "rm_decision ?r = Remove"
    then show ?thesis using run(2) by (auto simp: removal_backed_def)
  next
    assume "\<exists>p\<in>set (rm_peers ?r). p_vote p = Remove"
    then obtain p where p: "p \<in> set (rm_peers ?r)" "p_vote p = Remove" by blast
    have "p_user_id p \<in> set owners - {t, i}"
      using in_voters [OF p(1)] run(3) by simp
    moreover have "\<exists>at. R_PeerVote (p_user_id p) Remove at \<in> set ops"
      using run(2) p by (auto simp: removal_backed_def)
    ultimately show ?thesis by blast
  qed
qed

definition sample_owners :: "user_id list" where
  "sample_owners = map UserId [1, 2, 3, 4]"

definition sample_removal :: owner_removal where
  "sample_removal =
     projr (removal_open (RemovalId 1) (UserId 1) (UserId 2) (lit ''cause'') sample_owners 1000 100)"

definition sample_admission :: owner_admission where
  "sample_admission =
     projr (admission_open (AdmissionId 1) (UserId 9) (UserId 2) (lit ''partner'') sample_owners 1000 100)"

definition sample_proposal :: user_proposal where
  "sample_proposal =
     projr (proposal_open (UserProposalId 1) Suspension (UserId 9) (UserId 2) (lit ''fraud'') sample_owners 1000 100)"

lemma sample_opens:
  "removal_open (RemovalId 1) (UserId 1) (UserId 2) (lit ''cause'') sample_owners 1000 100 = Inr sample_removal"
  "admission_open (AdmissionId 1) (UserId 9) (UserId 2) (lit ''partner'') sample_owners 1000 100 = Inr sample_admission"
  "proposal_open (UserProposalId 1) Suspension (UserId 9) (UserId 2) (lit ''fraud'') sample_owners 1000 100 = Inr sample_proposal"
  "distinct sample_owners"
  by code_simp+

theorem removal_needs_consent_witness:
  "\<exists>u at. u \<in> set sample_owners - {UserId 1, UserId 2}
     \<and> R_PeerVote u Remove at \<in> set
         [R_PeerVote (UserId 3) Remove 1001, R_PeerVote (UserId 4) Remove 1002, R_Execute sample_owners 1003]"
proof -
  have "removal_state (run_ops removal_step sample_removal
      [R_PeerVote (UserId 3) Remove 1001, R_PeerVote (UserId 4) Remove 1002,
       R_Execute sample_owners 1003]) = proposal_state.Executed"
    by code_simp
  from removal_needs_consent [OF sample_opens(1,4) this] show ?thesis by simp
qed

text \<open>Nobody is seated by one owner. If an opened admission ends executed, an owner of
  the snapshot other than the initiator voted ADMIT.\<close>

theorem admission_needs_consent:
  assumes "admission_open aid c i reason owners now ttl = Inr a0" and "distinct owners"
    and "admission_state (run_ops admission_step a0 ops) = proposal_state.Executed"
  shows "\<exists>u at. u \<in> set owners - {i} \<and> A_Vote u Admit at \<in> set ops"
proof -
  let ?a = "run_ops admission_step a0 ops"
  note run = admission_run [OF assms(1,2), of ops]
  obtain p where p: "p \<in> set (ad_peers ?a)" "p_vote p = Admit"
    using run(1) assms(3) by (auto simp: admission_inv_def)
  have "p_user_id p \<in> set owners - {i}"
    using in_voters [OF p(1)] run(3) by simp
  then show ?thesis using run(2) p by (auto simp: admission_backed_def)
qed

theorem admission_needs_consent_witness:
  "\<exists>u at. u \<in> set sample_owners - {UserId 2}
     \<and> A_Vote u Admit at \<in> set
         [A_Vote (UserId 1) Admit 1001, A_Vote (UserId 3) Admit 1002, A_Vote (UserId 4) Admit 1003,
          A_Execute sample_owners 1004]"
proof -
  have "admission_state (run_ops admission_step sample_admission
      [A_Vote (UserId 1) Admit 1001, A_Vote (UserId 3) Admit 1002, A_Vote (UserId 4) Admit 1003,
       A_Execute sample_owners 1004]) = proposal_state.Executed"
    by code_simp
  from admission_needs_consent [OF sample_opens(2,4) this] show ?thesis .
qed

text \<open>Nobody's standing is changed by one owner. If an opened user proposal ends
  executed, an owner of the snapshot other than the initiator voted FOR.\<close>

theorem proposal_needs_consent:
  assumes "proposal_open pid k s i reason owners now ttl = Inr p0" and "distinct owners"
    and "up_state (run_ops proposal_step p0 ops) = proposal_state.Executed"
  shows "\<exists>u at. u \<in> set owners - {i} \<and> P_Vote u proposal_vote.For at \<in> set ops"
proof -
  let ?p = "run_ops proposal_step p0 ops"
  note run = proposal_run [OF assms(1,2), of ops]
  obtain q where q: "q \<in> set (pr_peers ?p)" "p_vote q = proposal_vote.For"
    using run(1) assms(3) by (auto simp: proposal_inv_def)
  have "p_user_id q \<in> set owners - {i}"
    using in_voters [OF q(1)] run(3) by simp
  then show ?thesis using run(2) q by (auto simp: proposal_backed_def)
qed

theorem proposal_needs_consent_witness:
  "\<exists>u at. u \<in> set sample_owners - {UserId 2}
     \<and> P_Vote u proposal_vote.For at \<in> set
         [P_Vote (UserId 1) proposal_vote.For 1001, P_Vote (UserId 3) proposal_vote.For 1002,
          P_Execute sample_owners 1004]"
proof -
  have "up_state (run_ops proposal_step sample_proposal
      [P_Vote (UserId 1) proposal_vote.For 1001, P_Vote (UserId 3) proposal_vote.For 1002,
       P_Execute sample_owners 1004]) = proposal_state.Executed"
    by code_simp
  from proposal_needs_consent [OF sample_opens(3,4) this] show ?thesis .
qed

lemma count_for_map:
  "count_list (map (\<lambda>q. proposal_vote_ballot (p_vote q)) ps) ballot.For =
     length (filter (\<lambda>q. p_vote q = proposal_vote.For) ps)"
  by (induction ps) auto

lemma removal_executes_iff:
  "removal_state r = Open \<Longrightarrow>
     (\<exists>r'. removal_execute r owners now = Inr (r', proposal_state.Executed)) \<longleftrightarrow>
       rm_initiator r \<in> set owners \<and> 3 \<le> length owners \<and> removal_outcome_among r owners = Passes"
  by (auto simp: removal_execute_def result_simps state_defs Let_def MIN_OWNERS_def)

lemma admission_executes_iff:
  "admission_state a = Open \<Longrightarrow>
     (\<exists>a'. admission_execute a owners now = Inr (a', proposal_state.Executed)) \<longleftrightarrow>
       ad_initiator a \<in> set owners \<and> ad_candidate a \<notin> set owners
       \<and> admission_outcome_among a owners = Passes"
  by (auto simp: admission_execute_def result_simps state_defs Let_def)

lemma proposal_executes_iff:
  "up_state u = Open \<Longrightarrow>
     (\<exists>u'. proposal_execute u owners now = Inr (u', proposal_state.Executed)) \<longleftrightarrow>
       pr_initiator u \<in> set owners \<and> proposal_outcome_among u owners = Passes"
  by (auto simp: proposal_execute_def result_simps state_defs Let_def)

text \<open>Executing against a roster. An open removal becomes executed exactly when its
  initiator holds a seat, two owners remain, and either the target accepted or the peers
  still seated (at least one) all voted REMOVE; an open admission exactly when its initiator
  holds a seat, its candidate does not, and the voters still seated (at least one) all voted
  ADMIT; an open user proposal exactly when its initiator holds a seat and more than half
  of the voters still seated voted FOR.\<close>

theorem executes_iff:
  "(removal_state r = Open \<longrightarrow>
      ((\<exists>r'. removal_execute r owners now = Inr (r', proposal_state.Executed)) \<longleftrightarrow>
        rm_initiator r \<in> set owners \<and> 3 \<le> length owners \<and>
        (rm_decision r = Remove \<or>
          (let eligible = filter (\<lambda>p. p_user_id p \<in> set owners) (rm_peers r)
           in eligible \<noteq> [] \<and> list_all (\<lambda>p. p_vote p = Remove) eligible))))
   \<and> (admission_state a = Open \<longrightarrow>
      ((\<exists>a'. admission_execute a owners now = Inr (a', proposal_state.Executed)) \<longleftrightarrow>
        ad_initiator a \<in> set owners \<and> ad_candidate a \<notin> set owners \<and>
        (let eligible = filter (\<lambda>p. p_user_id p \<in> set owners) (ad_peers a)
         in eligible \<noteq> [] \<and> list_all (\<lambda>p. p_vote p = Admit) eligible)))
   \<and> (up_state u = Open \<longrightarrow>
      ((\<exists>u'. proposal_execute u owners now = Inr (u', proposal_state.Executed)) \<longleftrightarrow>
        pr_initiator u \<in> set owners \<and>
        (let eligible = filter (\<lambda>p. p_user_id p \<in> set owners) (pr_peers u)
         in length eligible < 2 * length (filter (\<lambda>p. p_vote p = proposal_vote.For) eligible))))"
proof (intro conjI impI)
  assume "removal_state r = Open"
  then show "(\<exists>r'. removal_execute r owners now = Inr (r', proposal_state.Executed)) \<longleftrightarrow>
        rm_initiator r \<in> set owners \<and> 3 \<le> length owners \<and>
        (rm_decision r = Remove \<or>
          (let eligible = filter (\<lambda>p. p_user_id p \<in> set owners) (rm_peers r)
           in eligible \<noteq> [] \<and> list_all (\<lambda>p. p_vote p = Remove) eligible))"
    by (simp add: removal_executes_iff removal_outcome_among_def removal_rule_Passes list_all_iff)
next
  assume "admission_state a = Open"
  then show "(\<exists>a'. admission_execute a owners now = Inr (a', proposal_state.Executed)) \<longleftrightarrow>
        ad_initiator a \<in> set owners \<and> ad_candidate a \<notin> set owners \<and>
        (let eligible = filter (\<lambda>p. p_user_id p \<in> set owners) (ad_peers a)
         in eligible \<noteq> [] \<and> list_all (\<lambda>p. p_vote p = Admit) eligible)"
    by (simp add: admission_executes_iff admission_outcome_among_def unanimity_Passes list_all_iff)
next
  assume "up_state u = Open"
  then show "(\<exists>u'. proposal_execute u owners now = Inr (u', proposal_state.Executed)) \<longleftrightarrow>
        pr_initiator u \<in> set owners \<and>
        (let eligible = filter (\<lambda>p. p_user_id p \<in> set owners) (pr_peers u)
         in length eligible < 2 * length (filter (\<lambda>p. p_vote p = proposal_vote.For) eligible))"
    by (simp add: proposal_executes_iff proposal_outcome_among_def majority_Passes count_for_map)
qed

theorem executes_iff_witness:
  "\<exists>r'. removal_execute (sample_removal\<lparr>rm_decision := Remove\<rparr>) sample_owners 1003
     = Inr (r', proposal_state.Executed)"
proof -
  have "removal_state (sample_removal\<lparr>rm_decision := Remove\<rparr>) = Open"
    "rm_initiator (sample_removal\<lparr>rm_decision := Remove\<rparr>) \<in> set sample_owners"
    "3 \<le> length sample_owners"
    by code_simp+
  with executes_iff [of "sample_removal\<lparr>rm_decision := Remove\<rparr>" sample_owners 1003] show ?thesis
    by simp
qed

text \<open>A closed proposal is final: no sequence of calls changes anything of its
  lifecycle (state, decision time, void reason, version, events), on any of the three
  aggregates.\<close>

theorem closed_is_final:
  "(lc_state (rm_life r) \<noteq> Open \<longrightarrow> rm_life (run_ops removal_step r rops) = rm_life r)
   \<and> (lc_state (ad_life a) \<noteq> Open \<longrightarrow> ad_life (run_ops admission_step a aops) = ad_life a)
   \<and> (lc_state (pr_life p) \<noteq> Open \<longrightarrow> pr_life (run_ops proposal_step p pops) = pr_life p)"
  using removal_life.run_closed admission_life.run_closed proposal_life.run_closed by blast

theorem closed_is_final_witness:
  "rm_life (run_ops removal_step
      (sample_removal\<lparr>rm_life := lc_close (rm_life sample_removal) proposal_state.Cancelled
          governance_event.Cancelled 1001\<rparr>)
      [R_TargetDecision Remove 1002, R_Execute sample_owners 1003])
    = lc_close (rm_life sample_removal) proposal_state.Cancelled governance_event.Cancelled 1001"
  using closed_is_final [of "sample_removal\<lparr>rm_life := lc_close (rm_life sample_removal)
      proposal_state.Cancelled governance_event.Cancelled 1001\<rparr>"
      "[R_TargetDecision Remove 1002, R_Execute sample_owners 1003]"] by simp

definition log_agrees :: "int \<Rightarrow> int \<Rightarrow> lifecycle \<Rightarrow> bool" where
  "log_agrees now ttl l \<longleftrightarrow>
     filter is_closing (lc_pending l) =
       (case closing_event (lc_state l) of None \<Rightarrow> [] | Some e \<Rightarrow> [e])
     \<and> lc_version l = length (lc_pending l)
     \<and> (lc_state l = Void \<or> lc_void_reason l = [])
     \<and> length (lc_void_reason l) \<le> 200
     \<and> lc_created_at l = now \<and> lc_expires_at l = saturating_add now ttl"

text \<open>The audit log of a proposal agrees with its row after any sequence of calls: the
  log holds a closing event exactly when the proposal is closed, exactly one, and it is the
  event of the state it is in; the version is the number of events; a void reason is only
  on a void proposal and fits its column; the deadline is the one it was opened with.\<close>

theorem log_matches_state:
  assumes "removal_open rid t i reason owners now ttl = Inr r"
    and "admission_open aid c i' reason' owners' now ttl = Inr a"
    and "proposal_open pid k s i'' reason'' owners'' now ttl = Inr p"
  shows "log_agrees now ttl (rm_life (run_ops removal_step r rops))
    \<and> log_agrees now ttl (ad_life (run_ops admission_step a aops))
    \<and> log_agrees now ttl (pr_life (run_ops proposal_step p pops))"
proof -
  note lives = removal_open_fields(7) [OF assms(1)] admission_open_fields(6) [OF assms(2)]
    proposal_open_fields(6) [OF assms(3)]
  show ?thesis
    using removal_life.run_ok [of 0 r rops] removal_life.run_deadline [of r rops]
      admission_life.run_ok [of 0 a aops] admission_life.run_deadline [of a aops]
      proposal_life.run_ok [of 0 p pops] proposal_life.run_deadline [of p pops]
      opened_life_ok [of now ttl]
    by (auto simp: lives log_agrees_def life_ok_def life_defs lc_opened_def)
qed

theorem log_matches_state_witness:
  "log_agrees 1000 100 (rm_life (run_ops removal_step sample_removal [R_TargetDecision Keep 1001, R_Expire 1100]))"
  using log_matches_state [OF sample_opens(1) sample_opens(2) sample_opens(3)] by blast

end
