(* ===== verification/Proposal_Liveness.thy ===== *)
theory Proposal_Liveness
  imports Proposal_Safety
begin

text \<open>
  The other half of the consilia's contract: who is kept out of the vote, that a cast vote
  is final, and that an open proposal is never a trap (it can still be carried by the people
  it is asking). Also what re-deciding against a moved roster really guarantees.
\<close>

section \<open>Votes refused\<close>

lemma find_voter_None: "u \<notin> set (voters ps) \<Longrightarrow> find (\<lambda>p. p_user_id p = u) ps = None"
  by (auto simp: voters_def find_None_iff_all)

lemma is_ok_rbind: "is_ok (rbind r f) \<longleftrightarrow> (\<exists>x. r = Inr x \<and> is_ok (f x))"
  by (cases r) auto

text \<open>The electorate is frozen: after any sequence of calls, a vote by anybody who is not
  an owner of the snapshot, or is its initiator (or the removal's target), is refused, and
  so is an answer that is not one.\<close>

theorem outsiders_cannot_vote:
  assumes "removal_open rid t i reason owners now ttl = Inr r"
    and "admission_open aid c i reason' owners now ttl = Inr a"
    and "proposal_open pid k s i reason'' owners now ttl = Inr p"
    and "distinct owners"
  shows "(u \<notin> set owners - {t, i} \<or> v = vote.Pending
            \<longrightarrow> \<not> is_ok (removal_peer_vote (run_ops removal_step r rops) u v at))
    \<and> (u \<notin> set owners - {i} \<or> w = admission_vote.Pending
            \<longrightarrow> \<not> is_ok (admission_vote_by (run_ops admission_step a aops) u w at))
    \<and> (u \<notin> set owners - {i} \<or> x = proposal_vote.Pending
            \<longrightarrow> \<not> is_ok (proposal_vote_by (run_ops proposal_step p pops) u x at))"
proof -
  note voters = removal_run(3) [OF assms(1,4), of rops] admission_run(3) [OF assms(2,4), of aops]
    proposal_run(3) [OF assms(3,4), of pops]
  show ?thesis
    using voters find_voter_None [of u "rm_peers (run_ops removal_step r rops)"]
      find_voter_None [of u "ad_peers (run_ops admission_step a aops)"]
      find_voter_None [of u "pr_peers (run_ops proposal_step p pops)"]
    by (auto simp: removal_peer_vote_def admission_vote_by_def proposal_vote_by_def is_ok_rbind
        require_cast_def vote_is_cast_def admission_vote_is_cast_def proposal_vote_is_cast_def)
qed

theorem outsiders_cannot_vote_witness:
  "\<not> is_ok (removal_peer_vote (run_ops removal_step sample_removal []) (UserId 2) Remove 1001)"
proof -
  note all = outsiders_cannot_vote [OF sample_opens(1) sample_opens(2) sample_opens(3) sample_opens(4)]
  from all [THEN conjunct1, of "UserId 2" Remove "[]" 1001] show ?thesis by simp
qed

section \<open>Everybody still asked agrees\<close>

lemma cast_by_filter_less:
  assumes "find (\<lambda>p. p_user_id p = u) ps = Some q" and "P (p_vote q)" and "\<not> P v"
  shows "length (filter (\<lambda>p. P (p_vote p)) (cast_by u v now ps)) < length (filter (\<lambda>p. P (p_vote p)) ps)"
  using assms unfolding cast_by_def by (induction ps) (auto split: if_splits)

lemma cast_by_filter_le:
  assumes "\<not> P v"
  shows "length (filter (\<lambda>p. P (p_vote p)) (cast_by u v now ps)) \<le> length (filter (\<lambda>p. P (p_vote p)) ps)"
  using assms unfolding cast_by_def by (induction ps) auto

lemma cast_by_length [simp]: "length (cast_by u v now ps) = length ps"
  by (simp add: cast_by_def)

lemma find_own_peer:
  "distinct (voters ps) \<Longrightarrow> p \<in> set ps \<Longrightarrow> find (\<lambda>q. p_user_id q = p_user_id p) ps = Some p"
  unfolding voters_def by (rule find_eq_Some_distinct)

lemma run_ops_Cons_Inr: "step a op = Inr a' \<Longrightarrow> run_ops step a (op # ops) = run_ops step a' ops"
  by simp

lemma filter_seated: "set (voters ps) \<subseteq> set owners \<Longrightarrow> filter (\<lambda>p. p_user_id p \<in> set owners) ps = ps"
  by (auto simp: voters_def intro: filter_True)

lemma cast_by_all:
  "\<forall>q\<in>set ps. p_vote q \<noteq> b \<Longrightarrow> v \<noteq> b \<Longrightarrow> \<forall>q\<in>set (cast_by u v now ps). p_vote q \<noteq> b"
  using cast_by_cases by metis

lemma cast_by_Nil [simp]: "cast_by u v now ps = [] \<longleftrightarrow> ps = []"
  by (metis cast_by_length length_0_conv)

lemma admission_vote_open:
  assumes "admission_inv a" and "admission_state a = Open"
    and "p \<in> set (ad_peers a)" and "p_vote p = admission_vote.Pending"
  shows "admission_step a (A_Vote (p_user_id p) Admit now) =
      Inr (a\<lparr>ad_peers := cast_by (p_user_id p) Admit now (ad_peers a),
             ad_life := bump_and_emit (ad_life a) PeerVoted\<rparr>)" (is "_ = Inr ?a")
proof -
  have f: "find (\<lambda>q. p_user_id q = p_user_id p) (ad_peers a) = Some p"
    using assms(1,3) by (simp add: find_own_peer admission_inv_def)
  have "ad_peers a \<noteq> []" and nr: "\<forall>p\<in>set (ad_peers a). p_vote p \<noteq> Reject"
    using assms(1,2) by (auto simp: admission_inv_def admission_outcome_def unanimity_Fails)
  moreover have "\<forall>q\<in>set (cast_by (p_user_id p) Admit now (ad_peers a)). p_vote q \<noteq> Reject"
    by (rule cast_by_all [OF nr]) simp
  ultimately have "admission_outcome ?a \<noteq> Fails"
    by (auto simp: admission_outcome_def unanimity_Fails)
  then show ?thesis
    using assms(2,4) f
    by (simp add: admission_vote_by_def admission_require_open_def lc_require_open_def
        is_open_def state_defs admission_vote_is_cast_def Let_def)
qed

lemma admission_can_pass:
  assumes "admission_inv a" and "admission_state a = Open"
    and "ad_initiator a \<in> set owners" and "ad_candidate a \<notin> set owners"
    and "set (voters (ad_peers a)) \<subseteq> set owners"
  shows "\<exists>votes. set votes \<subseteq> range (\<lambda>u. A_Vote u Admit t)
    \<and> admission_state (run_ops admission_step a (votes @ [A_Execute owners t])) = proposal_state.Executed"
  using assms
proof (induction "length (filter (\<lambda>p. p_vote p = admission_vote.Pending) (ad_peers a))"
    arbitrary: a rule: less_induct)
  case less
  show ?case
  proof (cases "\<exists>p\<in>set (ad_peers a). p_vote p = admission_vote.Pending")
    case True
    then obtain p where p: "p \<in> set (ad_peers a)" "p_vote p = admission_vote.Pending" by blast
    let ?a = "a\<lparr>ad_peers := cast_by (p_user_id p) Admit t (ad_peers a),
             ad_life := bump_and_emit (ad_life a) PeerVoted\<rparr>"
    note st = admission_vote_open [OF less.prems(1,2) p, of t]
    have "length (filter (\<lambda>q. p_vote q = admission_vote.Pending) (ad_peers ?a))
        < length (filter (\<lambda>q. p_vote q = admission_vote.Pending) (ad_peers a))"
      using cast_by_filter_less [of "p_user_id p" "ad_peers a" p "\<lambda>v. v = admission_vote.Pending"]
        find_own_peer [OF _ p(1)] p(2) less.prems(1) by (simp add: admission_inv_def)
    moreover have "admission_state ?a = Open" "ad_initiator ?a \<in> set owners"
      "ad_candidate ?a \<notin> set owners" "set (voters (ad_peers ?a)) \<subseteq> set owners"
      using less.prems(2-5) by (simp_all add: state_defs)
    ultimately obtain votes where "set votes \<subseteq> range (\<lambda>u. A_Vote u Admit t)"
      "admission_state (run_ops admission_step ?a (votes @ [A_Execute owners t])) = proposal_state.Executed"
      using less.hyps [of ?a] admission_step_inv [OF less.prems(1) st] by blast
    then show ?thesis using run_ops_Cons_Inr [of admission_step, OF st] by (intro exI [of _ "A_Vote (p_user_id p) Admit t # votes"]) simp
  next
    case False
    have ne: "ad_peers a \<noteq> []" and nr: "\<forall>p\<in>set (ad_peers a). p_vote p \<noteq> Reject"
      using less.prems(1,2) by (auto simp: admission_inv_def admission_outcome_def unanimity_Fails)
    from False nr have "\<forall>p\<in>set (ad_peers a). p_vote p = Admit"
      by (meson admission_vote.exhaust)
    with ne less.prems(5) have "admission_outcome_among a owners = Passes"
      by (auto simp: admission_outcome_among_def unanimity_Passes filter_seated)
    then obtain a' where "admission_execute a owners t = Inr (a', proposal_state.Executed)"
      using admission_executes_iff less.prems by blast
    moreover from this have "admission_state a' = proposal_state.Executed"
      by (auto simp: admission_execute_def result_simps Let_def split: if_splits)
    ultimately show ?thesis by (intro exI [of _ "[]"]) simp
  qed
qed

lemma removal_vote_open:
  assumes "removal_inv r" and "removal_state r = Open"
    and "p \<in> set (rm_peers r)" and "p_vote p = vote.Pending"
  shows "removal_step r (R_PeerVote (p_user_id p) Remove now) =
      Inr (r\<lparr>rm_peers := cast_by (p_user_id p) Remove now (rm_peers r),
             rm_life := bump_and_emit (rm_life r) PeerVoted\<rparr>)" (is "_ = Inr ?r")
proof -
  have f: "find (\<lambda>q. p_user_id q = p_user_id p) (rm_peers r) = Some p"
    using assms(1,3) by (simp add: find_own_peer removal_inv_def)
  have "removal_outcome r \<noteq> Fails"
    using assms(1,2) by (simp add: removal_inv_def)
  then have nf: "rm_decision r \<noteq> Remove \<Longrightarrow> \<forall>p\<in>set (rm_peers r). p_vote p \<noteq> Keep"
    by (auto simp: removal_outcome_def removal_rule_Fails)
  have ne: "rm_peers r \<noteq> []" using assms(3) by auto
  have "removal_outcome ?r \<noteq> Fails"
  proof (cases "rm_decision r = Remove")
    case False
    have "\<forall>q\<in>set (cast_by (p_user_id p) Remove now (rm_peers r)). p_vote q \<noteq> Keep"
      by (rule cast_by_all [OF nf [OF False]]) simp
    then show ?thesis using ne by (auto simp: removal_outcome_def removal_rule_Fails)
  qed (simp add: removal_outcome_def removal_rule_Fails)
  then show ?thesis
    using assms(2,4) f
    by (simp add: removal_peer_vote_def removal_require_open_def lc_require_open_def require_cast_def
        is_open_def state_defs vote_is_cast_def removal_resolve_def)
qed

lemma removal_can_execute:
  assumes "removal_state r = Open" and "rm_initiator r \<in> set owners" and "3 \<le> length owners"
    and "removal_outcome_among r owners = Passes"
  shows "removal_state (run_ops removal_step r [R_Execute owners t]) = proposal_state.Executed"
proof -
  obtain r' where r': "removal_execute r owners t = Inr (r', proposal_state.Executed)"
    using removal_executes_iff assms by blast
  then have "removal_state r' = proposal_state.Executed"
    by (auto simp: removal_execute_def result_simps Let_def split: if_splits)
  with r' show ?thesis by simp
qed

lemma removal_can_pass:
  assumes "removal_inv r" and "removal_state r = Open"
    and "rm_initiator r \<in> set owners" and "3 \<le> length owners"
    and "set (voters (rm_peers r)) \<subseteq> set owners"
  shows "\<exists>votes. set votes \<subseteq> insert (R_TargetDecision Remove t) (range (\<lambda>u. R_PeerVote u Remove t))
    \<and> removal_state (run_ops removal_step r (votes @ [R_Execute owners t])) = proposal_state.Executed"
  using assms
proof (induction "length (filter (\<lambda>p. p_vote p = vote.Pending) (rm_peers r))"
    arbitrary: r rule: less_induct)
  case less
  consider (pending) "\<exists>p\<in>set (rm_peers r). p_vote p = vote.Pending"
    | (undecided) "rm_decision r = vote.Pending"
    | (passes) "\<forall>p\<in>set (rm_peers r). p_vote p \<noteq> vote.Pending" "rm_decision r \<noteq> vote.Pending"
    by blast
  then show ?case
  proof cases
    case pending
    then obtain p where p: "p \<in> set (rm_peers r)" "p_vote p = vote.Pending" by blast
    let ?r = "r\<lparr>rm_peers := cast_by (p_user_id p) Remove t (rm_peers r),
             rm_life := bump_and_emit (rm_life r) PeerVoted\<rparr>"
    note st = removal_vote_open [OF less.prems(1,2) p, of t]
    have "length (filter (\<lambda>q. p_vote q = vote.Pending) (rm_peers ?r))
        < length (filter (\<lambda>q. p_vote q = vote.Pending) (rm_peers r))"
      using cast_by_filter_less [of "p_user_id p" "rm_peers r" p "\<lambda>v. v = vote.Pending"]
        find_own_peer [OF _ p(1)] p(2) less.prems(1) by (simp add: removal_inv_def)
    moreover have "removal_state ?r = Open" "rm_initiator ?r \<in> set owners"
      "set (voters (rm_peers ?r)) \<subseteq> set owners"
      using less.prems(2-5) by (simp_all add: state_defs)
    ultimately obtain votes where "set votes \<subseteq> insert (R_TargetDecision Remove t) (range (\<lambda>u. R_PeerVote u Remove t))"
      "removal_state (run_ops removal_step ?r (votes @ [R_Execute owners t])) = proposal_state.Executed"
      using less.hyps [of ?r] removal_step_inv [OF less.prems(1) st] less.prems(4) by blast
    then show ?thesis using run_ops_Cons_Inr [of removal_step, OF st] by (intro exI [of _ "R_PeerVote (p_user_id p) Remove t # votes"]) simp
  next
    case undecided
    let ?r = "r\<lparr>rm_decision := Remove, rm_decided_as_target_at := t,
               rm_life := bump_and_emit (rm_life r) TargetDecided\<rparr>"
    have st: "removal_step r (R_TargetDecision Remove t) = Inr ?r"
      using undecided less.prems(2)
      by (simp add: removal_target_decision_def removal_require_open_def lc_require_open_def
          require_cast_def is_open_def state_defs vote_is_cast_def removal_resolve_def
          removal_outcome_def removal_rule_def)
    have "removal_outcome_among ?r owners = Passes"
      by (simp add: removal_outcome_among_def removal_rule_def)
    with less.prems(2-4) have "removal_state (run_ops removal_step ?r [R_Execute owners t]) = proposal_state.Executed"
      by (intro removal_can_execute) (simp_all add: state_defs)
    then have "removal_state (run_ops removal_step r ([R_TargetDecision Remove t] @ [R_Execute owners t])) = proposal_state.Executed"
      unfolding append_Cons append_Nil run_ops_Cons_Inr [of removal_step, OF st] .
    then show ?thesis by (intro exI [of _ "[R_TargetDecision Remove t]"]) simp
  next
    case passes
    have "removal_outcome r \<noteq> Fails"
      using less.prems(1,2) by (simp add: removal_inv_def)
    then have "rm_decision r = Remove \<or> (rm_peers r \<noteq> [] \<and> (\<forall>p\<in>set (rm_peers r). p_vote p = Remove))"
      using passes unfolding removal_outcome_def removal_rule_Fails by (metis vote.exhaust)
    then have "removal_outcome_among r owners = Passes"
      using less.prems(5) by (auto simp: removal_outcome_among_def removal_rule_Passes filter_seated)
    then show ?thesis using removal_can_execute less.prems(2-4) by (intro exI [of _ "[]"]) simp
  qed
qed

lemma proposal_Fails:
  "majority (map (\<lambda>q. proposal_vote_ballot (p_vote q)) ps) = Fails \<longleftrightarrow>
     2 * length (filter (\<lambda>q. p_vote q \<noteq> proposal_vote.Against) ps) \<le> length ps"
proof -
  have "length (filter (\<lambda>q. p_vote q \<noteq> proposal_vote.Against) ps)
      = count_list (map (\<lambda>q. proposal_vote_ballot (p_vote q)) ps) ballot.For
        + count_list (map (\<lambda>q. proposal_vote_ballot (p_vote q)) ps) ballot.Pending"
    by (induction ps) (auto, (metis proposal_vote.exhaust)+)
  moreover have "count_list (map (\<lambda>q. proposal_vote_ballot (p_vote q)) ps) ballot.For \<le> length ps"
    by (metis count_le_length length_map)
  ultimately show ?thesis by (auto simp: majority_eq)
qed

lemma cast_by_filter_eq:
  assumes "find (\<lambda>p. p_user_id p = u) ps = Some q" and "P (p_vote q)" and "P v"
  shows "length (filter (\<lambda>p. P (p_vote p)) (cast_by u v now ps)) = length (filter (\<lambda>p. P (p_vote p)) ps)"
  using assms unfolding cast_by_def by (induction ps) (auto split: if_splits)

lemma proposal_vote_open:
  assumes "proposal_inv a" and "up_state a = Open"
    and "p \<in> set (pr_peers a)" and "p_vote p = proposal_vote.Pending"
  shows "proposal_step a (P_Vote (p_user_id p) proposal_vote.For now) =
      Inr (a\<lparr>pr_peers := cast_by (p_user_id p) proposal_vote.For now (pr_peers a),
             pr_life := bump_and_emit (pr_life a) PeerVoted\<rparr>)" (is "_ = Inr ?a")
proof -
  have f: "find (\<lambda>q. p_user_id q = p_user_id p) (pr_peers a) = Some p"
    using assms(1,3) by (simp add: find_own_peer proposal_inv_def)
  have "proposal_outcome a \<noteq> Fails"
    using assms(1,2) by (simp add: proposal_inv_def)
  then have "proposal_outcome ?a \<noteq> Fails"
    using cast_by_filter_eq [OF f, of "\<lambda>v. v \<noteq> proposal_vote.Against" proposal_vote.For] assms(4)
    by (simp add: proposal_outcome_def proposal_Fails)
  then show ?thesis
    using assms(2,4) f
    by (simp add: proposal_vote_by_def proposal_require_open_def lc_require_open_def
        is_open_def state_defs proposal_vote_is_cast_def Let_def)
qed

lemma proposal_can_pass:
  assumes "proposal_inv a" and "up_state a = Open" and "pr_initiator a \<in> set owners"
    and "set (voters (pr_peers a)) \<subseteq> set owners"
  shows "\<exists>votes. set votes \<subseteq> range (\<lambda>u. P_Vote u proposal_vote.For t)
    \<and> up_state (run_ops proposal_step a (votes @ [P_Execute owners t])) = proposal_state.Executed"
  using assms
proof (induction "length (filter (\<lambda>p. p_vote p = proposal_vote.Pending) (pr_peers a))"
    arbitrary: a rule: less_induct)
  case less
  show ?case
  proof (cases "\<exists>p\<in>set (pr_peers a). p_vote p = proposal_vote.Pending")
    case True
    then obtain p where p: "p \<in> set (pr_peers a)" "p_vote p = proposal_vote.Pending" by blast
    let ?a = "a\<lparr>pr_peers := cast_by (p_user_id p) proposal_vote.For t (pr_peers a),
             pr_life := bump_and_emit (pr_life a) PeerVoted\<rparr>"
    note st = proposal_vote_open [OF less.prems(1,2) p, of t]
    have "length (filter (\<lambda>q. p_vote q = proposal_vote.Pending) (pr_peers ?a))
        < length (filter (\<lambda>q. p_vote q = proposal_vote.Pending) (pr_peers a))"
      using cast_by_filter_less [of "p_user_id p" "pr_peers a" p "\<lambda>v. v = proposal_vote.Pending"]
        find_own_peer [OF _ p(1)] p(2) less.prems(1) by (simp add: proposal_inv_def)
    moreover have "up_state ?a = Open" "pr_initiator ?a \<in> set owners"
      "set (voters (pr_peers ?a)) \<subseteq> set owners"
      using less.prems(2-4) by (simp_all add: state_defs)
    ultimately obtain votes where "set votes \<subseteq> range (\<lambda>u. P_Vote u proposal_vote.For t)"
      "up_state (run_ops proposal_step ?a (votes @ [P_Execute owners t])) = proposal_state.Executed"
      using less.hyps [of ?a] proposal_step_inv [OF less.prems(1) st] by blast
    then show ?thesis using run_ops_Cons_Inr [of proposal_step, OF st] by (intro exI [of _ "P_Vote (p_user_id p) proposal_vote.For t # votes"]) simp
  next
    case False
    have "proposal_outcome a \<noteq> Fails"
      using less.prems(1,2) by (simp add: proposal_inv_def)
    moreover have "filter (\<lambda>q. p_vote q \<noteq> proposal_vote.Against) (pr_peers a)
        = filter (\<lambda>q. p_vote q = proposal_vote.For) (pr_peers a)"
      using False by (intro filter_cong) (auto, metis proposal_vote.exhaust)
    ultimately have "length (pr_peers a)
        < 2 * length (filter (\<lambda>q. p_vote q = proposal_vote.For) (pr_peers a))"
      by (simp add: proposal_outcome_def proposal_Fails)
    with less.prems(4) have "proposal_outcome_among a owners = Passes"
      by (simp add: proposal_outcome_among_def majority_Passes count_for_map filter_seated)
    then obtain a' where "proposal_execute a owners t = Inr (a', proposal_state.Executed)"
      using proposal_executes_iff less.prems by blast
    moreover from this have "up_state a' = proposal_state.Executed"
      by (auto simp: proposal_execute_def result_simps Let_def split: if_splits)
    ultimately show ?thesis by (intro exI [of _ "[]"]) simp
  qed
qed

lemma removal_run_initiator:
  assumes "removal_open rid t i reason owners now ttl = Inr r"
  shows "rm_initiator (run_ops removal_step r ops) = i"
  by (rule run_ops_invariant [where I = "\<lambda>x. rm_initiator x = i"])
    (use assms in \<open>auto simp: removal_open_def result_simps dest!: removal_step_frame split: if_splits\<close>)

lemma admission_step_candidate: "admission_step a op = Inr a' \<Longrightarrow> ad_candidate a' = ad_candidate a"
  by (cases op) (auto simp: admission_op_defs result_simps Let_def split: if_splits option.splits)

lemma admission_run_parties:
  assumes "admission_open aid c i reason owners now ttl = Inr a"
  shows "ad_initiator (run_ops admission_step a ops) = i \<and> ad_candidate (run_ops admission_step a ops) = c"
  by (rule run_ops_invariant [where I = "\<lambda>x. ad_initiator x = i \<and> ad_candidate x = c"])
    (use assms in \<open>auto simp: admission_open_def result_simps Let_def admission_step_candidate
      dest: admission_step_frame split: if_splits\<close>)

lemma proposal_run_initiator:
  assumes "proposal_open pid k s i reason owners now ttl = Inr p"
  shows "pr_initiator (run_ops proposal_step p ops) = i"
  by (rule run_ops_invariant [where I = "\<lambda>x. pr_initiator x = i"])
    (use assms in \<open>auto simp: proposal_open_def result_simps Let_def dest: proposal_step_frame split: if_splits\<close>)

text \<open>C26. An open proposal is never a trap: wherever a sequence of calls on an opened
  proposal leaves it open, answers in its favour, followed by executing it against the very
  roster it was opened on, carry it, whatever the clock says (its deadline is kept by the store).\<close>

theorem open_is_winnable:
  assumes "removal_open rid t i reason owners now ttl = Inr r"
    and "admission_open aid c i reason' owners now ttl = Inr a"
    and "proposal_open pid k s i reason'' owners now ttl = Inr p"
    and "distinct owners"
  shows "(removal_state (run_ops removal_step r rops) = Open \<longrightarrow>
      (\<exists>votes. set votes \<subseteq> insert (R_TargetDecision Remove at) (range (\<lambda>u. R_PeerVote u Remove at))
        \<and> removal_state (run_ops removal_step (run_ops removal_step r rops) (votes @ [R_Execute owners at])) = proposal_state.Executed))
    \<and> (admission_state (run_ops admission_step a aops) = Open \<longrightarrow>
      (\<exists>votes. set votes \<subseteq> range (\<lambda>u. A_Vote u Admit at)
        \<and> admission_state (run_ops admission_step (run_ops admission_step a aops) (votes @ [A_Execute owners at])) = proposal_state.Executed))
    \<and> (up_state (run_ops proposal_step p pops) = Open \<longrightarrow>
      (\<exists>votes. set votes \<subseteq> range (\<lambda>u. P_Vote u proposal_vote.For at)
        \<and> up_state (run_ops proposal_step (run_ops proposal_step p pops) (votes @ [P_Execute owners at])) = proposal_state.Executed))"
proof (intro conjI impI, goal_cases)
  case 1
  note run = removal_run [OF assms(1,4), of rops]
  show ?case
    using run(3) removal_open_fields(4,6) [OF assms(1)]
    by (intro removal_can_pass [OF run(1) 1]) (auto simp: removal_run_initiator [OF assms(1)])
next
  case 2
  note run = admission_run [OF assms(2,4), of aops]
  show ?case
    using run(3) admission_open_fields(3,4) [OF assms(2)]
    by (intro admission_can_pass [OF run(1) 2]) (auto simp: admission_run_parties [OF assms(2)])
next
  case 3
  note run = proposal_run [OF assms(3,4), of pops]
  show ?case
    using run(3) proposal_open_fields(4) [OF assms(3)]
    by (intro proposal_can_pass [OF run(1) 3]) (auto simp: proposal_run_initiator [OF assms(3)])
qed

theorem open_is_winnable_witness:
  "\<exists>votes. removal_state (run_ops removal_step (run_ops removal_step sample_removal
      [R_PeerVote (UserId 3) Remove 1001, R_TargetDecision Keep 1002]) (votes @ [R_Execute sample_owners 1003])) = proposal_state.Executed"
proof -
  have "removal_state (run_ops removal_step sample_removal
      [R_PeerVote (UserId 3) Remove 1001, R_TargetDecision Keep 1002]) = Open"
    by code_simp
  with open_is_winnable [OF sample_opens(1) sample_opens(2) sample_opens(3) sample_opens(4)]
  show ?thesis by blast
qed

section \<open>Votes are final, and what attrition can do\<close>

lemma cast_by_keeps:
  assumes "p \<in> set ps" and "find (\<lambda>q. p_user_id q = u) ps = Some q" and "p_vote q = b" and "p_vote p \<noteq> b"
  shows "p \<in> set (cast_by u v now ps)"
  using assms unfolding cast_by_def by (induction ps) (auto split: if_splits)

definition answers_kept :: "'v \<Rightarrow> 'v peer list \<Rightarrow> 'v peer list \<Rightarrow> bool" where
  "answers_kept pending ps ps' \<longleftrightarrow> (\<forall>p\<in>set ps. p_vote p \<noteq> pending \<longrightarrow> p \<in> set ps')"

lemma answers_kept_refl [simp]: "answers_kept b ps ps"
  by (simp add: answers_kept_def)

lemma answers_kept_trans: "answers_kept b ps qs \<Longrightarrow> answers_kept b qs rs \<Longrightarrow> answers_kept b ps rs"
  by (auto simp: answers_kept_def)

lemma answers_kept_cast:
  "find (\<lambda>q. p_user_id q = u) ps = Some q \<Longrightarrow> p_vote q = b \<Longrightarrow> answers_kept b ps (cast_by u v now ps)"
  by (auto simp: answers_kept_def intro: cast_by_keeps)

lemma removal_step_answers:
  "removal_step r op = Inr r' \<Longrightarrow> answers_kept vote.Pending (rm_peers r) (rm_peers r')
     \<and> (rm_decision r \<noteq> vote.Pending \<longrightarrow> rm_decision r' = rm_decision r)"
  by (cases op)
    (auto simp: removal_op_defs result_simps removal_resolve_def vote_is_cast_def Let_def
      intro: answers_kept_cast split: if_splits option.splits)

lemma admission_step_answers:
  "admission_step a op = Inr a' \<Longrightarrow> answers_kept admission_vote.Pending (ad_peers a) (ad_peers a')"
  by (cases op)
    (auto simp: admission_op_defs result_simps admission_vote_is_cast_def Let_def
      intro: answers_kept_cast split: if_splits option.splits)

lemma proposal_step_answers:
  "proposal_step p op = Inr p' \<Longrightarrow> answers_kept proposal_vote.Pending (pr_peers p) (pr_peers p')"
  by (cases op)
    (auto simp: proposal_op_defs result_simps proposal_vote_is_cast_def Let_def
      intro: answers_kept_cast split: if_splits option.splits)

text \<open>An answer is final: whatever calls follow, a peer who has answered keeps their
  answer and its time, and a target who has decided keeps the decision.\<close>

theorem answers_are_final:
  "(\<forall>q\<in>set (rm_peers r). p_vote q \<noteq> vote.Pending \<longrightarrow> q \<in> set (rm_peers (run_ops removal_step r rops)))
   \<and> (rm_decision r \<noteq> vote.Pending \<longrightarrow> rm_decision (run_ops removal_step r rops) = rm_decision r)
   \<and> (\<forall>q\<in>set (ad_peers a). p_vote q \<noteq> admission_vote.Pending \<longrightarrow> q \<in> set (ad_peers (run_ops admission_step a aops)))
   \<and> (\<forall>q\<in>set (pr_peers p). p_vote q \<noteq> proposal_vote.Pending \<longrightarrow> q \<in> set (pr_peers (run_ops proposal_step p pops)))"
proof -
  have "answers_kept vote.Pending (rm_peers r) (rm_peers (run_ops removal_step r rops))
      \<and> (rm_decision r \<noteq> vote.Pending \<longrightarrow> rm_decision (run_ops removal_step r rops) = rm_decision r)"
    by (rule run_ops_invariant [where I = "\<lambda>x. answers_kept vote.Pending (rm_peers r) (rm_peers x)
          \<and> (rm_decision r \<noteq> vote.Pending \<longrightarrow> rm_decision x = rm_decision r)"])
      (auto dest!: removal_step_answers intro: answers_kept_trans)
  moreover have "answers_kept admission_vote.Pending (ad_peers a) (ad_peers (run_ops admission_step a aops))"
    by (rule run_ops_invariant [where I = "\<lambda>x. answers_kept admission_vote.Pending (ad_peers a) (ad_peers x)"])
      (auto dest!: admission_step_answers intro: answers_kept_trans)
  moreover have "answers_kept proposal_vote.Pending (pr_peers p) (pr_peers (run_ops proposal_step p pops))"
    by (rule run_ops_invariant [where I = "\<lambda>x. answers_kept proposal_vote.Pending (pr_peers p) (pr_peers x)"])
      (auto dest!: proposal_step_answers intro: answers_kept_trans)
  ultimately show ?thesis by (simp add: answers_kept_def)
qed

theorem answers_are_final_witness:
  "rm_decision (run_ops removal_step (sample_removal\<lparr>rm_decision := Keep\<rparr>)
     [R_TargetDecision Remove 1001, R_Expire 1100]) = Keep"
  using answers_are_final [of "sample_removal\<lparr>rm_decision := Keep\<rparr>"
      "[R_TargetDecision Remove 1001, R_Expire 1100]"] by simp

lemma admission_among_Passes:
  "admission_outcome_among a owners = Passes \<longleftrightarrow>
     (\<exists>p\<in>set (ad_peers a). p_user_id p \<in> set owners)
     \<and> (\<forall>p\<in>set (ad_peers a). p_user_id p \<in> set owners \<longrightarrow> p_vote p = Admit)"
  by (auto simp: admission_outcome_among_def unanimity_Passes filter_empty_conv)

text \<open>Deciding against the roster of the moment is not only harder: an open admission
  that one seated voter agreed to and nobody rejected can be executed as soon as everybody
  who has not answered has lost their seat, although the snapshot has not passed. The
  aggregate alone does not prevent it; a caller must ask for the snapshot's outcome too.\<close>

theorem attrition_can_carry:
  assumes "admission_inv a" and "admission_state a = Open"
    and "p \<in> set (ad_peers a)" and "p_vote p = Admit"
  shows "\<exists>a'. admission_execute a
      (ad_initiator a # map p_user_id (filter (\<lambda>q. p_vote q = Admit) (ad_peers a))) now
      = Inr (a', proposal_state.Executed)"
proof -
  let ?roster = "ad_initiator a # map p_user_id (filter (\<lambda>q. p_vote q = Admit) (ad_peers a))"
  have d: "distinct (map p_user_id (ad_peers a))"
    and parties: "ad_initiator a \<notin> p_user_id ` set (ad_peers a)"
      "ad_candidate a \<notin> p_user_id ` set (ad_peers a)" "ad_candidate a \<noteq> ad_initiator a"
    using assms(1) by (auto simp: admission_inv_def voters_def)
  have seated: "p_vote q = Admit" if "q \<in> set (ad_peers a)" and "p_user_id q \<in> set ?roster" for q
  proof -
    note q = that
    have "p_user_id q \<noteq> ad_initiator a" using parties(1) q(1) by (metis imageI)
    then obtain q' where q': "q' \<in> set (ad_peers a)" "p_vote q' = Admit" "p_user_id q = p_user_id q'"
      using q(2) by auto
    then have "q = q'"
      using d q(1) by (simp add: distinct_map inj_on_def)
    with q'(2) show ?thesis by simp
  qed
  have "p_user_id p \<in> set ?roster" using assms(3,4) by simp
  with seated assms(3) have "admission_outcome_among a ?roster = Passes"
    unfolding admission_among_Passes by blast
  moreover have "ad_candidate a \<notin> set ?roster" using parties by auto
  ultimately show ?thesis using admission_executes_iff [OF assms(2)] by simp
qed

theorem attrition_can_carry_witness:
  "admission_outcome (run_ops admission_step sample_admission [A_Vote (UserId 1) Admit 1001]) = outcome.Pending
   \<and> (\<exists>a'. admission_execute (run_ops admission_step sample_admission [A_Vote (UserId 1) Admit 1001])
        [UserId 2, UserId 1] 1002 = Inr (a', proposal_state.Executed))"
proof -
  let ?a = "run_ops admission_step sample_admission [A_Vote (UserId 1) Admit 1001]"
  have "admission_outcome ?a = outcome.Pending" "admission_state ?a = Open"
    "\<lparr>p_user_id = UserId 1, p_vote = Admit, p_voted_at = 1001\<rparr> \<in> set (ad_peers ?a)"
    "ad_initiator ?a # map p_user_id (filter (\<lambda>q. p_vote q = Admit) (ad_peers ?a)) = [UserId 2, UserId 1]"
    by code_simp+
  moreover have "admission_inv ?a"
    using admission_run(1) [OF sample_opens(2,4)] .
  ultimately show ?thesis
    using attrition_can_carry [of ?a "\<lparr>p_user_id = UserId 1, p_vote = Admit, p_voted_at = 1001\<rparr>" 1002]
    by simp
qed

end
