(* ===== verification/Profile.thy ===== *)
theory Profile
  imports Prelude
begin

text \<open>
  \<open>domain/src/users.rs\<close>: the editable profile and its parse-don't-validate constructors,
  with \<open>Email\<close>, \<open>Username\<close> and \<open>AuthSubject\<close>. The Unicode tables (lower case, the
  alphabetic property) and the phone validator of the shared types crate are not code of
  this repository: they are the fields of \<open>ext\<close>, an argument of what uses them, with the
  text of a UUID, the database's \<open>lower\<close>, its error text for a refused row (by the name of
  the constraint or trigger) and the SHA-256 digest, which the stores use.
  \<open>char::is_control\<close> is the general category Cc, written out.
\<close>

record ext =
  to_lowercase :: "rstr \<Rightarrow> rstr"
  is_alphabetic :: "int \<Rightarrow> bool"
  phone_error :: "rstr \<Rightarrow> rstr option"
  uuid_text :: "nat \<Rightarrow> rstr"
  pg_lower :: "rstr \<Rightarrow> rstr"
  pg_error :: "rstr \<Rightarrow> rstr"
  sha256 :: "rstr \<Rightarrow> rstr"
  uuid_parse :: "rstr \<Rightarrow> nat option"

definition is_control :: "int \<Rightarrow> bool" where
  "is_control c \<longleftrightarrow> (0 \<le> c \<and> c \<le> 31) \<or> (127 \<le> c \<and> c \<le> 159)"

section \<open>Identifiers\<close>

datatype email = Email (email_as_str: rstr)

definition email_parse :: "ext \<Rightarrow> rstr \<Rightarrow> domain_error + email" where
  "email_parse E raw =
     (let normalized = to_lowercase E (trim raw)
      in if str_len normalized < 3 \<or> 64 \<notin> set normalized
         then Inl (Validation (lit ''email must contain '' @ [39, 64, 39]))
         else if length normalized > 254
         then Inl (Validation (lit ''email must be at most 254 characters''))
         else Inr (Email normalized))"

definition email_local_part :: "email \<Rightarrow> rstr" where
  "email_local_part m = hd (split_on (\<lambda>c. c = 64) (email_as_str m))"

datatype username = Username (username_as_str: rstr)

definition USERNAME_MIN_CHARS :: nat where "USERNAME_MIN_CHARS = 3"
definition USERNAME_MAX_CHARS :: nat where "USERNAME_MAX_CHARS = 32"

definition username_char :: "int \<Rightarrow> bool" where
  "username_char c \<longleftrightarrow> is_ascii_lowercase c \<or> is_ascii_digit c \<or> c = 95 \<or> c = 46 \<or> c = 45"

definition username_parse :: "ext \<Rightarrow> rstr \<Rightarrow> domain_error + username" where
  "username_parse E raw =
     (let normalized = to_lowercase E (trim raw); len = length normalized
      in if \<not> (USERNAME_MIN_CHARS \<le> len \<and> len \<le> USERNAME_MAX_CHARS) \<or> \<not> list_all username_char normalized
         then Inl (Validation (lit ''username must be '' @ show_nat USERNAME_MIN_CHARS @ lit ''-''
                @ show_nat USERNAME_MAX_CHARS @ lit '' characters of a-z, 0-9, ''
                @ [39, 95, 39] @ lit '', '' @ [39, 46, 39] @ lit '' or '' @ [39, 45, 39]))
         else Inr (Username normalized))"

definition username_defaults_for :: "email \<Rightarrow> username list" where
  "username_defaults_for m = [Username (email_local_part m), Username (email_as_str m)]"

definition username_from_stored :: "rstr \<Rightarrow> username" where
  "username_from_stored raw = Username raw"

datatype auth_subject = AuthSubject (auth_subject_as_str: rstr)

definition auth_subject_parse :: "rstr \<Rightarrow> domain_error + auth_subject" where
  "auth_subject_parse raw =
     (let trimmed = trim raw
      in if trimmed = [] then Inl (Validation (lit ''auth subject must not be empty''))
         else Inr (AuthSubject trimmed))"

datatype provider = Google | Github

definition provider_as_str :: "provider \<Rightarrow> rstr" where
  "provider_as_str p = (case p of Google \<Rightarrow> lit ''google'' | Github \<Rightarrow> lit ''github'')"

record proven_identity =
  pi_provider :: "(provider \<times> rstr) option"
  pi_email :: email
  pi_email_proven :: bool

section \<open>Profile fields\<close>

definition IANA_AREAS :: "rstr list" where
  "IANA_AREAS = map lit [''Africa'', ''America'', ''Antarctica'', ''Arctic'', ''Asia'', ''Atlantic'',
     ''Australia'', ''Etc'', ''Europe'', ''Indian'', ''Pacific'']"

record profile_fields =
  legal_name :: "rstr option"
  preferred_name :: "rstr option"
  phone :: "rstr option"
  date_of_birth :: "rstr option"
  nationality :: "rstr option"
  tax_residence :: "rstr option"
  residential_address :: "rstr option"
  language :: "rstr option"
  base_currency :: "rstr option"
  timezone :: "rstr option"

definition profile_default :: profile_fields where
  "profile_default =
     \<lparr>legal_name = None, preferred_name = None, phone = None, date_of_birth = None,
      nationality = None, tax_residence = None, residential_address = None, language = None,
      base_currency = None, timezone = None\<rparr>"

definition normalized :: "rstr option \<Rightarrow> rstr option" where
  "normalized v = (case v of None \<Rightarrow> None | Some s \<Rightarrow> (if trim s = [] then None else Some (trim s)))"

definition check_len :: "rstr \<Rightarrow> rstr \<Rightarrow> nat \<Rightarrow> domain_error + unit" where
  "check_len field v max_len =
     (if length v > max_len
      then Inl (Validation (field @ lit '' must be at most '' @ show_nat max_len @ lit '' characters''))
      else Inr ())"

definition name_char :: "ext \<Rightarrow> int \<Rightarrow> bool" where
  "name_char E c \<longleftrightarrow> is_alphabetic E c \<or> c = 32 \<or> c = 45 \<or> c = 39 \<or> c = 46"

definition parse_name :: "ext \<Rightarrow> rstr \<Rightarrow> rstr option \<Rightarrow> nat \<Rightarrow> domain_error + rstr option" where
  "parse_name E field v max_len =
     (case normalized v of
        None \<Rightarrow> Inr None
      | Some v \<Rightarrow>
          rbind (check_len field v max_len) (\<lambda>_.
          if \<not> list_all (name_char E) v
          then Inl (Validation (field @ lit '' may only contain letters, spaces, hyphens, apostrophes, and periods''))
          else if length (filter (is_alphabetic E) v) < 2
          then Inl (Validation (field @ lit '' must contain at least 2 letters''))
          else Inr (Some v)))"

definition parse_phone :: "ext \<Rightarrow> rstr option \<Rightarrow> domain_error + rstr option" where
  "parse_phone E v =
     (case normalized v of
        None \<Rightarrow> Inr None
      | Some v \<Rightarrow>
          rbind (check_len (lit ''phone'') v 32) (\<lambda>_.
          case phone_error E v of Some err \<Rightarrow> Inl (Validation err) | None \<Rightarrow> Inr (Some v)))"

definition days_in_month :: "int \<Rightarrow> int \<Rightarrow> int" where
  "days_in_month year month =
     (if month \<in> {1, 3, 5, 7, 8, 10, 12} then 31
      else if month \<in> {4, 6, 9, 11} then 30
      else if month = 2 \<and> year mod 4 = 0 \<and> (year mod 100 \<noteq> 0 \<or> year mod 400 = 0) then 29
      else 28)"

definition digits_value :: "rstr \<Rightarrow> int" where
  "digits_value ds = foldl (\<lambda>n d. 10 * n + (d - 48)) 0 ds"

definition date_shape :: "rstr \<Rightarrow> bool" where
  "date_shape bs \<longleftrightarrow> length bs = 10 \<and>
     list_all (\<lambda>(i, b). if i = 4 \<or> i = 7 then b = 45 else is_ascii_digit b) (enumerate 0 bs)"

definition parse_date_of_birth :: "rstr option \<Rightarrow> domain_error + rstr option" where
  "parse_date_of_birth v =
     (case normalized v of
        None \<Rightarrow> Inr None
      | Some v \<Rightarrow>
          let err = Inl (Validation (lit ''date_of_birth must be a valid YYYY-MM-DD date with year 1900-2100''));
              bs = str_bytes v
          in if \<not> date_shape bs then err
             else
               let year = digits_value (take 4 v);
                   month = digits_value (take 2 (drop 5 v));
                   day = digits_value (take 2 (drop 8 v))
               in if \<not> (1900 \<le> year \<and> year \<le> 2100) \<or> \<not> (1 \<le> month \<and> month \<le> 12)
                     \<or> \<not> (1 \<le> day \<and> day \<le> days_in_month year month)
                  then err
                  else Inr (Some v))"

definition parse_address :: "rstr option \<Rightarrow> domain_error + rstr option" where
  "parse_address v =
     (case normalized v of
        None \<Rightarrow> Inr None
      | Some v \<Rightarrow>
          rbind (check_len (lit ''residential_address'') v 256) (\<lambda>_.
          if list_ex is_control v
          then Inl (Validation (lit ''residential_address must not contain control characters''))
          else Inr (Some v)))"

definition parse_language :: "rstr option \<Rightarrow> domain_error + rstr option" where
  "parse_language v =
     (case normalized v of
        None \<Rightarrow> Inr None
      | Some v \<Rightarrow>
          rbind (check_len (lit ''language'') v 16) (\<lambda>_.
          let subtags = split_on (\<lambda>c. c = 45 \<or> c = 95) v;
              primary = hd subtags;
              err = Inl (Validation (lit ''language must be a BCP 47 code such as '' @ [39] @ lit ''en'' @ [39]
                      @ lit '' or '' @ [39] @ lit ''en-US'' @ [39]))
          in if \<not> (2 \<le> str_len primary \<and> str_len primary \<le> 3)
                \<or> \<not> list_all is_ascii_alphabetic (str_bytes primary)
             then err
             else if list_ex (\<lambda>s. \<not> (2 \<le> str_len s \<and> str_len s \<le> 8)
                                \<or> \<not> list_all is_ascii_alphanumeric (str_bytes s)) (tl subtags)
             then err
             else Inr (Some v)))"

definition to_ascii_uppercase :: "rstr \<Rightarrow> rstr" where
  "to_ascii_uppercase s = map (\<lambda>c. if is_ascii_lowercase c then c - 32 else c) s"

definition parse_currency :: "rstr option \<Rightarrow> domain_error + rstr option" where
  "parse_currency v =
     (case normalized v of
        None \<Rightarrow> Inr None
      | Some v \<Rightarrow>
          if str_len v \<noteq> 3 \<or> \<not> list_all is_ascii_alphabetic (str_bytes v)
          then Inl (Validation (lit ''base_currency must be a 3-letter code such as '' @ [39] @ lit ''USD'' @ [39]))
          else Inr (Some (to_ascii_uppercase v)))"

text \<open>The loop over the locations of a zone name, counting them.\<close>

fun timezone_locations :: "nat \<Rightarrow> rstr list \<Rightarrow> nat option" where
  "timezone_locations locations [] = Some locations"
| "timezone_locations locations (segment # rest) =
     (if segment = [] \<or> \<not> list_all (\<lambda>b. is_ascii_alphanumeric b \<or> b = 95 \<or> b = 43 \<or> b = 45) (str_bytes segment)
      then None
      else timezone_locations (locations + 1) rest)"

definition parse_timezone :: "rstr option \<Rightarrow> domain_error + rstr option" where
  "parse_timezone v =
     (case normalized v of
        None \<Rightarrow> Inr None
      | Some v \<Rightarrow>
          rbind (check_len (lit ''timezone'') v 64) (\<lambda>_.
          if v = lit ''UTC'' \<or> v = lit ''GMT'' then Inr (Some v)
          else
            let segs = split_on (\<lambda>c. c = 47) v;
                err = Inl (Validation (lit ''timezone must be '' @ [39] @ lit ''UTC'' @ [39] @ lit '', '' @ [39]
                        @ lit ''GMT'' @ [39] @ lit '', or an IANA name such as '' @ [39]
                        @ lit ''Asia/Ho_Chi_Minh'' @ [39]))
            in if hd segs \<notin> set IANA_AREAS then err
               else case timezone_locations 0 (tl segs) of
                 None \<Rightarrow> err
               | Some locations \<Rightarrow> if locations = 0 then err else Inr (Some v)))"

definition profile_parse :: "ext \<Rightarrow> profile_fields \<Rightarrow> domain_error + profile_fields" where
  "profile_parse E raw =
     rbind (parse_name E (lit ''legal_name'') (legal_name raw) 256) (\<lambda>f_legal.
     rbind (parse_name E (lit ''preferred_name'') (preferred_name raw) 64) (\<lambda>f_preferred.
     rbind (parse_phone E (phone raw)) (\<lambda>f_phone.
     rbind (parse_date_of_birth (date_of_birth raw)) (\<lambda>f_dob.
     rbind (parse_name E (lit ''nationality'') (nationality raw) 64) (\<lambda>f_nationality.
     rbind (parse_name E (lit ''tax_residence'') (tax_residence raw) 64) (\<lambda>f_tax.
     rbind (parse_address (residential_address raw)) (\<lambda>f_address.
     rbind (parse_language (language raw)) (\<lambda>f_language.
     rbind (parse_currency (base_currency raw)) (\<lambda>f_currency.
     rbind (parse_timezone (timezone raw)) (\<lambda>f_timezone.
     Inr \<lparr>legal_name = f_legal, preferred_name = f_preferred, phone = f_phone,
          date_of_birth = f_dob, nationality = f_nationality, tax_residence = f_tax,
          residential_address = f_address, language = f_language,
          base_currency = f_currency, timezone = f_timezone\<rparr>))))))))))"

section \<open>Normal forms\<close>

lemma normalized_idem [simp]: "normalized (normalized v) = normalized v"
  by (auto simp: normalized_def split: option.splits)

lemma normalized_Some: "normalized v = Some s \<Longrightarrow> normalized (Some s) = Some s \<and> trim s = s \<and> s \<noteq> []"
  by (auto simp: normalized_def split: option.splits if_splits)

lemma normalized_None_arg [simp]: "normalized None = None"
  by (simp add: normalized_def)

lemma check_len_Inr [result_simps]: "check_len field v n = Inr u \<longleftrightarrow> length v \<le> n"
  by (auto simp: check_len_def)

text \<open>The shape of a stored value: absent, or trimmed, not blank and within the column's bound.\<close>

definition field_ok :: "nat \<Rightarrow> (rstr \<Rightarrow> bool) \<Rightarrow> rstr option \<Rightarrow> bool" where
  "field_ok n P v \<longleftrightarrow> (case v of None \<Rightarrow> True | Some s \<Rightarrow> trim s = s \<and> s \<noteq> [] \<and> length s \<le> n \<and> P s)"

definition name_ok :: "ext \<Rightarrow> rstr \<Rightarrow> bool" where
  "name_ok E s \<longleftrightarrow> list_all (name_char E) s \<and> 2 \<le> length (filter (is_alphabetic E) s)"

lemma parse_name_sound:
  assumes "parse_name E field v n = Inr w"
  shows "field_ok n (name_ok E) w \<and> parse_name E field w n = Inr w"
proof (cases "normalized v")
  case None
  then show ?thesis using assms by (simp add: parse_name_def field_ok_def)
next
  case (Some s)
  note ns = normalized_Some [OF Some]
  have "w = Some s" "length s \<le> n" "name_ok E s"
    using assms Some by (auto simp: parse_name_def result_simps name_ok_def split: if_splits)
  with ns show ?thesis by (simp add: parse_name_def check_len_def field_ok_def name_ok_def not_less)
qed

lemma parse_phone_sound:
  assumes "parse_phone E v = Inr w"
  shows "field_ok 32 (\<lambda>s. phone_error E s = None) w \<and> parse_phone E w = Inr w"
proof (cases "normalized v")
  case None
  then show ?thesis using assms by (simp add: parse_phone_def field_ok_def)
next
  case (Some s)
  note ns = normalized_Some [OF Some]
  have "w = Some s" "length s \<le> 32" "phone_error E s = None"
    using assms Some by (auto simp: parse_phone_def result_simps split: option.splits)
  with ns show ?thesis by (simp add: parse_phone_def check_len_def field_ok_def)
qed

lemma parse_address_sound:
  assumes "parse_address v = Inr w"
  shows "field_ok 256 (list_all (\<lambda>c. \<not> is_control c)) w \<and> parse_address w = Inr w"
proof (cases "normalized v")
  case None
  then show ?thesis using assms by (simp add: parse_address_def field_ok_def)
next
  case (Some s)
  note ns = normalized_Some [OF Some]
  have "w = Some s" "length s \<le> 256" "list_all (\<lambda>c. \<not> is_control c) s"
    using assms Some by (auto simp: parse_address_def result_simps list_ex_iff list_all_iff split: if_splits)
  with ns show ?thesis by (auto simp: parse_address_def check_len_def field_ok_def list_ex_iff list_all_iff)
qed

lemma parse_language_sound:
  assumes "parse_language v = Inr w"
  shows "field_ok 16 (\<lambda>s. True) w \<and> parse_language w = Inr w"
proof (cases "normalized v")
  case None
  then show ?thesis using assms by (simp add: parse_language_def field_ok_def)
next
  case (Some s)
  note ns = normalized_Some [OF Some]
  have w: "w = Some s" "length s \<le> 16"
    using assms Some by (auto simp: parse_language_def result_simps Let_def split: if_splits)
  have "parse_language w = parse_language v"
    using w ns Some by (simp add: parse_language_def)
  with w ns assms show ?thesis by (simp add: field_ok_def)
qed

lemma parse_timezone_sound:
  assumes "parse_timezone v = Inr w"
  shows "field_ok 64 (\<lambda>s. True) w \<and> parse_timezone w = Inr w"
proof (cases "normalized v")
  case None
  then show ?thesis using assms by (simp add: parse_timezone_def field_ok_def)
next
  case (Some s)
  note ns = normalized_Some [OF Some]
  have w: "w = Some s" "length s \<le> 64"
    using assms Some by (auto simp: parse_timezone_def result_simps Let_def split: if_splits option.splits)
  have "parse_timezone w = parse_timezone v"
    using w ns Some by (simp add: parse_timezone_def)
  with w ns assms show ?thesis by (simp add: field_ok_def)
qed

text \<open>Bytes below 128 are characters.\<close>

lemma utf8_ascii: "utf8_char c = [c] \<or> (\<exists>b bs. utf8_char c = b # bs \<and> 128 \<le> b)"
  by (auto simp: utf8_char_def)

lemma str_bytes_ascii: "\<forall>b\<in>set (str_bytes s). b < 128 \<Longrightarrow> str_bytes s = s"
proof (induction s)
  case (Cons c s)
  from Cons.prems have "\<forall>b\<in>set (utf8_char c). b < 128" and "\<forall>b\<in>set (str_bytes s). b < 128"
    by (auto simp: str_bytes_def)
  with utf8_ascii [of c] Cons.IH have "utf8_char c = [c]" "str_bytes s = s" by fastforce+
  then show ?case by (simp add: str_bytes_def)
qed (simp add: str_bytes_def)

lemma str_bytes_id: "\<forall>b\<in>set s. b < 128 \<Longrightarrow> str_bytes s = s"
  by (induction s) (auto simp: str_bytes_def utf8_char_def)

lemma str_bytes_letters:
  assumes "list_all P (str_bytes s)" and "\<And>b. P b \<Longrightarrow> b < 128"
  shows "str_bytes s = s"
  using assms by (intro str_bytes_ascii) (auto simp: list_all_iff)

lemma ascii_letter_bound: "is_ascii_alphabetic b \<Longrightarrow> b < 128" "is_ascii_alphanumeric b \<Longrightarrow> b < 128"
  by (auto simp: ascii_defs)

definition currency_ok :: "rstr \<Rightarrow> bool" where
  "currency_ok s \<longleftrightarrow> length s = 3 \<and> list_all is_ascii_uppercase s"

lemma parse_currency_iff:
  "parse_currency v = Inr (Some w) \<longleftrightarrow>
     (\<exists>s. normalized v = Some s \<and> length s = 3 \<and> list_all is_ascii_alphabetic s \<and> w = to_ascii_uppercase s)"
proof -
  have "str_len s = 3 \<and> list_all is_ascii_alphabetic (str_bytes s) \<longleftrightarrow>
      length s = 3 \<and> list_all is_ascii_alphabetic s" for s
    using str_bytes_letters [of is_ascii_alphabetic s] ascii_letter_bound(1) str_bytes_id [of s]
    by (auto simp: str_len_def list_all_iff)
  then show ?thesis
    by (auto simp: parse_currency_def split: option.splits if_splits)
qed

lemma uppercase_letters:
  "list_all is_ascii_alphabetic s \<Longrightarrow> list_all is_ascii_uppercase (to_ascii_uppercase s)"
  by (induction s) (auto simp: to_ascii_uppercase_def ascii_defs)

lemma uppercase_id: "list_all is_ascii_uppercase s \<Longrightarrow> to_ascii_uppercase s = s"
  by (induction s) (auto simp: to_ascii_uppercase_def ascii_defs)

lemma trim_no_space: "\<forall>c\<in>set s. \<not> is_whitespace c \<Longrightarrow> trim s = s"
proof -
  have *: "\<forall>c\<in>set t. \<not> is_whitespace c \<Longrightarrow> dropWhile is_whitespace t = t" for t
    by (cases t) auto
  assume "\<forall>c\<in>set s. \<not> is_whitespace c"
  then show ?thesis by (simp add: trim_def *)
qed

lemma uppercase_no_space: "is_ascii_uppercase c \<Longrightarrow> \<not> is_whitespace c"
  by (auto simp: ascii_defs is_whitespace_def)

lemma parse_currency_sound:
  assumes "parse_currency v = Inr w"
  shows "field_ok 3 currency_ok w \<and> parse_currency w = Inr w"
proof (cases w)
  case None
  then show ?thesis by (simp add: field_ok_def parse_currency_def)
next
  case (Some u)
  then obtain s where s: "length s = 3" "list_all is_ascii_alphabetic s" "u = to_ascii_uppercase s"
    using assms by (auto simp: parse_currency_iff)
  then have u: "length u = 3" "list_all is_ascii_uppercase u"
    using uppercase_letters by (auto simp: to_ascii_uppercase_def)
  then have t: "trim u = u" "u \<noteq> []"
    using uppercase_no_space by (auto simp: list_all_iff intro!: trim_no_space)
  have "list_all is_ascii_alphabetic u"
    using u(2) by (auto simp: list_all_iff is_ascii_alphabetic_def)
  then have "parse_currency (Some u) = Inr (Some u)"
    using u t by (simp add: parse_currency_iff normalized_def uppercase_id)
  with Some u t show ?thesis by (simp add: field_ok_def currency_ok_def)
qed

section \<open>Dates\<close>

definition digit :: "int \<Rightarrow> int" where
  "digit n = 48 + n mod 10"

definition render_date :: "int \<Rightarrow> int \<Rightarrow> int \<Rightarrow> rstr" where
  "render_date y m d =
     [digit (y div 1000), digit (y div 100), digit (y div 10), digit y, 45,
      digit (m div 10), digit m, 45, digit (d div 10), digit d]"

definition valid_date :: "int \<Rightarrow> int \<Rightarrow> int \<Rightarrow> bool" where
  "valid_date y m d \<longleftrightarrow> 1900 \<le> y \<and> y \<le> 2100 \<and> 1 \<le> m \<and> m \<le> 12 \<and> 1 \<le> d \<and> d \<le> days_in_month y m"

lemma days_in_month_le: "days_in_month y m \<le> 31"
  by (simp add: days_in_month_def)

lemma digit_char: "is_ascii_digit c \<longleftrightarrow> (\<exists>n. 0 \<le> n \<and> n \<le> 9 \<and> c = 48 + n)"
  by (auto simp: is_ascii_digit_def intro: exI [of _ "c - 48"])

lemma digit_is_digit [simp]: "is_ascii_digit (digit n)"
  using pos_mod_bound [of 10 n] pos_mod_sign [of 10 n] by (simp add: is_ascii_digit_def digit_def)

lemma date_shape_iff:
  "date_shape s \<longleftrightarrow> (\<exists>a b c d e f g h. s = [a, b, c, d, 45, e, f, 45, g, h]
      \<and> list_all is_ascii_digit [a, b, c, d, e, f, g, h])"
proof
  assume ds: "date_shape s"
  then have "length s = 10" by (simp add: date_shape_def)
  then obtain a b c d x e f y g h where "s = [a, b, c, d, x, e, f, y, g, h]"
    by (auto simp: numeral_eq_Suc length_Suc_conv)
  with ds show "\<exists>a b c d e f g h. s = [a, b, c, d, 45, e, f, 45, g, h]
      \<and> list_all is_ascii_digit [a, b, c, d, e, f, g, h]"
    by (simp add: date_shape_def)
qed (auto simp: date_shape_def)

lemma date_shape_bytes: "date_shape (str_bytes s) \<longleftrightarrow> date_shape s"
proof
  assume ds: "date_shape (str_bytes s)"
  then have "\<forall>b\<in>set (str_bytes s). b < 128"
    by (auto simp: date_shape_iff is_ascii_digit_def)
  from str_bytes_ascii [OF this] ds show "date_shape s" by simp
next
  assume ds: "date_shape s"
  then have "\<forall>b\<in>set s. b < 128"
    by (auto simp: date_shape_iff is_ascii_digit_def)
  from str_bytes_id [OF this] ds show "date_shape (str_bytes s)" by simp
qed

lemma digits4:
  assumes "0 \<le> a" "a \<le> 9" "0 \<le> b" "b \<le> 9" "0 \<le> c" "c \<le> 9" "0 \<le> d" "d \<le> (9::int)"
  shows "(1000 * a + 100 * b + 10 * c + d) div 1000 = a"
    "(1000 * a + 100 * b + 10 * c + d) div 100 = 10 * a + b"
    "(1000 * a + 100 * b + 10 * c + d) div 10 = 100 * a + 10 * b + c"
  using assms by linarith+

lemma digits_sum:
  fixes y :: int
  assumes "0 \<le> y" "y \<le> 9999"
  shows "1000 * (y div 1000 mod 10) + 100 * (y div 100 mod 10) + 10 * (y div 10 mod 10) + y mod 10 = y"
    and "y \<le> 99 \<Longrightarrow> 10 * (y div 10 mod 10) + y mod 10 = y"
proof -
  have d: "y div 100 = y div 10 div 10" "y div 1000 = y div 10 div 10 div 10"
    using zdiv_zmult2_eq [of 10 y 10] zdiv_zmult2_eq [of 10 y 100] zdiv_zmult2_eq [of 10 "y div 10" 10] by simp_all
  have m: "(y div 10 div 10 div 10) mod 10 = y div 10 div 10 div 10"
    using assms by (intro mod_pos_pos_trivial) linarith+
  show "1000 * (y div 1000 mod 10) + 100 * (y div 100 mod 10) + 10 * (y div 10 mod 10) + y mod 10 = y"
    unfolding d m using mult_div_mod_eq [of 10 y] mult_div_mod_eq [of 10 "y div 10"]
      mult_div_mod_eq [of 10 "y div 10 div 10"] by linarith
  show "10 * (y div 10 mod 10) + y mod 10 = y" if "y \<le> 99"
    using mod_pos_pos_trivial [of "y div 10" 10] assms that mult_div_mod_eq [of 10 y] by linarith
qed

lemma digits_value_4: "digits_value [48 + a, 48 + b, 48 + c, 48 + d] = 1000 * a + 100 * b + 10 * c + d"
  by (simp add: digits_value_def)

lemma digits_value_2: "digits_value [48 + a, 48 + b] = 10 * a + b"
  by (simp add: digits_value_def)

lemma render_digits:
  assumes "0 \<le> y" "y \<le> 9999" "0 \<le> m" "m \<le> 99" "0 \<le> d" "d \<le> 99"
  shows "digits_value (take 4 (render_date y m d)) = y"
    "digits_value (take 2 (drop 5 (render_date y m d))) = m"
    "digits_value (take 2 (drop 8 (render_date y m d))) = d"
proof -
  have t: "take 4 (render_date y m d) = [digit (y div 1000), digit (y div 100), digit (y div 10), digit y]"
    "take 2 (drop 5 (render_date y m d)) = [digit (m div 10), digit m]"
    "take 2 (drop 8 (render_date y m d)) = [digit (d div 10), digit d]"
    by (simp_all add: render_date_def)
  show "digits_value (take 4 (render_date y m d)) = y"
    unfolding t digit_def digits_value_4 using digits_sum(1) assms by simp
  show "digits_value (take 2 (drop 5 (render_date y m d))) = m"
    unfolding t digit_def digits_value_2 using digits_sum(2) assms by simp
  show "digits_value (take 2 (drop 8 (render_date y m d))) = d"
    unfolding t digit_def digits_value_2 using digits_sum(2) assms by simp
qed

lemma render_parsed:
  assumes "date_shape s"
  shows "s = render_date (digits_value (take 4 s)) (digits_value (take 2 (drop 5 s))) (digits_value (take 2 (drop 8 s)))"
proof -
  obtain a b c d e f g h where s: "s = [48 + a, 48 + b, 48 + c, 48 + d, 45, 48 + e, 48 + f, 45, 48 + g, 48 + h]"
    and r: "0 \<le> a" "a \<le> 9" "0 \<le> b" "b \<le> 9" "0 \<le> c" "c \<le> 9" "0 \<le> d" "d \<le> 9"
      "0 \<le> e" "e \<le> 9" "0 \<le> f" "f \<le> 9" "0 \<le> g" "g \<le> 9" "0 \<le> h" "h \<le> 9"
    using assms by (auto simp: date_shape_iff digit_char)
  have v: "digits_value (take 4 s) = 1000 * a + 100 * b + 10 * c + d"
    "digits_value (take 2 (drop 5 s)) = 10 * e + f" "digits_value (take 2 (drop 8 s)) = 10 * g + h"
    by (simp_all add: s digits_value_def numeral_eq_Suc)
  have two: "(10 * x + y) div 10 = x" "(10 * x + y) mod 10 = y" if "0 \<le> y" "y \<le> 9" for x y :: int
    using that by presburger+
  have y: "(1000 * a + 100 * b + 10 * c + d) div 1000 = a"
    "(1000 * a + 100 * b + 10 * c + d) div 100 = 10 * a + b"
    "(1000 * a + 100 * b + 10 * c + d) div 10 = 10 * (10 * a + b) + c"
    "1000 * a + 100 * b + 10 * c + d = 10 * (100 * a + 10 * b + c) + d"
    using digits4 [OF r(1-8)] by simp_all
  have my: "(1000 * a + 100 * b + 10 * c + d) mod 10 = d" unfolding y(4) by (rule two(2)) (fact r)+
  have mc: "(10 * (10 * a + b) + c) mod 10 = c" by (rule two(2)) (fact r)+
  have mb: "(10 * a + b) mod 10 = b" by (rule two(2)) (fact r)+
  have ma: "a mod 10 = a" "e mod 10 = e" "g mod 10 = g" using r by simp_all
  have me: "(10 * e + f) div 10 = e" "(10 * e + f) mod 10 = f" "(10 * g + h) div 10 = g" "(10 * g + h) mod 10 = h"
    using two r by blast+
  show ?thesis
    unfolding v render_date_def digit_def y(1-3) my mc mb me ma by (rule s)
qed

lemma parse_date_iff:
  "parse_date_of_birth v = Inr (Some w) \<longleftrightarrow>
     normalized v = Some w \<and> (\<exists>y m d. valid_date y m d \<and> w = render_date y m d)"
proof -
  have "date_shape w \<and> valid_date (digits_value (take 4 w)) (digits_value (take 2 (drop 5 w))) (digits_value (take 2 (drop 8 w)))
      \<longleftrightarrow> (\<exists>y m d. valid_date y m d \<and> w = render_date y m d)" (is "?L \<longleftrightarrow> ?R")
  proof
    assume ?L
    then show ?R using render_parsed by blast
  next
    assume ?R
    then obtain y m d where d: "valid_date y m d" "w = render_date y m d" by blast
    have "date_shape w" unfolding d(2) by (simp add: date_shape_iff render_date_def)
    moreover have "0 \<le> y" "y \<le> 9999" "0 \<le> m" "m \<le> 99" "0 \<le> d" "d \<le> 99"
      using d(1) days_in_month_le [of y m] by (simp_all add: valid_date_def)
    ultimately show ?L using d render_digits by simp
  qed
  moreover have "parse_date_of_birth v = Inr (Some w) \<longleftrightarrow> normalized v = Some w \<and> ?L"
    by (auto simp: parse_date_of_birth_def date_shape_bytes valid_date_def Let_def split: option.splits if_splits)
  ultimately show ?thesis by simp
qed

lemma render_date_ok: "field_ok 10 (\<lambda>_. True) (Some (render_date y m d))"
proof -
  have d: "\<not> is_whitespace (digit n)" for n
    using digit_is_digit [of n] unfolding is_ascii_digit_def is_whitespace_def by linarith
  have "trim (render_date y m d) = render_date y m d"
    by (rule trim_no_space) (auto simp: render_date_def d, simp add: is_whitespace_def)
  then show ?thesis by (simp add: field_ok_def render_date_def)
qed

lemma parse_date_sound:
  assumes "parse_date_of_birth v = Inr w"
  shows "field_ok 10 (\<lambda>s. \<exists>y m d. valid_date y m d \<and> s = render_date y m d) w \<and> parse_date_of_birth w = Inr w"
proof (cases w)
  case None
  then show ?thesis by (simp add: field_ok_def parse_date_of_birth_def)
next
  case (Some s)
  with assms have s: "normalized v = Some s" "\<exists>y m d. valid_date y m d \<and> s = render_date y m d"
    by (simp_all add: parse_date_iff)
  then show ?thesis
    using render_date_ok normalized_Some [OF s(1)] Some by (auto simp: field_ok_def parse_date_iff)
qed

text \<open>A date of birth is stored exactly when, trimmed, it is the ten-character
  year-month-day rendering of a day that exists, between 1900 and 2100: leap years are
  the Gregorian ones, and nothing else of that shape gets through.\<close>

theorem date_of_birth_exact:
  "(parse_date_of_birth (Some raw) = Inr (Some w)) \<longleftrightarrow>
     w = trim raw \<and> (\<exists>y m d. 1900 \<le> y \<and> y \<le> 2100 \<and> 1 \<le> m \<and> m \<le> 12 \<and> 1 \<le> d
       \<and> d \<le> (if m = 2 then (if y mod 4 = 0 \<and> (y mod 100 \<noteq> 0 \<or> y mod 400 = 0) then 29 else 28)
              else if m = 4 \<or> m = 6 \<or> m = 9 \<or> m = 11 then 30 else 31)
       \<and> w = render_date y m d)"
proof -
  have days: "days_in_month y m = (if m = 2 then (if y mod 4 = 0 \<and> (y mod 100 \<noteq> 0 \<or> y mod 400 = 0) then 29 else 28)
              else if m = 4 \<or> m = 6 \<or> m = 9 \<or> m = 11 then 30 else 31)" if "1 \<le> m" "m \<le> 12" for y m
  proof -
    have "m = 1 \<or> m = 2 \<or> m = 3 \<or> m = 4 \<or> m = 5 \<or> m = 6 \<or> m = 7 \<or> m = 8 \<or> m = 9 \<or> m = 10
        \<or> m = 11 \<or> m = 12"
      using that by presburger
    then show ?thesis by (elim disjE) (simp_all add: days_in_month_def)
  qed
  have "normalized (Some raw) = Some w \<longleftrightarrow> w = trim raw" if "w = render_date y m d" for y m d
    using that by (auto simp: normalized_def render_date_def)
  then have "parse_date_of_birth (Some raw) = Inr (Some w) \<longleftrightarrow>
      w = trim raw \<and> (\<exists>y m d. valid_date y m d \<and> w = render_date y m d)"
    unfolding parse_date_iff by blast
  then show ?thesis by (auto simp: valid_date_def days cong: conj_cong)
qed

theorem date_of_birth_exact_witness:
  "\<exists>y m d. 1900 \<le> y \<and> y \<le> 2100 \<and> lit ''1996-02-29'' = render_date y m d"
proof -
  have "parse_date_of_birth (Some (lit '' 1996-02-29'')) = Inr (Some (lit ''1996-02-29''))" by code_simp
  then show ?thesis unfolding date_of_birth_exact by blast
qed

section \<open>The whole profile\<close>

definition profile_ok :: "ext \<Rightarrow> profile_fields \<Rightarrow> bool" where
  "profile_ok E p \<longleftrightarrow>
     field_ok 256 (name_ok E) (legal_name p) \<and> field_ok 64 (name_ok E) (preferred_name p)
     \<and> field_ok 32 (\<lambda>s. phone_error E s = None) (phone p)
     \<and> field_ok 10 (\<lambda>s. \<exists>y m d. valid_date y m d \<and> s = render_date y m d) (date_of_birth p)
     \<and> field_ok 64 (name_ok E) (nationality p) \<and> field_ok 64 (name_ok E) (tax_residence p)
     \<and> field_ok 256 (list_all (\<lambda>c. \<not> is_control c)) (residential_address p)
     \<and> field_ok 16 (\<lambda>_. True) (language p) \<and> field_ok 3 currency_ok (base_currency p)
     \<and> field_ok 64 (\<lambda>_. True) (timezone p)"

lemma profile_parse_fields:
  assumes "profile_parse E raw = Inr p"
  shows "parse_name E (lit ''legal_name'') (legal_name raw) 256 = Inr (legal_name p)"
    "parse_name E (lit ''preferred_name'') (preferred_name raw) 64 = Inr (preferred_name p)"
    "parse_phone E (phone raw) = Inr (phone p)"
    "parse_date_of_birth (date_of_birth raw) = Inr (date_of_birth p)"
    "parse_name E (lit ''nationality'') (nationality raw) 64 = Inr (nationality p)"
    "parse_name E (lit ''tax_residence'') (tax_residence raw) 64 = Inr (tax_residence p)"
    "parse_address (residential_address raw) = Inr (residential_address p)"
    "parse_language (language raw) = Inr (language p)"
    "parse_currency (base_currency raw) = Inr (base_currency p)"
    "parse_timezone (timezone raw) = Inr (timezone p)"
  using assms by (auto simp: profile_parse_def result_simps)

lemma profile_parse_ok:
  assumes "profile_parse E raw = Inr p"
  shows "profile_ok E p"
proof -
  note f = profile_parse_fields [OF assms]
  note sounds = f(1,2,5,6) [THEN parse_name_sound, THEN conjunct1]
    f(3) [THEN parse_phone_sound, THEN conjunct1] f(4) [THEN parse_date_sound, THEN conjunct1]
    f(7) [THEN parse_address_sound, THEN conjunct1] f(8) [THEN parse_language_sound, THEN conjunct1]
    f(9) [THEN parse_currency_sound, THEN conjunct1] f(10) [THEN parse_timezone_sound, THEN conjunct1]
  show ?thesis unfolding profile_ok_def by (intro conjI sounds)
qed

lemma profile_parse_idem:
  assumes "profile_parse E raw = Inr p"
  shows "profile_parse E p = Inr p"
proof -
  note f = profile_parse_fields [OF assms]
  note sounds = f(1,2,5,6) [THEN parse_name_sound, THEN conjunct2]
    f(3) [THEN parse_phone_sound, THEN conjunct2] f(4) [THEN parse_date_sound, THEN conjunct2]
    f(7) [THEN parse_address_sound, THEN conjunct2] f(8) [THEN parse_language_sound, THEN conjunct2]
    f(9) [THEN parse_currency_sound, THEN conjunct2] f(10) [THEN parse_timezone_sound, THEN conjunct2]
  show ?thesis unfolding profile_parse_def by (simp add: sounds)
qed

text \<open>Whatever is typed into the profile form, a set that is accepted is in normal form:
  every field is absent or trimmed, not blank, within its column's bound and of its field's
  kind (names of letters with two at least, an accepted phone number, a real date, an
  address free of control characters, a three-letter upper-case currency); and parsing it
  again changes nothing, so a stored profile is accepted as it stands.\<close>

theorem profile_parse_normal:
  assumes "profile_parse E raw = Inr p"
  shows "profile_ok E p \<and> profile_parse E p = Inr p"
  using profile_parse_ok [OF assms] profile_parse_idem [OF assms] by blast

definition ascii_ext :: ext where
  "ascii_ext = \<lparr>to_lowercase = map (\<lambda>c. if is_ascii_uppercase c then c + 32 else c),
     is_alphabetic = is_ascii_alphabetic,
     phone_error = (\<lambda>s. if hd s = 43 then None else Some (lit ''must be E.164'')),
     uuid_text = show_nat,
     pg_lower = map (\<lambda>c. if is_ascii_uppercase c then c + 32 else c),
     pg_error = (\<lambda>name. lit ''violates constraint '' @ name),
     sha256 = (\<lambda>s. s),
     uuid_parse = (\<lambda>s. if s \<noteq> [] \<and> list_all is_ascii_digit s then Some (foldl (\<lambda>n c. 10 * n + nat (c - 48)) 0 s) else None)\<rparr>"

definition sample_profile :: profile_fields where
  "sample_profile = profile_default\<lparr>legal_name := Some (lit ''  Ada Lovelace ''),
     date_of_birth := Some (lit ''1996-02-29''), base_currency := Some (lit '' usd''), language := Some (lit ''  '')\<rparr>"

theorem profile_parse_normal_witness:
  "profile_parse ascii_ext sample_profile =
     Inr (profile_default\<lparr>legal_name := Some (lit ''Ada Lovelace''),
       date_of_birth := Some (lit ''1996-02-29''), base_currency := Some (lit ''USD'')\<rparr>)
   \<and> profile_ok ascii_ext (profile_default\<lparr>legal_name := Some (lit ''Ada Lovelace''),
       date_of_birth := Some (lit ''1996-02-29''), base_currency := Some (lit ''USD'')\<rparr>)"
proof -
  have p: "profile_parse ascii_ext sample_profile =
     Inr (profile_default\<lparr>legal_name := Some (lit ''Ada Lovelace''),
       date_of_birth := Some (lit ''1996-02-29''), base_currency := Some (lit ''USD'')\<rparr>)"
    by code_simp
  from profile_parse_normal [OF p] p show ?thesis by blast
qed

section \<open>Handles and addresses\<close>

text \<open>What is used of Unicode lower case: it changes nothing twice and brings no white space to
  the ends of a trimmed string.\<close>

definition lowercase_laws :: "ext \<Rightarrow> bool" where
  "lowercase_laws E \<longleftrightarrow>
     (\<forall>s. to_lowercase E (to_lowercase E s) = to_lowercase E s)
     \<and> (\<forall>s. trim s = s \<longrightarrow> trim (to_lowercase E s) = to_lowercase E s)"

lemma ascii_lower_space:
  "is_whitespace (if is_ascii_uppercase c then c + 32 else c) = is_whitespace c"
  by (auto simp: is_whitespace_def is_ascii_uppercase_def)

lemma trim_map:
  assumes "\<And>c. is_whitespace (f c) = is_whitespace c"
  shows "trim (map f s) = map f (trim s)"
  by (simp add: trim_def dropWhile_map comp_def assms rev_map)

lemma ascii_ext_laws: "lowercase_laws ascii_ext"
proof -
  have "map (\<lambda>c. if is_ascii_uppercase c then c + 32 else c) (map (\<lambda>c. if is_ascii_uppercase c then c + 32 else c) s)
      = map (\<lambda>c. if is_ascii_uppercase c then c + 32 else c) s" for s
    by (auto simp: is_ascii_uppercase_def)
  then show ?thesis
    by (simp add: lowercase_laws_def ascii_ext_def trim_map ascii_lower_space)
qed

text \<open>An accepted address or handle is in normal form: reading the stored string again
  gives the same value. A chosen handle has 3 to 32 characters of the allowed set, so it
  holds no at-sign and is never anybody's address; an address holds one, is at most 254
  characters, and its local part is a proper piece of it without any at-sign.\<close>

theorem names_normal:
  assumes "lowercase_laws E" and "email_parse E raw = Inr m" and "username_parse E raw' = Inr u"
  shows "email_parse E (email_as_str m) = Inr m \<and> username_parse E (username_as_str u) = Inr u
    \<and> 3 \<le> length (username_as_str u) \<and> length (username_as_str u) \<le> 32
    \<and> list_all username_char (username_as_str u) \<and> username_as_str u \<noteq> email_as_str m
    \<and> 64 \<in> set (email_as_str m) \<and> length (email_as_str m) \<le> 254
    \<and> 64 \<notin> set (email_local_part m) \<and> (\<exists>rest. email_as_str m = email_local_part m @ 64 # rest)"
proof -
  have lower: "to_lowercase E (trim (to_lowercase E (trim s))) = to_lowercase E (trim s)" for s
    using assms(1) by (simp add: lowercase_laws_def)
  have m: "email_as_str m = to_lowercase E (trim raw)" "64 \<in> set (email_as_str m)"
    "length (email_as_str m) \<le> 254" "email_parse E (email_as_str m) = Inr m"
    using assms(2) by (auto simp: email_parse_def Let_def lower split: if_splits)
  have u: "list_all username_char (username_as_str u)" "3 \<le> length (username_as_str u)"
    "length (username_as_str u) \<le> 32" "username_parse E (username_as_str u) = Inr u"
    using assms(3)
    by (auto simp: username_parse_def Let_def lower USERNAME_MIN_CHARS_def USERNAME_MAX_CHARS_def split: if_splits)
  have "64 \<notin> set (username_as_str u)"
    using u(1) by (auto simp: list_all_iff username_char_def ascii_defs)
  with m(2) have ne: "username_as_str u \<noteq> email_as_str m" by metis
  obtain xs rest where xs: "email_as_str m = xs @ 64 # rest" "64 \<notin> set xs"
    using m(2) by (metis split_list_first)
  have "list_all (\<lambda>c. c \<noteq> 64) xs" using xs(2) by (auto simp: list_all_iff)
  then have lp: "email_local_part m = xs"
    unfolding email_local_part_def xs(1)
    by (subst split_on_append_sep) simp_all
  have "64 \<notin> set (email_local_part m)" "\<exists>rest. email_as_str m = email_local_part m @ 64 # rest"
    unfolding lp using xs by blast+
  then show ?thesis by (intro conjI m(2-4) u ne)
qed

theorem names_normal_witness:
  "email_parse ascii_ext (lit ''ada@example.com'') = Inr (Email (lit ''ada@example.com''))
   \<and> username_as_str (Username (lit ''ada'')) \<noteq> email_as_str (Email (lit ''ada@example.com''))"
proof -
  have e: "email_parse ascii_ext (lit '' Ada@Example.com'') = Inr (Email (lit ''ada@example.com''))"
    and u: "username_parse ascii_ext (lit ''ADA'') = Inr (Username (lit ''ada''))"
    by code_simp+
  from names_normal [OF ascii_ext_laws e u] show ?thesis by simp
qed

end
