(* ===== verification/Scopes.thy ===== *)
theory Scopes
  imports Prelude
begin

text \<open>
  Permission scopes: \<open>iam/src/lib.rs\<close> (patterns and catalogs), \<open>iam_derive/src/lib.rs\<close>
  (how a permission enum names its variants) and \<open>domain/src/iam.rs\<close> (what a grant names
  and what it resolves to). A \<open>BTreeSet\<close> of strings is the list of its elements in order, a
  \<open>BTreeMap\<close> the association list of its entries in order of the keys.
\<close>

section \<open>Names\<close>

definition MAX_NAME_CHARS :: nat where "MAX_NAME_CHARS = 128"
definition MAX_PERMISSIONS :: nat where "MAX_PERMISSIONS = 1024"
definition MAX_ALIASES :: nat where "MAX_ALIASES = 128"

definition colon :: int where "colon = 58"
definition star :: rstr where "star = [42]"

definition segments :: "rstr \<Rightarrow> rstr list" where
  "segments s = split_on (\<lambda>c. c = colon) s"

definition is_segment :: "rstr \<Rightarrow> bool" where
  "is_segment s \<longleftrightarrow> s \<noteq> [] \<and>
     list_all (\<lambda>b. is_ascii_lowercase b \<or> is_ascii_digit b \<or> b = 95) (str_bytes s)"

text \<open>\<open>derive(Permission)\<close>: a variant is its enum's prefix and its snake-case name.\<close>

definition permission_name :: "rstr \<Rightarrow> rstr \<Rightarrow> rstr" where
  "permission_name prefix variant = prefix @ colon # variant"

definition valid_prefix :: "rstr \<Rightarrow> bool" where
  "valid_prefix prefix \<longleftrightarrow> 2 \<le> length (segments prefix) \<and> list_all is_segment (segments prefix)"

section \<open>Patterns\<close>

datatype pattern = Pattern (pattern_str: rstr)

definition pattern_parse :: "rstr \<Rightarrow> rstr + pattern" where
  "pattern_parse raw =
     (if length raw > MAX_NAME_CHARS
      then Inl (lit ''a permission pattern is at most '' @ show_nat MAX_NAME_CHARS @ lit '' characters'')
      else
        let segs = segments raw
        in if 2 \<le> length segs \<and> is_segment (hd segs)
              \<and> list_all (\<lambda>s. s = star \<or> is_segment s) (tl segs)
           then Inr (Pattern raw)
           else Inl (lit ''`'' @ take 64 raw @ lit ''` is not a permission pattern''))"

definition pattern_namespace :: "pattern \<Rightarrow> rstr" where
  "pattern_namespace p = hd (segments (pattern_str p))"

text \<open>
  The loop of \<open>contains\<close> over the segments still ahead: \<open>mine\<close> from index \<open>i\<close>, \<open>theirs\<close>
  from index \<open>i\<close>. Falling out of the loop compares the two lengths, which agree exactly
  when nothing is left of \<open>theirs\<close>.
\<close>

fun contains_loop :: "rstr list \<Rightarrow> rstr list \<Rightarrow> bool" where
  "contains_loop [] theirs \<longleftrightarrow> theirs = []"
| "contains_loop (seg # mine) theirs \<longleftrightarrow>
     (let final = (mine = []) in
      if final \<and> seg = star then theirs \<noteq> []
      else case theirs of
        [] \<Rightarrow> False
      | their # rest \<Rightarrow>
          if rest = [] \<and> their = star \<and> \<not> final then False
          else if seg \<noteq> star \<and> seg \<noteq> their then False
          else contains_loop mine rest)"

definition pattern_contains :: "pattern \<Rightarrow> pattern \<Rightarrow> bool" where
  "pattern_contains p q \<longleftrightarrow> contains_loop (segments (pattern_str p)) (segments (pattern_str q))"

definition pattern_matches :: "pattern \<Rightarrow> rstr \<Rightarrow> bool" where
  "pattern_matches p permission \<longleftrightarrow> pattern_contains p (Pattern permission)"

section \<open>Catalogs\<close>

record catalog =
  cat_version :: nat
  cat_permissions :: "rstr list"
  cat_aliases :: "(rstr \<times> rstr list) list"
  cat_delegations :: "(rstr \<times> rstr list) list"

definition catalog_ours :: "rstr \<Rightarrow> rstr \<Rightarrow> bool" where
  "catalog_ours ns raw \<longleftrightarrow> length raw \<le> MAX_NAME_CHARS \<and> hd (segments raw) = ns"

definition is_permission_of :: "rstr \<Rightarrow> rstr \<Rightarrow> bool" where
  "is_permission_of ns p \<longleftrightarrow>
     3 \<le> length (segments p) \<and> list_all is_segment (segments p) \<and> catalog_ours ns p"

definition is_alias_of :: "rstr \<Rightarrow> rstr \<Rightarrow> bool" where
  "is_alias_of ns name \<longleftrightarrow>
     length (segments name) = 2 \<and> list_all is_segment (segments name) \<and> catalog_ours ns name"

text \<open>The three loops of \<open>Catalog::check\<close>; each leaves with the first offender.\<close>

fun check_permissions :: "rstr \<Rightarrow> rstr list \<Rightarrow> rstr + unit" where
  "check_permissions ns [] = Inr ()"
| "check_permissions ns (p # ps) =
     (if \<not> is_permission_of ns p
      then Inl (lit ''`'' @ p @ lit ''` is not a permission of `'' @ ns @ lit ''`'')
      else check_permissions ns ps)"

fun check_aliases :: "catalog \<Rightarrow> rstr \<Rightarrow> (rstr \<times> rstr list) list \<Rightarrow> rstr + unit" where
  "check_aliases c ns [] = Inr ()"
| "check_aliases c ns ((name, members) # rest) =
     (if \<not> is_alias_of ns name
      then Inl (lit ''`'' @ name @ lit ''` is not an alias name of `'' @ ns @ lit ''`'')
      else case find (\<lambda>m. m \<notin> set (cat_permissions c)) members of
        Some stray \<Rightarrow> Inl (lit ''alias `'' @ name @ lit ''` names `'' @ stray
                        @ lit ''`, which this catalog does not define'')
      | None \<Rightarrow> check_aliases c ns rest)"

fun check_delegations :: "catalog \<Rightarrow> (rstr \<times> rstr list) list \<Rightarrow> rstr + unit" where
  "check_delegations c [] = Inr ()"
| "check_delegations c ((name, delegates) # rest) =
     (if name \<notin> fst ` set (cat_aliases c) \<or> delegates = []
      then Inl (lit ''`'' @ name @ lit ''` delegates, but is no alias of this catalog or delegates nothing'')
      else case find (\<lambda>d. d \<notin> fst ` set (cat_aliases c) \<or> d \<in> fst ` set (cat_delegations c)) delegates of
        Some stray \<Rightarrow> Inl (lit ''alias `'' @ name @ lit ''` delegates `'' @ stray
                        @ lit ''`, which is no alias of this catalog or delegates itself'')
      | None \<Rightarrow> check_delegations c rest)"

definition catalog_check :: "catalog \<Rightarrow> rstr \<Rightarrow> rstr + unit" where
  "catalog_check c ns =
     (if length (cat_permissions c) > MAX_PERMISSIONS \<or> length (cat_aliases c) > MAX_ALIASES
      then Inl (lit ''a catalog holds at most '' @ show_nat MAX_PERMISSIONS @ lit '' permissions and ''
             @ show_nat MAX_ALIASES @ lit '' aliases'')
      else rbind (check_permissions ns (cat_permissions c)) (\<lambda>_.
           rbind (check_aliases c ns (cat_aliases c)) (\<lambda>_.
           check_delegations c (cat_delegations c))))"

section \<open>Targets of a grant\<close>

definition RESERVED_NAMESPACES :: "rstr list" where
  "RESERVED_NAMESPACES = [lit ''iam'', lit ''concierge'', lit ''bank'', lit ''seat'']"

datatype target = Alias rstr | PatternT pattern

definition target_parse :: "rstr \<Rightarrow> domain_error + target" where
  "target_parse raw =
     (case pattern_parse raw of
        Inl e \<Rightarrow> Inl (Validation e)
      | Inr p \<Rightarrow>
          if pattern_namespace p \<in> set RESERVED_NAMESPACES
          then Inl (Validation (lit ''`'' @ pattern_namespace p
                 @ lit '':*` is not grantable: only a tenant's namespace is''))
          else Inr (if length (segments raw) = 2 \<and> 42 \<notin> set raw then Alias raw else PatternT p))"

definition target_as_str :: "target \<Rightarrow> rstr" where
  "target_as_str t = (case t of Alias name \<Rightarrow> name | PatternT p \<Rightarrow> pattern_str p)"

definition target_namespace :: "target \<Rightarrow> rstr" where
  "target_namespace t = hd (segments (target_as_str t))"

definition entry :: "(rstr \<times> rstr list) list \<Rightarrow> rstr \<Rightarrow> rstr list" where
  "entry m k = (case map_of m k of None \<Rightarrow> [] | Some xs \<Rightarrow> xs)"

definition target_grants :: "target \<Rightarrow> catalog \<Rightarrow> rstr set" where
  "target_grants t c = (case t of
     Alias name \<Rightarrow> set (entry (cat_aliases c) name)
   | PatternT p \<Rightarrow> set (filter (pattern_matches p) (cat_permissions c)))"

definition delegable :: "target list \<Rightarrow> catalog \<Rightarrow> rstr set" where
  "delegable targets c = set (concat (map (\<lambda>t. entry (cat_delegations c) (target_as_str t)) targets))"

section \<open>Containment is inclusion\<close>

lemma star_not_segment [simp]: "\<not> is_segment star"
  by (simp add: is_segment_def star_def str_bytes_def utf8_char_def ascii_defs)

lemma segments_not_Nil [simp]: "segments s \<noteq> []"
  by (simp add: segments_def)

lemma is_segment_no_colon: "is_segment s \<Longrightarrow> colon \<notin> set s"
proof
  assume "is_segment s" and "colon \<in> set s"
  then have "58 \<in> set (str_bytes s)"
    by (auto simp: str_bytes_def colon_def utf8_char_def intro!: bexI [of _ 58])
  with \<open>is_segment s\<close> show False
    by (auto simp: is_segment_def list_all_iff ascii_defs dest: bspec [of _ _ 58])
qed

fun join :: "rstr list \<Rightarrow> rstr" where
  "join [] = []"
| "join [s] = s"
| "join (s # t # ss) = s @ colon # join (t # ss)"

lemma segments_join:
  "ss \<noteq> [] \<Longrightarrow> list_all is_segment ss \<Longrightarrow> segments (join ss) = ss"
proof (induction ss rule: join.induct)
  case (2 s)
  then show ?case
    using is_segment_no_colon [of s]
    by (auto simp: segments_def list_all_iff intro!: split_on_free)
next
  case (3 s t ss)
  have "list_all (\<lambda>c. c \<noteq> colon) s"
    using is_segment_no_colon [of s] 3 by (auto simp: list_all_iff)
  then have "segments (join (s # t # ss)) = s # segments (join (t # ss))"
    using split_on_append_sep [of "\<lambda>c. c = colon" s colon "join (t # ss)"]
    by (simp add: segments_def)
  with 3 show ?case by simp
qed simp

text \<open>Against a concrete name the loop is plain wildcard matching.\<close>

lemma contains_loop_Nil [simp]: "contains_loop m [] \<longleftrightarrow> m = []"
  by (cases m) (auto simp: Let_def)

lemma contains_loop_concrete:
  "is_segment w \<Longrightarrow> contains_loop (s # m) (w # ws) \<longleftrightarrow>
     (m = [] \<and> s = star) \<or> ((s = star \<or> s = w) \<and> contains_loop m ws)"
  by (cases "w = star") (auto simp: Let_def)

declare contains_loop.simps(2) [simp del]

definition instance_of :: "rstr \<Rightarrow> rstr" where
  "instance_of s = (if s = star then lit ''a'' else s)"

lemma segment_a: "is_segment (lit ''a'')" "is_segment (lit ''b'')" "lit ''a'' \<noteq> star"
  by code_simp+

lemma instance_of_segment: "s = star \<or> is_segment s \<Longrightarrow> is_segment (instance_of s)"
  by (auto simp: instance_of_def segment_a)

lemma instance_matches:
  "list_all (\<lambda>s. s = star \<or> is_segment s) t \<Longrightarrow> contains_loop t (map instance_of t)"
  by (induction t) (auto simp: contains_loop_concrete instance_of_segment instance_of_def segment_a)

lemma instances_concrete:
  "list_all (\<lambda>s. s = star \<or> is_segment s) t \<Longrightarrow> list_all is_segment (map instance_of t)"
  by (induction t) (auto simp: instance_of_segment)

lemma other_segment: "\<exists>w. is_segment w \<and> w \<noteq> s"
  using segment_a by (cases "s = lit ''a''") auto

definition names_of :: "rstr list \<Rightarrow> rstr list set" where
  "names_of t = {ws. list_all is_segment ws \<and> contains_loop t ws}"

lemma contains_loop_iff:
  assumes "list_all (\<lambda>s. s = star \<or> is_segment s) m" and "list_all (\<lambda>s. s = star \<or> is_segment s) t"
  shows "contains_loop m t \<longleftrightarrow> names_of t \<subseteq> names_of m"
  using assms
proof (induction m t rule: contains_loop.induct)
  case (1 theirs)
  have "map instance_of theirs \<in> names_of theirs"
    using 1 by (simp add: names_of_def instance_matches instances_concrete)
  then show ?case by (auto simp: names_of_def)
next
  case (2 seg mine theirs)
  show ?case
  proof (cases theirs)
    case Nil
    have "[] \<in> names_of []" "[] \<notin> names_of (seg # mine)" by (simp_all add: names_of_def)
    with Nil show ?thesis by auto
  next
    case (Cons their rest)
    have valid: "their = star \<or> is_segment their" "list_all (\<lambda>s. s = star \<or> is_segment s) rest"
      using 2(3) Cons by simp_all
    let ?inst = "map instance_of rest"
    have inst: "list_all is_segment ?inst" "contains_loop rest ?inst"
      by (rule instances_concrete [OF valid(2)], rule instance_matches [OF valid(2)])
    consider (all) "mine = []" "seg = star"
      | (longer) "mine \<noteq> []" "rest = []" "their = star"
      | (clash) "seg \<noteq> star" "seg \<noteq> their" "\<not> (mine \<noteq> [] \<and> rest = [] \<and> their = star)"
      | (go) "\<not> (mine = [] \<and> seg = star)" "\<not> (mine \<noteq> [] \<and> rest = [] \<and> their = star)"
          "seg = star \<or> seg = their"
      by blast
    then show ?thesis
    proof cases
      case all
      then have "w \<in> names_of (seg # mine)" if "w \<in> names_of theirs" for w
        using that Cons all by (cases w) (auto simp: names_of_def contains_loop_concrete)
      moreover have "contains_loop (seg # mine) theirs"
        using all Cons by (simp add: contains_loop.simps(2))
      ultimately show ?thesis by blast
    next
      case longer
      then have "[lit ''a''] \<in> names_of theirs" "[lit ''a''] \<notin> names_of (seg # mine)"
        using Cons segment_a by (auto simp: names_of_def contains_loop_concrete)
      moreover have "\<not> contains_loop (seg # mine) theirs"
        using longer Cons by (simp add: contains_loop.simps(2) Let_def)
      ultimately show ?thesis by blast
    next
      case clash
      obtain w where w: "is_segment w" "w \<noteq> seg" "their = star \<or> w = their"
        using other_segment [of seg] valid(1) clash(2) by metis
      then have "w # ?inst \<in> names_of theirs" "w # ?inst \<notin> names_of (seg # mine)"
        using Cons inst clash(1) by (auto simp: names_of_def contains_loop_concrete)
      moreover have "\<not> contains_loop (seg # mine) theirs"
        using clash Cons by (simp add: contains_loop.simps(2) Let_def)
      ultimately show ?thesis by blast
    next
      case go
      have IH: "contains_loop mine rest \<longleftrightarrow> names_of rest \<subseteq> names_of mine"
        using 2(1) [of "mine = []" their rest] 2(2) go Cons valid(2) by auto
      have nt: "\<not> (rest = [] \<and> their = star)" using go by auto
      have t: "w # ws \<in> names_of theirs \<longleftrightarrow> is_segment w \<and> (their = star \<or> their = w) \<and> ws \<in> names_of rest"
        for w ws using Cons nt by (auto simp: names_of_def contains_loop_concrete)
      have m: "w # ws \<in> names_of (seg # mine) \<longleftrightarrow> is_segment w \<and> (seg = star \<or> seg = w) \<and> ws \<in> names_of mine"
        for w ws using go(1) by (auto simp: names_of_def contains_loop_concrete)
      have "names_of theirs \<subseteq> names_of (seg # mine) \<longleftrightarrow> names_of rest \<subseteq> names_of mine"
      proof
        assume sub: "names_of theirs \<subseteq> names_of (seg # mine)"
        show "names_of rest \<subseteq> names_of mine"
        proof
          fix ws assume "ws \<in> names_of rest"
          then have "instance_of their # ws \<in> names_of theirs"
            using valid(1) by (simp add: t instance_of_segment) (simp add: instance_of_def)
          with sub m show "ws \<in> names_of mine" by blast
        qed
      next
        assume sub: "names_of rest \<subseteq> names_of mine"
        show "names_of theirs \<subseteq> names_of (seg # mine)"
        proof
          fix ws assume "ws \<in> names_of theirs"
          with Cons obtain w ws' where "ws = w # ws'" by (cases ws) (auto simp: names_of_def)
          with \<open>ws \<in> names_of theirs\<close> t m sub go(3) show "ws \<in> names_of (seg # mine)" by auto
        qed
      qed
      moreover have "contains_loop (seg # mine) theirs \<longleftrightarrow> contains_loop mine rest"
        using go Cons by (auto simp: contains_loop.simps(2) Let_def)
      ultimately show ?thesis using IH by simp
    qed
  qed
qed

lemma pattern_parse_Inr:
  "pattern_parse raw = Inr p \<longleftrightarrow>
     p = Pattern raw \<and> length raw \<le> MAX_NAME_CHARS \<and> 2 \<le> length (segments raw)
     \<and> is_segment (hd (segments raw)) \<and> list_all (\<lambda>s. s = star \<or> is_segment s) (tl (segments raw))"
  by (auto simp: pattern_parse_def Let_def)

lemma pattern_parse_segments:
  assumes "pattern_parse raw = Inr p"
  shows "list_all (\<lambda>s. s = star \<or> is_segment s) (segments (pattern_str p))"
proof -
  have "segments raw = hd (segments raw) # tl (segments raw)" by simp
  with assms show ?thesis
    unfolding pattern_parse_Inr by (metis list.pred_inject(2) pattern.sel)
qed

text \<open>C32. \<open>Pattern::contains\<close> decides inclusion: of two parsed patterns, the first contains
  the second exactly when every concrete permission the second matches is matched by the
  first. It neither accepts a pattern that reaches further nor refuses one that does not.\<close>

theorem contains_is_inclusion:
  assumes "pattern_parse a = Inr p" and "pattern_parse b = Inr q"
  shows "pattern_contains p q \<longleftrightarrow>
     (\<forall>name. list_all is_segment (segments name) \<and> pattern_matches q name \<longrightarrow> pattern_matches p name)"
proof -
  have iff: "pattern_contains p q \<longleftrightarrow>
      names_of (segments (pattern_str q)) \<subseteq> names_of (segments (pattern_str p))"
    unfolding pattern_contains_def
    by (rule contains_loop_iff [OF pattern_parse_segments pattern_parse_segments]) (fact assms)+
  show ?thesis unfolding iff
  proof
    assume sub: "names_of (segments (pattern_str q)) \<subseteq> names_of (segments (pattern_str p))"
    show "\<forall>name. list_all is_segment (segments name) \<and> pattern_matches q name \<longrightarrow> pattern_matches p name"
      using sub by (auto simp: pattern_matches_def pattern_contains_def names_of_def)
  next
    assume all: "\<forall>name. list_all is_segment (segments name) \<and> pattern_matches q name \<longrightarrow> pattern_matches p name"
    show "names_of (segments (pattern_str q)) \<subseteq> names_of (segments (pattern_str p))"
    proof
      fix ws assume ws: "ws \<in> names_of (segments (pattern_str q))"
      then have ne: "ws \<noteq> []" and conc: "list_all is_segment ws" by (auto simp: names_of_def)
      have "pattern_matches q (join ws)"
        using ws by (simp add: pattern_matches_def pattern_contains_def segments_join [OF ne conc] names_of_def)
      with all conc have "pattern_matches p (join ws)" by (simp add: segments_join [OF ne conc])
      with conc show "ws \<in> names_of (segments (pattern_str p))"
        by (simp add: pattern_matches_def pattern_contains_def segments_join [OF ne conc] names_of_def)
    qed
  qed
qed

theorem contains_is_inclusion_witness:
  "\<not> (\<forall>name. list_all is_segment (segments name) \<and> pattern_matches (Pattern (lit ''sa:*'')) name
        \<longrightarrow> pattern_matches (Pattern (lit ''sa:*:read'')) name)"
proof -
  have "pattern_parse (lit ''sa:*:read'') = Inr (Pattern (lit ''sa:*:read''))"
    "pattern_parse (lit ''sa:*'') = Inr (Pattern (lit ''sa:*''))"
    "\<not> pattern_contains (Pattern (lit ''sa:*:read'')) (Pattern (lit ''sa:*''))"
    by code_simp+
  then show ?thesis using contains_is_inclusion by blast
qed

section \<open>What a checked catalog guarantees\<close>

lemma check_permissions_iff:
  "check_permissions ns ps = Inr u \<longleftrightarrow> (\<forall>p\<in>set ps. is_permission_of ns p)"
  by (induction ps) auto

lemma check_aliases_iff:
  "check_aliases c ns as = Inr u \<longleftrightarrow>
     (\<forall>(name, members)\<in>set as. is_alias_of ns name \<and> set members \<subseteq> set (cat_permissions c))"
proof (induction as)
  case (Cons e as)
  obtain name members where e: "e = (name, members)" by (cases e)
  have "check_aliases c ns (e # as) = Inr u \<longleftrightarrow>
      is_alias_of ns name \<and> (\<forall>m\<in>set members. \<not> m \<notin> set (cat_permissions c)) \<and> check_aliases c ns as = Inr u"
    by (simp add: e find_guard_Inr)
  with Cons show ?case by (auto simp: e)
qed simp

lemma check_delegations_iff:
  "check_delegations c ds = Inr u \<longleftrightarrow>
     (\<forall>(name, delegates)\<in>set ds. name \<in> fst ` set (cat_aliases c) \<and> delegates \<noteq> []
        \<and> (\<forall>d\<in>set delegates. d \<in> fst ` set (cat_aliases c) \<and> d \<notin> fst ` set (cat_delegations c)))"
proof (induction ds)
  case (Cons e ds)
  obtain name delegates where e: "e = (name, delegates)" by (cases e)
  have "check_delegations c (e # ds) = Inr u \<longleftrightarrow>
      name \<in> fst ` set (cat_aliases c) \<and> delegates \<noteq> []
      \<and> (\<forall>d\<in>set delegates. \<not> (d \<notin> fst ` set (cat_aliases c) \<or> d \<in> fst ` set (cat_delegations c)))
      \<and> check_delegations c ds = Inr u"
    by (simp only: e check_delegations.simps) (simp add: find_guard_Inr)
  with Cons show ?case by (simp add: e)
qed simp

lemma catalog_check_Inr [result_simps]:
  "catalog_check c ns = Inr u \<longleftrightarrow>
     length (cat_permissions c) \<le> MAX_PERMISSIONS \<and> length (cat_aliases c) \<le> MAX_ALIASES
     \<and> check_permissions ns (cat_permissions c) = Inr () \<and> check_aliases c ns (cat_aliases c) = Inr ()
     \<and> check_delegations c (cat_delegations c) = Inr ()"
  by (auto simp: catalog_check_def rbind_Inr_iff)

lemma entry_in:
  assumes "x \<in> set (entry m k)"
  shows "\<exists>xs. (k, xs) \<in> set m \<and> x \<in> set xs"
proof (cases "map_of m k")
  case None
  with assms show ?thesis by (simp add: entry_def)
next
  case (Some xs)
  with assms show ?thesis by (auto simp: entry_def dest: map_of_SomeD)
qed

lemma entry_None: "k \<notin> fst ` set m \<Longrightarrow> entry m k = []"
  by (simp add: entry_def map_of_eq_None_iff [THEN iffD2])

lemma entry_ne: "entry m k \<noteq> [] \<Longrightarrow> \<exists>xs. (k, xs) \<in> set m"
  using entry_in [of "hd (entry m k)" m k] by (metis hd_in_set)

lemma delegable_in:
  assumes "d \<in> delegable ts c"
  shows "\<exists>name ds. (name, ds) \<in> set (cat_delegations c) \<and> d \<in> set ds"
proof -
  obtain t where "d \<in> set (entry (cat_delegations c) (target_as_str t))"
    using assms by (auto simp: delegable_def)
  from entry_in [OF this] show ?thesis by blast
qed

lemma matches_same_namespace:
  assumes "pattern_parse raw = Inr p" and "pattern_matches p name"
  shows "hd (segments name) = pattern_namespace p"
proof -
  obtain s m where sm: "segments (pattern_str p) = s # m" by (cases "segments (pattern_str p)") auto
  obtain w ws where w: "segments name = w # ws" by (cases "segments name") auto
  have "s \<noteq> star"
    using assms(1) sm star_not_segment by (auto simp: pattern_parse_Inr)
  then show ?thesis
    using assms(2) sm w
    by (auto simp: pattern_matches_def pattern_contains_def pattern_namespace_def
        contains_loop.simps(2) Let_def split: if_splits)
qed

lemma grants_in_catalog:
  assumes "catalog_check c ns = Inr ()"
  shows "target_grants t c \<subseteq> set (cat_permissions c)"
proof -
  have "\<forall>(name, members)\<in>set (cat_aliases c). set members \<subseteq> set (cat_permissions c)"
    using assms by (auto simp: result_simps check_aliases_iff)
  then show ?thesis
    by (auto simp: target_grants_def split: target.splits dest!: entry_in)
qed

lemma granted_in_namespace:
  assumes "catalog_check c ns = Inr ()" and "x \<in> target_grants t c"
  shows "is_permission_of ns x"
proof -
  have "\<forall>p\<in>set (cat_permissions c). is_permission_of ns p"
    using assms(1) by (simp add: result_simps check_permissions_iff)
  with grants_in_catalog [OF assms(1), of t] assms(2) show ?thesis by blast
qed

text \<open>C33. A tenant's checked catalog confines what any grant can give: every permission a
  target resolves to is one of the catalog's, a concrete name of the tenant's namespace
  (so of none of the seats' namespaces); a target parsed for another namespace resolves to
  nothing; and delegation is one level deep: whatever a list of targets may grant to others
  is an alias of the catalog whose holders may grant nothing.\<close>

theorem catalog_confines:
  assumes "catalog_check c ns = Inr ()" and "ns \<notin> set RESERVED_NAMESPACES"
  shows "(\<forall>t. target_grants t c \<subseteq> set (cat_permissions c)
        \<and> (\<forall>x\<in>target_grants t c. is_permission_of ns x \<and> hd (segments x) \<notin> set RESERVED_NAMESPACES))
    \<and> (\<forall>raw t. target_parse raw = Inr t \<and> target_namespace t \<noteq> ns \<longrightarrow> target_grants t c = {})
    \<and> (\<forall>ts. \<forall>d\<in>delegable ts c. d \<in> fst ` set (cat_aliases c) \<and> delegable [Alias d] c = {})"
proof (intro conjI allI impI ballI)
  have perms: "\<forall>p\<in>set (cat_permissions c). is_permission_of ns p"
    and aliases: "\<forall>(name, members)\<in>set (cat_aliases c). is_alias_of ns name \<and> set members \<subseteq> set (cat_permissions c)"
    and dels: "\<forall>(name, delegates)\<in>set (cat_delegations c). name \<in> fst ` set (cat_aliases c) \<and> delegates \<noteq> []
        \<and> (\<forall>d\<in>set delegates. d \<in> fst ` set (cat_aliases c) \<and> d \<notin> fst ` set (cat_delegations c))"
    using assms(1) by (auto simp: result_simps check_permissions_iff check_aliases_iff check_delegations_iff)
  show "target_grants t c \<subseteq> set (cat_permissions c)" for t
    by (rule grants_in_catalog [OF assms(1)])
  show "is_permission_of ns x" if "x \<in> target_grants t c" for t x
    by (rule granted_in_namespace [OF assms(1) that])
  then show "hd (segments x) \<notin> set RESERVED_NAMESPACES" if "x \<in> target_grants t c" for t x
    using that assms(2) by (force simp: is_permission_of_def catalog_ours_def)
  show "target_grants t c = {}" if t: "target_parse raw = Inr t \<and> target_namespace t \<noteq> ns" for raw t
  proof (cases t)
    case (Alias name)
    have "entry (cat_aliases c) name = []"
    proof (rule ccontr)
      assume "entry (cat_aliases c) name \<noteq> []"
      then obtain xs where "(name, xs) \<in> set (cat_aliases c)"
        using entry_ne by blast
      with aliases have "hd (segments name) = ns" by (auto simp: is_alias_of_def catalog_ours_def)
      with t Alias show False by (simp add: target_namespace_def target_as_str_def)
    qed
    with Alias show ?thesis by (simp add: target_grants_def)
  next
    case (PatternT p)
    have "pattern_parse raw = Inr p"
      using t PatternT by (auto simp: target_parse_def split: sum.splits if_splits)
    then have "hd (segments x) = pattern_namespace p" if "pattern_matches p x" for x
      using matches_same_namespace that by blast
    moreover have "hd (segments x) = ns" if "x \<in> set (cat_permissions c)" for x
      using perms that by (auto simp: is_permission_of_def catalog_ours_def)
    moreover have "pattern_namespace p \<noteq> ns"
      using t PatternT by (simp add: target_namespace_def target_as_str_def pattern_namespace_def)
    ultimately have "\<not> pattern_matches p x" if "x \<in> set (cat_permissions c)" for x
      using that by metis
    then show ?thesis
      using PatternT by (simp add: target_grants_def)
  qed
  have dd: "d \<in> fst ` set (cat_aliases c) \<and> d \<notin> fst ` set (cat_delegations c)"
    if "d \<in> delegable ts c" for ts d
  proof -
    obtain name ds where "(name, ds) \<in> set (cat_delegations c)" "d \<in> set ds"
      using delegable_in \<open>d \<in> delegable ts c\<close> by blast
    then show ?thesis using dels by blast
  qed
  show "d \<in> fst ` set (cat_aliases c)" if "d \<in> delegable ts c" for ts d
    using dd [OF that] by blast
  show "delegable [Alias d] c = {}" if "d \<in> delegable ts c" for ts d
    using dd [OF that] by (simp add: delegable_def target_as_str_def entry_None)
qed

definition sample_catalog :: catalog where
  "sample_catalog =
     \<lparr>cat_version = 1, cat_permissions = [lit ''sa:work:leads:edit'', lit ''sa:work:leads:read''],
      cat_aliases = [(lit ''sa:admin'', [lit ''sa:work:leads:edit'']), (lit ''sa:operator'', [lit ''sa:work:leads:read''])],
      cat_delegations = [(lit ''sa:admin'', [lit ''sa:operator''])]\<rparr>"

theorem catalog_confines_witness:
  "delegable [Alias (lit ''sa:admin'')] sample_catalog = {lit ''sa:operator''}
   \<and> delegable [Alias (lit ''sa:operator'')] sample_catalog = {}"
proof -
  have ok: "catalog_check sample_catalog (lit ''sa'') = Inr ()" "lit ''sa'' \<notin> set RESERVED_NAMESPACES"
    and d: "delegable [Alias (lit ''sa:admin'')] sample_catalog = {lit ''sa:operator''}"
    by code_simp+
  from catalog_confines [OF ok] d show ?thesis by blast
qed

text \<open>C35. A stored grant is read back as it was written: what a target parses from is what
  \<open>as_str\<close> returns, so parsing it again gives the same target; and no target names a
  reserved namespace.\<close>

theorem target_roundtrip:
  assumes "target_parse raw = Inr t"
  shows "target_as_str t = raw \<and> target_parse (target_as_str t) = Inr t
    \<and> target_namespace t \<notin> set RESERVED_NAMESPACES"
proof -
  obtain p where p: "pattern_parse raw = Inr p" "pattern_namespace p \<notin> set RESERVED_NAMESPACES"
    and t: "t = (if length (segments raw) = 2 \<and> 42 \<notin> set raw then Alias raw else PatternT p)"
    using assms by (auto simp: target_parse_def split: sum.splits if_splits)
  have "p = Pattern raw" using p(1) by (simp add: pattern_parse_Inr)
  then have raw: "target_as_str t = raw" by (simp add: t target_as_str_def)
  moreover have "pattern_namespace p = hd (segments raw)"
    using \<open>p = Pattern raw\<close> by (simp add: pattern_namespace_def)
  ultimately show ?thesis using assms p(2) by (simp add: target_namespace_def)
qed

theorem target_roundtrip_witness:
  "target_as_str (Alias (lit ''sa:operator'')) = lit ''sa:operator''
   \<and> target_parse (target_as_str (PatternT (Pattern (lit ''sa:*'')))) = Inr (PatternT (Pattern (lit ''sa:*'')))"
proof -
  have a: "target_parse (lit ''sa:operator'') = Inr (Alias (lit ''sa:operator''))"
    and p: "target_parse (lit ''sa:*'') = Inr (PatternT (Pattern (lit ''sa:*'')))"
    by code_simp+
  show ?thesis
    by (rule conjI [OF target_roundtrip [OF a, THEN conjunct1]
          target_roundtrip [OF p, THEN conjunct2, THEN conjunct1]])
qed

end
