(* ===== verification/Seats.thy ===== *)
theory Seats
  imports Scopes "HOL-Library.List_Lexorder"
begin

text \<open>
  \<open>domain/src/authz.rs\<close>: the seats and what each may do. Every permission enum of the
  source is a datatype with the source's variants; its string is the derived
  \<open>permission_name\<close> of the enum's prefix and the variant in snake case. The second half is
  \<open>resolve\<close> of \<open>domain/src/iam.rs\<close>, which needs a seat.
\<close>

section \<open>Seats\<close>

datatype role = Investor | Operator | Admin | Owner

definition role_default :: role where "role_default = Investor"

definition role_as_str :: "role \<Rightarrow> rstr" where
  "role_as_str r = (case r of
     Investor \<Rightarrow> lit ''investor'' | Operator \<Rightarrow> lit ''operator''
   | Admin \<Rightarrow> lit ''admin'' | Owner \<Rightarrow> lit ''owner'')"

definition role_parse :: "rstr \<Rightarrow> domain_error + role" where
  "role_parse raw =
     (if raw = lit ''investor'' then Inr Investor
      else if raw = lit ''operator'' then Inr Operator
      else if raw = lit ''admin'' then Inr Admin
      else if raw = lit ''owner'' then Inr Owner
      else Inl (Validation (lit ''unknown role: '' @ raw)))"

interpretation role_codec: str_codec role_as_str role_parse
  by unfold_locales (auto simp: role_as_str_def role_parse_def split: role.splits if_splits)

section \<open>Permissions\<close>

datatype users_perm = Read | Suspend | Revoke

definition users_perm_str :: "users_perm \<Rightarrow> rstr" where
  "users_perm_str p = permission_name (lit ''concierge:user'') (case p of
     users_perm.Read \<Rightarrow> lit ''read''
   | users_perm.Suspend \<Rightarrow> lit ''suspend''
   | users_perm.Revoke \<Rightarrow> lit ''revoke'')"

datatype kyc_perm = Manage

definition kyc_perm_str :: "kyc_perm \<Rightarrow> rstr" where
  "kyc_perm_str p = permission_name (lit ''concierge:kyc'') (case p of
     kyc_perm.Manage \<Rightarrow> lit ''manage'')"

datatype roles_perm = Grant

definition roles_perm_str :: "roles_perm \<Rightarrow> rstr" where
  "roles_perm_str p = permission_name (lit ''concierge:role'') (case p of
     roles_perm.Grant \<Rightarrow> lit ''grant'')"

datatype own_perm = Profile | Notifications | Sessions

definition own_perm_str :: "own_perm \<Rightarrow> rstr" where
  "own_perm_str p = permission_name (lit ''concierge:self'') (case p of
     own_perm.Profile \<Rightarrow> lit ''profile''
   | own_perm.Notifications \<Rightarrow> lit ''notifications''
   | own_perm.Sessions \<Rightarrow> lit ''sessions'')"

datatype platform_perm = Read | Manage

definition platform_perm_str :: "platform_perm \<Rightarrow> rstr" where
  "platform_perm_str p = permission_name (lit ''concierge:platform'') (case p of
     platform_perm.Read \<Rightarrow> lit ''read''
   | platform_perm.Manage \<Rightarrow> lit ''manage'')"

datatype iam_perm = Grant

definition iam_perm_str :: "iam_perm \<Rightarrow> rstr" where
  "iam_perm_str p = permission_name (lit ''iam:tenants'') (case p of
     iam_perm.Grant \<Rightarrow> lit ''grant'')"

datatype treasury_perm = Read

definition treasury_perm_str :: "treasury_perm \<Rightarrow> rstr" where
  "treasury_perm_str p = permission_name (lit ''bank:treasury'') (case p of
     treasury_perm.Read \<Rightarrow> lit ''read'')"

datatype user_balance_perm = Read

definition user_balance_perm_str :: "user_balance_perm \<Rightarrow> rstr" where
  "user_balance_perm_str p = permission_name (lit ''bank:user_balance'') (case p of
     user_balance_perm.Read \<Rightarrow> lit ''read'')"

datatype valuation_perm = Post

definition valuation_perm_str :: "valuation_perm \<Rightarrow> rstr" where
  "valuation_perm_str p = permission_name (lit ''bank:valuation'') (case p of
     valuation_perm.Post \<Rightarrow> lit ''post'')"

datatype allocation_perm = Manage

definition allocation_perm_str :: "allocation_perm \<Rightarrow> rstr" where
  "allocation_perm_str p = permission_name (lit ''bank:allocation'') (case p of
     allocation_perm.Manage \<Rightarrow> lit ''manage'')"

datatype redemption_perm = Settle | Fail

definition redemption_perm_str :: "redemption_perm \<Rightarrow> rstr" where
  "redemption_perm_str p = permission_name (lit ''bank:redemption'') (case p of
     redemption_perm.Settle \<Rightarrow> lit ''settle''
   | redemption_perm.Fail \<Rightarrow> lit ''fail'')"

datatype withdrawal_perm = Dispatch | Settle | Fail

definition withdrawal_perm_str :: "withdrawal_perm \<Rightarrow> rstr" where
  "withdrawal_perm_str p = permission_name (lit ''bank:withdrawal'') (case p of
     withdrawal_perm.Dispatch \<Rightarrow> lit ''dispatch''
   | withdrawal_perm.Settle \<Rightarrow> lit ''settle''
   | withdrawal_perm.Fail \<Rightarrow> lit ''fail'')"

datatype capital_perm = Manage

definition capital_perm_str :: "capital_perm \<Rightarrow> rstr" where
  "capital_perm_str p = permission_name (lit ''bank:capital'') (case p of
     capital_perm.Manage \<Rightarrow> lit ''manage'')"

datatype consilium_perm = Manage

definition consilium_perm_str :: "consilium_perm \<Rightarrow> rstr" where
  "consilium_perm_str p = permission_name (lit ''bank:consilium'') (case p of
     consilium_perm.Manage \<Rightarrow> lit ''manage'')"

datatype payment_perm = Open

definition payment_perm_str :: "payment_perm \<Rightarrow> rstr" where
  "payment_perm_str p = permission_name (lit ''bank:payment'') (case p of
     payment_perm.Open \<Rightarrow> lit ''open'')"

datatype operations_perm = Manage

definition operations_perm_str :: "operations_perm \<Rightarrow> rstr" where
  "operations_perm_str p = permission_name (lit ''bank:operations'') (case p of
     operations_perm.Manage \<Rightarrow> lit ''manage'')"

datatype outbox_perm = Manage

definition outbox_perm_str :: "outbox_perm \<Rightarrow> rstr" where
  "outbox_perm_str p = permission_name (lit ''bank:outbox'') (case p of
     outbox_perm.Manage \<Rightarrow> lit ''manage'')"

datatype bank_users_perm = Revoke | Suspend

definition bank_users_perm_str :: "bank_users_perm \<Rightarrow> rstr" where
  "bank_users_perm_str p = permission_name (lit ''bank:user'') (case p of
     bank_users_perm.Revoke \<Rightarrow> lit ''revoke''
   | bank_users_perm.Suspend \<Rightarrow> lit ''suspend'')"

datatype bank_own_perm = Wallet | Invest | Operations

definition bank_own_perm_str :: "bank_own_perm \<Rightarrow> rstr" where
  "bank_own_perm_str p = permission_name (lit ''bank:self'') (case p of
     bank_own_perm.Wallet \<Rightarrow> lit ''wallet''
   | bank_own_perm.Invest \<Rightarrow> lit ''invest''
   | bank_own_perm.Operations \<Rightarrow> lit ''operations'')"

datatype deposit_address_perm = Rotate | Migrate

definition deposit_address_perm_str :: "deposit_address_perm \<Rightarrow> rstr" where
  "deposit_address_perm_str p = permission_name (lit ''bank:deposit_address'') (case p of
     deposit_address_perm.Rotate \<Rightarrow> lit ''rotate''
   | deposit_address_perm.Migrate \<Rightarrow> lit ''migrate'')"

lemmas permission_strs =
  users_perm_str_def
  kyc_perm_str_def
  roles_perm_str_def
  own_perm_str_def
  platform_perm_str_def
  iam_perm_str_def
  treasury_perm_str_def
  user_balance_perm_str_def
  valuation_perm_str_def
  allocation_perm_str_def
  redemption_perm_str_def
  withdrawal_perm_str_def
  capital_perm_str_def
  consilium_perm_str_def
  payment_perm_str_def
  operations_perm_str_def
  outbox_perm_str_def
  bank_users_perm_str_def
  bank_own_perm_str_def
  deposit_address_perm_str_def

section \<open>What a seat means\<close>

record seat_alias =
  sa_name :: rstr
  sa_members :: "rstr list"

definition SEAT_GUEST :: seat_alias where
  "SEAT_GUEST = \<lparr>sa_name = lit ''seat:guest'', sa_members =
     []\<rparr>"

definition SEAT_INVESTOR :: seat_alias where
  "SEAT_INVESTOR = \<lparr>sa_name = lit ''seat:investor'', sa_members =
     [own_perm_str own_perm.Profile,
      own_perm_str own_perm.Notifications,
      own_perm_str own_perm.Sessions,
      bank_own_perm_str bank_own_perm.Wallet,
      bank_own_perm_str bank_own_perm.Invest,
      bank_own_perm_str bank_own_perm.Operations]\<rparr>"

definition SEAT_OPERATOR :: seat_alias where
  "SEAT_OPERATOR = \<lparr>sa_name = lit ''seat:operator'', sa_members =
     [own_perm_str own_perm.Profile,
      own_perm_str own_perm.Notifications,
      own_perm_str own_perm.Sessions,
      bank_own_perm_str bank_own_perm.Wallet,
      bank_own_perm_str bank_own_perm.Invest,
      bank_own_perm_str bank_own_perm.Operations,
      users_perm_str users_perm.Read,
      platform_perm_str platform_perm.Read,
      treasury_perm_str treasury_perm.Read,
      user_balance_perm_str user_balance_perm.Read]\<rparr>"

definition SEAT_ADMIN :: seat_alias where
  "SEAT_ADMIN = \<lparr>sa_name = lit ''seat:admin'', sa_members =
     [own_perm_str own_perm.Profile,
      own_perm_str own_perm.Notifications,
      own_perm_str own_perm.Sessions,
      bank_own_perm_str bank_own_perm.Wallet,
      bank_own_perm_str bank_own_perm.Invest,
      bank_own_perm_str bank_own_perm.Operations,
      users_perm_str users_perm.Read,
      users_perm_str users_perm.Suspend,
      users_perm_str users_perm.Revoke,
      kyc_perm_str kyc_perm.Manage,
      platform_perm_str platform_perm.Read,
      platform_perm_str platform_perm.Manage,
      iam_perm_str iam_perm.Grant,
      treasury_perm_str treasury_perm.Read,
      user_balance_perm_str user_balance_perm.Read,
      valuation_perm_str valuation_perm.Post,
      allocation_perm_str allocation_perm.Manage,
      redemption_perm_str redemption_perm.Settle,
      redemption_perm_str redemption_perm.Fail,
      withdrawal_perm_str withdrawal_perm.Dispatch,
      withdrawal_perm_str withdrawal_perm.Settle,
      withdrawal_perm_str withdrawal_perm.Fail,
      capital_perm_str capital_perm.Manage,
      consilium_perm_str consilium_perm.Manage,
      payment_perm_str payment_perm.Open,
      operations_perm_str operations_perm.Manage,
      outbox_perm_str outbox_perm.Manage,
      bank_users_perm_str bank_users_perm.Revoke,
      bank_users_perm_str bank_users_perm.Suspend,
      deposit_address_perm_str deposit_address_perm.Rotate,
      deposit_address_perm_str deposit_address_perm.Migrate]\<rparr>"

definition SEAT_OWNER :: seat_alias where
  "SEAT_OWNER = \<lparr>sa_name = lit ''seat:owner'', sa_members =
     [own_perm_str own_perm.Profile,
      own_perm_str own_perm.Notifications,
      own_perm_str own_perm.Sessions,
      bank_own_perm_str bank_own_perm.Wallet,
      bank_own_perm_str bank_own_perm.Invest,
      bank_own_perm_str bank_own_perm.Operations,
      users_perm_str users_perm.Read,
      users_perm_str users_perm.Suspend,
      users_perm_str users_perm.Revoke,
      kyc_perm_str kyc_perm.Manage,
      roles_perm_str roles_perm.Grant,
      platform_perm_str platform_perm.Read,
      platform_perm_str platform_perm.Manage,
      iam_perm_str iam_perm.Grant,
      treasury_perm_str treasury_perm.Read,
      user_balance_perm_str user_balance_perm.Read,
      valuation_perm_str valuation_perm.Post,
      allocation_perm_str allocation_perm.Manage,
      redemption_perm_str redemption_perm.Settle,
      redemption_perm_str redemption_perm.Fail,
      withdrawal_perm_str withdrawal_perm.Dispatch,
      withdrawal_perm_str withdrawal_perm.Settle,
      withdrawal_perm_str withdrawal_perm.Fail,
      capital_perm_str capital_perm.Manage,
      consilium_perm_str consilium_perm.Manage,
      payment_perm_str payment_perm.Open,
      operations_perm_str operations_perm.Manage,
      outbox_perm_str outbox_perm.Manage,
      bank_users_perm_str bank_users_perm.Revoke,
      bank_users_perm_str bank_users_perm.Suspend,
      deposit_address_perm_str deposit_address_perm.Rotate,
      deposit_address_perm_str deposit_address_perm.Migrate]\<rparr>"

definition SEAT_GENERATION :: nat where "SEAT_GENERATION = 2"

definition role_permissions :: "role \<Rightarrow> rstr list" where
  "role_permissions r = sa_members (case r of
     Investor \<Rightarrow> SEAT_INVESTOR | Operator \<Rightarrow> SEAT_OPERATOR | Admin \<Rightarrow> SEAT_ADMIN | Owner \<Rightarrow> SEAT_OWNER)"

definition role_may :: "role \<Rightarrow> rstr \<Rightarrow> bool" where
  "role_may r permission \<longleftrightarrow> permission \<in> set (role_permissions r)"

definition starts_with :: "rstr \<Rightarrow> rstr \<Rightarrow> bool" where
  "starts_with s prefix \<longleftrightarrow> take (length prefix) s = prefix"

definition bank_permissions :: "role \<Rightarrow> rstr list" where
  "bank_permissions r = sort (filter (\<lambda>p. starts_with p (lit ''bank:'')) (role_permissions r))"

definition iam_resolve :: "role \<Rightarrow> bool \<Rightarrow> target list \<Rightarrow> catalog \<Rightarrow> rstr set" where
  "iam_resolve seat granting_seats_hold_all targets c =
     (if granting_seats_hold_all \<and> role_may seat (iam_perm_str iam_perm.Grant)
      then set (cat_permissions c)
      else \<Union> (set (map (\<lambda>t. target_grants t c) targets)))"

section \<open>The permission contract\<close>

text \<open>
  What \<open>trait Permission\<close> promises of every enum that derives it: its strings are concrete
  permissions of one namespace and tell its variants apart. A service that asks \<open>may\<close> relies
  on it: no tenant's catalog can hand one of them out.
\<close>

locale permission_enum =
  fixes str :: "'p \<Rightarrow> rstr"
    and ns :: rstr
  assumes concrete: "is_permission_of ns (str p)"
begin

lemma not_granted:
  assumes "catalog_check c ns' = Inr ()" and "ns' \<noteq> ns"
  shows "str p \<notin> target_grants t c"
proof
  assume "str p \<in> target_grants t c"
  with assms(1) have "is_permission_of ns' (str p)" by (rule granted_in_namespace)
  with concrete [of p] assms(2) show False by (simp add: is_permission_of_def catalog_ours_def)
qed

end

interpretation users_permission: permission_enum users_perm_str "lit ''concierge''"
  by (unfold_locales, rename_tac p, case_tac p; hypsubst; code_simp)

interpretation kyc_permission: permission_enum kyc_perm_str "lit ''concierge''"
  by (unfold_locales, rename_tac p, case_tac p; hypsubst; code_simp)

interpretation roles_permission: permission_enum roles_perm_str "lit ''concierge''"
  by (unfold_locales, rename_tac p, case_tac p; hypsubst; code_simp)

interpretation own_permission: permission_enum own_perm_str "lit ''concierge''"
  by (unfold_locales, rename_tac p, case_tac p; hypsubst; code_simp)

interpretation platform_permission: permission_enum platform_perm_str "lit ''concierge''"
  by (unfold_locales, rename_tac p, case_tac p; hypsubst; code_simp)

interpretation iam_permission: permission_enum iam_perm_str "lit ''iam''"
  by (unfold_locales, rename_tac p, case_tac p; hypsubst; code_simp)

interpretation treasury_permission: permission_enum treasury_perm_str "lit ''bank''"
  by (unfold_locales, rename_tac p, case_tac p; hypsubst; code_simp)

interpretation user_balance_permission: permission_enum user_balance_perm_str "lit ''bank''"
  by (unfold_locales, rename_tac p, case_tac p; hypsubst; code_simp)

interpretation valuation_permission: permission_enum valuation_perm_str "lit ''bank''"
  by (unfold_locales, rename_tac p, case_tac p; hypsubst; code_simp)

interpretation allocation_permission: permission_enum allocation_perm_str "lit ''bank''"
  by (unfold_locales, rename_tac p, case_tac p; hypsubst; code_simp)

interpretation redemption_permission: permission_enum redemption_perm_str "lit ''bank''"
  by (unfold_locales, rename_tac p, case_tac p; hypsubst; code_simp)

interpretation withdrawal_permission: permission_enum withdrawal_perm_str "lit ''bank''"
  by (unfold_locales, rename_tac p, case_tac p; hypsubst; code_simp)

interpretation capital_permission: permission_enum capital_perm_str "lit ''bank''"
  by (unfold_locales, rename_tac p, case_tac p; hypsubst; code_simp)

interpretation consilium_permission: permission_enum consilium_perm_str "lit ''bank''"
  by (unfold_locales, rename_tac p, case_tac p; hypsubst; code_simp)

interpretation payment_permission: permission_enum payment_perm_str "lit ''bank''"
  by (unfold_locales, rename_tac p, case_tac p; hypsubst; code_simp)

interpretation operations_permission: permission_enum operations_perm_str "lit ''bank''"
  by (unfold_locales, rename_tac p, case_tac p; hypsubst; code_simp)

interpretation outbox_permission: permission_enum outbox_perm_str "lit ''bank''"
  by (unfold_locales, rename_tac p, case_tac p; hypsubst; code_simp)

interpretation bank_users_permission: permission_enum bank_users_perm_str "lit ''bank''"
  by (unfold_locales, rename_tac p, case_tac p; hypsubst; code_simp)

interpretation bank_own_permission: permission_enum bank_own_perm_str "lit ''bank''"
  by (unfold_locales, rename_tac p, case_tac p; hypsubst; code_simp)

interpretation deposit_address_permission: permission_enum deposit_address_perm_str "lit ''bank''"
  by (unfold_locales, rename_tac p, case_tac p; hypsubst; code_simp)


section \<open>What seats guarantee\<close>

lemma role_permissions_reserved:
  "x \<in> set (role_permissions r) \<Longrightarrow> \<exists>ns\<in>set RESERVED_NAMESPACES. is_permission_of ns x"
proof -
  have "list_all (\<lambda>x. list_ex (\<lambda>ns. is_permission_of ns x) RESERVED_NAMESPACES) (role_permissions r)"
    by (cases r; hypsubst; code_simp)
  then show "x \<in> set (role_permissions r) \<Longrightarrow> ?thesis" by (simp add: list_all_iff list_ex_iff)
qed

text \<open>The seats separate duties. The owner holds exactly what the admin holds and the
  right to grant seats, which nobody else holds; the admin holds all the operator does, the
  operator all the investor does; beyond an investor's own record an operator holds four
  rights to read and nothing else; granting access inside a tenant is held by admins and
  owners only; a guest holds nothing.\<close>

theorem seats_separate_duties:
  "set (role_permissions Owner) = insert (roles_perm_str roles_perm.Grant) (set (role_permissions Admin))
   \<and> (\<forall>r. role_may r (roles_perm_str roles_perm.Grant) = (r = Owner))
   \<and> (\<forall>r. role_may r (iam_perm_str iam_perm.Grant) = (r = Admin \<or> r = Owner))
   \<and> set (role_permissions Operator) \<subseteq> set (role_permissions Admin)
   \<and> set (role_permissions Operator) = set (role_permissions Investor) \<union>
       {users_perm_str users_perm.Read, platform_perm_str platform_perm.Read,
        treasury_perm_str treasury_perm.Read, user_balance_perm_str user_balance_perm.Read}
   \<and> sa_members SEAT_GUEST = []"
proof -
  have may: "role_may r (roles_perm_str roles_perm.Grant) = (r = Owner)
      \<and> role_may r (iam_perm_str iam_perm.Grant) = (r = Admin \<or> r = Owner)" for r
    by (cases r; hypsubst; code_simp)
  have "set (role_permissions Owner) = insert (roles_perm_str roles_perm.Grant) (set (role_permissions Admin))"
    "set (role_permissions Operator) \<subseteq> set (role_permissions Admin)"
    "set (role_permissions Operator) = set (role_permissions Investor) \<union>
       {users_perm_str users_perm.Read, platform_perm_str platform_perm.Read,
        treasury_perm_str treasury_perm.Read, user_balance_perm_str user_balance_perm.Read}"
    "sa_members SEAT_GUEST = []"
    by code_simp+
  with may show ?thesis by blast
qed

text \<open>What the money plane mirrors of a seat is its permissions of the bank namespace,
  each once and in ascending order.\<close>

theorem bank_permissions_exact:
  "sorted (bank_permissions r) \<and> distinct (bank_permissions r)
   \<and> set (bank_permissions r) = {p \<in> set (role_permissions r). hd (segments p) = lit ''bank''}"
proof -
  have "distinct (role_permissions r)" by (cases r; hypsubst; code_simp)
  moreover have "list_all (\<lambda>p. starts_with p (lit ''bank:'') = (hd (segments p) = lit ''bank'')) (role_permissions r)"
    by (cases r; hypsubst; code_simp)
  ultimately show ?thesis
    by (auto simp: bank_permissions_def list_all_iff)
qed

text \<open>C34. What a user may do inside a tenant never leaves its checked catalog: with any seat
  and any grants it is a set of the catalog's permissions, all of it exactly for a seat that
  may grant where the tenant says so; and no grant ever gives a permission a seat holds.\<close>

theorem resolve_confined:
  assumes "catalog_check c ns = Inr ()" and "ns \<notin> set RESERVED_NAMESPACES"
  shows "iam_resolve r hold_all ts c \<subseteq> set (cat_permissions c)
    \<and> (hold_all \<and> r \<in> {Admin, Owner} \<longrightarrow> iam_resolve r hold_all ts c = set (cat_permissions c))
    \<and> (\<not> (hold_all \<and> r \<in> {Admin, Owner}) \<longrightarrow> iam_resolve r hold_all ts c = (\<Union>t\<in>set ts. target_grants t c))
    \<and> (\<forall>r'. iam_resolve r hold_all ts c \<inter> set (role_permissions r') = {})"
proof -
  have grant: "role_may r (iam_perm_str iam_perm.Grant) = (r \<in> {Admin, Owner})"
    by (cases r; hypsubst; code_simp)
  have sub: "iam_resolve r hold_all ts c \<subseteq> set (cat_permissions c)"
    using grants_in_catalog [OF assms(1)] by (auto simp: iam_resolve_def)
  have perms: "\<forall>p\<in>set (cat_permissions c). is_permission_of ns p"
    using assms(1) by (simp add: result_simps check_permissions_iff)
  have "iam_resolve r hold_all ts c \<inter> set (role_permissions r') = {}" for r'
  proof (rule equals0I)
    fix x assume x: "x \<in> iam_resolve r hold_all ts c \<inter> set (role_permissions r')"
    then have "x \<in> set (cat_permissions c)" using sub by blast
    with perms have "is_permission_of ns x" by blast
    moreover obtain ns' where "ns' \<in> set RESERVED_NAMESPACES" "is_permission_of ns' x"
      using x role_permissions_reserved by blast
    ultimately show False using assms(2) by (auto simp: is_permission_of_def catalog_ours_def)
  qed
  with sub grant show ?thesis by (auto simp: iam_resolve_def)
qed

theorem resolve_confined_witness:
  "iam_resolve Admin True [] sample_catalog = set (cat_permissions sample_catalog)
   \<and> iam_resolve Operator True [Alias (lit ''sa:operator'')] sample_catalog \<inter> set (role_permissions Owner) = {}"
proof -
  have ok: "catalog_check sample_catalog (lit ''sa'') = Inr ()" "lit ''sa'' \<notin> set RESERVED_NAMESPACES"
    by code_simp+
  note r = resolve_confined [OF ok]
  have "iam_resolve Admin True [] sample_catalog = set (cat_permissions sample_catalog)"
    using r [of Admin True "[]"] by simp
  moreover have "iam_resolve Operator True [Alias (lit ''sa:operator'')] sample_catalog
      \<inter> set (role_permissions Owner) = {}"
    using r [of Operator True "[Alias (lit ''sa:operator'')]"] by blast
  ultimately show ?thesis by blast
qed

end
