(* ===== verification/Accounts.thy ===== *)
theory Accounts
  imports Profile Seats
begin

text \<open>
  \<open>domain/src/users.rs\<close>: the \<open>User\<close> aggregate, the platform's identity record, with the
  emergency hold, the owners' suspension, the KYC level and the seat. A method
  \<open>fn m(&mut self)\<close> is a function to the changed record; a fallible one returns the error
  alone, since all of them check before they write. \<open>Option<i64>\<close> is an option of an
  integer. Fields carry the prefix \<open>us_\<close>.
\<close>

section \<open>Status and suspension\<close>

definition MAX_KYC_LEVEL :: nat where "MAX_KYC_LEVEL = 3"
definition HOLD_TTL_SECS :: int where "HOLD_TTL_SECS = 24 * 60 * 60"
definition HOLD_COOLDOWN_SECS :: int where "HOLD_COOLDOWN_SECS = 7 * 24 * 60 * 60"

datatype user_status = Active | Disabled

definition user_status_as_str :: "user_status \<Rightarrow> rstr" where
  "user_status_as_str s = (case s of Active \<Rightarrow> lit ''active'' | Disabled \<Rightarrow> lit ''disabled'')"

definition user_status_parse :: "rstr \<Rightarrow> domain_error + user_status" where
  "user_status_parse raw =
     (if raw = lit ''active'' then Inr Active
      else if raw = lit ''disabled'' then Inr Disabled
      else Inl (Validation (lit ''unknown user status: '' @ raw)))"

interpretation user_status_codec: str_codec user_status_as_str user_status_parse
  by unfold_locales
    (auto simp: user_status_as_str_def user_status_parse_def split: user_status.splits if_splits)

datatype suspension = AdminHold int | Governance

definition suspension_as_str :: "suspension \<Rightarrow> rstr" where
  "suspension_as_str s = (case s of AdminHold _ \<Rightarrow> lit ''admin_hold'' | Governance \<Rightarrow> lit ''governance'')"

definition suspension_parse :: "rstr \<Rightarrow> int option \<Rightarrow> domain_error + suspension" where
  "suspension_parse raw expires_at =
     (if raw = lit ''admin_hold''
      then Inr (AdminHold (case expires_at of None \<Rightarrow> i64_max | Some t \<Rightarrow> t))
      else if raw = lit ''governance'' then Inr Governance
      else Inl (Validation (lit ''unknown suspension: '' @ raw)))"

definition hold_expires_at :: "suspension \<Rightarrow> int option" where
  "hold_expires_at s = (case s of AdminHold t \<Rightarrow> Some t | Governance \<Rightarrow> None)"

definition is_reversible_by_one_admin :: "suspension \<Rightarrow> bool" where
  "is_reversible_by_one_admin s = (case s of AdminHold _ \<Rightarrow> True | Governance \<Rightarrow> False)"

datatype user_event =
  Created | SessionsRevoked | Suspended | Reinstated | KycChanged | RoleChanged | PermissionsChanged

definition user_event_kind :: "user_event \<Rightarrow> rstr" where
  "user_event_kind e = (case e of
     Created \<Rightarrow> lit ''CREATED'' | SessionsRevoked \<Rightarrow> lit ''SESSIONS_REVOKED''
   | Suspended \<Rightarrow> lit ''SUSPENDED'' | Reinstated \<Rightarrow> lit ''REINSTATED''
   | KycChanged \<Rightarrow> lit ''KYC_CHANGED'' | RoleChanged \<Rightarrow> lit ''ROLE_CHANGED''
   | PermissionsChanged \<Rightarrow> lit ''PERMISSIONS_CHANGED'')"

section \<open>The account\<close>

record user =
  us_id :: user_id
  us_auth_subject :: auth_subject
  us_email :: email
  us_email_verified :: bool
  us_username :: "username option"
  us_status :: user_status
  us_suspension :: "suspension option"
  us_hold_ended_at :: "int option"
  us_token_version :: nat
  us_kyc_level :: nat
  us_role :: role
  us_profile :: profile_fields
  us_row_version :: nat
  us_pending :: "user_event list"

definition user_emit :: "user \<Rightarrow> user_event \<Rightarrow> user" where
  "user_emit u event =
     u\<lparr>us_row_version := us_row_version u + 1, us_pending := us_pending u @ [event]\<rparr>"

definition user_provision ::
  "user_id \<Rightarrow> auth_subject \<Rightarrow> email \<Rightarrow> bool \<Rightarrow> username option \<Rightarrow> user" where
  "user_provision uid subject mail verified handle =
     user_emit
       \<lparr>us_id = uid, us_auth_subject = subject, us_email = mail, us_email_verified = verified,
        us_username = handle, us_status = Active, us_suspension = None, us_hold_ended_at = None,
        us_token_version = 0, us_kyc_level = 0, us_role = role_default,
        us_profile = profile_default, us_row_version = 0, us_pending = []\<rparr> Created"

definition user_rehydrate ::
  "user_id \<Rightarrow> auth_subject \<Rightarrow> email \<Rightarrow> bool \<Rightarrow> username option \<Rightarrow> user_status \<Rightarrow> suspension option
     \<Rightarrow> int option \<Rightarrow> nat \<Rightarrow> nat \<Rightarrow> role \<Rightarrow> profile_fields \<Rightarrow> nat \<Rightarrow> user" where
  "user_rehydrate uid subject mail verified handle st susp hold_ended token_version kyc_level r
     profile row_version =
     \<lparr>us_id = uid, us_auth_subject = subject, us_email = mail, us_email_verified = verified,
      us_username = handle, us_status = st, us_suspension = susp, us_hold_ended_at = hold_ended,
      us_token_version = token_version, us_kyc_level = kyc_level, us_role = r,
      us_profile = profile, us_row_version = row_version, us_pending = []\<rparr>"

definition change_email :: "user \<Rightarrow> email \<Rightarrow> bool \<Rightarrow> user" where
  "change_email u mail verified =
     (if us_email_verified u \<and> \<not> verified then u
      else if us_email u = mail \<and> us_email_verified u = verified then u
      else u\<lparr>us_email := mail, us_email_verified := verified, us_row_version := us_row_version u + 1\<rparr>)"

definition verify_email :: "user \<Rightarrow> user" where
  "verify_email u =
     (if us_email_verified u then u
      else u\<lparr>us_email_verified := True, us_row_version := us_row_version u + 1\<rparr>)"

definition revoke_tokens :: "user \<Rightarrow> nat \<times> user" where
  "revoke_tokens u =
     (let u' = user_emit (u\<lparr>us_token_version := us_token_version u + 1\<rparr>) SessionsRevoked
      in (us_token_version u', u'))"

definition take_over :: "user \<Rightarrow> user" where
  "take_over u = snd (revoke_tokens (verify_email u))"

definition set_username :: "user \<Rightarrow> username \<Rightarrow> user" where
  "set_username u handle =
     (if us_username u = Some handle then u
      else u\<lparr>us_username := Some handle, us_row_version := us_row_version u + 1\<rparr>)"

definition update_profile :: "ext \<Rightarrow> user \<Rightarrow> profile_fields \<Rightarrow> domain_error + user" where
  "update_profile E u raw =
     rbind (profile_parse E raw) (\<lambda>p.
       Inr (u\<lparr>us_profile := p, us_row_version := us_row_version u + 1\<rparr>))"

definition suspend_as :: "user \<Rightarrow> suspension option \<Rightarrow> user" where
  "suspend_as u by_whom =
     (let was_active = (us_status u = Active);
          u' = u\<lparr>us_status := Disabled, us_suspension := by_whom\<rparr>
      in if was_active then user_emit u' Suspended else u')"

definition user_disable :: "user \<Rightarrow> user" where
  "user_disable u = suspend_as u None"

definition user_suspend :: "user \<Rightarrow> user" where
  "user_suspend u = suspend_as u (Some Governance)"

definition user_hold :: "user \<Rightarrow> role \<Rightarrow> int \<Rightarrow> bool \<Rightarrow> domain_error + user" where
  "user_hold u by_role now ratification_pending =
     (if us_suspension u = Some Governance
      then Inl (Conflict (lit ''this account is suspended by the owner consilium; a hold cannot replace that verdict''))
      else if us_role u \<in> {Admin, Owner} \<and> by_role \<noteq> Owner
      then Inl (Forbidden (lit ''an account holding the '' @ role_as_str (us_role u)
             @ lit '' seat is held only by a fund owner; anyone else asks the owners through GovernanceService.OpenUserSuspension''))
      else
        let granted = Inr (suspend_as u (Some (AdminHold (saturating_add now HOLD_TTL_SECS))))
        in if ratification_pending then granted
           else case Option.bind (us_suspension u) hold_expires_at of
             Some expires_at \<Rightarrow>
               Inl (Forbidden (lit ''this account is already held until '' @ show_int expires_at
                 @ lit ''; a hold is not renewed by holding again '' @ [8212]
                 @ lit '' keeping it frozen past that is the owners' decision, through GovernanceService.OpenUserSuspension, and the hold extends while they decide''))
           | None \<Rightarrow>
               (case us_hold_ended_at u of
                  Some ended_at \<Rightarrow>
                    if now < saturating_add ended_at HOLD_COOLDOWN_SECS
                    then Inl (Forbidden (lit ''a hold on this account ended at '' @ show_int ended_at
                      @ lit '', less than '' @ show_int (HOLD_COOLDOWN_SECS div (24 * 60 * 60))
                      @ lit '' days ago; a second one needs the owners '' @ [8212]
                      @ lit '' open GovernanceService.OpenUserSuspension, and the account may be held again while they decide''))
                    else granted
                | None \<Rightarrow> granted))"

definition user_enable :: "user \<Rightarrow> int \<Rightarrow> user" where
  "user_enable u now =
     (let u1 = (case us_suspension u of
                  Some (AdminHold expires_at) \<Rightarrow> u\<lparr>us_hold_ended_at := Some (min now expires_at)\<rparr>
                | _ \<Rightarrow> u);
          u2 = u1\<lparr>us_suspension := None\<rparr>
      in if us_status u2 = Active then u2
         else user_emit (u2\<lparr>us_status := Active\<rparr>) Reinstated)"

definition lapse_hold :: "user \<Rightarrow> int \<Rightarrow> bool \<times> user" where
  "lapse_hold u now =
     (case Option.bind (us_suspension u) hold_expires_at of
        None \<Rightarrow> (False, u)
      | Some expires_at \<Rightarrow> if now < expires_at then (False, u) else (True, user_enable u now))"

definition user_set_kyc_level :: "user \<Rightarrow> nat \<Rightarrow> domain_error + user" where
  "user_set_kyc_level u level =
     (if level > MAX_KYC_LEVEL
      then Inl (Validation (lit ''kyc_level must be between 0 and '' @ show_nat MAX_KYC_LEVEL))
      else if level > 0 \<and> \<not> us_email_verified u
      then Inl (Precondition (lit ''a KYC level above 0 needs a verified email''))
      else if us_kyc_level u = level then Inr u
      else Inr (user_emit (u\<lparr>us_kyc_level := level\<rparr>) KycChanged))"

definition user_set_role :: "user \<Rightarrow> role \<Rightarrow> user" where
  "user_set_role u r =
     (if us_role u = r then u else user_emit (u\<lparr>us_role := r\<rparr>) RoleChanged)"

definition user_is_active :: "user \<Rightarrow> bool" where
  "user_is_active u \<longleftrightarrow> us_status u = Active"

definition user_drain_events :: "user \<Rightarrow> user_event list \<times> user" where
  "user_drain_events u = (us_pending u, u\<lparr>us_pending := []\<rparr>)"

section \<open>Runs of an account\<close>

datatype user_op =
    U_ChangeEmail email bool
  | U_VerifyEmail
  | U_TakeOver
  | U_SetUsername username
  | U_UpdateProfile profile_fields
  | U_RevokeTokens
  | U_Disable
  | U_Hold role int bool
  | U_Suspend
  | U_Enable int
  | U_LapseHold int
  | U_SetKycLevel nat
  | U_SetRole role

fun user_step :: "ext \<Rightarrow> user \<Rightarrow> user_op \<Rightarrow> domain_error + user" where
  "user_step E u (U_ChangeEmail m v) = Inr (change_email u m v)"
| "user_step E u U_VerifyEmail = Inr (verify_email u)"
| "user_step E u U_TakeOver = Inr (take_over u)"
| "user_step E u (U_SetUsername h) = Inr (set_username u h)"
| "user_step E u (U_UpdateProfile f) = update_profile E u f"
| "user_step E u U_RevokeTokens = Inr (snd (revoke_tokens u))"
| "user_step E u U_Disable = Inr (user_disable u)"
| "user_step E u (U_Hold by_role now pending) = user_hold u by_role now pending"
| "user_step E u U_Suspend = Inr (user_suspend u)"
| "user_step E u (U_Enable now) = Inr (user_enable u now)"
| "user_step E u (U_LapseHold now) = Inr (snd (lapse_hold u now))"
| "user_step E u (U_SetKycLevel n) = user_set_kyc_level u n"
| "user_step E u (U_SetRole r) = Inr (user_set_role u r)"

lemmas user_op_defs =
  change_email_def verify_email_def take_over_def set_username_def update_profile_def
  revoke_tokens_def user_disable_def user_suspend_def user_set_kyc_level_def user_set_role_def
  suspend_as_def user_emit_def Let_def

lemma bind_expiry:
  "Option.bind x hold_expires_at = None \<longleftrightarrow> x = None \<or> x = Some Governance"
  "Option.bind x hold_expires_at = Some e \<longleftrightarrow> x = Some (AdminHold e)"
  by (cases x; auto simp: hold_expires_at_def split: suspension.splits)+

lemma user_hold_Inr [result_simps]:
  "user_hold u by_role now pending = Inr u' \<longleftrightarrow>
     us_suspension u \<noteq> Some Governance
     \<and> (us_role u \<in> {Admin, Owner} \<longrightarrow> by_role = Owner)
     \<and> (pending \<or> (us_suspension u = None \<and>
          (case us_hold_ended_at u of None \<Rightarrow> True
             | Some e \<Rightarrow> saturating_add e HOLD_COOLDOWN_SECS \<le> now)))
     \<and> u' = suspend_as u (Some (AdminHold (saturating_add now HOLD_TTL_SECS)))"
  by (auto simp: user_hold_def Let_def bind_expiry split: option.splits)

lemma lapse_hold_eq:
  "lapse_hold u now =
     (case us_suspension u of Some (AdminHold e) \<Rightarrow> (if now < e then (False, u) else (True, user_enable u now))
        | _ \<Rightarrow> (False, u))"
  by (auto simp: lapse_hold_def hold_expires_at_def split: option.splits suspension.splits)

lemma user_enable_fields [simp]:
  "us_status (user_enable u now) = Active" "us_suspension (user_enable u now) = None"
  "us_kyc_level (user_enable u now) = us_kyc_level u"
  "us_email_verified (user_enable u now) = us_email_verified u"
  "us_profile (user_enable u now) = us_profile u" "us_role (user_enable u now) = us_role u"
  "us_token_version (user_enable u now) = us_token_version u"
  by (auto simp: user_enable_def user_emit_def Let_def split: option.splits suspension.splits)

lemma user_enable_log:
  "us_pending (user_enable u now) = us_pending u @ (if us_status u = Active then [] else [Reinstated])"
  "us_row_version (user_enable u now) = us_row_version u + (if us_status u = Active then 0 else 1)"
  by (auto simp: user_enable_def user_emit_def Let_def split: option.splits suspension.splits)

lemma user_enable_hold_ended:
  "us_hold_ended_at (user_enable u now) =
     (case us_suspension u of Some (AdminHold e) \<Rightarrow> Some (min now e) | _ \<Rightarrow> us_hold_ended_at u)"
  by (auto simp: user_enable_def user_emit_def Let_def split: option.splits suspension.splits)

text \<open>The invariant of an account.\<close>

definition account_ok :: "ext \<Rightarrow> user \<Rightarrow> bool" where
  "account_ok E u \<longleftrightarrow>
     us_kyc_level u \<le> 3
     \<and> (0 < us_kyc_level u \<longrightarrow> us_email_verified u)
     \<and> (us_status u = Active \<longrightarrow> us_suspension u = None)
     \<and> profile_ok E (us_profile u)
     \<and> length (us_pending u) \<le> us_row_version u"

lemma profile_default_ok: "profile_ok E profile_default"
  by (simp add: profile_ok_def profile_default_def field_ok_def)

lemma account_provision_ok: "account_ok E (user_provision uid subject mail verified handle)"
  by (simp add: account_ok_def user_provision_def user_emit_def profile_default_ok)

lemma account_step_ok:
  assumes "account_ok E u" and "user_step E u op = Inr u'"
  shows "account_ok E u'"
proof (cases op)
  case (U_UpdateProfile f)
  with assms show ?thesis
    by (auto simp: account_ok_def update_profile_def result_simps dest: profile_parse_ok)
next
  case (U_Enable now)
  with assms show ?thesis by (auto simp: account_ok_def user_enable_log)
next
  case (U_LapseHold now)
  with assms show ?thesis
    by (auto simp: account_ok_def user_enable_log lapse_hold_eq split: option.splits suspension.splits if_splits)
next
  case (U_Hold r now pending)
  with assms show ?thesis by (auto simp: account_ok_def result_simps user_op_defs)
next
  case (U_SetKycLevel n)
  with assms show ?thesis
    by (auto simp: account_ok_def user_set_kyc_level_def user_emit_def MAX_KYC_LEVEL_def split: if_splits)
qed (use assms in \<open>auto simp: account_ok_def user_op_defs split: if_splits\<close>)

lemma verified_step: "user_step E u op = Inr u' \<Longrightarrow> us_email_verified u \<Longrightarrow> us_email_verified u'"
  by (cases op)
    (auto simp: user_op_defs result_simps lapse_hold_eq split: if_splits option.splits suspension.splits)

text \<open>What the money plane sees of an account is the events; this is the state it mirrors.\<close>

fun mirror_frozen :: "bool \<Rightarrow> user_event list \<Rightarrow> bool" where
  "mirror_frozen b [] = b"
| "mirror_frozen b (e # es) =
     mirror_frozen (case e of Suspended \<Rightarrow> True | Reinstated \<Rightarrow> False | _ \<Rightarrow> b) es"

lemma mirror_frozen_append: "mirror_frozen b (es @ fs) = mirror_frozen (mirror_frozen b es) fs"
  by (induction b es rule: mirror_frozen.induct) simp_all

definition mirrored :: "user \<Rightarrow> bool" where
  "mirrored u \<longleftrightarrow>
     mirror_frozen False (us_pending u) = (us_status u = Disabled)
     \<and> us_token_version u = length (filter (\<lambda>e. e = SessionsRevoked) (us_pending u))
     \<and> (\<exists>es. us_pending u = Created # es \<and> Created \<notin> set es)"

lemma not_disabled [simp]: "s \<noteq> Disabled \<longleftrightarrow> s = Active" "s \<noteq> Active \<longleftrightarrow> s = Disabled"
  by (cases s; simp)+

lemma mirrored_provision: "mirrored (user_provision uid subject mail verified handle)"
  by (simp add: mirrored_def user_provision_def user_emit_def)

lemma mirrored_step:
  assumes "mirrored u" and "user_step E u op = Inr u'"
  shows "mirrored u'"
proof (cases op)
  case (U_Enable now)
  with assms show ?thesis by (auto simp: mirrored_def user_enable_log mirror_frozen_append)
next
  case (U_LapseHold now)
  with assms show ?thesis
    by (auto simp: mirrored_def user_enable_log mirror_frozen_append lapse_hold_eq
        split: option.splits suspension.splits if_splits)
next
  case (U_Hold r now pending)
  with assms show ?thesis by (auto simp: mirrored_def result_simps user_op_defs mirror_frozen_append)
next
  case (U_UpdateProfile f)
  with assms show ?thesis by (auto simp: mirrored_def result_simps user_op_defs)
next
  case (U_SetKycLevel n)
  with assms show ?thesis by (auto simp: mirrored_def user_op_defs mirror_frozen_append split: if_splits)
qed (use assms in \<open>auto simp: mirrored_def user_op_defs mirror_frozen_append split: if_splits\<close>)

text \<open>C27. Whatever is done to an account from its provisioning on, its KYC level stays
  within the tiers and above zero only on a verified address, an active account carries no
  suspension, its profile is in normal form, and every event is counted by its row version;
  and an address once verified never becomes unverified.\<close>

theorem account_invariant:
  "account_ok E (run_ops (user_step E) (user_provision uid subject mail verified handle) ops)
   \<and> (us_email_verified u \<longrightarrow> us_email_verified (run_ops (user_step E) u ops))"
proof
  show "account_ok E (run_ops (user_step E) (user_provision uid subject mail verified handle) ops)"
    by (rule run_ops_invariant [where I = "account_ok E"])
      (auto intro: account_provision_ok account_step_ok)
  show "us_email_verified u \<longrightarrow> us_email_verified (run_ops (user_step E) u ops)"
  proof
    assume "us_email_verified u"
    then show "us_email_verified (run_ops (user_step E) u ops)"
      by (rule run_ops_invariant [where I = us_email_verified]) (auto intro: verified_step)
  qed
qed

definition sample_user :: user where
  "sample_user = user_provision (UserId 7) (AuthSubject (lit ''7'')) (Email (lit ''ada@example.com'')) True None"

theorem account_invariant_witness:
  "us_email_verified (run_ops (user_step ascii_ext) sample_user
     [U_ChangeEmail (Email (lit ''other@example.com'')) False, U_SetKycLevel 2])"
proof -
  have "us_email_verified sample_user" by code_simp
  then show ?thesis using account_invariant by blast
qed

text \<open>The events an account raises tell the money plane the truth, whatever is done to
  it: replaying them gives frozen exactly when the account is disabled, its token version is
  the number of revocations announced, and its creation is announced first and once.\<close>

theorem events_tell_status:
  "mirrored (run_ops (user_step E) (user_provision uid subject mail verified handle) ops)"
  by (rule run_ops_invariant [where I = mirrored])
    (auto intro: mirrored_step mirrored_provision)

text \<open>The emergency brake is accepted exactly when it should be: never over the owners'
  verdict, on an admin's or owner's account only from an owner, and, unless the owners are
  already deciding, not while a hold stands and not within the cooldown of the last one. An accepted hold disables the account at once and sets its
  expiry one day ahead.\<close>

theorem hold_accepts_iff:
  "((\<exists>u'. user_hold u by_role now pending = Inr u') \<longleftrightarrow>
      us_suspension u \<noteq> Some Governance
      \<and> (us_role u = Admin \<or> us_role u = Owner \<longrightarrow> by_role = Owner)
      \<and> (pending \<or> us_suspension u = None
           \<and> (\<forall>e. us_hold_ended_at u = Some e \<longrightarrow> saturating_add e (7 * 86400) \<le> now)))
   \<and> (\<forall>u'. user_hold u by_role now pending = Inr u' \<longrightarrow>
        us_status u' = Disabled \<and> us_suspension u' = Some (AdminHold (saturating_add now 86400))
        \<and> us_pending u' = us_pending u @ (if us_status u = Active then [Suspended] else []))"
  by (auto simp: result_simps HOLD_COOLDOWN_SECS_def HOLD_TTL_SECS_def suspend_as_def user_emit_def Let_def
      split: option.splits)

theorem hold_accepts_iff_witness:
  "\<exists>u'. user_hold sample_user Operator 1000 False = Inr u'"
proof -
  have "us_suspension sample_user = None" "us_role sample_user = Investor"
    "us_hold_ended_at sample_user = None"
    by code_simp+
  with hold_accepts_iff [of sample_user Operator 1000 False] show ?thesis by simp
qed

text \<open>The operations of one admin acting alone: everything but the owners' verdict, the
  unqualified disable of the fixtures, and holds the owners are already deciding on.\<close>

fun unratified :: "int \<Rightarrow> user_op \<Rightarrow> bool" where
  "unratified t (U_Hold r now pending) = (t \<le> now \<and> \<not> pending)"
| "unratified t (U_Enable now) = (t \<le> now)"
| "unratified t (U_LapseHold now) = (t \<le> now)"
| "unratified t U_Suspend = False"
| "unratified t U_Disable = False"
| "unratified t _ = True"

definition held_since :: "int \<Rightarrow> user \<Rightarrow> bool" where
  "held_since t u \<longleftrightarrow>
     (case us_suspension u of
        Some (AdminHold e) \<Rightarrow> t \<le> e
      | Some Governance \<Rightarrow> False
      | None \<Rightarrow> (\<exists>e. us_hold_ended_at u = Some e \<and> t \<le> e))"

lemma held_since_step:
  assumes "held_since t u" and "unratified t op" and "user_step E u op = Inr u'" and "i64_min \<le> t" "t \<le> i64_max"
  shows "held_since t u'"
proof (cases op)
  case (U_Hold r now pending)
  with assms show ?thesis
    using saturating_add_ge [of HOLD_TTL_SECS now]
    by (auto simp: held_since_def result_simps user_op_defs saturating_add_def HOLD_TTL_SECS_def i64_max_def i64_min_def)
next
  case (U_Enable now)
  with assms show ?thesis
    by (auto simp: held_since_def user_enable_hold_ended split: option.splits suspension.splits)
next
  case (U_LapseHold now)
  with assms show ?thesis
    by (auto simp: held_since_def user_enable_hold_ended lapse_hold_eq split: option.splits suspension.splits if_splits)
next
  case (U_UpdateProfile f)
  with assms show ?thesis
    by (auto simp: held_since_def user_op_defs result_simps split: option.splits suspension.splits)
qed (use assms in \<open>auto simp: held_since_def user_op_defs split: if_splits option.splits suspension.splits\<close>)

text \<open>C28. One admin cannot keep anybody frozen by pressing again: after a hold at time t,
  through any further operations other than the owners' own (lifting it early, letting it
  lapse, other holds), a hold that is not ratified is accepted again only seven days after
  t. Since a hold lasts one day, an account is frozen by unratified holds at most one day in
  seven.\<close>

theorem holds_are_apart:
  assumes "user_hold u r t p = Inr u1" and "\<forall>op\<in>set ops. unratified t op"
    and "user_hold (run_ops (user_step E) u1 ops) r' t2 False = Inr u2"
    and "i64_min \<le> t" and "t + 7 * 86400 \<le> i64_max"
  shows "t + 7 * 86400 \<le> t2"
proof -
  have t: "t \<le> i64_max" using assms(5) by simp
  have "held_since t u1"
    using assms(1,4) t
    by (auto simp: held_since_def result_simps user_op_defs saturating_add_def HOLD_TTL_SECS_def i64_max_def i64_min_def)
  then have "held_since t (run_ops (user_step E) u1 ops)"
    by (rule run_ops_invariant [where I = "held_since t"])
      (use assms(2,4) t in \<open>auto intro: held_since_step\<close>)
  moreover have "us_suspension (run_ops (user_step E) u1 ops) = None"
    and c: "\<And>e. us_hold_ended_at (run_ops (user_step E) u1 ops) = Some e \<Longrightarrow> saturating_add e HOLD_COOLDOWN_SECS \<le> t2"
    using assms(3) by (auto simp: result_simps)
  ultimately obtain e where "us_hold_ended_at (run_ops (user_step E) u1 ops) = Some e" "t \<le> e"
    by (auto simp: held_since_def)
  with c [of e] assms(4,5) show ?thesis
    by (auto simp: saturating_add_def HOLD_COOLDOWN_SECS_def i64_min_def split: if_splits)
qed

theorem holds_are_apart_witness:
  "\<exists>u1 u2. user_hold sample_user Admin 1000 False = Inr u1
     \<and> user_hold (run_ops (user_step ascii_ext) u1 [U_LapseHold 87400]) Admin 700000 False = Inr u2
     \<and> (1000::int) + 7 * 86400 \<le> 700000"
proof -
  have "is_ok (user_hold sample_user Admin 1000 False)"
    and "is_ok (user_hold (run_ops (user_step ascii_ext) (projr (user_hold sample_user Admin 1000 False))
      [U_LapseHold 87400]) Admin 700000 False)"
    by code_simp+
  then obtain u1 u2 where u1: "user_hold sample_user Admin 1000 False = Inr u1"
    and u2: "user_hold (run_ops (user_step ascii_ext) u1 [U_LapseHold 87400]) Admin 700000 False = Inr u2"
    by (auto elim!: is_ok.elims)
  have "(1000::int) + 7 * 86400 \<le> 700000"
    by (rule holds_are_apart [OF u1 _ u2]) (simp_all add: i64_min_def i64_max_def)
  with u1 u2 show ?thesis by blast
qed

lemma verdict_step:
  assumes "us_suspension u = Some Governance \<and> us_status u = Disabled" and "user_step E u op = Inr u'"
    and "op \<noteq> U_Disable" and "\<And>now. op \<noteq> U_Enable now"
  shows "us_suspension u' = Some Governance \<and> us_status u' = Disabled"
  using assms
  by (cases op) (auto simp: user_op_defs result_simps lapse_hold_eq split: if_splits)

text \<open>C29. Time undoes a hold and nothing else. An account suspended by the owners stays
  suspended through everything but an explicit reinstatement and the unqualified disable: no
  hold replaces the verdict and no sweep lapses it. The unqualified disable is no no-op on such
  an account: it stays disabled, but the verdict is erased, so that one admin may lift it. A
  hold lapses at the first sweep at or after its expiry, leaves the account active, and its
  cooldown counts from the expiry, not from the sweep; an earlier sweep changes nothing.\<close>

theorem verdict_stands_hold_lapses:
  "(us_suspension u = Some Governance \<and> us_status u = Disabled
      \<and> (\<forall>op\<in>set ops. op \<noteq> U_Disable \<and> (\<forall>now. op \<noteq> U_Enable now)) \<longrightarrow>
        us_suspension (run_ops (user_step E) u ops) = Some Governance
        \<and> us_status (run_ops (user_step E) u ops) = Disabled)
   \<and> (us_suspension w = Some Governance \<and> us_status w = Disabled \<longrightarrow>
        us_status (user_disable w) = Disabled \<and> us_suspension (user_disable w) = None)
   \<and> (user_hold v r t p = Inr v1 \<longrightarrow>
        (now < saturating_add t 86400 \<longrightarrow> lapse_hold v1 now = (False, v1))
        \<and> (saturating_add t 86400 \<le> now \<longrightarrow>
             fst (lapse_hold v1 now)
             \<and> us_status (snd (lapse_hold v1 now)) = Active \<and> us_suspension (snd (lapse_hold v1 now)) = None
             \<and> us_hold_ended_at (snd (lapse_hold v1 now)) = Some (saturating_add t 86400)))"
proof (intro conjI impI, goal_cases)
  case 1
  have "us_suspension (run_ops (user_step E) u ops) = Some Governance
      \<and> us_status (run_ops (user_step E) u ops) = Disabled"
    by (rule run_ops_invariant [where I = "\<lambda>x. us_suspension x = Some Governance \<and> us_status x = Disabled"])
      (use 1 verdict_step in blast)+
  then show ?case by blast
next
  case 2
  have "us_suspension (run_ops (user_step E) u ops) = Some Governance
      \<and> us_status (run_ops (user_step E) u ops) = Disabled"
    by (rule run_ops_invariant [where I = "\<lambda>x. us_suspension x = Some Governance \<and> us_status x = Disabled"])
      (use 2 verdict_step in blast)+
  then show ?case by blast
qed (auto simp: result_simps lapse_hold_eq suspend_as_def user_emit_def Let_def HOLD_TTL_SECS_def
    user_enable_hold_ended user_disable_def)

theorem verdict_stands_hold_lapses_witness:
  "us_suspension (run_ops (user_step ascii_ext) (user_suspend sample_user)
      [U_Hold Owner 1000 True, U_LapseHold 999999]) = Some Governance
    \<and> us_suspension (user_disable (user_suspend sample_user)) = None"
proof -
  have "us_suspension (user_suspend sample_user) = Some Governance" "us_status (user_suspend sample_user) = Disabled"
    by code_simp+
  then show ?thesis using verdict_stands_hold_lapses [of "user_suspend sample_user"
      "[U_Hold Owner 1000 True, U_LapseHold 999999]" ascii_ext "user_suspend sample_user"] by simp
qed

end
