(* ===== verification/Directory_Store.thy ===== *)
theory Directory_Store
  imports Accounts
begin

text \<open>
  \<open>runner/src/infrastructure/users.rs\<close>: the Postgres adapter of the user directory, over
  the tables it writes. A table is the list of its rows; its checks and unique indexes (from
  the migrations) are \<open>users_violation\<close>, and a statement the database refuses is a
  \<open>Repository\<close> error. A transaction works on the database it began with; an error
  before the commit leaves that database as it was (\<open>transact\<close>), and row and advisory
  locks make transactions follow one another. Identity counters are naturals.
\<close>

section \<open>Tables\<close>

record user_row =
  ur_id :: user_id
  ur_auth_subject :: rstr
  ur_email :: "rstr option"
  ur_email_verified :: bool
  ur_username :: "rstr option"
  ur_status :: rstr
  ur_suspended_by :: "rstr option"
  ur_hold_expires_at :: "int option"
  ur_hold_ended_at :: "int option"
  ur_token_version :: nat
  ur_kyc_level :: nat
  ur_role :: rstr
  ur_profile :: profile_fields
  ur_row_version :: nat

record outbox_row =
  ob_user_id :: user_id
  ob_kind :: rstr
  ob_kyc_level :: nat
  ob_occurred_at :: int
  ob_sequence :: nat
  ob_auth_subject :: rstr
  ob_email :: "rstr option"
  ob_email_verified :: bool
  ob_token_version :: nat
  ob_role :: rstr
  ob_permissions :: "rstr list option"

datatype json = JNull | JBool bool | JInt int | JStr rstr | JObject "(rstr \<times> json) list"

record admin_action =
  aa_actor :: "user_id option"
  aa_action :: rstr
  aa_reason :: rstr
  aa_proposal_id :: "user_proposal_id option"
  aa_detail :: "json option"
  aa_client_ip :: rstr
  aa_user_agent :: rstr

record action_row =
  ac_subject :: user_id
  ac_actor :: "user_id option"
  ac_action :: rstr
  ac_proposal_id :: "user_proposal_id option"
  ac_reason :: rstr
  ac_detail :: "json option"
  ac_occurred_at :: int
  ac_client_ip :: rstr
  ac_user_agent :: rstr

record identity_db =
  db_users :: "user_row list"
  db_outbox :: "outbox_row list"
  db_actions :: "action_row list"
  db_passwords :: "user_id list"
  db_identities :: "((rstr \<times> rstr) \<times> user_id) list"
  db_seat_meanings :: "(rstr \<times> rstr list \<times> nat) list"

text \<open>
  A unit of work: an error rolls back, a result is committed (and may itself be an error
  the code returns after committing).
\<close>

definition transact :: "('db \<Rightarrow> domain_error + (domain_error + 'a) \<times> 'db) \<Rightarrow> 'db \<Rightarrow> (domain_error + 'a) \<times> 'db" where
  "transact tx db = (case tx db of Inl e \<Rightarrow> (Inl e, db) | Inr (out, db') \<Rightarrow> (out, db'))"

section \<open>Constraints of the users table\<close>

definition len_le :: "nat \<Rightarrow> rstr option \<Rightarrow> bool" where
  "len_le n v = (case v of None \<Rightarrow> True | Some s \<Rightarrow> length s \<le> n)"

definition users_profile_lengths :: "profile_fields \<Rightarrow> (string \<times> bool) list" where
  "users_profile_lengths p =
     [(''users_base_currency_len'', len_le 3 (base_currency p)),
      (''users_date_of_birth_len'', len_le 10 (date_of_birth p)),
      (''users_language_len'', len_le 16 (language p)),
      (''users_legal_name_len'', len_le 256 (legal_name p)),
      (''users_nationality_len'', len_le 64 (nationality p)),
      (''users_phone_len'', len_le 32 (phone p)),
      (''users_preferred_name_len'', len_le 64 (preferred_name p)),
      (''users_residential_address_len'', len_le 256 (residential_address p)),
      (''users_tax_residence_len'', len_le 64 (tax_residence p)),
      (''users_timezone_len'', len_le 64 (timezone p))]"

definition users_kyc_checks :: "user_row \<Rightarrow> (string \<times> bool) list" where
  "users_kyc_checks r =
     [(''users_kyc_level_range'', ur_kyc_level r \<le> 3),
      (''users_kyc_needs_verified_email'', ur_kyc_level r = 0 \<or> ur_email_verified r)]"

definition users_suspension_checks :: "user_row \<Rightarrow> (string \<times> bool) list" where
  "users_suspension_checks r =
     [(''users_suspended_by'', ur_suspended_by r \<in> {None, Some (lit ''admin_hold''), Some (lit ''governance'')}),
      (''users_hold_expiry_is_a_hold'', ur_hold_expires_at r = None \<or> ur_suspended_by r = Some (lit ''admin_hold''))]"

definition users_username_shape :: "ext \<Rightarrow> user_row \<Rightarrow> bool" where
  "users_username_shape E r = (case ur_username r of None \<Rightarrow> True
     | Some h \<Rightarrow> h = pg_lower E h \<and> 1 \<le> length h \<and> length h \<le> 254)"

definition users_unique :: "ext \<Rightarrow> user_row list \<Rightarrow> user_row \<Rightarrow> (string \<times> bool) list" where
  "users_unique E others r =
     [(''users_pkey'', \<not> list_ex (\<lambda>w. ur_id w = ur_id r) others),
      (''users_auth_subject_idx'', \<not> list_ex (\<lambda>w. ur_auth_subject w = ur_auth_subject r) others),
      (''users_username_idx'', ur_username r = None \<or> \<not> list_ex (\<lambda>w. ur_username w = ur_username r) others),
      (''users_verified_email_idx'', \<not> ur_email_verified r \<or> ur_email r = None
         \<or> \<not> list_ex (\<lambda>w. ur_email_verified w \<and> map_option (pg_lower E) (ur_email w) = map_option (pg_lower E) (ur_email r)) others)]"

definition users_violation :: "ext \<Rightarrow> user_row list \<Rightarrow> user_row \<Rightarrow> string option" where
  "users_violation E others r =
     map_option fst (find (\<lambda>c. \<not> snd c)
       (users_profile_lengths (ur_profile r) @ users_kyc_checks r @ users_suspension_checks r
        @ [(''users_username_shape'', users_username_shape E r)] @ users_unique E others r))"

definition sql_error :: "ext \<Rightarrow> string \<Rightarrow> domain_error" where
  "sql_error E name = Repository (pg_error E (lit name))"

section \<open>Rows and the aggregate\<close>

definition into_domain :: "ext \<Rightarrow> user_row \<Rightarrow> domain_error + user" where
  "into_domain E r =
     (case ur_email r of
        None \<Rightarrow> Inl (Repository (lit ''user row is missing an email''))
      | Some raw_email \<Rightarrow>
          rbind (auth_subject_parse (ur_auth_subject r)) (\<lambda>subject.
          rbind (email_parse E raw_email) (\<lambda>mail.
          rbind (user_status_parse (ur_status r)) (\<lambda>st.
          rbind (case ur_suspended_by r of
                   None \<Rightarrow> Inr None
                 | Some by_whom \<Rightarrow> rbind (suspension_parse by_whom (ur_hold_expires_at r)) (\<lambda>s. Inr (Some s))) (\<lambda>susp.
          rbind (role_parse (ur_role r)) (\<lambda>seat.
            Inr (user_rehydrate (ur_id r) subject mail (ur_email_verified r)
              (map_option username_from_stored (ur_username r)) st susp (ur_hold_ended_at r)
              (ur_token_version r) (ur_kyc_level r) seat (ur_profile r) (ur_row_version r))))))))"

definition load_for_update :: "ext \<Rightarrow> 'z identity_db_scheme \<Rightarrow> user_id \<Rightarrow> domain_error + user" where
  "load_for_update E db i =
     (case find (\<lambda>r. ur_id r = i) (db_users db) of
        None \<Rightarrow> Inl (NotFound (lit ''user'') (uuid_text E (uid_raw i)))
      | Some r \<Rightarrow> into_domain E r)"

text \<open>The columns an \<open>UPDATE\<close> of \<open>update_row\<close> sets; the id and the subject stay.\<close>

definition stored_hold_expiry :: "suspension option \<Rightarrow> int option" where
  "stored_hold_expiry s = (case Option.bind s hold_expires_at of
     None \<Rightarrow> None | Some t \<Rightarrow> if t \<noteq> i64_max then Some t else None)"

definition set_columns :: "user \<Rightarrow> user_row \<Rightarrow> user_row" where
  "set_columns u r =
     r\<lparr>ur_email := Some (email_as_str (us_email u)), ur_email_verified := us_email_verified u,
       ur_status := user_status_as_str (us_status u), ur_token_version := us_token_version u,
       ur_kyc_level := us_kyc_level u, ur_profile := us_profile u,
       ur_role := role_as_str (us_role u), ur_row_version := us_row_version u,
       ur_suspended_by := map_option suspension_as_str (us_suspension u),
       ur_hold_expires_at := stored_hold_expiry (us_suspension u),
       ur_hold_ended_at := us_hold_ended_at u,
       ur_username := map_option username_as_str (us_username u)\<rparr>"

definition update_row :: "ext \<Rightarrow> 'z identity_db_scheme \<Rightarrow> user \<Rightarrow> domain_error + 'z identity_db_scheme" where
  "update_row E db u =
     (case find (\<lambda>r. ur_id r = us_id u) (db_users db) of
        None \<Rightarrow> Inr db
      | Some r \<Rightarrow>
          (case users_violation E (filter (\<lambda>w. ur_id w \<noteq> us_id u) (db_users db)) (set_columns u r) of
             Some name \<Rightarrow> Inl (sql_error E name)
           | None \<Rightarrow> Inr (db\<lparr>db_users := map (\<lambda>w. if ur_id w = us_id u then set_columns u w else w) (db_users db)\<rparr>)))"

definition inserted_row :: "user \<Rightarrow> user_row" where
  "inserted_row u =
     \<lparr>ur_id = us_id u, ur_auth_subject = auth_subject_as_str (us_auth_subject u),
      ur_email = Some (email_as_str (us_email u)), ur_email_verified = us_email_verified u,
      ur_username = map_option username_as_str (us_username u),
      ur_status = user_status_as_str (us_status u), ur_suspended_by = None,
      ur_hold_expires_at = None, ur_hold_ended_at = None, ur_token_version = us_token_version u,
      ur_kyc_level = us_kyc_level u, ur_role = role_as_str (us_role u),
      ur_profile = profile_default, ur_row_version = us_row_version u\<rparr>"

definition insert_user :: "ext \<Rightarrow> 'z identity_db_scheme \<Rightarrow> user \<Rightarrow> domain_error + 'z identity_db_scheme" where
  "insert_user E db u =
     (case users_violation E (db_users db) (inserted_row u) of
        Some name \<Rightarrow> Inl (sql_error E name)
      | None \<Rightarrow> Inr (db\<lparr>db_users := db_users db @ [inserted_row u]\<rparr>))"

section \<open>The outbox and the action log\<close>

definition outbox_row_of :: "user \<Rightarrow> int \<Rightarrow> rstr list \<Rightarrow> nat \<Rightarrow> user_event \<Rightarrow> outbox_row" where
  "outbox_row_of u occurred_at permissions sequence event =
     \<lparr>ob_user_id = us_id u, ob_kind = user_event_kind event, ob_kyc_level = us_kyc_level u,
      ob_occurred_at = occurred_at, ob_sequence = sequence,
      ob_auth_subject = auth_subject_as_str (us_auth_subject u),
      ob_email = Some (email_as_str (us_email u)), ob_email_verified = us_email_verified u,
      ob_token_version = us_token_version u, ob_role = role_as_str (us_role u),
      ob_permissions = Some permissions\<rparr>"

definition drain_outbox :: "ext \<Rightarrow> int \<Rightarrow> 'z identity_db_scheme \<Rightarrow> user \<Rightarrow> domain_error + ('z identity_db_scheme \<times> user)" where
  "drain_outbox E clock db u =
     (let (events, u') = user_drain_events u; count = length events
      in if events = [] then Inr (db, u')
         else case map_of (db_seat_meanings db) (role_as_str (us_role u)) of
           None \<Rightarrow> Inl (sql_error E ''user_outbox_stamp_permissions'')
         | Some (permissions, _) \<Rightarrow>
             Inr (db\<lparr>db_outbox := db_outbox db @
                    map (\<lambda>(i, event). outbox_row_of u clock permissions (us_row_version u - (count - 1 - i)) event)
                      (enumerate 0 events)\<rparr>, u'))"

definition record_action :: "'z identity_db_scheme \<Rightarrow> user_id \<Rightarrow> admin_action \<Rightarrow> int \<Rightarrow> 'z identity_db_scheme" where
  "record_action db subject action now =
     db\<lparr>db_actions := db_actions db @
       [\<lparr>ac_subject = subject, ac_actor = aa_actor action, ac_action = aa_action action,
         ac_proposal_id = aa_proposal_id action, ac_reason = aa_reason action,
         ac_detail = aa_detail action, ac_occurred_at = now,
         ac_client_ip = take 64 (aa_client_ip action), ac_user_agent = take 256 (aa_user_agent action)\<rparr>]\<rparr>"

definition action_system :: "rstr \<Rightarrow> admin_action" where
  "action_system action =
     \<lparr>aa_actor = None, aa_action = action, aa_reason = [], aa_proposal_id = None, aa_detail = None,
      aa_client_ip = [], aa_user_agent = []\<rparr>"

definition action_by :: "user_id \<Rightarrow> rstr \<Rightarrow> rstr \<Rightarrow> rstr \<Rightarrow> admin_action" where
  "action_by actor action client_ip user_agent =
     (action_system action)\<lparr>aa_actor := Some actor, aa_client_ip := client_ip, aa_user_agent := user_agent\<rparr>"

definition with_reason :: "admin_action \<Rightarrow> rstr \<Rightarrow> admin_action" where
  "with_reason a reason = a\<lparr>aa_reason := take 500 reason\<rparr>"

definition with_detail :: "admin_action \<Rightarrow> json \<Rightarrow> admin_action" where
  "with_detail a detail = a\<lparr>aa_detail := Some detail\<rparr>"

definition with_proposal :: "admin_action \<Rightarrow> user_proposal_id \<Rightarrow> admin_action" where
  "with_proposal a pid = a\<lparr>aa_proposal_id := Some pid\<rparr>"

fun put_key :: "rstr \<Rightarrow> json \<Rightarrow> (rstr \<times> json) list \<Rightarrow> (rstr \<times> json) list" where
  "put_key k v [] = [(k, v)]"
| "put_key k v ((k', v') # rest) = (if k' = k then (k, v) # rest else (k', v') # put_key k v rest)"

definition detail_with :: "json option \<Rightarrow> (rstr \<times> json) list \<Rightarrow> json" where
  "detail_with base keys =
     (let merged = (case base of Some (JObject obj) \<Rightarrow> obj | _ \<Rightarrow> [])
      in JObject (foldl (\<lambda>m (k, v). put_key k v m) merged keys))"

definition kyc_level_detail :: "nat \<Rightarrow> nat \<Rightarrow> json option \<Rightarrow> json" where
  "kyc_level_detail from_level to_level base =
     detail_with base [(lit ''from'', JInt (int from_level)), (lit ''to'', JInt (int to_level)),
       (lit ''kyc_level'', JInt (int to_level))]"

section \<open>Load, mutate, persist\<close>

definition save_user ::
  "ext \<Rightarrow> int \<Rightarrow> 'z identity_db_scheme \<Rightarrow> user \<Rightarrow> domain_error + ('z identity_db_scheme \<times> user)" where
  "save_user E clock db u = rbind (update_row E db u) (\<lambda>db. drain_outbox E clock db u)"

definition mutate ::
  "ext \<Rightarrow> int \<Rightarrow> user_id \<Rightarrow> (user \<Rightarrow> domain_error + user) \<Rightarrow> 'z identity_db_scheme
     \<Rightarrow> (domain_error + user) \<times> 'z identity_db_scheme" where
  "mutate E clock i command = transact (\<lambda>db.
     rbind (load_for_update E db i) (\<lambda>u.
     rbind (command u) (\<lambda>u.
     rbind (save_user E clock db u) (\<lambda>(db, u).
     Inr (Inr u, db)))))"

definition mutate_audited ::
  "ext \<Rightarrow> int \<Rightarrow> user_id \<Rightarrow> admin_action \<Rightarrow> int \<Rightarrow> (user \<Rightarrow> domain_error + user)
     \<Rightarrow> (user \<Rightarrow> user \<Rightarrow> json option \<Rightarrow> json option) \<Rightarrow> 'z identity_db_scheme
     \<Rightarrow> (domain_error + user) \<times> 'z identity_db_scheme" where
  "mutate_audited E clock i action now command detail = transact (\<lambda>db.
     rbind (load_for_update E db i) (\<lambda>prior.
     rbind (command prior) (\<lambda>u.
     rbind (save_user E clock db u) (\<lambda>(db, u).
     Inr (Inr u, record_action db i (action\<lparr>aa_detail := detail prior u (aa_detail action)\<rparr>) now)))))"

section \<open>The operations of the directory\<close>

definition find_by_id :: "ext \<Rightarrow> 'z identity_db_scheme \<Rightarrow> user_id \<Rightarrow> domain_error + user option" where
  "find_by_id E db i =
     (case find (\<lambda>r. ur_id r = i) (db_users db) of
        None \<Rightarrow> Inr None
      | Some r \<Rightarrow> rbind (into_domain E r) (\<lambda>u. Inr (Some u)))"

definition str_contains :: "rstr \<Rightarrow> rstr \<Rightarrow> bool" where
  "str_contains msg part \<longleftrightarrow> list_ex (\<lambda>i. take (length part) (drop i msg) = part) [0..<Suc (length msg)]"

definition store_set_username ::
  "ext \<Rightarrow> int \<Rightarrow> user_id \<Rightarrow> username \<Rightarrow> 'z identity_db_scheme \<Rightarrow> (domain_error + user) \<times> 'z identity_db_scheme" where
  "store_set_username E clock i handle db =
     (let (result, db') = mutate E clock i (\<lambda>u. Inr (set_username u handle)) db
      in (case result of
            Inl (Repository msg) \<Rightarrow>
              if str_contains msg (lit ''users_username_idx'') then Inl (Conflict (lit ''username is taken''))
              else Inl (Repository msg)
          | other \<Rightarrow> other, db'))"

definition store_update_profile ::
  "ext \<Rightarrow> int \<Rightarrow> user_id \<Rightarrow> profile_fields \<Rightarrow> 'z identity_db_scheme \<Rightarrow> (domain_error + user) \<times> 'z identity_db_scheme" where
  "store_update_profile E clock i raw = mutate E clock i (\<lambda>u. update_profile E u raw)"

definition store_revoke_tokens ::
  "ext \<Rightarrow> int \<Rightarrow> user_id \<Rightarrow> admin_action \<Rightarrow> int \<Rightarrow> 'z identity_db_scheme \<Rightarrow> (domain_error + user) \<times> 'z identity_db_scheme" where
  "store_revoke_tokens E clock i action now =
     mutate_audited E clock i action now (\<lambda>u. Inr (snd (revoke_tokens u)))
       (\<lambda>_ u caller. Some (detail_with caller [(lit ''token_version'', JInt (int (us_token_version u)))]))"

definition store_disable_user ::
  "ext \<Rightarrow> int \<Rightarrow> user_id \<Rightarrow> 'z identity_db_scheme \<Rightarrow> (domain_error + user) \<times> 'z identity_db_scheme" where
  "store_disable_user E clock i = mutate E clock i (\<lambda>u. Inr (user_disable u))"

text \<open>
  \<open>ratifying\<close> is the query of \<open>hold_user\<close> over the proposal table, which the consilium's
  store defines.
\<close>

definition hold_actor :: "'z identity_db_scheme \<Rightarrow> user_id \<Rightarrow> domain_error + role" where
  "hold_actor db by_user =
     (case find (\<lambda>r. ur_id r = by_user) (db_users db) of
        None \<Rightarrow> Inr Investor
      | Some r \<Rightarrow>
          rbind (user_status_parse (ur_status r)) (\<lambda>st.
          if st = Disabled
          then Inl (Forbidden (lit ''your account was suspended while this request was in flight; a suspended operator holds nobody''))
          else role_parse (ur_role r)))"

definition store_hold_user ::
  "('z identity_db_scheme \<Rightarrow> user_id \<Rightarrow> int \<Rightarrow> bool) \<Rightarrow> ext \<Rightarrow> int \<Rightarrow> user_id \<Rightarrow> admin_action \<Rightarrow> user_id \<Rightarrow> int
     \<Rightarrow> 'z identity_db_scheme \<Rightarrow> (domain_error + user) \<times> 'z identity_db_scheme" where
  "store_hold_user ratifying E clock i action by_user now = transact (\<lambda>db.
     rbind (load_for_update E db i) (\<lambda>u.
     rbind (hold_actor db by_user) (\<lambda>seat.
     let ratification_pending = ratifying db i now in
     rbind (user_hold u seat now ratification_pending) (\<lambda>u.
     rbind (save_user E clock db u) (\<lambda>(db, u).
     Inr (Inr u, record_action db i (with_detail action (JObject
       [(lit ''hold_expires_at'', (case Option.bind (us_suspension u) hold_expires_at of None \<Rightarrow> JNull | Some t \<Rightarrow> JInt t)),
        (lit ''ratification_pending'', JBool ratification_pending)])) now))))))"

definition store_enable_user ::
  "ext \<Rightarrow> int \<Rightarrow> user_id \<Rightarrow> int \<Rightarrow> 'z identity_db_scheme \<Rightarrow> (domain_error + user) \<times> 'z identity_db_scheme" where
  "store_enable_user E clock i now = mutate E clock i (\<lambda>u. Inr (user_enable u now))"

datatype reinstatement = ReinstatementApplied user | GovernanceHeld

definition reinstate_outside_governance ::
  "ext \<Rightarrow> int \<Rightarrow> user_id \<Rightarrow> admin_action \<Rightarrow> int \<Rightarrow> 'z identity_db_scheme
     \<Rightarrow> (domain_error + reinstatement) \<times> 'z identity_db_scheme" where
  "reinstate_outside_governance E clock i action now = transact (\<lambda>db.
     rbind (load_for_update E db i) (\<lambda>u.
     if (case us_suspension u of None \<Rightarrow> False | Some by_whom \<Rightarrow> \<not> is_reversible_by_one_admin by_whom)
     then Inr (Inr GovernanceHeld, db)
     else rbind (save_user E clock db (user_enable u now)) (\<lambda>(db, u).
       Inr (Inr (ReinstatementApplied u), record_action db i action now))))"

text \<open>The sweep of due holds: one transaction per account, an error leaving the loop.\<close>

fun lapse_loop ::
  "ext \<Rightarrow> int \<Rightarrow> int \<Rightarrow> user_id list \<Rightarrow> user_id list \<Rightarrow> 'z identity_db_scheme
     \<Rightarrow> (domain_error + user_id list) \<times> 'z identity_db_scheme" where
  "lapse_loop E clock now [] lapsed db = (Inr lapsed, db)"
| "lapse_loop E clock now (i # due) lapsed db =
     (case load_for_update E db i of
        Inl e \<Rightarrow> (Inl e, db)
      | Inr u \<Rightarrow>
          (let (did, u') = lapse_hold u now in
           if \<not> did then lapse_loop E clock now due lapsed db
           else case save_user E clock db u' of
             Inl e \<Rightarrow> (Inl e, db)
           | Inr (db', _) \<Rightarrow>
               lapse_loop E clock now due (lapsed @ [i])
                 (record_action db' i (action_system (lit ''hold_lapsed'')) now)))"

definition due_holds :: "'z identity_db_scheme \<Rightarrow> int \<Rightarrow> nat \<Rightarrow> user_id list" where
  "due_holds db now limit =
     map ur_id (take limit (sort_key (\<lambda>r. the (ur_hold_expires_at r))
       (filter (\<lambda>r. case ur_hold_expires_at r of None \<Rightarrow> False | Some t \<Rightarrow> t \<le> now) (db_users db))))"

definition lapse_due_holds ::
  "ext \<Rightarrow> int \<Rightarrow> int \<Rightarrow> nat \<Rightarrow> 'z identity_db_scheme \<Rightarrow> (domain_error + user_id list) \<times> 'z identity_db_scheme" where
  "lapse_due_holds E clock now limit db = lapse_loop E clock now (due_holds db now limit) [] db"

definition store_set_kyc_level ::
  "ext \<Rightarrow> int \<Rightarrow> user_id \<Rightarrow> nat \<Rightarrow> admin_action \<Rightarrow> int \<Rightarrow> 'z identity_db_scheme
     \<Rightarrow> (domain_error + user) \<times> 'z identity_db_scheme" where
  "store_set_kyc_level E clock i level action now db =
     (if aa_actor action = Some i
      then (Inl (Forbidden (lit ''a KYC level cannot be set on your own account'')), db)
      else mutate_audited E clock i action now (\<lambda>u. user_set_kyc_level u level)
        (\<lambda>prior u caller. Some (kyc_level_detail (us_kyc_level prior) (us_kyc_level u) caller)) db)"

datatype kyc_level_change = AlreadyHolds nat | Raised nat nat

definition error_text :: "domain_error \<Rightarrow> rstr" where
  "error_text e = (case e of
     NotFound entity i \<Rightarrow> entity @ lit '' not found: '' @ i
   | Conflict m \<Rightarrow> lit ''conflict: '' @ m
   | Validation m \<Rightarrow> lit ''validation failed: '' @ m
   | Forbidden m \<Rightarrow> lit ''forbidden: '' @ m
   | Precondition m \<Rightarrow> lit ''precondition failed: '' @ m
   | Repository m \<Rightarrow> lit ''repository error: '' @ m)"

definition raise_kyc_level_to ::
  "ext \<Rightarrow> int \<Rightarrow> user_id \<Rightarrow> nat \<Rightarrow> admin_action \<Rightarrow> int \<Rightarrow> 'z identity_db_scheme
     \<Rightarrow> (domain_error + kyc_level_change) \<times> 'z identity_db_scheme" where
  "raise_kyc_level_to E clock i goal action now = transact (\<lambda>db.
     rbind (load_for_update E db i) (\<lambda>u.
     let current = us_kyc_level u in
     if goal \<le> current then Inr (Inr (AlreadyHolds current), db)
     else rbind (case user_set_kyc_level u goal of
                   Inl e \<Rightarrow> Inl (Repository (lit ''kyc level '' @ show_nat goal @ lit '' is not writable: '' @ error_text e))
                 | Inr u' \<Rightarrow> Inr u') (\<lambda>u.
       rbind (save_user E clock db u) (\<lambda>(db, u).
       Inr (Inr (Raised current goal),
         record_action db i (action\<lparr>aa_detail := Some (kyc_level_detail current goal (aa_detail action))\<rparr>) now)))))"

definition store_set_role ::
  "ext \<Rightarrow> int \<Rightarrow> user_id \<Rightarrow> role \<Rightarrow> 'z identity_db_scheme \<Rightarrow> (domain_error + user) \<times> 'z identity_db_scheme" where
  "store_set_role E clock i seat = mutate E clock i (\<lambda>u. Inr (user_set_role u seat))"

datatype role_change = RoleApplied user | WouldGrantOwnership | WouldTakeOwnership | WouldGrantAdmin

definition set_role_outside_ownership ::
  "ext \<Rightarrow> int \<Rightarrow> user_id \<Rightarrow> role \<Rightarrow> admin_action \<Rightarrow> int \<Rightarrow> 'z identity_db_scheme
     \<Rightarrow> (domain_error + role_change) \<times> 'z identity_db_scheme" where
  "set_role_outside_ownership E clock i seat action now = transact (\<lambda>db.
     rbind (load_for_update E db i) (\<lambda>u.
     let holds_seat = (us_role u = Owner) in
     if seat = Owner \<and> \<not> holds_seat then Inr (Inr WouldGrantOwnership, db)
     else if holds_seat \<and> seat \<noteq> Owner then Inr (Inr WouldTakeOwnership, db)
     else if seat = Admin \<and> us_role u \<noteq> Admin then Inr (Inr WouldGrantAdmin, db)
     else rbind (save_user E clock db (user_set_role u seat)) (\<lambda>(db, u).
       Inr (Inr (RoleApplied u), record_action db i
         (case aa_detail action of
            None \<Rightarrow> action\<lparr>aa_detail := Some (JObject [(lit ''role'', JStr (role_as_str (us_role u)))])\<rparr>
          | Some _ \<Rightarrow> action) now))))"

definition owner_count :: "'z identity_db_scheme \<Rightarrow> nat" where
  "owner_count db = length (filter (\<lambda>r. ur_role r = role_as_str Owner) (db_users db))"

record authz_record =
  az_role :: role
  az_status :: user_status
  az_token_version :: nat

definition authz_record_of :: "'z identity_db_scheme \<Rightarrow> user_id \<Rightarrow> domain_error + authz_record option" where
  "authz_record_of db i =
     (case find (\<lambda>r. ur_id r = i) (db_users db) of
        None \<Rightarrow> Inr None
      | Some r \<Rightarrow>
          rbind (role_parse (ur_role r)) (\<lambda>seat.
          rbind (user_status_parse (ur_status r)) (\<lambda>st.
          Inr (Some \<lparr>az_role = seat, az_status = st, az_token_version = ur_token_version r\<rparr>))))"

section \<open>Sign-in resolution and handles\<close>

definition verified_holder :: "ext \<Rightarrow> 'z identity_db_scheme \<Rightarrow> email \<Rightarrow> user_id option" where
  "verified_holder E db mail =
     map_option ur_id (find (\<lambda>r. map_option (pg_lower E) (ur_email r) = Some (email_as_str mail)
        \<and> ur_email_verified r) (db_users db))"

definition squatted :: "ext \<Rightarrow> 'z identity_db_scheme \<Rightarrow> email \<Rightarrow> user_id list" where
  "squatted E db mail =
     map ur_id (sort_key ur_id (filter (\<lambda>r. ur_id r \<in> set (db_passwords db)
        \<and> map_option (pg_lower E) (ur_email r) = Some (email_as_str mail) \<and> \<not> ur_email_verified r) (db_users db)))"

definition linkable ::
  "ext \<Rightarrow> 'z identity_db_scheme \<Rightarrow> proven_identity \<Rightarrow> int \<Rightarrow> domain_error + (user option \<times> 'z identity_db_scheme)" where
  "linkable E db identity now =
     (if \<not> pi_email_proven identity then Inr (None, db)
      else case verified_holder E db (pi_email identity) of
        Some i \<Rightarrow> rbind (load_for_update E db i) (\<lambda>u. Inr (Some u, db))
      | None \<Rightarrow>
          (case squatted E db (pi_email identity) of
             [] \<Rightarrow> Inr (None, db)
           | [i] \<Rightarrow>
               rbind (load_for_update E db i) (\<lambda>u.
               let u = take_over u;
                   db = db\<lparr>db_passwords := filter (\<lambda>x. x \<noteq> i) (db_passwords db)\<rparr> in
               rbind (update_row E db u) (\<lambda>db.
               let source = (case pi_provider identity of None \<Rightarrow> lit ''email_code'' | Some (p, _) \<Rightarrow> provider_as_str p) in
               Inr (Some u, record_action db i (with_detail (action_system (lit ''taken_over_by_mailbox''))
                 (JObject [(lit ''source'', JStr source)])) now)))
           | several \<Rightarrow> Inl (Repository (show_nat (length several) @ lit '' unverified password accounts share one address''))))"

definition free_username :: "'z identity_db_scheme \<Rightarrow> email \<Rightarrow> username option" where
  "free_username db mail =
     find (\<lambda>candidate. \<not> list_ex (\<lambda>r. ur_username r = Some (username_as_str candidate)) (db_users db))
       (username_defaults_for mail)"

definition link_identity ::
  "ext \<Rightarrow> 'z identity_db_scheme \<Rightarrow> provider \<Rightarrow> rstr \<Rightarrow> user_id \<Rightarrow> domain_error + 'z identity_db_scheme" where
  "link_identity E db p subject i =
     (if \<not> (1 \<le> length subject \<and> length subject \<le> 255) then Inl (sql_error E ''user_identities_subject_len'')
      else if (provider_as_str p, subject) \<in> fst ` set (db_identities db) then Inl (sql_error E ''user_identities_pkey'')
      else Inr (db\<lparr>db_identities := db_identities db @ [((provider_as_str p, subject), i)]\<rparr>))"

definition linked_account :: "'z identity_db_scheme \<Rightarrow> (provider \<times> rstr) option \<Rightarrow> user_id option" where
  "linked_account db who = (case who of
     None \<Rightarrow> None | Some (p, subject) \<Rightarrow> map_of (db_identities db) (provider_as_str p, subject))"

definition resolve_identity ::
  "ext \<Rightarrow> int \<Rightarrow> user_id \<Rightarrow> proven_identity \<Rightarrow> int \<Rightarrow> 'z identity_db_scheme
     \<Rightarrow> (domain_error + user) \<times> 'z identity_db_scheme" where
  "resolve_identity E clock fresh identity now = transact (\<lambda>db.
     case linked_account db (pi_provider identity) of
       Some i \<Rightarrow>
         rbind (load_for_update E db i) (\<lambda>u.
         if \<not> (pi_email_proven identity \<and> pi_email identity \<noteq> us_email u
                \<and> verified_holder E db (pi_email identity) \<noteq> None)
         then let u = change_email u (pi_email identity) (pi_email_proven identity) in
              rbind (update_row E db u) (\<lambda>db. Inr (Inr u, db))
         else Inr (Inr u, db))
     | None \<Rightarrow>
         rbind (linkable E db identity now) (\<lambda>(found, db).
         rbind (case found of
                  Some u \<Rightarrow> Inr (u, db)
                | None \<Rightarrow>
                    rbind (auth_subject_parse (uuid_text E (uid_raw fresh))) (\<lambda>subject.
                    let u = user_provision fresh subject (pi_email identity) (pi_email_proven identity)
                              (free_username db (pi_email identity)) in
                    rbind (insert_user E db u) (\<lambda>db. Inr (u, db)))) (\<lambda>(u, db).
         rbind (case pi_provider identity of
                  None \<Rightarrow> Inr db
                | Some (p, subject) \<Rightarrow> link_identity E db p subject (us_id u)) (\<lambda>db.
         rbind (drain_outbox E clock db u) (\<lambda>(db, u).
         Inr (Inr u, db))))))"

datatype named = One user_id | Nobody | Several

definition named_id :: "named \<Rightarrow> user_id option" where
  "named_id n = (case n of One i \<Rightarrow> Some i | Nobody \<Rightarrow> None | Several \<Rightarrow> None)"

definition account_by_username :: "ext \<Rightarrow> 'z identity_db_scheme \<Rightarrow> rstr \<Rightarrow> named" where
  "account_by_username E db handle =
     (case find (\<lambda>r. ur_username r = Some (to_lowercase E (trim handle))) (db_users db) of
        None \<Rightarrow> Nobody | Some r \<Rightarrow> One (ur_id r))"

definition account_named :: "ext \<Rightarrow> 'z identity_db_scheme \<Rightarrow> rstr \<Rightarrow> named" where
  "account_named E db handle =
     (case email_parse E handle of
        Inl _ \<Rightarrow> account_by_username E db handle
      | Inr mail \<Rightarrow>
          (case map ur_id (take 2 (filter (\<lambda>r. map_option (pg_lower E) (ur_email r) = Some (email_as_str mail)
                 \<and> (ur_email_verified r \<or> ur_id r \<in> set (db_passwords db))) (db_users db))) of
             [] \<Rightarrow> account_by_username E db handle
           | [i] \<Rightarrow> One i
           | _ \<Rightarrow> Several))"

end
