(* ===== verification/Directory_Laws.thy ===== *)
theory Directory_Laws
  imports Directory_Store
begin

text \<open>
  What the directory's store guarantees. A locale states the contract of a keyed store of
  aggregates (what is read after a write), interpreted on the user table; the writes of the
  adapter are a step relation, and every operation is a sequence of them, so an invariant of
  the tables is proved once per kind of write.
\<close>

section \<open>The contract of an aggregate store\<close>

locale aggregate_store =
  fixes get :: "'db \<Rightarrow> 'k \<Rightarrow> domain_error + 'v"
    and put :: "'db \<Rightarrow> 'v \<Rightarrow> domain_error + 'db"
    and key :: "'v \<Rightarrow> 'k"
    and storable :: "'v \<Rightarrow> bool"
    and clean :: "'v \<Rightarrow> 'v"
    and same_origin :: "'v \<Rightarrow> 'v \<Rightarrow> bool"
  assumes get_key: "get db k = Inr v \<Longrightarrow> key v = k"
    and get_put: "get db (key v) = Inr v0 \<Longrightarrow> same_origin v0 v \<Longrightarrow> storable v \<Longrightarrow> put db v = Inr db'
      \<Longrightarrow> get db' (key v) = Inr (clean v)"
    and get_put_other: "put db v = Inr db' \<Longrightarrow> k \<noteq> key v \<Longrightarrow> get db' k = get db k"
begin

text \<open>Load, run a command, write back: what is read afterwards is what the command made.\<close>

lemma modify:
  assumes "get db k = Inr v0" and "cmd v0 = Inr v" and "same_origin v0 v" and "key v = k"
    and "storable v" and "put db v = Inr db'"
  shows "get db' k = Inr (clean v)" and "k' \<noteq> k \<Longrightarrow> get db' k' = get db k'"
  using assms get_put [of db v v0 db'] get_put_other [of db v db' k'] by auto

lemma put_other_key: "put db v = Inr db' \<Longrightarrow> get db' k \<noteq> get db k \<Longrightarrow> k = key v"
  using get_put_other by blast

end

section \<open>Reading back what was written\<close>

lemma find_map_same:
  "(\<And>x. P (f x) = P x) \<Longrightarrow> find P (map f xs) = map_option f (find P xs)"
  by (induction xs) auto

lemma update_row_Inr:
  "update_row E db u = Inr db' \<Longrightarrow>
     db' = db\<lparr>db_users := map (\<lambda>w. if ur_id w = us_id u then set_columns u w else w) (db_users db)\<rparr>"
proof -
  assume up: "update_row E db u = Inr db'"
  have "map (\<lambda>w. if ur_id w = us_id u then set_columns u w else w) (db_users db) = db_users db"
    if "find (\<lambda>r. ur_id r = us_id u) (db_users db) = None"
    using that by (intro map_idI) (auto simp: find_None_iff_all)
  with up show ?thesis
    by (auto simp: update_row_def split: option.splits)
qed

lemma set_columns_id [simp]: "ur_id (set_columns u w) = ur_id w"
  "ur_auth_subject (set_columns u w) = ur_auth_subject w"
  by (simp_all add: set_columns_def)

lemma update_row_find:
  assumes "update_row E db u = Inr db'"
  shows "find (\<lambda>r. ur_id r = i) (db_users db') =
    (if i = us_id u then map_option (set_columns u) (find (\<lambda>r. ur_id r = i) (db_users db))
     else find (\<lambda>r. ur_id r = i) (db_users db))"
proof -
  have "find (\<lambda>r. ur_id r = i) (map (\<lambda>w. if ur_id w = us_id u then set_columns u w else w) xs)
      = (if i = us_id u then map_option (set_columns u) (find (\<lambda>r. ur_id r = i) xs)
         else find (\<lambda>r. ur_id r = i) xs)" for xs
    by (induction xs) auto
  then show ?thesis using update_row_Inr [OF assms] by simp
qed

definition storable_user :: "ext \<Rightarrow> user \<Rightarrow> bool" where
  "storable_user E u \<longleftrightarrow> email_parse E (email_as_str (us_email u)) = Inr (us_email u)"

definition same_subject :: "user \<Rightarrow> user \<Rightarrow> bool" where
  "same_subject u0 u \<longleftrightarrow> us_auth_subject u0 = us_auth_subject u"

definition drained :: "user \<Rightarrow> user" where
  "drained u = u\<lparr>us_pending := []\<rparr>"

lemma suspension_codec:
  "suspension_parse (suspension_as_str s) (stored_hold_expiry (Some s)) = Inr s"
  by (cases s) (auto simp: suspension_parse_def suspension_as_str_def stored_hold_expiry_def hold_expires_at_def)

lemma into_domain_set_columns:
  assumes "storable_user E u" and "auth_subject_parse (ur_auth_subject w) = Inr (us_auth_subject u)"
    and "ur_id w = us_id u"
  shows "into_domain E (set_columns u w) = Inr (drained u)"
  using assms
  by (cases u; cases "us_suspension u"; cases "us_username u")
    (auto simp: into_domain_def set_columns_def storable_user_def drained_def user_rehydrate_def
      user_status_codec.parse_as_str role_codec.parse_as_str suspension_codec username_from_stored_def)

lemma into_domain_Inr:
  assumes "into_domain E r = Inr u"
  shows "us_id u = ur_id r" "us_pending u = []" "us_row_version u = ur_row_version r"
    "auth_subject_parse (ur_auth_subject r) = Inr (us_auth_subject u)"
    "ur_role r = role_as_str (us_role u)" "ur_status r = user_status_as_str (us_status u)"
    "us_token_version u = ur_token_version r" "us_email_verified u = ur_email_verified r"
    "us_kyc_level u = ur_kyc_level r" "us_profile u = ur_profile r"
  using assms
  by (auto simp: into_domain_def result_simps user_rehydrate_def role_codec.parse_Inr_iff
      user_status_codec.parse_Inr_iff split: option.splits)

lemma load_Inr:
  "load_for_update E db i = Inr u \<longleftrightarrow>
     (\<exists>r. find (\<lambda>r. ur_id r = i) (db_users db) = Some r \<and> into_domain E r = Inr u)"
  by (auto simp: load_for_update_def split: option.splits)

lemma load_id: "load_for_update E db i = Inr u \<Longrightarrow> us_id u = i \<and> us_pending u = []"
  by (auto simp: load_Inr into_domain_Inr dest!: find_Some_in)

interpretation directory: aggregate_store
  "load_for_update E" "update_row E" us_id "storable_user E" drained same_subject for E
proof unfold_locales
  show "load_for_update E db k = Inr v \<Longrightarrow> us_id v = k" for E db k v
    using load_id by blast
  show "load_for_update E db (us_id v) = Inr v0 \<Longrightarrow> same_subject v0 v \<Longrightarrow> storable_user E v \<Longrightarrow>
      update_row E db v = Inr db' \<Longrightarrow> load_for_update E db' (us_id v) = Inr (drained v)" for E db v v0 db'
    by (auto simp: load_Inr update_row_find same_subject_def into_domain_Inr(4)
        intro!: into_domain_set_columns dest: find_Some_in)
  show "update_row E db v = Inr db' \<Longrightarrow> k \<noteq> us_id v \<Longrightarrow> load_for_update E db' k = load_for_update E db k"
    for E db v db' k
    by (simp add: load_for_update_def update_row_find)
qed

section \<open>Writes\<close>

text \<open>
  How a command may change a loaded account: whatever the money plane must know of it comes
  with an event, every event raises the row version, and the events tell the status.
\<close>

definition advances :: "user \<Rightarrow> user \<Rightarrow> bool" where
  "advances u0 u \<longleftrightarrow>
     us_id u = us_id u0 \<and> us_auth_subject u = us_auth_subject u0
     \<and> us_row_version u0 + length (us_pending u) \<le> us_row_version u + length (us_pending u0)
     \<and> (\<exists>es. us_pending u = us_pending u0 @ es
          \<and> mirror_frozen (us_status u0 = Disabled) es = (us_status u = Disabled)
          \<and> (es = [] \<longrightarrow> us_role u = us_role u0 \<and> us_kyc_level u = us_kyc_level u0
               \<and> us_token_version u = us_token_version u0))"

lemma advances_refl: "advances u u"
  by (simp add: advances_def)

lemma enable_advances: "advances u (user_enable u now)"
  by (cases "us_status u")
    (auto simp: advances_def user_enable_log, auto simp: user_enable_def user_emit_def Let_def split: option.splits suspension.splits)

lemma user_step_advances:
  assumes "user_step E u op = Inr u'"
  shows "advances u u'"
proof (cases op)
  case (U_Enable now)
  with assms show ?thesis using enable_advances by auto
next
  case (U_LapseHold now)
  with assms show ?thesis
    using enable_advances advances_refl by (auto simp: lapse_hold_eq split: option.splits suspension.splits if_splits)
next
  case (U_Hold r now pending)
  with assms show ?thesis by (auto simp: result_simps advances_def user_op_defs)
next
  case (U_UpdateProfile f)
  with assms show ?thesis by (auto simp: result_simps advances_def user_op_defs)
qed (use assms in \<open>auto simp: advances_def user_op_defs split: if_splits\<close>)

definition others_only :: "'z identity_db_scheme \<Rightarrow> 'z identity_db_scheme \<Rightarrow> bool" where
  "others_only db db' \<longleftrightarrow> db_users db' = db_users db \<and> db_outbox db' = db_outbox db
     \<and> db_seat_meanings db' = db_seat_meanings db"

text \<open>\<open>R\<close> says which changes of an account a write may carry.\<close>

inductive identity_write ::
  "ext \<Rightarrow> (user \<Rightarrow> user \<Rightarrow> bool) \<Rightarrow> 'z identity_db_scheme \<Rightarrow> 'z identity_db_scheme \<Rightarrow> bool" for E R where
  elsewhere: "others_only db db' \<Longrightarrow> identity_write E R db db'"
| save: "load_for_update E db i = Inr u0 \<Longrightarrow> advances u0 u \<Longrightarrow> R u0 u \<Longrightarrow> update_row E db u = Inr db1
     \<Longrightarrow> others_only db1 db2 \<Longrightarrow> drain_outbox E clock db2 u = Inr (db', u') \<Longrightarrow> identity_write E R db db'"
| create: "insert_user E db (user_provision i subject mail verified handle) = Inr db1 \<Longrightarrow> others_only db1 db2
     \<Longrightarrow> drain_outbox E clock db2 (user_provision i subject mail verified handle) = Inr (db', u')
     \<Longrightarrow> identity_write E R db db'"

text \<open>What the tables keep.\<close>

definition of_user :: "user_id \<Rightarrow> outbox_row list \<Rightarrow> outbox_row list" where
  "of_user i rows = filter (\<lambda>w. ob_user_id w = i) rows"

definition kind_frozen :: "bool \<Rightarrow> rstr \<Rightarrow> bool" where
  "kind_frozen b k = (if k = lit ''SUSPENDED'' then True else if k = lit ''REINSTATED'' then False else b)"

definition outbox_frozen :: "outbox_row list \<Rightarrow> bool" where
  "outbox_frozen rows = foldl (\<lambda>b w. kind_frozen b (ob_kind w)) False rows"

definition outbox_ordered :: "'z identity_db_scheme \<Rightarrow> bool" where
  "outbox_ordered db \<longleftrightarrow>
     distinct (map ur_id (db_users db))
     \<and> (\<forall>w\<in>set (db_outbox db). \<exists>r\<in>set (db_users db). ur_id r = ob_user_id w \<and> ob_sequence w \<le> ur_row_version r)
     \<and> (\<forall>i. sorted_wrt (<) (map ob_sequence (of_user i (db_outbox db))))"

definition tells :: "outbox_row list \<Rightarrow> user_row \<Rightarrow> bool" where
  "tells rows r \<longleftrightarrow>
     rows \<noteq> [] \<and> ob_role (last rows) = ur_role r \<and> ob_kyc_level (last rows) = ur_kyc_level r
     \<and> ob_token_version (last rows) = ur_token_version r
     \<and> outbox_frozen rows = (ur_status r = lit ''disabled'')"

definition outbox_tells :: "'z identity_db_scheme \<Rightarrow> bool" where
  "outbox_tells db \<longleftrightarrow> (\<forall>r\<in>set (db_users db). tells (of_user (ur_id r) (db_outbox db)) r)"

lemma kind_frozen_event:
  "kind_frozen b (user_event_kind e) = (case e of Suspended \<Rightarrow> True | Reinstated \<Rightarrow> False | _ \<Rightarrow> b)"
  by (cases e) (simp_all add: kind_frozen_def user_event_kind_def)

lemma outbox_frozen_events:
  "foldl (\<lambda>b w. kind_frozen b (ob_kind w)) b
     (map (\<lambda>(i, e). outbox_row_of u clock ps (f i) e) (enumerate k es)) = mirror_frozen b es"
  by (induction es arbitrary: b k) (simp_all add: outbox_row_of_def kind_frozen_event)

definition drained_rows :: "user \<Rightarrow> int \<Rightarrow> rstr list \<Rightarrow> outbox_row list" where
  "drained_rows u clock ps = map (\<lambda>(i, event). outbox_row_of u clock ps
      (us_row_version u - (length (us_pending u) - 1 - i)) event) (enumerate 0 (us_pending u))"

lemma drain_Inr:
  assumes "drain_outbox E clock db u = Inr (db', u')"
  shows "u' = drained u \<and> (\<exists>ps. db' = db\<lparr>db_outbox := db_outbox db @ drained_rows u clock ps\<rparr>
      \<and> (us_pending u \<noteq> [] \<longrightarrow> (\<exists>g. map_of (db_seat_meanings db) (role_as_str (us_role u)) = Some (ps, g))))"
  using assms
  by (cases "us_pending u = []")
    (auto simp: drain_outbox_def user_drain_events_def Let_def drained_def drained_rows_def split: option.splits)

lemma drained_rows_nth:
  "k < length (us_pending u) \<Longrightarrow>
     drained_rows u clock ps ! k = outbox_row_of u clock ps (us_row_version u - (length (us_pending u) - 1 - k)) (us_pending u ! k)"
  by (simp add: drained_rows_def nth_enumerate_eq)

lemma drained_rows_length [simp]: "length (drained_rows u clock ps) = length (us_pending u)"
  by (simp add: drained_rows_def)

lemma drained_rows_in:
  assumes "w \<in> set (drained_rows u clock ps)"
  shows "ob_user_id w = us_id u" "ob_role w = role_as_str (us_role u)" "ob_kyc_level w = us_kyc_level u"
    "ob_token_version w = us_token_version u" "ob_sequence w \<le> us_row_version u"
    "v0 + length (us_pending u) \<le> us_row_version u \<Longrightarrow> v0 < ob_sequence w"
proof -
  obtain k where k: "k < length (us_pending u)" "w = drained_rows u clock ps ! k"
    using assms by (auto simp: in_set_conv_nth)
  then have w: "w = outbox_row_of u clock ps (us_row_version u - (length (us_pending u) - 1 - k)) (us_pending u ! k)"
    by (simp add: drained_rows_nth)
  show "ob_user_id w = us_id u" "ob_role w = role_as_str (us_role u)" "ob_kyc_level w = us_kyc_level u"
    "ob_token_version w = us_token_version u" "ob_sequence w \<le> us_row_version u"
    by (simp_all add: w outbox_row_of_def)
  show "v0 + length (us_pending u) \<le> us_row_version u \<Longrightarrow> v0 < ob_sequence w"
    using k(1) by (simp add: w outbox_row_of_def)
qed

lemma drained_rows_sorted:
  assumes "length (us_pending u) \<le> us_row_version u"
  shows "sorted_wrt (<) (map ob_sequence (drained_rows u clock ps))"
  using assms
  by (auto simp: sorted_wrt_iff_nth_less drained_rows_nth outbox_row_of_def)

lemma of_user_append: "of_user i (xs @ ys) = of_user i xs @ of_user i ys"
  by (simp add: of_user_def)

lemma of_user_drained:
  "of_user i (drained_rows u clock ps) = (if i = us_id u then drained_rows u clock ps else [])"
proof -
  have "\<forall>w\<in>set (drained_rows u clock ps). ob_user_id w = us_id u"
    using drained_rows_in(1) by blast
  then show ?thesis by (auto simp: of_user_def filter_id_conv filter_empty_conv)
qed

text \<open>A save, as it shows on the user table and the outbox.\<close>

lemma save_effect:
  assumes "load_for_update E db i = Inr u0" and "advances u0 u" and "update_row E db u = Inr db1"
    and "others_only db1 db2" and "drain_outbox E clock db2 u = Inr (db', u')"
  obtains r ps where "r \<in> set (db_users db)" "ur_id r = i" "into_domain E r = Inr u0"
    "us_id u = i" "ur_row_version r + length (us_pending u) \<le> us_row_version u"
    "db_users db' = map (\<lambda>w. if ur_id w = i then set_columns u w else w) (db_users db)"
    "db_outbox db' = db_outbox db @ drained_rows u clock ps"
    "db_seat_meanings db' = db_seat_meanings db"
proof -
  obtain r where r: "find (\<lambda>r. ur_id r = i) (db_users db) = Some r" "into_domain E r = Inr u0"
    using assms(1) by (auto simp: load_Inr)
  have id: "us_id u = i" using assms(1,2) load_id by (auto simp: advances_def)
  have ver: "ur_row_version r + length (us_pending u) \<le> us_row_version u"
    using assms(2) into_domain_Inr(2,3) [OF r(2)] by (simp add: advances_def)
  note db1 = update_row_Inr [OF assms(3)]
  obtain ps where db': "db' = db2\<lparr>db_outbox := db_outbox db2 @ drained_rows u clock ps\<rparr>"
    using drain_Inr [OF assms(5)] by blast
  show thesis
    by (rule that [of r ps])
      (use r id ver db1 db' assms(4) find_Some_in [OF r(1)] in \<open>simp_all add: others_only_def\<close>)
qed

lemma sorted_wrt_less_append:
  "sorted_wrt (<) (map f (xs @ ys)) \<longleftrightarrow> sorted_wrt (<) (map f xs) \<and> sorted_wrt (<) (map f ys)
     \<and> (\<forall>x\<in>set xs. \<forall>y\<in>set ys. f x < (f y :: nat))"
  by (auto simp: sorted_wrt_append)

lemma save_keeps_order:
  assumes ord: "outbox_ordered db" and r: "r \<in> set (db_users db)" "ur_id r = us_id u"
    and ver: "ur_row_version r + length (us_pending u) \<le> us_row_version u"
    and users: "db_users db' = map (\<lambda>w. if ur_id w = us_id u then set_columns u w else w) (db_users db)"
    and outbox: "db_outbox db' = db_outbox db @ drained_rows u clock ps"
  shows "outbox_ordered db'"
proof -
  have uniq: "x = y" if "x \<in> set (db_users db)" "y \<in> set (db_users db)" "ur_id x = ur_id y" for x y
    using ord that by (auto simp: outbox_ordered_def distinct_map inj_on_def)
  have ids: "map ur_id (db_users db') = map ur_id (db_users db)" by (simp add: users)
  have old: "ob_sequence w \<le> ur_row_version r" if "w \<in> set (db_outbox db)" "ob_user_id w = us_id u" for w
    using ord that r uniq unfolding outbox_ordered_def by metis
  have mine: "set_columns u r \<in> set (db_users db')"
    using r by (force simp: users)
  have seq: "\<exists>x\<in>set (db_users db'). ur_id x = ob_user_id w \<and> ob_sequence w \<le> ur_row_version x"
    if "w \<in> set (db_outbox db')" for w
  proof (cases "ob_user_id w = us_id u")
    case True
    have "ob_sequence w \<le> us_row_version u"
      using that True old [of w] ver drained_rows_in(5) by (auto simp: outbox)
    with mine True r(2) show ?thesis by (intro bexI [of _ "set_columns u r"]) (auto simp: set_columns_def)
  next
    case False
    then have "w \<in> set (db_outbox db)" using that drained_rows_in(1) by (auto simp: outbox)
    then obtain x where "x \<in> set (db_users db)" "ur_id x = ob_user_id w" "ob_sequence w \<le> ur_row_version x"
      using ord by (auto simp: outbox_ordered_def)
    with False show ?thesis by (force simp: users)
  qed
  have srt: "sorted_wrt (<) (map ob_sequence (of_user i (db_outbox db')))" for i
  proof (cases "i = us_id u")
    case True
    have "\<forall>x\<in>set (of_user i (db_outbox db)). \<forall>y\<in>set (drained_rows u clock ps). ob_sequence x < ob_sequence y"
      using old drained_rows_in(6) [OF _ ver] True by (fastforce simp: of_user_def)
    moreover have "sorted_wrt (<) (map ob_sequence (drained_rows u clock ps))"
      using ver by (intro drained_rows_sorted) simp
    ultimately show ?thesis
      using ord True by (simp add: outbox of_user_append of_user_drained outbox_ordered_def sorted_wrt_append)
  next
    case False
    then show ?thesis using ord by (simp add: outbox of_user_append of_user_drained outbox_ordered_def)
  qed
  show ?thesis using ord ids seq srt by (simp add: outbox_ordered_def)
qed

lemma status_disabled: "user_status_as_str st = lit ''disabled'' \<longleftrightarrow> st = Disabled"
  by (cases st) (simp_all add: user_status_as_str_def)

lemma save_keeps_tells:
  assumes tells: "outbox_tells db" and r: "r \<in> set (db_users db)" "ur_id r = us_id u" "into_domain E r = Inr u0"
    and adv: "advances u0 u" and dist: "distinct (map ur_id (db_users db))"
    and users: "db_users db' = map (\<lambda>w. if ur_id w = us_id u then set_columns u w else w) (db_users db)"
    and outbox: "db_outbox db' = db_outbox db @ drained_rows u clock ps"
  shows "outbox_tells db'"
  unfolding outbox_tells_def
proof
  fix x' assume "x' \<in> set (db_users db')"
  then obtain x where x: "x \<in> set (db_users db)" "x' = (if ur_id x = us_id u then set_columns u x else x)"
    by (auto simp: users)
  have before: "tells (of_user (ur_id x) (db_outbox db)) x" using tells x(1) by (simp add: outbox_tells_def)
  show "tells (of_user (ur_id x') (db_outbox db')) x'"
  proof (cases "ur_id x = us_id u")
    case False
    with before x(2) show ?thesis by (simp add: outbox of_user_append of_user_drained)
  next
    case True
    then have "x = r" using x(1) r(1,2) dist by (auto simp: distinct_map inj_on_def)
    let ?old = "of_user (us_id u) (db_outbox db)"
    have rows: "of_user (us_id u) (db_outbox db') = ?old @ drained_rows u clock ps"
      by (simp add: outbox of_user_append of_user_drained)
    note dom = into_domain_Inr [OF r(3)]
    have old: "tells ?old r" using before \<open>x = r\<close> r(2) by simp
    have es: "mirror_frozen (us_status u0 = Disabled) (us_pending u) = (us_status u = Disabled)"
      and quiet: "us_pending u = [] \<Longrightarrow> us_role u = us_role u0 \<and> us_kyc_level u = us_kyc_level u0
        \<and> us_token_version u = us_token_version u0"
      using adv dom(2) by (auto simp: advances_def)
    have "outbox_frozen (?old @ drained_rows u clock ps) = (us_status u = Disabled)"
      using old es
      by (simp add: tells_def outbox_frozen_def drained_rows_def outbox_frozen_events dom(6) status_disabled)
    moreover have "ob_role (last (?old @ drained_rows u clock ps)) = role_as_str (us_role u)
        \<and> ob_kyc_level (last (?old @ drained_rows u clock ps)) = us_kyc_level u
        \<and> ob_token_version (last (?old @ drained_rows u clock ps)) = us_token_version u"
    proof (cases "us_pending u = []")
      case True
      with old quiet dom show ?thesis by (auto simp: tells_def drained_rows_def)
    next
      case False
      then have "drained_rows u clock ps \<noteq> []" using drained_rows_length by (metis length_0_conv)
      then show ?thesis using drained_rows_in(2,3,4) [OF last_in_set] by simp
    qed
    ultimately show ?thesis
      using old True x(2) by (simp add: tells_def rows set_columns_def status_disabled)
  qed
qed

end
