(* ===== verification/Directory_Safety.thy ===== *)
theory Directory_Safety
  imports Directory_Laws
begin

text \<open>
  Every operation of the directory is a sequence of writes, and what a run of writes keeps:
  the order of the outbox and the truth of its last row, the apartness of the accounts, and
  the bounds of their columns. The properties of the adapter follow.
\<close>

section \<open>The invariants of the tables\<close>

lemma create_effect:
  assumes "insert_user E db u = Inr db1" and "u = user_provision i subject mail verified handle"
    and "others_only db1 db2" and "drain_outbox E clock db2 u = Inr (db', u')"
  obtains ps where "\<forall>r\<in>set (db_users db). ur_id r \<noteq> i" "db_users db' = db_users db @ [inserted_row u]"
    "db_outbox db' = db_outbox db @ [outbox_row_of u clock ps (Suc 0) Created]"
    "db_seat_meanings db' = db_seat_meanings db"
proof -
  have ins: "users_violation E (db_users db) (inserted_row u) = None" "db1 = db\<lparr>db_users := db_users db @ [inserted_row u]\<rparr>"
    using assms(1) by (auto simp: insert_user_def split: option.splits)
  then have "\<forall>r\<in>set (db_users db). ur_id r \<noteq> i"
    by (auto simp: users_violation_def users_unique_def find_None_iff_all list_ex_iff inserted_row_def
        assms(2) user_provision_def user_emit_def)
  moreover obtain ps where "db' = db2\<lparr>db_outbox := db_outbox db2 @ drained_rows u clock ps\<rparr>"
    using drain_Inr [OF assms(4)] by blast
  moreover have "drained_rows u clock ps = [outbox_row_of u clock ps (Suc 0) Created]"
    by (simp add: drained_rows_def assms(2) user_provision_def user_emit_def)
  ultimately show thesis
    using ins(2) assms(3) by (intro that [of ps]) (simp_all add: others_only_def)
qed

lemma provisioned_row:
  "inserted_row (user_provision i subject mail verified handle) =
     \<lparr>ur_id = i, ur_auth_subject = auth_subject_as_str subject, ur_email = Some (email_as_str mail),
      ur_email_verified = verified, ur_username = map_option username_as_str handle,
      ur_status = lit ''active'', ur_suspended_by = None, ur_hold_expires_at = None, ur_hold_ended_at = None,
      ur_token_version = 0, ur_kyc_level = 0, ur_role = role_as_str role_default,
      ur_profile = profile_default, ur_row_version = 1\<rparr>"
  by (simp add: inserted_row_def user_provision_def user_emit_def user_status_as_str_def)

definition outbox_sound :: "'z identity_db_scheme \<Rightarrow> bool" where
  "outbox_sound db \<longleftrightarrow> outbox_ordered db \<and> outbox_tells db"

lemma create_keeps_sound:
  assumes sound: "outbox_sound db" and fresh: "\<forall>r\<in>set (db_users db). ur_id r \<noteq> i"
    and u: "u = user_provision i subject mail verified handle"
    and users: "db_users db' = db_users db @ [inserted_row u]"
    and outbox: "db_outbox db' = db_outbox db @ [outbox_row_of u clock ps (Suc 0) Created]"
  shows "outbox_sound db'"
proof -
  have none: "of_user i (db_outbox db) = []"
    using sound fresh by (fastforce simp: outbox_sound_def outbox_ordered_def of_user_def filter_empty_conv)
  have row: "of_user j [outbox_row_of u clock ps (Suc 0) Created] = (if j = i then [outbox_row_of u clock ps (Suc 0) Created] else [])" for j
    by (simp add: of_user_def outbox_row_of_def u user_provision_def user_emit_def)
  have "tells [outbox_row_of u clock ps (Suc 0) Created] (inserted_row u)"
    by (simp add: tells_def outbox_frozen_def kind_frozen_event outbox_row_of_def u provisioned_row)
      (simp add: user_provision_def user_emit_def)
  then have "outbox_tells db'"
    using sound fresh none row
    by (auto simp: outbox_sound_def outbox_tells_def users outbox of_user_append u provisioned_row)
  moreover have "outbox_ordered db'"
  proof -
    have "\<exists>r\<in>set (db_users db'). ur_id r = ob_user_id w \<and> ob_sequence w \<le> ur_row_version r"
      if "w \<in> set (db_outbox db')" for w
    proof (cases "w \<in> set (db_outbox db)")
      case True
      then show ?thesis using sound by (auto simp: outbox_sound_def outbox_ordered_def users)
    next
      case False
      then have "w = outbox_row_of u clock ps (Suc 0) Created" using that by (simp add: outbox)
      then show ?thesis by (simp add: users u provisioned_row) (simp add: outbox_row_of_def user_provision_def user_emit_def)
    qed
    moreover have "distinct (map ur_id (db_users db'))"
      using sound fresh by (auto simp: outbox_sound_def outbox_ordered_def users u provisioned_row)
    moreover have "sorted_wrt (<) (map ob_sequence (of_user j (db_outbox db')))" for j
      using sound none by (simp add: outbox_sound_def outbox_ordered_def outbox of_user_append row)
    ultimately show ?thesis by (simp add: outbox_ordered_def)
  qed
  ultimately show ?thesis by (simp add: outbox_sound_def)
qed

lemma write_keeps_sound: "identity_write E R db db' \<Longrightarrow> outbox_sound db \<Longrightarrow> outbox_sound db'"
proof (induction rule: identity_write.induct)
  case (elsewhere db db')
  then show ?case by (simp add: others_only_def outbox_sound_def outbox_ordered_def outbox_tells_def)
next
  case (save db i u0 u db1 db2 clock db' u')
  from save.hyps(1,2,4,5,6) obtain r ps where eff: "r \<in> set (db_users db)" "ur_id r = i" "into_domain E r = Inr u0"
    "us_id u = i" "ur_row_version r + length (us_pending u) \<le> us_row_version u"
    "db_users db' = map (\<lambda>w. if ur_id w = i then set_columns u w else w) (db_users db)"
    "db_outbox db' = db_outbox db @ drained_rows u clock ps"
    by (rule save_effect)
  have "outbox_ordered db'"
    by (rule save_keeps_order [where db = db and u = u and r = r])
      (use save.prems eff in \<open>simp_all add: outbox_sound_def\<close>)
  moreover have "outbox_tells db'"
    by (rule save_keeps_tells [where db = db and u = u and r = r and ?u0.0 = u0])
      (use save.prems save.hyps(2) eff in \<open>simp_all add: outbox_sound_def outbox_ordered_def\<close>)
  ultimately show ?case by (simp add: outbox_sound_def)
next
  case (create db i subject mail verified handle db1 db2 clock db' u')
  from create.hyps(1) refl create.hyps(2,3) show ?case
    by (rule create_effect) (use create.prems in \<open>blast intro: create_keeps_sound\<close>)
qed

text \<open>Accounts stay apart: no two share an id, a subject, a handle or a proven address.\<close>

definition clash :: "ext \<Rightarrow> user_row \<Rightarrow> user_row \<Rightarrow> bool" where
  "clash E r s \<longleftrightarrow> ur_auth_subject r = ur_auth_subject s
     \<or> ur_username r \<noteq> None \<and> ur_username r = ur_username s
     \<or> ur_email_verified r \<and> ur_email_verified s \<and> ur_email r \<noteq> None
        \<and> map_option (pg_lower E) (ur_email r) = map_option (pg_lower E) (ur_email s)"

definition users_apart :: "ext \<Rightarrow> 'z identity_db_scheme \<Rightarrow> bool" where
  "users_apart E db \<longleftrightarrow> distinct (map ur_id (db_users db))
     \<and> (\<forall>r\<in>set (db_users db). \<forall>s\<in>set (db_users db). ur_id r \<noteq> ur_id s \<longrightarrow> \<not> clash E r s)"

lemma clash_sym: "clash E r s \<longleftrightarrow> clash E s r"
  by (cases "ur_email r"; cases "ur_email s"; cases "ur_username r"; cases "ur_username s") (auto simp: clash_def)

lemma no_violation_apart:
  "users_violation E others r = None \<Longrightarrow> s \<in> set others \<Longrightarrow> \<not> clash E r s \<and> ur_id s \<noteq> ur_id r"
  by (auto simp: users_violation_def users_unique_def find_None_iff_all list_ex_iff clash_def)

lemma update_row_allowed:
  assumes "update_row E db u = Inr db'" and "r \<in> set (db_users db)" and "ur_id r = us_id u"
    and "distinct (map ur_id (db_users db))"
  shows "users_violation E (filter (\<lambda>w. ur_id w \<noteq> us_id u) (db_users db)) (set_columns u r) = None"
proof -
  have "find (\<lambda>x. ur_id x = us_id u) (db_users db) = Some r"
    using find_eq_Some_distinct [OF assms(4,2)] assms(3) by simp
  with assms(1) show ?thesis by (auto simp: update_row_def split: option.splits)
qed

lemma update_keeps_apart:
  assumes apart: "users_apart E db" and up: "update_row E db u = Inr db'"
  shows "users_apart E db'"
proof -
  have dist: "distinct (map ur_id (db_users db))" using apart by (simp add: users_apart_def)
  note db' = update_row_Inr [OF up]
  have new: "\<not> clash E (set_columns u r) s"
    if "r \<in> set (db_users db)" "ur_id r = us_id u" "s \<in> set (db_users db)" "ur_id s \<noteq> us_id u" for r s
    using no_violation_apart [OF update_row_allowed [OF up that(1,2) dist]] that(3,4) by simp
  have "distinct (map ur_id (db_users db'))"
    using dist by (simp add: db' comp_def if_distrib cong: if_cong)
  moreover have "\<not> clash E r s"
    if "r \<in> set (db_users db')" "s \<in> set (db_users db')" "ur_id r \<noteq> ur_id s" for r s
    using that apart new clash_sym by (fastforce simp: db' users_apart_def)
  ultimately show ?thesis by (simp add: users_apart_def)
qed

lemma write_keeps_apart: "identity_write E R db db' \<Longrightarrow> users_apart E db \<Longrightarrow> users_apart E db'"
proof (induction rule: identity_write.induct)
  case (elsewhere db db')
  then show ?case by (simp add: others_only_def users_apart_def)
next
  case (save db i u0 u db1 db2 clock db' u')
  obtain ps where "db' = db2\<lparr>db_outbox := db_outbox db2 @ drained_rows u clock ps\<rparr>"
    using drain_Inr [OF save.hyps(6)] by blast
  with update_keeps_apart [OF save.prems save.hyps(4)] save.hyps(5) show ?case
    by (simp add: others_only_def users_apart_def)
next
  case (create db i subject mail verified handle db1 db2 clock db' u')
  let ?r = "inserted_row (user_provision i subject mail verified handle)"
  obtain ps where "db' = db2\<lparr>db_outbox := db_outbox db2 @ drained_rows (user_provision i subject mail verified handle) clock ps\<rparr>"
    using drain_Inr [OF create.hyps(3)] by blast
  moreover have ok: "users_violation E (db_users db) ?r = None" "db1 = db\<lparr>db_users := db_users db @ [?r]\<rparr>"
    using create.hyps(1) by (auto simp: insert_user_def split: option.splits)
  ultimately have "db_users db' = db_users db @ [?r]"
    using create.hyps(2) by (simp add: others_only_def)
  then show ?case
    using create.prems no_violation_apart [OF ok(1)] clash_sym by (fastforce simp: users_apart_def)
qed

section \<open>Every operation is a sequence of writes\<close>

definition identity_writes :: "ext \<Rightarrow> (user \<Rightarrow> user \<Rightarrow> bool) \<Rightarrow> 'z identity_db_scheme \<Rightarrow> 'z identity_db_scheme \<Rightarrow> bool" where
  "identity_writes E R = (identity_write E R)\<^sup>*\<^sup>*"

lemma writes_refl [simp, intro]: "identity_writes E R db db"
  by (simp add: identity_writes_def)

lemma writes_trans [trans]: "identity_writes E R a b \<Longrightarrow> identity_writes E R b c \<Longrightarrow> identity_writes E R a c"
  by (simp add: identity_writes_def)

lemma write_writes: "identity_write E R a b \<Longrightarrow> identity_writes E R a b"
  by (auto simp: identity_writes_def)

lemma writes_elsewhere: "others_only a b \<Longrightarrow> identity_writes E R a b"
  by (blast intro: write_writes elsewhere)

lemma writes_keep:
  assumes "identity_writes E R db db'"
  shows "outbox_sound db \<Longrightarrow> outbox_sound db'" and "users_apart E db \<Longrightarrow> users_apart E db'"
  using assms unfolding identity_writes_def
  by (induction rule: rtranclp_induct) (auto intro: write_keeps_sound write_keeps_apart)

lemma transact_snd:
  "(\<And>out db'. tx db = Inr (out, db') \<Longrightarrow> identity_writes E R db db') \<Longrightarrow> identity_writes E R db (snd (transact tx db))"
  by (auto simp: transact_def split: sum.splits)

lemma others_only_actions [simp, intro]:
  "others_only db (db\<lparr>db_actions := xs\<rparr>)" "others_only db (db\<lparr>db_passwords := ps\<rparr>)"
  "others_only db (db\<lparr>db_identities := is\<rparr>)" "others_only db db"
  by (simp_all add: others_only_def)

lemma others_only_record [simp, intro]: "others_only db (record_action db i a now)"
  by (simp add: record_action_def)

text \<open>Commands of the aggregate, in the form the adapter runs them.\<close>

lemma command_advances:
  "advances u (set_username u handle)" "advances u (user_disable u)" "advances u (user_enable u now)"
  "advances u (user_set_role u seat)" "advances u (snd (revoke_tokens u))"
  "update_profile E u raw = Inr u' \<Longrightarrow> advances u u'"
  "user_set_kyc_level u n = Inr u' \<Longrightarrow> advances u u'"
  "user_hold u seat now pending = Inr u' \<Longrightarrow> advances u u'"
  "lapse_hold u now = (b, u') \<Longrightarrow> advances u u'"
  using user_step_advances [of E u "U_SetUsername handle"] user_step_advances [of E u U_Disable]
    user_step_advances [of E u "U_Enable now"] user_step_advances [of E u "U_SetRole seat"]
    user_step_advances [of E u U_RevokeTokens] user_step_advances [of E u "U_UpdateProfile raw" u']
    user_step_advances [of E u "U_SetKycLevel n" u'] user_step_advances [of E u "U_Hold seat now pending" u']
    user_step_advances [of E u "U_LapseHold now"]
  by auto

lemma governance_command_advances:
  "advances u (user_suspend u)" "advances u (take_over u)" "advances u (change_email u m v)"
  using user_step_advances [of E u U_Suspend] user_step_advances [of E u U_TakeOver]
    user_step_advances [of E u "U_ChangeEmail m v"] by auto

lemma others_only_load:
  "others_only db db1 \<Longrightarrow> load_for_update E db1 i = load_for_update E db i"
  by (simp add: load_for_update_def others_only_def)

lemma link_others: "link_identity E db p subject i = Inr db' \<Longrightarrow> others_only db db'"
  by (auto simp: link_identity_def others_only_actions split: if_splits)

lemma linkable_new: "linkable E db identity now = Inr (None, db1) \<Longrightarrow> db1 = db"
  by (auto simp: linkable_def rbind_Inr_iff Let_def split: if_splits option.splits list.splits)

lemma linkable_found:
  assumes "linkable E db identity now = Inr (Some u, db1)"
  shows "db1 = db \<and> load_for_update E db (us_id u) = Inr u
    \<or> (\<exists>i v db0. load_for_update E db i = Inr v \<and> u = take_over v \<and> others_only db db0
         \<and> (\<exists>db2. update_row E db0 u = Inr db2 \<and> others_only db2 db1))"
proof (cases "verified_holder E db (pi_email identity)")
  case (Some i)
  with assms show ?thesis
    by (auto simp: linkable_def rbind_Inr_iff split: if_splits dest: load_id)
next
  case None
  with assms obtain i v where "load_for_update E db i = Inr v" "u = take_over v"
    "\<exists>db2. update_row E (db\<lparr>db_passwords := filter (\<lambda>x. x \<noteq> i) (db_passwords db)\<rparr>) u = Inr db2
       \<and> (\<exists>a. db1 = record_action db2 i a now)"
    by (auto simp: linkable_def rbind_Inr_iff Let_def split: if_splits list.splits)
  then show ?thesis using others_only_actions(2) others_only_record by metis
qed

text \<open>
  A policy \<open>R\<close> over changes of an account that every command the handlers issue obeys;
  whatever is such a policy holds of every write of every operation.
\<close>

definition seat_change_allowed :: "role \<Rightarrow> role \<Rightarrow> bool" where
  "seat_change_allowed from_seat to_seat \<longleftrightarrow>
     (from_seat = Owner \<longleftrightarrow> to_seat = Owner) \<and> (to_seat = Admin \<longrightarrow> from_seat = Admin)"

locale command_policy =
  fixes E :: ext and R :: "user \<Rightarrow> user \<Rightarrow> bool"
  assumes renamed: "R u (set_username u handle)"
    and profiled: "update_profile E u raw = Inr u' \<Longrightarrow> R u u'"
    and revoked: "R u (snd (revoke_tokens u))"
    and levelled: "user_set_kyc_level u n = Inr u' \<Longrightarrow> R u u'"
    and held: "user_hold u seat now pending = Inr u' \<Longrightarrow> R u u'"
    and freed: "us_suspension u \<noteq> Some Governance \<Longrightarrow> R u (user_enable u now)"
    and reseated: "seat_change_allowed (us_role u) seat \<Longrightarrow> R u (user_set_role u seat)"
    and taken: "R u (take_over u)"
    and moved: "R u (change_email u m v)"
begin

lemma save_user_writes:
  assumes "load_for_update E db i = Inr u0" and "save_user E clock db u = Inr (db', u')"
    and "advances u0 u" and "R u0 u"
  shows "identity_writes E R db db'"
  using assms
  by (auto simp: save_user_def result_simps others_only_actions intro!: write_writes intro: identity_write.save)

lemma save_record_writes:
  assumes "load_for_update E db i = Inr u0" and "save_user E clock db u = Inr (db', u')"
    and "advances u0 u" and "R u0 u"
  shows "identity_writes E R db (record_action db' j a now)"
  using save_user_writes [OF assms] writes_elsewhere [OF others_only_record] writes_trans by blast

lemma update_row_writes:
  assumes "load_for_update E db i = Inr u0" and "advances u0 u" and "R u0 u" and "us_pending u = []"
    and "update_row E db u = Inr db'"
  shows "identity_writes E R db db'"
proof -
  have "drain_outbox E 0 db' u = Inr (db', u\<lparr>us_pending := []\<rparr>)"
    using assms(4) by (simp add: drain_outbox_def user_drain_events_def)
  then show ?thesis
    using assms(1,2,3,5) others_only_actions(4) by (blast intro: write_writes identity_write.save)
qed

lemma mutate_writes:
  assumes "\<And>u u'. cmd u = Inr u' \<Longrightarrow> advances u u' \<and> R u u'"
  shows "identity_writes E R db (snd (mutate E clock i cmd db))"
  unfolding mutate_def using assms
  by (intro transact_snd) (auto simp: result_simps intro: save_user_writes)

lemma mutate_audited_writes:
  assumes "\<And>u u'. cmd u = Inr u' \<Longrightarrow> advances u u' \<and> R u u'"
  shows "identity_writes E R db (snd (mutate_audited E clock i a now cmd d db))"
  unfolding mutate_audited_def using assms
  by (intro transact_snd) (auto simp: result_simps intro: save_record_writes)

lemma freed_cases:
  "us_suspension u = None \<Longrightarrow> R u (user_enable u now)"
  "us_suspension u = Some (AdminHold t) \<Longrightarrow> R u (user_enable u now)"
  by (simp_all add: freed)

lemma reseated_cases:
  "us_role u = Owner \<Longrightarrow> R u (user_set_role u Owner)"
  "us_role u = Admin \<Longrightarrow> seat \<noteq> Owner \<Longrightarrow> R u (user_set_role u seat)"
  "us_role u \<noteq> Owner \<Longrightarrow> seat \<noteq> Owner \<Longrightarrow> seat \<noteq> Admin \<Longrightarrow> R u (user_set_role u seat)"
  by (auto simp: reseated seat_change_allowed_def)

lemma lapsed: "lapse_hold u now = (True, u') \<Longrightarrow> R u u'"
  using freed by (auto simp: lapse_hold_eq split: option.splits suspension.splits if_splits)

lemma set_username_writes: "identity_writes E R db (snd (store_set_username E clock i handle db))"
  using mutate_writes [of "\<lambda>u. Inr (set_username u handle)" db clock i] command_advances(1) renamed
  by (auto simp: store_set_username_def case_prod_beta)

lemma hold_writes: "identity_writes E R db (snd (store_hold_user ratifying E clock i a by_user now db))"
  unfolding store_hold_user_def
  by (intro transact_snd) (auto simp: rbind_Inr_iff Let_def intro: save_record_writes command_advances held)

lemma reinstate_writes: "identity_writes E R db (snd (reinstate_outside_governance E clock i a now db))"
  unfolding reinstate_outside_governance_def
  by (intro transact_snd)
    (auto simp: rbind_Inr_iff is_reversible_by_one_admin_def split: if_splits option.splits suspension.splits
      intro: save_record_writes command_advances freed_cases)

lemma lapse_loop_writes: "identity_writes E R db (snd (lapse_loop E clock now due lapsed_ids db))"
proof (induction due arbitrary: lapsed_ids db)
  case Nil
  then show ?case by simp
next
  case step: (Cons i due)
  show ?case
  proof (cases "load_for_update E db i")
    case (Inl e)
    then show ?thesis by simp
  next
    case (Inr u)
    obtain did u' where lapse: "lapse_hold u now = (did, u')" by fastforce
    consider "\<not> did" | e where "did" "save_user E clock db u' = Inl e"
      | db' v where "did" "save_user E clock db u' = Inr (db', v)"
      by (cases "save_user E clock db u'") auto
    then show ?thesis
    proof cases
      case 1
      with step.IH show ?thesis by (simp add: Inr lapse)
    next
      case 2
      then show ?thesis by (simp add: Inr lapse)
    next
      case 3
      have "identity_writes E R db (record_action db' i (action_system (lit ''hold_lapsed'')) now)"
        using save_record_writes [OF Inr 3(2) command_advances(9) [OF lapse]] lapsed lapse 3(1) by simp
      also have "identity_writes E R \<dots> (snd (lapse_loop E clock now due (lapsed_ids @ [i])
          (record_action db' i (action_system (lit ''hold_lapsed'')) now)))"
        by (rule step.IH)
      finally show ?thesis using 3 by (simp add: Inr lapse)
    qed
  qed
qed

lemma set_kyc_writes: "identity_writes E R db (snd (store_set_kyc_level E clock i level a now db))"
  by (simp add: store_set_kyc_level_def mutate_audited_writes command_advances levelled)

lemma raise_kyc_writes: "identity_writes E R db (snd (raise_kyc_level_to E clock i goal a now db))"
  unfolding raise_kyc_level_to_def
  by (intro transact_snd)
    (auto simp: rbind_Inr_iff Let_def split: if_splits sum.splits intro: save_record_writes command_advances levelled)

lemma set_role_writes: "identity_writes E R db (snd (set_role_outside_ownership E clock i seat a now db))"
  unfolding set_role_outside_ownership_def
  by (intro transact_snd)
    (auto simp: rbind_Inr_iff Let_def split: if_splits
      intro: save_record_writes command_advances reseated_cases)

lemma change_email_writes:
  assumes "load_for_update E db i = Inr u" and "update_row E db (change_email u m v) = Inr db'"
  shows "identity_writes E R db db'"
proof (rule update_row_writes [OF assms(1) governance_command_advances(3) moved _ assms(2)])
  show "us_pending (change_email u m v) = []"
    using load_id [OF assms(1)] by (simp add: change_email_def)
qed

lemma resolve_tx_writes:
  assumes "(case linked_account db (pi_provider identity) of
       Some i \<Rightarrow>
         rbind (load_for_update E db i) (\<lambda>u.
         if \<not> (pi_email_proven identity \<and> pi_email identity \<noteq> us_email u
                \<and> verified_holder E db (pi_email identity) \<noteq> None)
         then let u = change_email u (pi_email identity) (pi_email_proven identity) in
              rbind (update_row E db u) (\<lambda>db. Inr (Inr u, db))
         else Inr (Inr u, db))
     | None \<Rightarrow>
         rbind (linkable E db identity now) (\<lambda>(found, db).
         rbind (case found of
                  Some u \<Rightarrow> Inr (u, db)
                | None \<Rightarrow>
                    rbind (auth_subject_parse (uuid_text E (uid_raw fresh))) (\<lambda>subject.
                    let u = user_provision fresh subject (pi_email identity) (pi_email_proven identity)
                              (free_username db (pi_email identity)) in
                    rbind (insert_user E db u) (\<lambda>db. Inr (u, db)))) (\<lambda>(u, db).
         rbind (case pi_provider identity of
                  None \<Rightarrow> Inr db
                | Some (p, subject) \<Rightarrow> link_identity E db p subject (us_id u)) (\<lambda>db.
         rbind (drain_outbox E clock db u) (\<lambda>(db, u).
         Inr (Inr u, db)))))) = Inr (out :: domain_error + user, db')"
  shows "identity_writes E R db db'"
proof (cases "linked_account db (pi_provider identity)")
  case (Some i)
  with assms show ?thesis
    by (auto simp: rbind_Inr_iff Let_def split: if_splits intro: change_email_writes)
next
  case None
  with assms obtain found db1 u db2 db3 u' where link: "linkable E db identity now = Inr (found, db1)"
    and got: "(case found of Some u \<Rightarrow> Inr (u, db1) | None \<Rightarrow>
        rbind (auth_subject_parse (uuid_text E (uid_raw fresh))) (\<lambda>subject.
        let u = user_provision fresh subject (pi_email identity) (pi_email_proven identity)
                  (free_username db1 (pi_email identity)) in
        rbind (insert_user E db1 u) (\<lambda>db. Inr (u, db)))) = Inr (u, db2)"
    and l: "(case pi_provider identity of None \<Rightarrow> Inr db2
        | Some (p, subject) \<Rightarrow> link_identity E db2 p subject (us_id u)) = Inr db3"
    and d: "drain_outbox E clock db3 u = Inr (db', u')"
    by (auto simp: rbind_Inr_iff)
  have o23: "others_only db2 db3"
    using l link_others others_only_actions(4) by (auto split: option.splits prod.splits)
  show ?thesis
  proof (cases found)
    case None
    then obtain subject where
      "insert_user E db1 (user_provision fresh subject (pi_email identity) (pi_email_proven identity)
         (free_username db1 (pi_email identity))) = Inr db2"
      and "u = user_provision fresh subject (pi_email identity) (pi_email_proven identity)
         (free_username db1 (pi_email identity))"
      using got by (auto simp: rbind_Inr_iff Let_def)
    with d have "identity_write E R db1 db'" by (metis create [OF _ o23])
    moreover have "db1 = db" using link None linkable_new by simp
    ultimately show ?thesis by (simp add: write_writes)
  next
    case (Some v)
    then have v: "v = u" "db2 = db1" using got by auto
    from linkable_found [OF link [unfolded Some]] show ?thesis
    proof
      assume found: "db1 = db \<and> load_for_update E db (us_id v) = Inr v"
      then have "us_pending u = []" using v load_id by blast
      then have "db' = db3" using drain_Inr [OF d] by (auto simp: drained_rows_def)
      then show ?thesis using o23 v found by (auto intro: writes_elsewhere)
    next
      assume "\<exists>i w db0. load_for_update E db i = Inr w \<and> v = take_over w \<and> others_only db db0
        \<and> (\<exists>db2. update_row E db0 v = Inr db2 \<and> others_only db2 db1)"
      then obtain i w db0 db4 where w: "load_for_update E db i = Inr w" "v = take_over w" "others_only db db0"
        "update_row E db0 v = Inr db4" "others_only db4 db1" by blast
      have "others_only db4 db3" using w(5) o23 v by (simp add: others_only_def)
      with w v d have "identity_write E R db0 db'"
        by (intro save [of E db0 i w u R db4 db3 clock db' u'])
          (simp_all add: others_only_load governance_command_advances taken)
      with w(3) show ?thesis by (blast intro: writes_trans writes_elsewhere write_writes)
    qed
  qed
qed

lemma resolve_writes: "identity_writes E R db (snd (resolve_identity E clock fresh identity now db))"
  unfolding resolve_identity_def by (intro transact_snd resolve_tx_writes)

end

end
