(* ===== verification/Directory_Runs.thy ===== *)
theory Directory_Runs
  imports Directory_Safety
begin

text \<open>
  Runs of the directory: any sequence of the adapter's operations, each in its own
  transaction, from any database. The properties of the adapter are stated over them.
\<close>

section \<open>Calls\<close>

datatype dir_call =
    Call_Resolve int user_id proven_identity int
  | Call_UpdateProfile int user_id profile_fields
  | Call_SetUsername int user_id username
  | Call_RevokeTokens int user_id admin_action int
  | Call_Hold bool int user_id admin_action user_id int
  | Call_Reinstate int user_id admin_action int
  | Call_LapseDue int int nat
  | Call_SetKyc int user_id nat admin_action int
  | Call_RaiseKyc int user_id nat admin_action int
  | Call_SetRoleOutside int user_id role admin_action int
  | Call_Disable int user_id
  | Call_Enable int user_id int
  | Call_SetRole int user_id role

text \<open>The last three are methods of the repository that no request handler calls.\<close>

definition is_request :: "dir_call \<Rightarrow> bool" where
  "is_request c = (case c of Call_Disable _ _ \<Rightarrow> False | Call_Enable _ _ _ \<Rightarrow> False | Call_SetRole _ _ _ \<Rightarrow> False | _ \<Rightarrow> True)"

definition outcome_of :: "(domain_error + 'a) \<times> 'db \<Rightarrow> bool \<times> 'db" where
  "outcome_of r = (is_ok (fst r), snd r)"

fun directory_call :: "ext \<Rightarrow> dir_call \<Rightarrow> 'z identity_db_scheme \<Rightarrow> bool \<times> 'z identity_db_scheme" where
  "directory_call E (Call_Resolve clock fresh identity now) db = outcome_of (resolve_identity E clock fresh identity now db)"
| "directory_call E (Call_UpdateProfile clock i raw) db = outcome_of (store_update_profile E clock i raw db)"
| "directory_call E (Call_SetUsername clock i h) db = outcome_of (store_set_username E clock i h db)"
| "directory_call E (Call_RevokeTokens clock i a now) db = outcome_of (store_revoke_tokens E clock i a now db)"
| "directory_call E (Call_Hold ratifying clock i a by_user now) db =
     outcome_of (store_hold_user (\<lambda>_ _ _. ratifying) E clock i a by_user now db)"
| "directory_call E (Call_Reinstate clock i a now) db = outcome_of (reinstate_outside_governance E clock i a now db)"
| "directory_call E (Call_LapseDue clock now limit) db = outcome_of (lapse_due_holds E clock now limit db)"
| "directory_call E (Call_SetKyc clock i n a now) db = outcome_of (store_set_kyc_level E clock i n a now db)"
| "directory_call E (Call_RaiseKyc clock i n a now) db = outcome_of (raise_kyc_level_to E clock i n a now db)"
| "directory_call E (Call_SetRoleOutside clock i seat a now) db = outcome_of (set_role_outside_ownership E clock i seat a now db)"
| "directory_call E (Call_Disable clock i) db = outcome_of (store_disable_user E clock i db)"
| "directory_call E (Call_Enable clock i now) db = outcome_of (store_enable_user E clock i now db)"
| "directory_call E (Call_SetRole clock i seat) db = outcome_of (store_set_role E clock i seat db)"

definition run_directory :: "ext \<Rightarrow> dir_call list \<Rightarrow> 'z identity_db_scheme \<Rightarrow> 'z identity_db_scheme" where
  "run_directory E calls db = foldl (\<lambda>db c. snd (directory_call E c db)) db calls"

definition empty_directory :: "(rstr \<times> rstr list \<times> nat) list \<Rightarrow> identity_db" where
  "empty_directory meanings =
     \<lparr>db_users = [], db_outbox = [], db_actions = [], db_passwords = [], db_identities = [],
      db_seat_meanings = meanings\<rparr>"

lemma run_directory_Cons: "run_directory E (c # cs) db = run_directory E cs (snd (directory_call E c db))"
  by (simp add: run_directory_def)

lemma snd_outcome_of [simp]: "snd (outcome_of r) = snd r" "fst (outcome_of r) = is_ok (fst r)"
  by (simp_all add: outcome_of_def)

section \<open>Two policies\<close>

text \<open>What only the owners decide: who holds an owner's seat, who becomes an admin, and whose
  suspension is their verdict.\<close>

definition owners_decide :: "user \<Rightarrow> user \<Rightarrow> bool" where
  "owners_decide u0 u \<longleftrightarrow> seat_change_allowed (us_role u0) (us_role u)
     \<and> (us_suspension u0 = Some Governance \<longleftrightarrow> us_suspension u = Some Governance)"

interpretation anything: command_policy E "\<lambda>_ _. True" for E
  by unfold_locales simp_all

lemma seat_change_refl [simp]: "seat_change_allowed s s"
  by (simp add: seat_change_allowed_def)

interpretation owners_decide: command_policy E owners_decide for E
proof unfold_locales
  show "user_hold u seat now pending = Inr u' \<Longrightarrow> owners_decide u u'" for u seat now pending u'
    by (auto simp: owners_decide_def result_simps suspend_as_def user_emit_def Let_def)
  show "us_suspension u \<noteq> Some Governance \<Longrightarrow> owners_decide u (user_enable u now)" for u now
    by (simp add: owners_decide_def)
qed (auto simp: owners_decide_def user_op_defs result_simps split: if_splits)

context command_policy
begin

lemma request_writes:
  assumes "is_request c" shows "identity_writes E R db (snd (directory_call E c db))"
  using assms
  by (cases c)
    (auto simp: is_request_def resolve_writes set_username_writes hold_writes reinstate_writes lapse_due_holds_def
      lapse_loop_writes set_kyc_writes raise_kyc_writes set_role_writes store_update_profile_def
      store_revoke_tokens_def command_advances profiled revoked intro!: mutate_writes mutate_audited_writes)

lemma requests_write:
  "list_all is_request calls \<Longrightarrow> identity_writes E R db (run_directory E calls db)"
proof (induction calls arbitrary: db)
  case Nil
  then show ?case by (simp add: run_directory_def)
next
  case (Cons c cs)
  then show ?case
    using request_writes [of c db] by (auto simp: run_directory_Cons intro: writes_trans)
qed

end

lemma call_writes: "identity_writes E (\<lambda>_ _. True) db (snd (directory_call E c db))"
proof (cases "is_request c")
  case True
  then show ?thesis by (rule anything.request_writes)
next
  case False
  then show ?thesis
    by (cases c)
      (auto simp: is_request_def store_disable_user_def store_enable_user_def store_set_role_def
        command_advances intro!: anything.mutate_writes)
qed

lemma calls_write: "identity_writes E (\<lambda>_ _. True) db (run_directory E calls db)"
proof (induction calls arbitrary: db)
  case Nil
  then show ?case by (simp add: run_directory_def)
next
  case (Cons c cs)
  then show ?case
    using call_writes [of E db c] by (auto simp: run_directory_Cons intro: writes_trans)
qed

lemma empty_sound: "outbox_sound (empty_directory meanings)" "users_apart E (empty_directory meanings)"
  by (simp_all add: outbox_sound_def outbox_ordered_def outbox_tells_def users_apart_def empty_directory_def of_user_def)

section \<open>What the owners alone decide\<close>

definition seat_at :: "role \<Rightarrow> 'z identity_db_scheme \<Rightarrow> user_id \<Rightarrow> bool" where
  "seat_at s db i \<longleftrightarrow> (\<exists>r\<in>set (db_users db). ur_id r = i \<and> ur_role r = role_as_str s)"

definition verdict_at :: "'z identity_db_scheme \<Rightarrow> user_id \<Rightarrow> bool" where
  "verdict_at db i \<longleftrightarrow> (\<exists>r\<in>set (db_users db). ur_id r = i \<and> ur_suspended_by r = Some (lit ''governance''))"

definition same_standing :: "'z identity_db_scheme \<Rightarrow> 'z identity_db_scheme \<Rightarrow> bool" where
  "same_standing db db' \<longleftrightarrow> (\<forall>i. seat_at Owner db' i = seat_at Owner db i
     \<and> (seat_at Admin db' i \<longrightarrow> seat_at Admin db i) \<and> verdict_at db' i = verdict_at db i)"

lemma suspension_governance: "suspension_as_str s = lit ''governance'' \<longleftrightarrow> s = Governance"
  by (cases s) (simp_all add: suspension_as_str_def)

lemma into_domain_verdict:
  "into_domain E r = Inr u \<Longrightarrow> ur_suspended_by r = Some (lit ''governance'') \<longleftrightarrow> us_suspension u = Some Governance"
  by (auto simp: into_domain_def result_simps user_rehydrate_def suspension_parse_def split: option.splits if_splits)

lemma update_standing:
  assumes "distinct (map ur_id (db_users db))" and "r \<in> set (db_users db)" and "ur_id r = i"
    and "into_domain E r = Inr u0" and "us_id u = i" and "owners_decide u0 u"
    and "db_users db' = map (\<lambda>w. if ur_id w = i then set_columns u w else w) (db_users db)"
  shows "same_standing db db'"
proof -
  have one: "w = r" if "w \<in> set (db_users db)" "ur_id w = i" for w
    using assms(1-3) that by (auto simp: distinct_map inj_on_def)
  have at_i: "(\<exists>w\<in>set (db_users db'). ur_id w = i \<and> P w) \<longleftrightarrow> P (set_columns u r)"
    "(\<exists>w\<in>set (db_users db). ur_id w = i \<and> P w) \<longleftrightarrow> P r" for P
  proof -
    have "w' = set_columns u r" if "w' \<in> set (db_users db')" "ur_id w' = i" for w'
    proof -
      note at = that
      obtain w where w: "w \<in> set (db_users db)" "w' = (if ur_id w = i then set_columns u w else w)"
        using at(1) unfolding assms(7) set_map by blast
      then have "ur_id w = i" using at(2) by (cases "ur_id w = i") simp_all
      then show ?thesis using w one by simp
    qed
    moreover have "set_columns u r \<in> set (db_users db')" "ur_id (set_columns u r) = i"
      using assms(2,3) by (force simp: assms(7), simp)
    ultimately show "(\<exists>w\<in>set (db_users db'). ur_id w = i \<and> P w) \<longleftrightarrow> P (set_columns u r)" by blast
    show "(\<exists>w\<in>set (db_users db). ur_id w = i \<and> P w) \<longleftrightarrow> P r" using one assms(2,3) by blast
  qed
  have elsewhere: "(\<exists>w\<in>set (db_users db'). ur_id w = j \<and> P w) \<longleftrightarrow> (\<exists>w\<in>set (db_users db). ur_id w = j \<and> P w)"
    if "j \<noteq> i" for P j
    using that by (force simp: assms(7))
  have role: "ur_role r = role_as_str (us_role u0)" "ur_role (set_columns u r) = role_as_str (us_role u)"
    using into_domain_Inr(5) [OF assms(4)] by (simp_all add: set_columns_def)
  have verdict: "ur_suspended_by (set_columns u r) = Some (lit ''governance'') \<longleftrightarrow> us_suspension u = Some Governance"
    by (cases "us_suspension u") (simp_all add: set_columns_def suspension_governance)
  show ?thesis
    unfolding same_standing_def
  proof
    fix j
    show "seat_at Owner db' j = seat_at Owner db j \<and> (seat_at Admin db' j \<longrightarrow> seat_at Admin db j)
        \<and> verdict_at db' j = verdict_at db j"
    proof (cases "j = i")
      case True
      then show ?thesis
        using assms(6) into_domain_verdict [OF assms(4)]
        by (simp add: seat_at_def verdict_at_def at_i role verdict owners_decide_def seat_change_allowed_def
            role_codec.as_str_eq_iff)
    next
      case False
      then show ?thesis by (simp add: seat_at_def verdict_at_def elsewhere)
    qed
  qed
qed

lemma write_standing:
  "identity_write E owners_decide db db' \<Longrightarrow> users_apart E db \<Longrightarrow> same_standing db db'"
proof (induction rule: identity_write.induct)
  case (elsewhere db db')
  then show ?case by (simp add: others_only_def same_standing_def seat_at_def verdict_at_def)
next
  case (save db i u0 u db1 db2 clock db' u')
  from save.hyps(1,2,4,5,6) obtain r ps where "r \<in> set (db_users db)" "ur_id r = i" "into_domain E r = Inr u0"
    "us_id u = i" "db_users db' = map (\<lambda>w. if ur_id w = i then set_columns u w else w) (db_users db)"
    by (rule save_effect)
  then show ?case using save.hyps(3) save.prems by (intro update_standing) (auto simp: users_apart_def)
next
  case (create db i subject mail verified handle db1 db2 clock db' u')
  from create.hyps(1) refl create.hyps(2,3)
  have "db_users db' = db_users db @ [inserted_row (user_provision i subject mail verified handle)]"
    by (rule create_effect)
  then show ?case
    by (auto simp: same_standing_def seat_at_def verdict_at_def provisioned_row role_as_str_def role_default_def)
qed

lemma writes_standing:
  assumes "identity_writes E owners_decide db db'" and "users_apart E db"
  shows "same_standing db db'"
  using assms unfolding identity_writes_def
proof (induction rule: rtranclp_induct)
  case base
  then show ?case by (simp add: same_standing_def)
next
  case (step db1 db2)
  have "users_apart E db1" using step.hyps(1) step.prems writes_keep(2) by (auto simp: identity_writes_def)
  then have "same_standing db1 db2" using step.hyps(2) write_standing by blast
  with step.IH step.prems show ?case by (simp add: same_standing_def)
qed

text \<open>C30. Nobody's standing is decided outside the consilium: whatever the request handlers do
  with the directory, who holds an owner's seat is unchanged, nobody becomes an admin, and
  the owners' suspensions are neither lifted nor made.
\<close>

theorem standing_outside_consilium:
  assumes "users_apart E db" and "list_all is_request calls"
  shows "{i. seat_at Owner (run_directory E calls db) i} = {i. seat_at Owner db i}
    \<and> {i. seat_at Admin (run_directory E calls db) i} \<subseteq> {i. seat_at Admin db i}
    \<and> {i. verdict_at (run_directory E calls db) i} = {i. verdict_at db i}"
  using writes_standing [OF owners_decide.requests_write [OF assms(2)] assms(1)]
  by (auto simp: same_standing_def)

section \<open>Properties of runs\<close>

lemma bridge_row:
  assumes "outbox_sound db" and "users_apart E db" and "r \<in> set (db_users db)"
  defines "rows \<equiv> filter (\<lambda>w. ob_user_id w = ur_id r) (db_outbox db)"
  shows "rows \<noteq> [] \<and> sorted_wrt (<) (map ob_sequence rows) \<and> ob_sequence (last rows) \<le> ur_row_version r
    \<and> ob_role (last rows) = ur_role r \<and> ob_kyc_level (last rows) = ur_kyc_level r
    \<and> ob_token_version (last rows) = ur_token_version r
    \<and> outbox_frozen rows = (ur_status r = user_status_as_str Disabled)"
proof -
  have rows: "rows = of_user (ur_id r) (db_outbox db)" by (simp add: rows_def of_user_def)
  have t: "tells rows r" using assms(1,3) by (simp add: outbox_sound_def outbox_tells_def rows)
  then have "last rows \<in> set rows" by (simp add: tells_def)
  then have "last rows \<in> set (db_outbox db)" "ob_user_id (last rows) = ur_id r" by (auto simp: rows_def)
  moreover have "s = r" if "s \<in> set (db_users db)" "ur_id s = ur_id r" for s
    using assms(2,3) that by (auto simp: users_apart_def distinct_map inj_on_def)
  ultimately have "ob_sequence (last rows) \<le> ur_row_version r"
    using assms(1) unfolding outbox_sound_def outbox_ordered_def by metis
  moreover have "sorted_wrt (<) (map ob_sequence rows)"
    using assms(1) by (simp add: outbox_sound_def outbox_ordered_def rows)
  ultimately show ?thesis using t by (simp add: tells_def user_status_as_str_def)
qed

text \<open>
  The bridge to the money plane tells the truth: after any run of the directory every
  account has outbox rows, its sequence numbers strictly increase and do not pass the row's
  version, the last row carries the seat, the KYC level and the session version of the
  account, and replaying the kinds gives frozen exactly when it is disabled.
\<close>

theorem bridge_tells_truth:
  assumes "r \<in> set (db_users (run_directory E calls (empty_directory meanings)))"
  defines "rows \<equiv> filter (\<lambda>w. ob_user_id w = ur_id r) (db_outbox (run_directory E calls (empty_directory meanings)))"
  shows "rows \<noteq> [] \<and> sorted_wrt (<) (map ob_sequence rows) \<and> ob_sequence (last rows) \<le> ur_row_version r
    \<and> ob_role (last rows) = ur_role r \<and> ob_kyc_level (last rows) = ur_kyc_level r
    \<and> ob_token_version (last rows) = ur_token_version r
    \<and> outbox_frozen rows = (ur_status r = user_status_as_str Disabled)"
  unfolding rows_def
  by (rule bridge_row [OF _ _ assms(1)]) (use writes_keep [OF calls_write] empty_sound in blast)+

text \<open>
  Accounts stay apart: after any run two different rows share neither id nor subject,
  nor a handle, nor an address that is proven for both.
\<close>

theorem accounts_stay_apart:
  assumes "r \<in> set (db_users (run_directory E calls (empty_directory meanings)))"
    and "s \<in> set (db_users (run_directory E calls (empty_directory meanings)))" and "r \<noteq> s"
  shows "ur_id r \<noteq> ur_id s \<and> ur_auth_subject r \<noteq> ur_auth_subject s
    \<and> (ur_username r = None \<or> ur_username r \<noteq> ur_username s)
    \<and> \<not> (ur_email_verified r \<and> ur_email_verified s \<and> ur_email r \<noteq> None
         \<and> map_option (pg_lower E) (ur_email r) = map_option (pg_lower E) (ur_email s))"
proof -
  have apart: "users_apart E (run_directory E calls (empty_directory meanings))"
    using writes_keep [OF calls_write] empty_sound by blast
  then have "ur_id r \<noteq> ur_id s" using assms by (auto simp: users_apart_def distinct_map inj_on_def)
  then have "\<not> clash E r s" using apart assms by (simp add: users_apart_def)
  with \<open>ur_id r \<noteq> ur_id s\<close> show ?thesis by (simp add: clash_def)
qed

lemma transact_refused:
  assumes "\<not> is_ok (fst (transact tx db))" and "\<And>out db'. tx db = Inr (out, db') \<Longrightarrow> is_ok out"
  shows "snd (transact tx db) = db"
proof (cases "tx db")
  case (Inl e)
  then show ?thesis by (simp add: transact_def)
next
  case (Inr r)
  with assms show ?thesis by (cases r) (auto simp: transact_def)
qed

text \<open>A refused call changes nothing: when any operation of the directory returns an
  error the database is what it was. The sweep of due holds is the one exception, since it
  commits per account.
\<close>

theorem refused_changes_nothing:
  assumes "\<not> fst (directory_call E c db)" and "\<forall>clock now limit. c \<noteq> Call_LapseDue clock now limit"
  shows "snd (directory_call E c db) = db"
proof (cases c)
  case (Call_SetUsername clock i h)
  have out: "is_ok (case r of Inl (Repository msg) \<Rightarrow>
      if str_contains msg (lit ''users_username_idx'') then Inl (Conflict (lit ''username is taken'')) else Inl (Repository msg)
    | other \<Rightarrow> other) \<longleftrightarrow> is_ok r" for r :: "domain_error + user"
    by (cases r) (auto split: domain_error.splits)
  with assms(1) Call_SetUsername have "\<not> is_ok (fst (mutate E clock i (\<lambda>u. Inr (set_username u h)) db))"
    by (simp add: store_set_username_def case_prod_beta del: is_ok.simps)
  then have "snd (mutate E clock i (\<lambda>u. Inr (set_username u h)) db) = db"
    unfolding mutate_def by (rule transact_refused) (auto simp: rbind_Inr_iff)
  then show ?thesis by (simp add: Call_SetUsername store_set_username_def case_prod_beta)
next
  case (Call_Resolve clock fresh identity now)
  show ?thesis
    using assms(1) unfolding Call_Resolve directory_call.simps snd_outcome_of resolve_identity_def
    by (rule transact_refused, cases "linked_account db (pi_provider identity)")
      (auto simp: rbind_Inr_iff Let_def split: if_splits)
qed (use assms in \<open>auto simp: store_update_profile_def store_revoke_tokens_def store_disable_user_def
    store_enable_user_def store_set_role_def store_hold_user_def reinstate_outside_governance_def
    store_set_kyc_level_def raise_kyc_level_to_def set_role_outside_ownership_def mutate_def
    mutate_audited_def rbind_Inr_iff Let_def
    intro!: transact_refused split: if_splits option.splits prod.splits sum.splits\<close>)

section \<open>Signing in\<close>

lemma find_id_distinct:
  "distinct (map ur_id rows) \<Longrightarrow> r \<in> set rows \<Longrightarrow> find (\<lambda>w. ur_id w = ur_id r) rows = Some r"
  by (rule find_eq_Some_distinct)

lemma load_row:
  assumes "load_for_update E db i = Inr u" and "users_apart E' db" and "r \<in> set (db_users db)" and "ur_id r = i"
  shows "into_domain E r = Inr u"
  using assms find_id_distinct [of "db_users db" r] by (auto simp: load_Inr users_apart_def)

lemma verified_holder_row:
  "verified_holder E db m = Some i \<Longrightarrow>
     \<exists>r\<in>set (db_users db). ur_id r = i \<and> ur_email_verified r \<and> map_option (pg_lower E) (ur_email r) = Some (email_as_str m)"
  by (auto simp: verified_holder_def dest!: find_Some_in)

lemma squatted_row:
  "squatted E db m = [i] \<Longrightarrow>
     \<exists>r\<in>set (db_users db). ur_id r = i \<and> i \<in> set (db_passwords db) \<and> \<not> ur_email_verified r
       \<and> map_option (pg_lower E) (ur_email r) = Some (email_as_str m)"
proof -
  assume sq: "squatted E db m = [i]"
  then have "i \<in> set (squatted E db m)" by simp
  then show ?thesis by (auto simp: squatted_def)
qed

lemma others_untouched:
  assumes "update_row E db u = Inr db'" and "r \<in> set (db_users db)" and "ur_id r \<noteq> us_id u"
  shows "r \<in> set (db_users db')"
proof -
  have "r = (if ur_id r = us_id u then set_columns u r else r)" using assms(3) by simp
  then show ?thesis using assms(2) unfolding update_row_Inr [OF assms(1)] by auto
qed

definition signed_in ::
  "ext \<Rightarrow> user_id \<Rightarrow> proven_identity \<Rightarrow> 'z identity_db_scheme \<Rightarrow> user \<Rightarrow> 'z identity_db_scheme \<Rightarrow> bool" where
  "signed_in E fresh identity db u db' \<longleftrightarrow>
     linked_account db (pi_provider identity) = Some (us_id u)
   \<or> (us_id u = fresh \<and> (\<forall>r\<in>set (db_users db). ur_id r \<noteq> fresh) \<and> us_email u = pi_email identity
        \<and> us_email_verified u = pi_email_proven identity \<and> us_role u = Investor \<and> us_kyc_level u = 0)
   \<or> (pi_email_proven identity \<and> (\<exists>r\<in>set (db_users db). ur_id r = us_id u \<and> ur_email_verified r
        \<and> map_option (pg_lower E) (ur_email r) = Some (email_as_str (pi_email identity)) \<and> r \<in> set (db_users db')))
   \<or> (pi_email_proven identity \<and> (\<exists>r\<in>set (db_users db). ur_id r = us_id u \<and> \<not> ur_email_verified r
        \<and> map_option (pg_lower E) (ur_email r) = Some (email_as_str (pi_email identity))
        \<and> us_id u \<in> set (db_passwords db) \<and> us_id u \<notin> set (db_passwords db')
        \<and> us_email_verified u \<and> us_token_version u = ur_token_version r + 1))"

lemma linkable_standing:
  assumes "linkable E db identity now = Inr (Some u, db1)" and "users_apart E db"
  shows "pi_email_proven identity
    \<and> (db1 = db \<and> us_pending u = [] \<and> (\<exists>r\<in>set (db_users db). ur_id r = us_id u \<and> ur_email_verified r
          \<and> map_option (pg_lower E) (ur_email r) = Some (email_as_str (pi_email identity)))
     \<or> (\<exists>r\<in>set (db_users db). ur_id r = us_id u \<and> \<not> ur_email_verified r
          \<and> map_option (pg_lower E) (ur_email r) = Some (email_as_str (pi_email identity))
          \<and> us_id u \<in> set (db_passwords db) \<and> us_id u \<notin> set (db_passwords db1)
          \<and> us_email_verified u \<and> us_token_version u = ur_token_version r + 1
          \<and> (\<forall>w\<in>set (db_users db). ur_id w \<noteq> us_id u \<longrightarrow> w \<in> set (db_users db1))))"
proof (cases "verified_holder E db (pi_email identity)")
  case (Some i)
  with assms(1) have "load_for_update E db i = Inr u" "db1 = db" "pi_email_proven identity"
    by (auto simp: linkable_def rbind_Inr_iff split: if_splits)
  then show ?thesis using verified_holder_row [OF Some] load_id by auto
next
  case None
  with assms(1) obtain i v db2 where sq: "squatted E db (pi_email identity) = [i]"
    and v: "load_for_update E db i = Inr v" "u = take_over v"
    and up: "update_row E (db\<lparr>db_passwords := filter (\<lambda>x. x \<noteq> i) (db_passwords db)\<rparr>) u = Inr db2"
    and db1: "\<exists>a. db1 = record_action db2 i a now" and proven: "pi_email_proven identity"
    by (auto simp: linkable_def rbind_Inr_iff Let_def split: if_splits list.splits)
  obtain r where r: "r \<in> set (db_users db)" "ur_id r = i" "i \<in> set (db_passwords db)" "\<not> ur_email_verified r"
    "map_option (pg_lower E) (ur_email r) = Some (email_as_str (pi_email identity))"
    using squatted_row [OF sq] by blast
  have v_r: "into_domain E r = Inr v" by (rule load_row [OF v(1) assms(2) r(1,2)])
  have id: "us_id u = i" "us_email_verified u" "us_token_version u = ur_token_version r + 1"
    using load_id [OF v(1)] into_domain_Inr(7) [OF v_r] by (auto simp: v(2) user_op_defs)
  have pw: "db_passwords db1 = filter (\<lambda>x. x \<noteq> i) (db_passwords db)"
    using db1 update_row_Inr [OF up] by (auto simp: record_action_def)
  have "db_users db1 = db_users db2" using db1 by (auto simp: record_action_def)
  then have "\<forall>w\<in>set (db_users db). ur_id w \<noteq> us_id u \<longrightarrow> w \<in> set (db_users db1)"
    using others_untouched [OF up] by auto
  with r id pw proven show ?thesis by auto
qed

lemma drain_tables:
  "drain_outbox E clock db u = Inr (db', u') \<Longrightarrow>
     db_users db' = db_users db \<and> db_passwords db' = db_passwords db \<and> u' = drained u"
  by (auto dest!: drain_Inr)

lemma link_tables:
  "link_identity E db p subject i = Inr db' \<Longrightarrow> db_users db' = db_users db \<and> db_passwords db' = db_passwords db"
  by (auto simp: link_identity_def split: if_splits)

lemma drained_fields [simp]:
  "us_id (drained u) = us_id u" "us_email (drained u) = us_email u" "us_role (drained u) = us_role u"
  "us_email_verified (drained u) = us_email_verified u" "us_token_version (drained u) = us_token_version u"
  "us_kyc_level (drained u) = us_kyc_level u"
  by (simp_all add: drained_def)

text \<open>C31. Nobody signs in to somebody else's account: a sign-in that succeeds ends in the
  account this provider subject is linked to, in a new investor account of that address,
  in the account that has PROVEN the address, or - when the address is proven by the
  provider and nobody has proven it here - in the account squatting on it, whose password
  is gone and whose sessions are revoked. Every other account's row stays as it was.
\<close>

theorem sign_in_never_hijacks:
  assumes run: "resolve_identity E clock fresh identity now db = (Inr u, db')" and apart: "users_apart E db"
  shows "signed_in E fresh identity db u db'
    \<and> (\<forall>r\<in>set (db_users db). ur_id r \<noteq> us_id u \<longrightarrow> r \<in> set (db_users db'))"
proof (cases "linked_account db (pi_provider identity)")
  case (Some i)
  with run obtain v where v: "load_for_update E db i = Inr v"
    and "u = v \<and> db' = db \<or> u = change_email v (pi_email identity) (pi_email_proven identity) \<and> update_row E db u = Inr db'"
    by (auto simp: resolve_identity_def transact_def rbind_def Let_def split: sum.splits if_splits)
  moreover have "us_id (change_email v m b) = us_id v" for m b by (simp add: change_email_def)
  ultimately show ?thesis
    using Some load_id [OF v]
    by (auto simp: signed_in_def
        intro: others_untouched [where u = "change_email v (pi_email identity) (pi_email_proven identity)"])
next
  case None
  with run obtain found db1 w db2 db3 where link: "linkable E db identity now = Inr (found, db1)"
    and got: "(case found of Some u \<Rightarrow> Inr (u, db1) | None \<Rightarrow>
        rbind (auth_subject_parse (uuid_text E (uid_raw fresh))) (\<lambda>subject.
        let u = user_provision fresh subject (pi_email identity) (pi_email_proven identity)
                  (free_username db1 (pi_email identity)) in
        rbind (insert_user E db1 u) (\<lambda>db. Inr (u, db)))) = Inr (w, db2)"
    and l: "(case pi_provider identity of None \<Rightarrow> Inr db2
        | Some (p, subject) \<Rightarrow> link_identity E db2 p subject (us_id w)) = Inr db3"
    and d: "drain_outbox E clock db3 w = Inr (db', u)"
    by (auto simp: resolve_identity_def transact_def rbind_def split: sum.splits prod.splits)
  have tables: "db_users db' = db_users db2" "db_passwords db' = db_passwords db2" "u = drained w"
    using drain_tables [OF d] l by (auto dest: link_tables split: option.splits)
  show ?thesis
  proof (cases found)
    case None
    then obtain subject where w: "w = user_provision fresh subject (pi_email identity) (pi_email_proven identity)
        (free_username db1 (pi_email identity))" and ins: "insert_user E db1 w = Inr db2"
      using got by (auto simp: rbind_Inr_iff Let_def)
    have "db1 = db" using link None linkable_new by simp
    with ins have "users_violation E (db_users db) (inserted_row w) = None"
      "db_users db2 = db_users db @ [inserted_row w]"
      by (auto simp: insert_user_def split: option.splits)
    moreover from this(1) have "\<forall>r\<in>set (db_users db). ur_id r \<noteq> ur_id (inserted_row w)"
      using no_violation_apart by blast
    ultimately show ?thesis
      by (simp add: signed_in_def tables w provisioned_row) (simp add: user_provision_def user_emit_def role_default_def)
  next
    case (Some v)
    then have "v = w" "db2 = db1" using got by auto
    with linkable_standing [OF link [unfolded Some] apart] show ?thesis
      by (auto simp: signed_in_def tables)
  qed
qed

section \<open>KYC levels\<close>

text \<open>
  KYC levels move only on the record and only up by an approval: nobody sets their
  own; raising answers \<open>AlreadyHolds\<close> and writes nothing when the level is already there,
  and otherwise lifts the level to the target (within the tiers), with exactly one audit
  row naming both levels and exactly one \<open>KYC_CHANGED\<close> row for the money plane; an error
  leaves everything as it was.
\<close>

theorem kyc_raise_on_record:
  assumes "raise_kyc_level_to E clock i goal action now db = (out, db')"
  shows "(case out of
      Inl e \<Rightarrow> db' = db
    | Inr (AlreadyHolds level) \<Rightarrow> db' = db \<and> goal \<le> level
    | Inr (Raised from_level to_level) \<Rightarrow> from_level < to_level \<and> to_level = goal \<and> goal \<le> 3
        \<and> (\<exists>r\<in>set (db_users db). ur_id r = i \<and> ur_kyc_level r = from_level \<and> ur_email_verified r)
        \<and> (\<exists>r\<in>set (db_users db'). ur_id r = i \<and> ur_kyc_level r = goal)
        \<and> (\<exists>w. db_outbox db' = db_outbox db @ [w] \<and> ob_user_id w = i \<and> ob_kind w = lit ''KYC_CHANGED'' \<and> ob_kyc_level w = goal)
        \<and> (\<exists>w. db_actions db' = db_actions db @ [w] \<and> ac_subject w = i \<and> ac_actor w = aa_actor action
             \<and> ac_detail w = Some (kyc_level_detail from_level goal (aa_detail action))))
    \<and> (aa_actor action = Some i \<longrightarrow> \<not> is_ok (fst (store_set_kyc_level E clock i goal action now db)))"
proof -
  have own: "aa_actor action = Some i \<longrightarrow> \<not> is_ok (fst (store_set_kyc_level E clock i goal action now db))"
    by (simp add: store_set_kyc_level_def)
  show ?thesis
  proof (cases out)
    case (Inl e)
    with assms own show ?thesis
      by (auto simp: raise_kyc_level_to_def transact_def rbind_def Let_def split: sum.splits if_splits prod.splits)
  next
    case (Inr change)
    show ?thesis
    proof (cases change)
      case (AlreadyHolds level)
      with assms Inr own show ?thesis
        by (auto simp: raise_kyc_level_to_def transact_def rbind_def Let_def split: sum.splits if_splits prod.splits)
    next
      case (Raised from_level to_level)
      with assms Inr obtain v u db1 where v: "load_for_update E db i = Inr v" "from_level = us_kyc_level v"
        "to_level = goal" "us_kyc_level v < goal" and u: "user_set_kyc_level v goal = Inr u"
        and saved: "\<exists>u'. save_user E clock db u = Inr (db1, u')"
        and db': "db' = record_action db1 i (action\<lparr>aa_detail := Some (kyc_level_detail from_level goal (aa_detail action))\<rparr>) now"
        by (auto simp: raise_kyc_level_to_def transact_def rbind_def Let_def
            split: sum.splits if_splits prod.splits)
      obtain r where r: "find (\<lambda>r. ur_id r = i) (db_users db) = Some r" "into_domain E r = Inr v"
        using v(1) by (auto simp: load_Inr)
      have lvl: "us_kyc_level u = goal" "us_id u = i" "goal \<le> 3" "us_email_verified v" "us_pending u = [KycChanged]"
        using u v load_id [OF v(1)] by (auto simp: user_set_kyc_level_def user_emit_def MAX_KYC_LEVEL_def split: if_splits)
      obtain db2 u' where up: "update_row E db u = Inr db2" and dr: "drain_outbox E clock db2 u = Inr (db1, u')"
        using saved by (auto simp: save_user_def result_simps)
      obtain ps where db1: "db1 = db2\<lparr>db_outbox := db_outbox db2 @ drained_rows u clock ps\<rparr>"
        using drain_Inr [OF dr] by blast
      have "drained_rows u clock ps = [outbox_row_of u clock ps (us_row_version u) KycChanged]"
        by (simp add: drained_rows_def lvl)
      then have outbox: "db_outbox db' = db_outbox db @ [outbox_row_of u clock ps (us_row_version u) KycChanged]"
        by (simp add: db' db1 record_action_def update_row_Inr [OF up])
      have actions: "\<exists>w. db_actions db' = db_actions db @ [w] \<and> ac_subject w = i \<and> ac_actor w = aa_actor action
          \<and> ac_detail w = Some (kyc_level_detail from_level goal (aa_detail action))"
        by (simp add: db' db1 record_action_def update_row_Inr [OF up])
      have "set_columns u r \<in> set (db_users db')"
        using find_Some_in [OF r(1)] lvl(2) by (force simp: db' db1 record_action_def update_row_Inr [OF up])
      moreover have "ur_id (set_columns u r) = i" "ur_kyc_level (set_columns u r) = goal"
        using find_Some_in [OF r(1)] lvl by (simp_all add: set_columns_def)
      ultimately have after: "\<exists>w\<in>set (db_users db'). ur_id w = i \<and> ur_kyc_level w = goal" by blast
      have prior: "\<exists>w\<in>set (db_users db). ur_id w = i \<and> ur_kyc_level w = from_level \<and> ur_email_verified w"
        using find_Some_in [OF r(1)] into_domain_Inr(8,9) [OF r(2)] lvl(4) v(2) by auto
      show ?thesis
        using own v lvl prior after actions
        by (simp add: Inr Raised outbox) (simp add: outbox_row_of_def user_event_kind_def lvl)
    qed
  qed
qed

section \<open>A directory in use\<close>

definition sample_identity :: "string \<Rightarrow> bool \<Rightarrow> proven_identity" where
  "sample_identity mail proven = \<lparr>pi_provider = Some (Google, lit mail), pi_email = Email (lit mail), pi_email_proven = proven\<rparr>"

definition sample_meanings :: "(rstr \<times> rstr list \<times> nat) list" where
  "sample_meanings = map (\<lambda>s. (role_as_str s, [], 1)) [Owner, Admin, Operator, Investor]"

definition sample_action :: admin_action where
  "sample_action = action_by (UserId 2) (lit ''set_kyc_level'') [] []"

definition sample_calls :: "dir_call list" where
  "sample_calls =
     [Call_Resolve 10 (UserId 1) (sample_identity ''ada@example.com'' True) 10,
      Call_Resolve 20 (UserId 2) (sample_identity ''bob@example.com'' True) 20,
      Call_SetRole 25 (UserId 2) Operator,
      Call_RaiseKyc 30 (UserId 1) 2 sample_action 30,
      Call_Hold False 40 (UserId 1) sample_action (UserId 2) 40]"

definition sample_directory :: identity_db where
  "sample_directory = run_directory ascii_ext sample_calls (empty_directory sample_meanings)"

lemma sample_users: "map ur_id (db_users sample_directory) = [UserId 1, UserId 2]"
  by code_simp

lemma sample_apart: "users_apart ascii_ext sample_directory"
  unfolding sample_directory_def by (rule writes_keep(2) [OF calls_write empty_sound(2)])

theorem standing_outside_consilium_witness:
  "{i. seat_at Owner (run_directory ascii_ext [Call_Reinstate 50 (UserId 1) sample_action 50] sample_directory) i}
     = {i. seat_at Owner sample_directory i}"
  using standing_outside_consilium [OF sample_apart, of "[Call_Reinstate 50 (UserId 1) sample_action 50]"]
  by (simp add: is_request_def)

lemma sample_rows: "\<exists>r s. db_users sample_directory = [r, s] \<and> ur_id r = UserId 1 \<and> ur_id s = UserId 2"
  using sample_users by (auto simp: map_eq_Cons_conv)

theorem bridge_tells_truth_witness:
  "\<exists>r\<in>set (db_users sample_directory).
     ob_kyc_level (last (filter (\<lambda>w. ob_user_id w = ur_id r) (db_outbox sample_directory))) = ur_kyc_level r"
proof -
  obtain r where r: "r \<in> set (db_users sample_directory)" using sample_rows by force
  from bridge_tells_truth [OF r [unfolded sample_directory_def]] show ?thesis
    using r by (auto simp: sample_directory_def)
qed

theorem accounts_stay_apart_witness:
  "\<exists>r s. set (db_users sample_directory) = {r, s} \<and> ur_auth_subject r \<noteq> ur_auth_subject s"
proof -
  obtain r s where rs: "db_users sample_directory = [r, s]" "ur_id r = UserId 1" "ur_id s = UserId 2"
    using sample_rows by blast
  then have "r \<in> set (db_users sample_directory)" "s \<in> set (db_users sample_directory)" "r \<noteq> s" by auto
  from accounts_stay_apart [OF this [unfolded sample_directory_def]] rs show ?thesis by auto
qed

theorem refused_changes_nothing_witness:
  "snd (directory_call ascii_ext (Call_SetKyc 50 (UserId 2) 1 sample_action 50) sample_directory) = sample_directory"
  by (rule refused_changes_nothing) (simp_all add: store_set_kyc_level_def sample_action_def action_by_def outcome_of_def)

theorem sign_in_never_hijacks_witness:
  "\<exists>u db'. resolve_identity ascii_ext 60 (UserId 3) (sample_identity ''ada@example.com'' False) 60 sample_directory = (Inr u, db')
     \<and> signed_in ascii_ext (UserId 3) (sample_identity ''ada@example.com'' False) sample_directory u db'"
proof -
  have "is_ok (fst (resolve_identity ascii_ext 60 (UserId 3) (sample_identity ''ada@example.com'' False) 60 sample_directory))"
    by code_simp
  then obtain u db' where
    "resolve_identity ascii_ext 60 (UserId 3) (sample_identity ''ada@example.com'' False) 60 sample_directory = (Inr u, db')"
    by (cases "resolve_identity ascii_ext 60 (UserId 3) (sample_identity ''ada@example.com'' False) 60 sample_directory")
      (auto elim: is_ok.elims)
  with sign_in_never_hijacks [OF this sample_apart] show ?thesis by blast
qed

theorem kyc_raise_on_record_witness:
  "fst (raise_kyc_level_to ascii_ext 70 (UserId 1) 1 sample_action 70 sample_directory) = Inr (AlreadyHolds 2)
   \<and> snd (raise_kyc_level_to ascii_ext 70 (UserId 1) 1 sample_action 70 sample_directory) = sample_directory"
proof -
  have "fst (raise_kyc_level_to ascii_ext 70 (UserId 1) 1 sample_action 70 sample_directory) = Inr (AlreadyHolds 2)"
    by code_simp
  then obtain db' where run: "raise_kyc_level_to ascii_ext 70 (UserId 1) 1 sample_action 70 sample_directory
      = (Inr (AlreadyHolds 2), db')"
    by (metis eq_fst_iff)
  from kyc_raise_on_record [OF run] run show ?thesis by simp
qed

section \<open>Where the code does not do what it says\<close>

definition stored :: "nat \<Rightarrow> string \<Rightarrow> bool \<Rightarrow> user_row" where
  "stored n mail verified =
     (inserted_row (user_provision (UserId n) (AuthSubject (show_nat n)) (Email (lit mail)) verified None))"

text \<open>An address without a local part is accepted, but its default handle is empty and no row can hold
  it.\<close>

lemma no_account_without_local_part:
  "email_parse ascii_ext (lit ''@ab'') = Inr (Email (lit ''@ab''))"
  "resolve_identity ascii_ext 1 (UserId 1) (sample_identity ''@ab'' True) 1 (empty_directory sample_meanings)
     = (Inl (sql_error ascii_ext ''users_username_shape''), empty_directory sample_meanings)"
  by code_simp+

definition moved_address :: identity_db where
  "moved_address = (empty_directory sample_meanings)
     \<lparr>db_users := [stored 1 ''ada@example.com'' False, stored 2 ''ada@example.com'' True],
      db_identities := [((provider_as_str Google, lit ''ada@example.com''), UserId 1)]\<rparr>"

text \<open>A linked account holding an unproven address cannot sign in once its provider proves
  that address, if another account has proven it.\<close>

lemma linked_sign_in_breaks:
  "users_apart ascii_ext moved_address"
  "resolve_identity ascii_ext 1 (UserId 3) (sample_identity ''ada@example.com'' True) 1 moved_address
     = (Inl (sql_error ascii_ext ''users_verified_email_idx''), moved_address)"
  by code_simp+

definition two_holds :: identity_db where
  "two_holds = (empty_directory sample_meanings)
     \<lparr>db_users := [(stored 1 ''ada@example.com'' False)\<lparr>ur_status := lit ''disabled'', ur_role := lit ''gone'',
          ur_suspended_by := Some (lit ''admin_hold''), ur_hold_expires_at := Some 100\<rparr>,
        (stored 2 ''bob@example.com'' False)\<lparr>ur_status := lit ''disabled'',
          ur_suspended_by := Some (lit ''admin_hold''), ur_hold_expires_at := Some 200\<rparr>]\<rparr>"

text \<open>One row the aggregate cannot read strands every hold that expires after it.\<close>

lemma bad_row_strands_the_rest:
  "lapse_due_holds ascii_ext 300 300 10 two_holds
     = (Inl (Validation (lit ''unknown role: gone'')), two_holds)"
  "fst (lapse_due_holds ascii_ext 300 300 10 (two_holds\<lparr>db_users := tl (db_users two_holds)\<rparr>)) = Inr [UserId 2]"
  by code_simp+
end
