(* ===== verification/Access_Gate.thy ===== *)
theory Access_Gate
  imports Directory_Runs
begin

text \<open>
  \<open>runner/src/authz.rs\<close> and \<open>runner/src/support.rs\<close>: who a request acts as. The live-record
  gate, the emergency access that an empty owner registry opens and the first owner closes
  for good, the permission check, and the shared-token gate of the service seams. A
  verified token is its \<open>Claims\<close> (\<open>auth/src/claims.rs\<close>); a read of the directory is the
  argument the port would answer with, which may be an error.
\<close>

section \<open>Statuses and claims\<close>

datatype status_code =
    NotFoundCode | InvalidArgument | PermissionDenied | AlreadyExists | FailedPrecondition
  | Unavailable | Unauthenticated | ResourceExhausted | Internal

datatype status = Status (status_code: status_code) rstr

definition domain_to_status :: "domain_error \<Rightarrow> status" where
  "domain_to_status err = (case err of
     NotFound _ _ \<Rightarrow> Status NotFoundCode (error_text err)
   | Validation _ \<Rightarrow> Status InvalidArgument (error_text err)
   | Forbidden _ \<Rightarrow> Status PermissionDenied (error_text err)
   | Conflict _ \<Rightarrow> Status AlreadyExists (error_text err)
   | Precondition _ \<Rightarrow> Status FailedPrecondition (error_text err)
   | Repository _ \<Rightarrow> Status Unavailable (lit ''internal error''))"

definition gate_map_err :: "domain_error \<Rightarrow> status" where
  "gate_map_err err = (case err of
     Validation _ \<Rightarrow> Status Internal (lit ''corrupt role in control plane'')
   | _ \<Rightarrow> Status Unavailable (lit ''internal error''))"

definition map_err :: "('e \<Rightarrow> 'f) \<Rightarrow> 'e + 'a \<Rightarrow> 'f + 'a" where
  "map_err f r = (case r of Inl e \<Rightarrow> Inl (f e) | Inr x \<Rightarrow> Inr x)"

lemma map_err_iff [simp]: "map_err f r = Inr x \<longleftrightarrow> r = Inr x" "map_err f (Inr x) = Inr x" "map_err f (Inl e) = Inl (f e)"
  by (auto simp: map_err_def split: sum.splits)

datatype token_type = AccessToken | ServiceToken

record claims =
  cl_sub :: rstr
  cl_iss :: rstr
  cl_aud :: rstr
  cl_exp :: nat
  cl_iat :: nat
  cl_typ :: token_type
  cl_jti :: "rstr option"
  cl_token_version :: nat

definition is_access :: "claims \<Rightarrow> bool" where
  "is_access c \<longleftrightarrow> cl_typ c = AccessToken"

section \<open>The live-record gate\<close>

record gate =
  gt_sub :: rstr
  gt_id :: "user_id option"
  gt_record :: "authz_record option"

definition caller_gate ::
  "ext \<Rightarrow> (user_id \<Rightarrow> domain_error + authz_record option) \<Rightarrow> claims option \<Rightarrow> status + gate" where
  "caller_gate E lookup presented =
     (case presented of
        None \<Rightarrow> Inl (Status Unauthenticated (lit ''missing claims''))
      | Some c \<Rightarrow>
          rbind (ensure (is_access c) (Status PermissionDenied (lit ''access token required''))) (\<lambda>_.
          let i = map_option UserId (uuid_parse E (cl_sub c))
          in rbind (case i of Some i \<Rightarrow> map_err gate_map_err (lookup i) | None \<Rightarrow> Inr None) (\<lambda>found.
             rbind (case found of
                 None \<Rightarrow> Inr ()
               | Some r \<Rightarrow>
                   rbind (ensure (az_status r \<noteq> Disabled) (Status PermissionDenied (lit ''user is disabled''))) (\<lambda>_.
                   ensure (\<not> cl_token_version c < az_token_version r) (Status Unauthenticated (lit ''tokens revoked'')))) (\<lambda>_.
             Inr \<lparr>gt_sub = cl_sub c, gt_id = i, gt_record = found\<rparr>))))"

section \<open>Emergency access\<close>

record effective_role =
  er_role :: role
  er_break_glass :: bool

definition effective_persisted :: "role \<Rightarrow> effective_role" where
  "effective_persisted seat = \<lparr>er_role = seat, er_break_glass = False\<rparr>"

record break_glass =
  bg_subjects :: "rstr list"
  bg_elevates :: "rstr list"
  bg_sealed :: bool

definition break_glass_new :: "ext \<Rightarrow> rstr list \<Rightarrow> break_glass" where
  "break_glass_new E subjects =
     \<lparr>bg_subjects = subjects,
      bg_elevates = map (uuid_text E) (List.map_filter (\<lambda>s. uuid_parse E (trim s)) subjects),
      bg_sealed = False\<rparr>"

text \<open>The rule frozen for one request, and the latch after it.\<close>

definition snapshot :: "break_glass \<Rightarrow> domain_error + nat \<Rightarrow> rstr list option \<times> break_glass" where
  "snapshot bg owners =
     (if bg_elevates bg = [] \<or> bg_sealed bg then (None, bg)
      else case owners of
        Inr n \<Rightarrow> if n = 0 then (Some (bg_elevates bg), bg) else (None, bg\<lparr>bg_sealed := True\<rparr>)
      | Inl _ \<Rightarrow> (None, bg))"

definition elevates :: "rstr list option \<Rightarrow> rstr \<Rightarrow> bool" where
  "elevates elevation sub = (case elevation of None \<Rightarrow> False | Some subjects \<Rightarrow> list_ex (\<lambda>s. s = sub) subjects)"

definition role_of :: "rstr list option \<Rightarrow> role \<Rightarrow> rstr \<Rightarrow> effective_role" where
  "role_of elevation persisted sub =
     (if elevates elevation sub then \<lparr>er_role = Owner, er_break_glass = True\<rparr> else effective_persisted persisted)"

definition caller_role ::
  "ext \<Rightarrow> (user_id \<Rightarrow> domain_error + authz_record option) \<Rightarrow> domain_error + nat \<Rightarrow> break_glass \<Rightarrow> claims option
     \<Rightarrow> (status + effective_role) \<times> break_glass" where
  "caller_role E lookup owners bg presented =
     (case caller_gate E lookup presented of
        Inl e \<Rightarrow> (Inl e, bg)
      | Inr g \<Rightarrow>
          (let (elevation, bg') = snapshot bg owners
           in (case gt_record g of
                 Some r \<Rightarrow> Inr (role_of elevation (az_role r) (gt_sub g))
               | None \<Rightarrow>
                   if elevates elevation (gt_sub g) then Inr \<lparr>er_role = Owner, er_break_glass = True\<rparr>
                   else if gt_id g = None then Inl (Status Unauthenticated (lit ''subject is not a user id''))
                   else Inl (Status PermissionDenied (lit ''insufficient role'')), bg')))"

definition require_permission ::
  "ext \<Rightarrow> (user_id \<Rightarrow> domain_error + authz_record option) \<Rightarrow> domain_error + nat \<Rightarrow> break_glass \<Rightarrow> claims option \<Rightarrow> rstr
     \<Rightarrow> (status + unit) \<times> break_glass" where
  "require_permission E lookup owners bg presented permission =
     (let (seat, bg') = caller_role E lookup owners bg presented
      in (rbind seat (\<lambda>s. ensure (role_may (er_role s) permission) (Status PermissionDenied (lit ''insufficient role''))), bg'))"

section \<open>Service seams\<close>

definition strip_prefix :: "rstr \<Rightarrow> rstr \<Rightarrow> rstr option" where
  "strip_prefix s p = (if take (length p) s = p then Some (drop (length p) s) else None)"

definition bearer_token :: "rstr option \<Rightarrow> rstr option" where
  "bearer_token authorization = Option.bind authorization (\<lambda>v. strip_prefix v (lit ''Bearer ''))"

definition authenticate_service :: "rstr option \<Rightarrow> rstr option \<Rightarrow> rstr \<Rightarrow> status + unit" where
  "authenticate_service expected authorization seam =
     (case expected of
        None \<Rightarrow> Inl (Status Unavailable (seam @ lit '' not configured''))
      | Some token \<Rightarrow>
          (case bearer_token authorization of
             Some presented \<Rightarrow> ensure (presented = token) (Status Unauthenticated (lit ''invalid '' @ seam @ lit '' service token''))
           | None \<Rightarrow> Inl (Status Unauthenticated (lit ''invalid '' @ seam @ lit '' service token''))))"

section \<open>Who is let in\<close>

definition opens_emergency :: "break_glass \<Rightarrow> domain_error + nat \<Rightarrow> rstr \<Rightarrow> bool" where
  "opens_emergency bg owners sub \<longleftrightarrow> \<not> bg_sealed bg \<and> owners = Inr 0 \<and> sub \<in> set (bg_elevates bg)"

lemma snapshot_elevates: "elevates (fst (snapshot bg owners)) sub \<longleftrightarrow> opens_emergency bg owners sub"
  by (auto simp: snapshot_def elevates_def opens_emergency_def list_ex_iff split: sum.splits)

lemma snapshot_latch: "bg_sealed bg \<Longrightarrow> bg_sealed (snd (snapshot bg owners))"
  "bg_elevates (snd (snapshot bg owners)) = bg_elevates bg"
  "bg_elevates bg \<noteq> [] \<Longrightarrow> owners = Inr n \<Longrightarrow> n > 0 \<Longrightarrow> bg_sealed (snd (snapshot bg owners))"
  by (auto simp: snapshot_def split: sum.splits)

lemma caller_gate_Inr:
  "caller_gate E lookup presented = Inr g \<longleftrightarrow>
     (\<exists>c. presented = Some c \<and> is_access c \<and> gt_sub g = cl_sub c \<and> gt_id g = map_option UserId (uuid_parse E (cl_sub c))
        \<and> (case gt_id g of None \<Rightarrow> gt_record g = None | Some i \<Rightarrow> lookup i = Inr (gt_record g))
        \<and> (case gt_record g of None \<Rightarrow> True | Some r \<Rightarrow> az_status r \<noteq> Disabled \<and> az_token_version r \<le> cl_token_version c))"
  by (cases g) (auto simp: caller_gate_def Let_def result_simps not_less split: option.splits)

lemma caller_role_Inr:
  "fst (caller_role E lookup owners bg presented) = Inr s \<longleftrightarrow>
     (\<exists>g. caller_gate E lookup presented = Inr g \<and>
        (if opens_emergency bg owners (gt_sub g) then s = \<lparr>er_role = Owner, er_break_glass = True\<rparr>
         else \<exists>r. gt_record g = Some r \<and> s = effective_persisted (az_role r)))"
  by (auto simp: caller_role_def role_of_def snapshot_elevates [symmetric] split: sum.splits option.splits prod.splits)

text \<open>C39. The gate, exactly: a request passes for a permission precisely when it carries an access
  token that no suspension and no revocation on record contradicts, and its subject's
  recorded seat means that permission, or the subject is listed for emergency access
  while the registry, unsealed, is read as holding no owner. In particular an unknown user
  holds nothing, an unreadable registry opens nothing, and emergency access never outlives
  a suspension.\<close>

theorem gate_admits_iff:
  "fst (require_permission E lookup owners bg presented p) = Inr () \<longleftrightarrow>
     (\<exists>c found. presented = Some c \<and> is_access c
        \<and> (case uuid_parse E (cl_sub c) of None \<Rightarrow> found = None | Some i \<Rightarrow> lookup (UserId i) = Inr found)
        \<and> (case found of None \<Rightarrow> True | Some r \<Rightarrow> az_status r = Active \<and> az_token_version r \<le> cl_token_version c)
        \<and> (if \<not> bg_sealed bg \<and> owners = Inr 0 \<and> cl_sub c \<in> set (bg_elevates bg) then role_may Owner p
           else case found of None \<Rightarrow> False | Some r \<Rightarrow> role_may (az_role r) p))"
proof -
  have active: "az_status r \<noteq> Disabled \<longleftrightarrow> az_status r = Active" for r
    by (cases "az_status r") auto
  have "fst (require_permission E lookup owners bg presented p) = Inr () \<longleftrightarrow>
      (\<exists>s. fst (caller_role E lookup owners bg presented) = Inr s \<and> role_may (er_role s) p)"
    by (auto simp: require_permission_def result_simps split: prod.splits)
  also have "\<dots> \<longleftrightarrow> (\<exists>g. caller_gate E lookup presented = Inr g \<and>
      (if opens_emergency bg owners (gt_sub g) then role_may Owner p
       else \<exists>r. gt_record g = Some r \<and> role_may (az_role r) p))"
    unfolding caller_role_Inr effective_persisted_def
    by (rule iffI; elim exE conjE; simp split: if_splits; elim exE conjE; force)
  also have "\<dots> \<longleftrightarrow> (\<exists>c found. presented = Some c \<and> is_access c
        \<and> (case uuid_parse E (cl_sub c) of None \<Rightarrow> found = None | Some i \<Rightarrow> lookup (UserId i) = Inr found)
        \<and> (case found of None \<Rightarrow> True | Some r \<Rightarrow> az_status r \<noteq> Disabled \<and> az_token_version r \<le> cl_token_version c)
        \<and> (if opens_emergency bg owners (cl_sub c) then role_may Owner p
           else \<exists>r. found = Some r \<and> role_may (az_role r) p))" (is "?L \<longleftrightarrow> ?R")
  proof
    assume ?L
    then obtain g where g: "caller_gate E lookup presented = Inr g"
      "if opens_emergency bg owners (gt_sub g) then role_may Owner p else \<exists>r. gt_record g = Some r \<and> role_may (az_role r) p"
      by blast
    from g(1) obtain c where "presented = Some c" "is_access c" "gt_sub g = cl_sub c"
      "gt_id g = map_option UserId (uuid_parse E (cl_sub c))"
      "case gt_id g of None \<Rightarrow> gt_record g = None | Some i \<Rightarrow> lookup i = Inr (gt_record g)"
      "case gt_record g of None \<Rightarrow> True | Some r \<Rightarrow> az_status r \<noteq> Disabled \<and> az_token_version r \<le> cl_token_version c"
      unfolding caller_gate_Inr by blast
    with g(2) show ?R by (intro exI [of _ c] exI [of _ "gt_record g"]) (auto split: option.splits)
  next
    assume ?R
    then obtain c found where c: "presented = Some c" "is_access c"
      "case uuid_parse E (cl_sub c) of None \<Rightarrow> found = None | Some i \<Rightarrow> lookup (UserId i) = Inr found"
      "case found of None \<Rightarrow> True | Some r \<Rightarrow> az_status r \<noteq> Disabled \<and> az_token_version r \<le> cl_token_version c"
      "if opens_emergency bg owners (cl_sub c) then role_may Owner p else \<exists>r. found = Some r \<and> role_may (az_role r) p"
      by blast
    let ?g = "\<lparr>gt_sub = cl_sub c, gt_id = map_option UserId (uuid_parse E (cl_sub c)), gt_record = found\<rparr>"
    have "caller_gate E lookup presented = Inr ?g"
      unfolding caller_gate_Inr using c(1-4) by (auto split: option.splits)
    with c(5) show ?L by (intro exI [of _ ?g]) simp
  qed
  finally show ?thesis
    unfolding active opens_emergency_def by (simp cong: if_cong split: option.split)
qed

section \<open>The latch\<close>

definition serve ::
  "ext \<Rightarrow> break_glass \<Rightarrow> (user_id \<Rightarrow> domain_error + authz_record option) \<times> (domain_error + nat) \<times> claims option \<Rightarrow> break_glass" where
  "serve E bg req = (case req of (lookup, owners, presented) \<Rightarrow> snd (caller_role E lookup owners bg presented))"

lemma serve_cases: "serve E bg (lookup, owners, presented) \<in> {bg, snd (snapshot bg owners)}"
  by (auto simp: serve_def caller_role_def split: sum.splits prod.splits)

lemma serve_keeps: "bg_sealed bg \<or> bg_elevates bg = [] \<Longrightarrow> bg_sealed (serve E bg req) \<or> bg_elevates (serve E bg req) = []"
  using snapshot_latch [of bg] serve_cases [of E bg] by (cases req) (metis empty_iff insertE)

text \<open>C40. Emergency access is a one-way door: after a request that got past the live-record gate and
  found the registry holding any owner, no request ever acts on emergency authority
  again, whatever the registry is read as from then on.\<close>

theorem emergency_closes:
  assumes seen: "caller_gate E lookup presented = Inr g" and count: "n > 0"
    and later: "bg' = foldl (serve E) (serve E bg (lookup, Inr n, presented)) reqs"
    and role: "fst (caller_role E lookup' owners' bg' presented') = Inr s"
  shows "\<not> er_break_glass s"
proof -
  let ?shut = "\<lambda>bg. bg_sealed bg \<or> bg_elevates bg = []"
  have "serve E bg (lookup, Inr n, presented) = snd (snapshot bg (Inr n))"
    using seen by (auto simp: serve_def caller_role_def split: prod.splits)
  then have "?shut (serve E bg (lookup, Inr n, presented))"
    using snapshot_latch(2,3) [of bg "Inr n"] count by auto
  moreover have "?shut (foldl (serve E) b reqs)" if "?shut b" for b
    using that by (induction reqs arbitrary: b) (simp_all add: serve_keeps)
  ultimately have "?shut bg'" unfolding later by blast
  then have "\<not> opens_emergency bg' owners' sub" for sub by (auto simp: opens_emergency_def)
  with role show ?thesis by (auto simp: caller_role_Inr effective_persisted_def)
qed

definition sample_claims :: "string \<Rightarrow> claims" where
  "sample_claims sub = \<lparr>cl_sub = lit sub, cl_iss = [], cl_aud = [], cl_exp = 0, cl_iat = 0, cl_typ = AccessToken,
     cl_jti = None, cl_token_version = 0\<rparr>"

theorem emergency_closes_witness:
  "\<not> er_break_glass (projr (fst (caller_role ascii_ext (\<lambda>_. Inr (Some \<lparr>az_role = Admin, az_status = Active, az_token_version = 0\<rparr>))
     (Inr 0) (serve ascii_ext (break_glass_new ascii_ext [lit '' 7'']) (\<lambda>_. Inr None, Inr 2, Some (sample_claims ''7'')))
     (Some (sample_claims ''7'')))))
   \<and> er_break_glass (projr (fst (caller_role ascii_ext (\<lambda>_. Inr None) (Inr 0) (break_glass_new ascii_ext [lit '' 7'']) (Some (sample_claims ''7'')))))"
proof -
  have gate: "caller_gate ascii_ext (\<lambda>_. Inr None) (Some (sample_claims ''7'')) = Inr \<lparr>gt_sub = lit ''7'', gt_id = Some (UserId 7), gt_record = None\<rparr>"
    by code_simp
  have role: "fst (caller_role ascii_ext (\<lambda>_. Inr (Some \<lparr>az_role = Admin, az_status = Active, az_token_version = 0\<rparr>))
     (Inr 0) (serve ascii_ext (break_glass_new ascii_ext [lit '' 7'']) (\<lambda>_. Inr None, Inr 2, Some (sample_claims ''7'')))
     (Some (sample_claims ''7''))) = Inr \<lparr>er_role = Admin, er_break_glass = False\<rparr>" by code_simp
  have "er_break_glass (projr (fst (caller_role ascii_ext (\<lambda>_. Inr None) (Inr 0) (break_glass_new ascii_ext [lit '' 7'']) (Some (sample_claims ''7'')))))"
    by code_simp
  moreover have "\<not> er_break_glass \<lparr>er_role = Admin, er_break_glass = False\<rparr>"
    by (rule emergency_closes [OF gate _ _ role, where n = 2 and reqs = "[]"]) simp_all
  ultimately show ?thesis using role by simp
qed

end
