(* ===== verification/Notification_Store.thy ===== *)
theory Notification_Store
  imports Directory_Store
begin

text \<open>
  \<open>runner/src/infrastructure/notifications.rs\<close>: subscribers, the topics they follow, the
  in-app inbox and the outbound mail queue. The database clock \<open>now()\<close> is the argument
  \<open>clock\<close> in seconds; identifiers and tokens the database or the operating system draws
  are arguments (\<open>fresh\<close>, \<open>token\<close>), a serial is a counter of its table. Free-form
  JSON payloads are the \<open>json\<close> of the action log.
\<close>

section \<open>Tables\<close>

record subscriber_row =
  sb_id :: nat
  sb_user_id :: "user_id option"
  sb_email :: rstr
  sb_email_verified :: bool
  sb_in_app_enabled :: bool
  sb_email_enabled :: bool
  sb_confirm_token :: "rstr option"
  sb_confirm_sent_at :: "int option"
  sb_confirmed_at :: "int option"
  sb_unsubscribe_token :: rstr

record subscription_row =
  sc_subscriber_id :: nat
  sc_topic :: rstr
  sc_email_enabled :: bool

record inbox_row =
  ib_id :: nat
  ib_subscriber_id :: nat
  ib_topic :: rstr
  ib_kind :: rstr
  ib_title :: rstr
  ib_body :: rstr
  ib_link :: rstr
  ib_dedupe_key :: rstr
  ib_occurred_at :: int
  ib_created_at :: int
  ib_read_at :: "int option"

record delivery_row =
  dl_id :: nat
  dl_notification_id :: "nat option"
  dl_subscriber_id :: "nat option"
  dl_kind :: rstr
  dl_recipient :: rstr
  dl_status :: rstr
  dl_attempts :: nat
  dl_next_attempt_at :: int
  dl_last_error :: rstr
  dl_sent_at :: "int option"
  dl_dedupe_key :: "rstr option"
  dl_payload :: "json option"

record notify_db = identity_db +
  db_subscribers :: "subscriber_row list"
  db_subscriptions :: "subscription_row list"
  db_inbox :: "inbox_row list"
  db_deliveries :: "delivery_row list"
  db_delivery_serial :: nat

section \<open>Subscribers\<close>

definition subscriber_of :: "'z notify_db_scheme \<Rightarrow> user_id \<Rightarrow> subscriber_row option" where
  "subscriber_of db i = find (\<lambda>s. sb_user_id s = Some i) (db_subscribers db)"

definition upsert_subscriber ::
  "ext \<Rightarrow> int \<Rightarrow> nat \<Rightarrow> rstr \<Rightarrow> 'z notify_db_scheme \<Rightarrow> user_id \<Rightarrow> rstr \<Rightarrow> bool
     \<Rightarrow> domain_error + ('z notify_db_scheme \<times> subscriber_row)" where
  "upsert_subscriber E clock fresh token db i mail verified =
     (if length mail > 320 then Inl (sql_error E ''notification_subscribers_email_len'')
      else case subscriber_of db i of
        Some s \<Rightarrow>
          (let s' = s\<lparr>sb_email := mail, sb_email_verified := verified\<rparr>
           in Inr (db\<lparr>db_subscribers := map (\<lambda>x. if sb_user_id x = Some i then x\<lparr>sb_email := mail, sb_email_verified := verified\<rparr> else x)
                        (db_subscribers db)\<rparr>, s'))
      | None \<Rightarrow>
          (if list_ex (\<lambda>s. sb_id s = fresh) (db_subscribers db) then Inl (sql_error E ''notification_subscribers_pkey'')
           else if list_ex (\<lambda>s. sb_unsubscribe_token s = token) (db_subscribers db)
           then Inl (sql_error E ''notification_subscribers_unsub_idx'')
           else
             (let s = \<lparr>sb_id = fresh, sb_user_id = Some i, sb_email = mail, sb_email_verified = verified,
                       sb_in_app_enabled = True, sb_email_enabled = True, sb_confirm_token = None,
                       sb_confirm_sent_at = None, sb_confirmed_at = Some clock, sb_unsubscribe_token = token\<rparr>
              in Inr (db\<lparr>db_subscribers := db_subscribers db @ [s]\<rparr>, s))))"

definition set_channel_enabled :: "'z notify_db_scheme \<Rightarrow> nat \<Rightarrow> bool option \<Rightarrow> bool option \<Rightarrow> 'z notify_db_scheme" where
  "set_channel_enabled db sid in_app mail =
     db\<lparr>db_subscribers := map (\<lambda>s. if sb_id s = sid
          then s\<lparr>sb_in_app_enabled := (case in_app of None \<Rightarrow> sb_in_app_enabled s | Some b \<Rightarrow> b),
                 sb_email_enabled := (case mail of None \<Rightarrow> sb_email_enabled s | Some b \<Rightarrow> b)\<rparr> else s) (db_subscribers db)\<rparr>"

definition subscription_of :: "'z notify_db_scheme \<Rightarrow> nat \<Rightarrow> rstr \<Rightarrow> subscription_row option" where
  "subscription_of db sid topic =
     find (\<lambda>c. sc_subscriber_id c = sid \<and> sc_topic c = topic) (db_subscriptions db)"

definition set_topic_subscription ::
  "ext \<Rightarrow> 'z notify_db_scheme \<Rightarrow> nat \<Rightarrow> rstr \<Rightarrow> bool \<Rightarrow> bool \<Rightarrow> domain_error + 'z notify_db_scheme" where
  "set_topic_subscription E db sid topic subscribed email_on =
     (if \<not> subscribed
      then Inr (db\<lparr>db_subscriptions := filter (\<lambda>c. \<not> (sc_subscriber_id c = sid \<and> sc_topic c = topic)) (db_subscriptions db)\<rparr>)
      else if length topic > 64 then Inl (sql_error E ''notification_subscriptions_topic_len'')
      else case subscription_of db sid topic of
        None \<Rightarrow> Inr (db\<lparr>db_subscriptions := db_subscriptions db @
                  [\<lparr>sc_subscriber_id = sid, sc_topic = topic, sc_email_enabled = email_on\<rparr>]\<rparr>)
      | Some _ \<Rightarrow> Inr (db\<lparr>db_subscriptions := map (\<lambda>c. if sc_subscriber_id c = sid \<and> sc_topic c = topic
                  then c\<lparr>sc_email_enabled := email_on\<rparr> else c) (db_subscriptions db)\<rparr>))"

section \<open>The inbox\<close>

definition inbox_violation :: "inbox_row \<Rightarrow> string option" where
  "inbox_violation n =
     map_option fst (find (\<lambda>c. \<not> snd c)
       [(''notifications_topic_len'', length (ib_topic n) \<le> 64), (''notifications_kind_len'', length (ib_kind n) \<le> 64),
        (''notifications_title_len'', length (ib_title n) \<le> 200), (''notifications_body_len'', length (ib_body n) \<le> 2000),
        (''notifications_link_len'', length (ib_link n) \<le> 512), (''notifications_dedupe_len'', length (ib_dedupe_key n) \<le> 128)])"

text \<open>\<open>ON CONFLICT (subscriber_id, dedupe_key) DO NOTHING\<close>: None when the key was used.\<close>

definition insert_inbox ::
  "ext \<Rightarrow> 'z notify_db_scheme \<Rightarrow> inbox_row \<Rightarrow> domain_error + ('z notify_db_scheme \<times> nat option)" where
  "insert_inbox E db n =
     (case inbox_violation n of
        Some name \<Rightarrow> Inl (sql_error E name)
      | None \<Rightarrow>
          (if list_ex (\<lambda>x. ib_subscriber_id x = ib_subscriber_id n \<and> ib_dedupe_key x = ib_dedupe_key n) (db_inbox db)
           then Inr (db, None)
           else if list_ex (\<lambda>x. ib_id x = ib_id n) (db_inbox db) then Inl (sql_error E ''notifications_pkey'')
           else Inr (db\<lparr>db_inbox := db_inbox db @ [n]\<rparr>, Some (ib_id n))))"

definition unread_count :: "'z notify_db_scheme \<Rightarrow> nat \<Rightarrow> nat" where
  "unread_count db sid = length (filter (\<lambda>n. ib_subscriber_id n = sid \<and> ib_read_at n = None) (db_inbox db))"

definition mark_read :: "int \<Rightarrow> 'z notify_db_scheme \<Rightarrow> nat \<Rightarrow> nat list \<Rightarrow> bool \<Rightarrow> nat \<times> 'z notify_db_scheme" where
  "mark_read clock db sid ids all =
     (let hit = (\<lambda>n. ib_subscriber_id n = sid \<and> (all \<or> ib_id n \<in> set ids) \<and> ib_read_at n = None)
      in (length (filter hit (db_inbox db)),
          db\<lparr>db_inbox := map (\<lambda>n. if hit n then n\<lparr>ib_read_at := Some clock\<rparr> else n) (db_inbox db)\<rparr>))"

section \<open>The mail queue\<close>

definition delivery_kinds :: "rstr list" where
  "delivery_kinds = map lit [''notification'', ''confirm'', ''owner_removal_self_accept'', ''payout_approval'',
     ''payout_outcome'', ''payment_consent'', ''payment_approval'', ''fee_policy_approval'', ''fee_policy_notice'',
     ''kyc_verdict_alert'', ''payment_outcome'', ''email_code'']"

definition delivery_violation :: "delivery_row \<Rightarrow> string option" where
  "delivery_violation d =
     map_option fst (find (\<lambda>c. \<not> snd c)
       [(''notification_deliveries_kind'', dl_kind d \<in> set delivery_kinds),
        (''notification_deliveries_recipient_len'', length (dl_recipient d) \<le> 320),
        (''notification_deliveries_dedupe_len'', dl_dedupe_key d = None \<or>
           (1 \<le> length (the (dl_dedupe_key d)) \<and> length (the (dl_dedupe_key d)) \<le> 128)),
        (''notification_deliveries_subscriber'', dl_subscriber_id d \<noteq> None \<or> dl_kind d = lit ''email_code'')])"

definition queue_delivery ::
  "ext \<Rightarrow> int \<Rightarrow> 'z notify_db_scheme \<Rightarrow> nat option \<Rightarrow> nat option \<Rightarrow> rstr \<Rightarrow> rstr \<Rightarrow> rstr option \<Rightarrow> json option
     \<Rightarrow> domain_error + 'z notify_db_scheme" where
  "queue_delivery E clock db nid sid kind recipient dedupe payload =
     (let d = \<lparr>dl_id = db_delivery_serial db + 1, dl_notification_id = nid, dl_subscriber_id = sid, dl_kind = kind,
               dl_recipient = recipient, dl_status = lit ''pending'', dl_attempts = 0, dl_next_attempt_at = clock,
               dl_last_error = [], dl_sent_at = None, dl_dedupe_key = dedupe, dl_payload = payload\<rparr>
      in case delivery_violation d of
           Some name \<Rightarrow> Inl (sql_error E name)
         | None \<Rightarrow> Inr (db\<lparr>db_deliveries := db_deliveries db @ [d], db_delivery_serial := db_delivery_serial db + 1\<rparr>))"

datatype governance_mail_queued = Inserted | SameMail | Foreign

definition enqueue_governance_mail ::
  "ext \<Rightarrow> int \<Rightarrow> 'z notify_db_scheme \<Rightarrow> nat \<Rightarrow> rstr \<Rightarrow> rstr \<Rightarrow> rstr \<Rightarrow> json
     \<Rightarrow> domain_error + ('z notify_db_scheme \<times> governance_mail_queued)" where
  "enqueue_governance_mail E clock db sid recipient kind dedupe payload =
     rbind (queue_delivery E clock db None (Some sid) kind recipient (Some dedupe) (Some payload)) (\<lambda>queued.
     case find (\<lambda>d. dl_dedupe_key d = Some dedupe) (db_deliveries db) of
       None \<Rightarrow> Inr (queued, Inserted)
     | Some d \<Rightarrow> Inr (db\<lparr>db_delivery_serial := db_delivery_serial db + 1\<rparr>,
                      if dl_subscriber_id d = Some sid \<and> dl_kind d = kind then SameMail else Foreign))"

section \<open>Emitting\<close>

record emit_outcome =
  eo_notification_id :: "nat option"
  eo_in_app :: bool
  eo_email :: bool
  eo_deduped :: bool

definition emit_nothing :: emit_outcome where
  "emit_nothing = \<lparr>eo_notification_id = None, eo_in_app = False, eo_email = False, eo_deduped = False\<rparr>"

definition may_mail :: "subscriber_row \<Rightarrow> subscription_row \<Rightarrow> bool" where
  "may_mail s c \<longleftrightarrow> sb_email_enabled s \<and> sc_email_enabled c \<and> sb_confirmed_at s \<noteq> None
     \<and> sb_email_verified s \<and> sb_email s \<noteq> []"

definition emit_notification ::
  "ext \<Rightarrow> int \<Rightarrow> nat \<Rightarrow> user_id \<Rightarrow> rstr \<Rightarrow> rstr \<Rightarrow> rstr \<Rightarrow> rstr \<Rightarrow> rstr \<Rightarrow> rstr \<Rightarrow> int \<Rightarrow> 'z notify_db_scheme
     \<Rightarrow> (domain_error + emit_outcome) \<times> 'z notify_db_scheme" where
  "emit_notification E clock fresh i topic kind title body link dedupe occurred_at = transact (\<lambda>db.
     case subscriber_of db i of
       None \<Rightarrow> Inr (Inr emit_nothing, db)
     | Some s \<Rightarrow>
         (case subscription_of db (sb_id s) topic of
            None \<Rightarrow> Inr (Inr emit_nothing, db)
          | Some c \<Rightarrow>
              rbind (insert_inbox E db \<lparr>ib_id = fresh, ib_subscriber_id = sb_id s, ib_topic = topic, ib_kind = kind,
                  ib_title = title, ib_body = body, ib_link = link, ib_dedupe_key = dedupe,
                  ib_occurred_at = occurred_at, ib_created_at = clock, ib_read_at = None\<rparr>) (\<lambda>(db, inserted).
              case inserted of
                None \<Rightarrow> Inr (Inr (emit_nothing\<lparr>eo_deduped := True\<rparr>), db)
              | Some nid \<Rightarrow>
                  rbind (if may_mail s c
                         then queue_delivery E clock db (Some nid) (Some (sb_id s)) (lit ''notification'') (sb_email s) None None
                         else Inr db) (\<lambda>db.
                  Inr (Inr \<lparr>eo_notification_id = Some nid, eo_in_app = sb_in_app_enabled s,
                            eo_email = may_mail s c, eo_deduped = False\<rparr>, db)))))"

definition record_notification ::
  "ext \<Rightarrow> int \<Rightarrow> nat \<Rightarrow> nat \<Rightarrow> rstr \<Rightarrow> user_id \<Rightarrow> rstr \<Rightarrow> bool \<Rightarrow> rstr \<Rightarrow> rstr \<Rightarrow> rstr \<Rightarrow> rstr \<Rightarrow> rstr \<Rightarrow> int
     \<Rightarrow> 'z notify_db_scheme \<Rightarrow> (domain_error + bool) \<times> 'z notify_db_scheme" where
  "record_notification E clock fresh_sub fresh token i mail verified topic kind title body dedupe occurred_at = transact (\<lambda>db.
     rbind (upsert_subscriber E clock fresh_sub token db i mail verified) (\<lambda>(db, s).
     rbind (insert_inbox E db \<lparr>ib_id = fresh, ib_subscriber_id = sb_id s, ib_topic = topic, ib_kind = kind,
         ib_title = title, ib_body = body, ib_link = [], ib_dedupe_key = dedupe,
         ib_occurred_at = occurred_at, ib_created_at = clock, ib_read_at = None\<rparr>) (\<lambda>(db, inserted).
     Inr (Inr (inserted \<noteq> None), db))))"

section \<open>Subscribing without an account\<close>

text \<open>The upsert of an account-less address: the row as it stands after it.\<close>

definition upsert_anonymous ::
  "ext \<Rightarrow> nat \<Rightarrow> rstr \<Rightarrow> rstr \<Rightarrow> 'z notify_db_scheme \<Rightarrow> rstr \<Rightarrow> domain_error + ('z notify_db_scheme \<times> subscriber_row)" where
  "upsert_anonymous E fresh confirm_token unsubscribe_token db mail =
     (if length mail > 320 then Inl (sql_error E ''notification_subscribers_email_len'')
      else case find (\<lambda>s. sb_user_id s = None \<and> pg_lower E (sb_email s) = pg_lower E mail) (db_subscribers db) of
        Some s \<Rightarrow> Inr (db, s)
      | None \<Rightarrow>
          (if list_ex (\<lambda>s. sb_id s = fresh) (db_subscribers db) then Inl (sql_error E ''notification_subscribers_pkey'')
           else if list_ex (\<lambda>s. sb_unsubscribe_token s = unsubscribe_token) (db_subscribers db)
           then Inl (sql_error E ''notification_subscribers_unsub_idx'')
           else if list_ex (\<lambda>s. sb_confirm_token s = Some confirm_token) (db_subscribers db)
           then Inl (sql_error E ''notification_subscribers_confirm_idx'')
           else
             (let s = \<lparr>sb_id = fresh, sb_user_id = None, sb_email = mail, sb_email_verified = False,
                       sb_in_app_enabled = False, sb_email_enabled = True, sb_confirm_token = Some confirm_token,
                       sb_confirm_sent_at = None, sb_confirmed_at = None, sb_unsubscribe_token = unsubscribe_token\<rparr>
              in Inr (db\<lparr>db_subscribers := db_subscribers db @ [s]\<rparr>, s))))"

definition subscribe_anonymous ::
  "ext \<Rightarrow> int \<Rightarrow> nat \<Rightarrow> rstr \<Rightarrow> rstr \<Rightarrow> rstr \<Rightarrow> rstr \<Rightarrow> int \<Rightarrow> 'z notify_db_scheme
     \<Rightarrow> (domain_error + (nat \<times> rstr) option) \<times> 'z notify_db_scheme" where
  "subscribe_anonymous E clock fresh confirm_token unsubscribe_token mail topic throttle_secs = transact (\<lambda>db.
     rbind (upsert_anonymous E fresh confirm_token unsubscribe_token db mail) (\<lambda>(db, s).
     rbind (set_topic_subscription E db (sb_id s) topic True True) (\<lambda>db.
     let since_sent = (case sb_confirm_sent_at s of None \<Rightarrow> throttle_secs + 1 | Some t \<Rightarrow> clock - t);
         should_mail = (sb_confirmed_at s = None \<and> since_sent > throttle_secs)
     in if \<not> should_mail then Inr (Inr None, db)
        else rbind (queue_delivery E clock
               (db\<lparr>db_subscribers := map (\<lambda>x. if sb_id x = sb_id s then x\<lparr>sb_confirm_sent_at := Some clock\<rparr> else x) (db_subscribers db)\<rparr>)
               None (Some (sb_id s)) (lit ''confirm'') mail None None) (\<lambda>db.
             Inr (Inr (map_option (\<lambda>t. (sb_id s, t)) (sb_confirm_token s)), db)))))"

definition confirm_subscription :: "int \<Rightarrow> 'z notify_db_scheme \<Rightarrow> rstr \<Rightarrow> bool \<times> 'z notify_db_scheme" where
  "confirm_subscription clock db token =
     (list_ex (\<lambda>s. sb_confirm_token s = Some token) (db_subscribers db),
      db\<lparr>db_subscribers := map (\<lambda>s. if sb_confirm_token s = Some token
           then s\<lparr>sb_confirmed_at := Some clock, sb_confirm_token := None, sb_email_verified := True\<rparr> else s) (db_subscribers db)\<rparr>)"

definition unsubscribe :: "'z notify_db_scheme \<Rightarrow> rstr \<Rightarrow> rstr option \<Rightarrow> bool \<times> 'z notify_db_scheme" where
  "unsubscribe db token topic =
     (case find (\<lambda>s. sb_unsubscribe_token s = token) (db_subscribers db) of
        None \<Rightarrow> (False, db)
      | Some s \<Rightarrow> (True, case topic of
          Some t \<Rightarrow> db\<lparr>db_subscriptions := filter (\<lambda>c. \<not> (sc_subscriber_id c = sb_id s \<and> sc_topic c = t)) (db_subscriptions db)\<rparr>
        | None \<Rightarrow> db\<lparr>db_subscribers := map (\<lambda>x. if sb_id x = sb_id s then x\<lparr>sb_email_enabled := False\<rparr> else x) (db_subscribers db)\<rparr>))"

end
