(* ===== verification/Mail_Dispatch.thy ===== *)
theory Mail_Dispatch
  imports Notification_Store
begin

text \<open>
  The outbound queue of \<open>infrastructure/notifications.rs\<close> (claiming, settling) and the
  dispatcher of \<open>runner/src/dispatch.rs\<close> that drains it: the daily budget, the lease, the
  backoff, and what a payload renders to. The HTML of a template is not modelled: a
  rendered mail is its template's name and the arguments the dispatcher gives it. The
  transport and the failures of the database are a pass's environment, one pass runs on the
  clock it began with.
\<close>

section \<open>Claiming and settling\<close>

record delivery_job =
  dj_id :: nat
  dj_kind :: rstr
  dj_recipient :: rstr
  dj_attempts :: nat
  dj_unsubscribe_token :: "rstr option"
  dj_confirm_token :: "rstr option"
  dj_topic :: "rstr option"
  dj_title :: "rstr option"
  dj_body :: "rstr option"
  dj_link :: "rstr option"
  dj_occurred_at :: "int option"
  dj_payload :: "json option"

definition job_of :: "'z notify_db_scheme \<Rightarrow> delivery_row \<Rightarrow> delivery_job" where
  "job_of db d =
     (let s = Option.bind (dl_subscriber_id d) (\<lambda>sid. find (\<lambda>s. sb_id s = sid) (db_subscribers db));
          n = Option.bind (dl_notification_id d) (\<lambda>nid. find (\<lambda>n. ib_id n = nid) (db_inbox db))
      in \<lparr>dj_id = dl_id d, dj_kind = dl_kind d, dj_recipient = dl_recipient d, dj_attempts = dl_attempts d,
          dj_unsubscribe_token = map_option sb_unsubscribe_token s,
          dj_confirm_token = Option.bind s sb_confirm_token,
          dj_topic = map_option ib_topic n, dj_title = map_option ib_title n, dj_body = map_option ib_body n,
          dj_link = map_option ib_link n, dj_occurred_at = map_option ib_occurred_at n, dj_payload = dl_payload d\<rparr>)"

definition is_due :: "int \<Rightarrow> delivery_row \<Rightarrow> bool" where
  "is_due clock d \<longleftrightarrow> dl_status d = lit ''pending'' \<and> dl_next_attempt_at d \<le> clock"

definition due_ids :: "int \<Rightarrow> nat \<Rightarrow> 'z notify_db_scheme \<Rightarrow> nat list" where
  "due_ids clock limit db =
     map dl_id (take limit (sort_key dl_next_attempt_at (filter (is_due clock) (db_deliveries db))))"

definition claim_due :: "int \<Rightarrow> 'z notify_db_scheme \<Rightarrow> nat \<Rightarrow> int \<Rightarrow> delivery_job list \<times> 'z notify_db_scheme" where
  "claim_due clock db limit lease_secs =
     (let ids = due_ids clock limit db;
          db' = db\<lparr>db_deliveries := map (\<lambda>d. if dl_id d \<in> set ids
                  then d\<lparr>dl_attempts := dl_attempts d + 1, dl_next_attempt_at := clock + lease_secs\<rparr> else d) (db_deliveries db)\<rparr>
      in if ids = [] then ([], db')
         else (map (job_of db') (sort_key dl_id (filter (\<lambda>d. dl_id d \<in> set ids) (db_deliveries db'))), db'))"

definition SECRET_PAYLOAD_KEYS :: "rstr list" where
  "SECRET_PAYLOAD_KEYS = [lit ''approval_url'', lit ''code'']"

definition redact :: "json \<Rightarrow> json" where
  "redact j = (case j of JObject kvs \<Rightarrow> JObject (filter (\<lambda>kv. fst kv \<notin> set SECRET_PAYLOAD_KEYS) kvs) | other \<Rightarrow> other)"

definition mark_sent :: "int \<Rightarrow> 'z notify_db_scheme \<Rightarrow> nat \<Rightarrow> 'z notify_db_scheme" where
  "mark_sent clock db i =
     db\<lparr>db_deliveries := map (\<lambda>d. if dl_id d = i
          then d\<lparr>dl_status := lit ''sent'', dl_sent_at := Some clock, dl_last_error := [], dl_payload := None\<rparr> else d) (db_deliveries db)\<rparr>"

definition mark_failed :: "int \<Rightarrow> 'z notify_db_scheme \<Rightarrow> nat \<Rightarrow> rstr \<Rightarrow> int \<Rightarrow> nat \<Rightarrow> 'z notify_db_scheme" where
  "mark_failed clock db i err backoff max_attempts =
     db\<lparr>db_deliveries := map (\<lambda>d. if dl_id d = i
          then d\<lparr>dl_status := (if dl_attempts d \<ge> max_attempts then lit ''failed'' else lit ''pending''),
                 dl_payload := (if dl_attempts d \<ge> max_attempts then map_option redact (dl_payload d) else dl_payload d),
                 dl_next_attempt_at := clock + backoff, dl_last_error := take 500 err\<rparr> else d) (db_deliveries db)\<rparr>"

definition sent_last_24h :: "int \<Rightarrow> 'z notify_db_scheme \<Rightarrow> nat" where
  "sent_last_24h clock db =
     length (filter (\<lambda>d. dl_status d = lit ''sent'' \<and> (case dl_sent_at d of None \<Rightarrow> False | Some t \<Rightarrow> clock - 86400 < t))
       (db_deliveries db))"

section \<open>What a payload renders to\<close>

definition MAX_ATTEMPTS :: nat where "MAX_ATTEMPTS = 6"
definition LEASE_SECS :: int where "LEASE_SECS = 300"
definition BATCH :: nat where "BATCH = 25"

definition backoff_secs :: "int \<Rightarrow> int" where
  "backoff_secs attempts =
     (let shift = nat (min 16 (max 1 attempts)) - 1 in min (60 * 2 ^ shift) (6 * 60 * 60))"

definition payload_get :: "json \<Rightarrow> string \<Rightarrow> json option" where
  "payload_get payload key = (case payload of JObject kvs \<Rightarrow> map_of kvs (lit key) | _ \<Rightarrow> None)"

definition text_field :: "json \<Rightarrow> string \<Rightarrow> rstr" where
  "text_field payload key = (case payload_get payload key of Some (JStr s) \<Rightarrow> s | _ \<Rightarrow> [])"

definition int_field :: "json \<Rightarrow> string \<Rightarrow> int" where
  "int_field payload key = (case payload_get payload key of Some (JInt i) \<Rightarrow> i | _ \<Rightarrow> 0)"

definition u32_field :: "json \<Rightarrow> string \<Rightarrow> int" where
  "u32_field payload key = int_field payload key mod 4294967296"

text \<open>
  \<open>FeeTerms\<close> is read by its serde derive, the argument \<open>terms\<close>: whether a value is the
  terms of a fund. The two absences of \<open>fee_terms\<close> are the two options.
\<close>

definition fee_terms :: "(json \<Rightarrow> bool) \<Rightarrow> json \<Rightarrow> string \<Rightarrow> json option option" where
  "fee_terms terms payload key = (case payload_get payload key of
     None \<Rightarrow> Some None
   | Some JNull \<Rightarrow> Some None
   | Some j \<Rightarrow> if terms j then Some (Some j) else None)"

datatype template =
    T_OwnerRemovalSelfAccept | T_KycVerdictAlert | T_PayoutApproval | T_PaymentConsent | T_ValuationOutcome
  | T_PayoutOutcome | T_FeePolicyOutcome | T_PaymentApproval | T_FeePolicyApproval | T_FeePolicyNotice
  | T_PaymentOutcome | T_EmailCode | T_Confirm | T_Notification

datatype template_arg = A_Text rstr | A_Int int | A_Terms "json option" | A_Flag bool

record rendered_mail =
  rd_template :: template
  rd_args :: "template_arg list"

definition texts :: "json \<Rightarrow> string list \<Rightarrow> template_arg list" where
  "texts payload keys = map (\<lambda>k. A_Text (text_field payload k)) keys"

definition trim_end_slash :: "rstr \<Rightarrow> rstr" where
  "trim_end_slash s = rev (dropWhile (\<lambda>c. c = 47) (rev s))"

definition payout_outcome_mail :: "(json \<Rightarrow> bool) \<Rightarrow> json \<Rightarrow> rendered_mail option" where
  "payout_outcome_mail terms payload =
     (let fund = text_field payload ''fund''; mark = text_field payload ''mark'';
          proposed = (case payload_get payload ''proposed'' of None \<Rightarrow> False | Some j \<Rightarrow> j \<noteq> JNull)
      in if mark \<noteq> [] then
           (if fund = [] then None
            else Some \<lparr>rd_template = T_ValuationOutcome,
                   rd_args = texts payload [''consilium_id'', ''outcome''] @ [A_Text fund, A_Text mark] @ texts payload [''detail'', ''reason'']\<rparr>)
         else if fund = [] \<and> \<not> proposed then
           Some \<lparr>rd_template = T_PayoutOutcome, rd_args = texts payload
             [''consilium_id'', ''outcome'', ''network'', ''address'', ''amount'', ''detail'', ''tier'', ''source'', ''destination'', ''reason'']\<rparr>
         else if fund = [] then None
         else Option.bind (fee_terms terms payload ''current'') (\<lambda>current.
              Option.bind (fee_terms terms payload ''proposed'') (\<lambda>proposed.
              Option.bind proposed (\<lambda>proposed.
              Some \<lparr>rd_template = T_FeePolicyOutcome, rd_args = texts payload [''consilium_id'', ''outcome'']
                @ [A_Text fund, A_Terms current, A_Terms (Some proposed)] @ texts payload [''detail'', ''reason'']\<rparr>))))"

definition payment_outcome_mail :: "json \<Rightarrow> rendered_mail option" where
  "payment_outcome_mail payload =
     (let audience = text_field payload ''audience'';
          ending = (text_field payload ''outcome'', text_field payload ''reason'')
      in if audience \<notin> {lit ''subject'', lit ''staff''} then None
         else if ending \<notin> {(lit ''TOKEN_BURNED'', lit ''WRONG_CODES''), (lit ''INVALIDATED'', lit ''SESSIONS_REVOKED''),
                           (lit ''INVALIDATED'', lit ''EMAIL_CHANGED'')} then None
         else Some \<lparr>rd_template = T_PaymentOutcome, rd_args = A_Text audience # A_Text (fst ending) # A_Text (snd ending)
                # texts payload [''tier'', ''source'', ''destination'', ''amount'', ''payment_id'']\<rparr>)"

definition governance_mail :: "(json \<Rightarrow> bool) \<Rightarrow> rstr \<Rightarrow> json \<Rightarrow> rstr \<Rightarrow> rendered_mail option" where
  "governance_mail terms kind payload cabinet_url =
     (if kind = lit ''owner_removal_self_accept'' then
        Some \<lparr>rd_template = T_OwnerRemovalSelfAccept, rd_args = texts payload [''initiator_email'', ''reason'', ''approval_url'', ''code'']
          @ [A_Int (int_field payload ''expires_at'')]\<rparr>
      else if kind = lit ''kyc_verdict_alert'' then
        Some \<lparr>rd_template = T_KycVerdictAlert, rd_args = texts payload [''subject_email'', ''case_id'', ''verdict'']
          @ [A_Int (u32_field payload ''held_level''), A_Int (u32_field payload ''requested_tier''), A_Int (int_field payload ''decided_at'')]\<rparr>
      else if kind = lit ''payout_approval'' then
        Some \<lparr>rd_template = T_PayoutApproval, rd_args = texts payload
          [''consilium_id'', ''initiator_email'', ''network'', ''address'', ''amount'', ''memo'', ''payload_hash'']
          @ [A_Int (u32_field payload ''threshold''), A_Int (u32_field payload ''owner_count''), A_Int (int_field payload ''expires_at'')]
          @ texts payload [''approval_url'', ''code'']\<rparr>
      else if kind = lit ''payment_consent'' then
        Some \<lparr>rd_template = T_PaymentConsent, rd_args = texts payload
          [''payment_id'', ''initiator_email'', ''tier'', ''source'', ''destination'', ''amount'', ''reason'', ''payload_hash'']
          @ [A_Int (int_field payload ''expires_at'')] @ texts payload [''approval_url'', ''code'']\<rparr>
      else if kind = lit ''payout_outcome'' then payout_outcome_mail terms payload
      else if kind = lit ''payment_approval'' then
        Some \<lparr>rd_template = T_PaymentApproval, rd_args = texts payload
          [''consilium_id'', ''payment_id'', ''initiator_email'', ''tier'', ''source'', ''destination'', ''amount'', ''reason'', ''payload_hash'']
          @ [A_Int (u32_field payload ''threshold''), A_Int (u32_field payload ''owner_count''), A_Int (int_field payload ''expires_at'')]
          @ texts payload [''approval_url'', ''code'']\<rparr>
      else if kind = lit ''fee_policy_approval'' then
        Option.bind (fee_terms terms payload ''current'') (\<lambda>current.
        Option.bind (fee_terms terms payload ''proposed'') (\<lambda>proposed.
        Option.bind proposed (\<lambda>proposed.
        Some \<lparr>rd_template = T_FeePolicyApproval, rd_args = texts payload [''consilium_id'', ''initiator_email'', ''fund'']
          @ [A_Terms current, A_Terms (Some proposed)] @ texts payload [''reason'', ''payload_hash'']
          @ [A_Int (u32_field payload ''threshold''), A_Int (u32_field payload ''owner_count''), A_Int (int_field payload ''expires_at'')]
          @ texts payload [''approval_url'', ''code'']\<rparr>)))
      else if kind = lit ''fee_policy_notice'' then
        Option.bind (fee_terms terms payload ''current'') (\<lambda>current.
        Option.bind (fee_terms terms payload ''proposed'') (\<lambda>proposed.
        Option.bind proposed (\<lambda>proposed.
        Some \<lparr>rd_template = T_FeePolicyNotice, rd_args = texts payload [''fund'']
          @ [A_Terms current, A_Terms (Some proposed), A_Int (int_field payload ''effective_at''),
             A_Text (trim_end_slash cabinet_url @ text_field payload ''link'')]\<rparr>)))
      else if kind = lit ''payment_outcome'' then payment_outcome_mail payload
      else None)"

section \<open>The topics\<close>

record topic =
  tp_key :: rstr
  tp_label :: rstr

definition TOPICS :: "topic list" where
  "TOPICS =
     [\<lparr>tp_key = lit ''fund:quy-nhon'', tp_label = lit ''Quy Nhon Fund''\<rparr>,
      \<lparr>tp_key = lit ''account:money-movement'', tp_label = lit ''Money movement''\<rparr>,
      \<lparr>tp_key = lit ''account:verification'', tp_label = lit ''Identity verification''\<rparr>,
      \<lparr>tp_key = lit ''platform:announcements'', tp_label = lit ''Platform & product''\<rparr>]"

definition topic_of :: "rstr \<Rightarrow> topic option" where
  "topic_of key = find (\<lambda>t. tp_key t = key) TOPICS"

section \<open>Rendering a job\<close>

record dispatcher_config =
  dc_cabinet_url :: rstr
  dc_public_origin :: rstr
  dc_daily_budget :: int

record outgoing_mail =
  om_to :: rstr
  om_mail :: rendered_mail
  om_unsubscribe_url :: rstr

definition render_code :: "delivery_job \<Rightarrow> json \<Rightarrow> outgoing_mail option" where
  "render_code job payload =
     (let purpose = text_field payload ''purpose''; code = text_field payload ''code''
      in if purpose \<notin> {lit ''login'', lit ''verify''} then None
         else if code = [] then None
         else Some \<lparr>om_to = dj_recipient job, om_mail = \<lparr>rd_template = T_EmailCode,
                rd_args = [A_Flag (purpose = lit ''login''), A_Text code, A_Int (int_field payload ''expires_at'')]\<rparr>,
                om_unsubscribe_url = []\<rparr>)"

definition render_plain :: "delivery_job \<Rightarrow> dispatcher_config \<Rightarrow> rstr \<Rightarrow> rstr \<Rightarrow> rendered_mail option" where
  "render_plain job cfg origin unsubscribe_url =
     (if dj_kind job = lit ''confirm'' then
        Option.bind (dj_confirm_token job) (\<lambda>token.
        let label = (case Option.bind (dj_topic job) topic_of of None \<Rightarrow> lit ''EV Investment'' | Some t \<Rightarrow> tp_label t)
        in Some \<lparr>rd_template = T_Confirm, rd_args = [A_Text label,
             A_Text (origin @ lit ''/notifications/confirm?token='' @ token), A_Text unsubscribe_url]\<rparr>)
      else
        Option.bind (dj_topic job) (\<lambda>topic_key.
        let label = (case topic_of topic_key of None \<Rightarrow> topic_key | Some t \<Rightarrow> tp_label t)
        in Option.bind (dj_title job) (\<lambda>title.
           Some \<lparr>rd_template = T_Notification, rd_args = [A_Text label, A_Text title,
             A_Text (case dj_body job of None \<Rightarrow> [] | Some b \<Rightarrow> b), A_Text (case dj_link job of None \<Rightarrow> [] | Some l \<Rightarrow> l),
             A_Int (case dj_occurred_at job of None \<Rightarrow> 0 | Some t \<Rightarrow> t), A_Text (dc_cabinet_url cfg), A_Text unsubscribe_url]\<rparr>)))"

definition render :: "(json \<Rightarrow> bool) \<Rightarrow> delivery_job \<Rightarrow> dispatcher_config \<Rightarrow> outgoing_mail option" where
  "render terms job cfg =
     (if dj_kind job = lit ''email_code'' then Option.bind (dj_payload job) (render_code job)
      else
        Option.bind (dj_unsubscribe_token job) (\<lambda>token.
        let origin = trim_end_slash (dc_public_origin cfg);
            unsubscribe_url = origin @ lit ''/notifications/unsubscribe?token='' @ token
        in case Option.bind (dj_payload job) (\<lambda>payload. governance_mail terms (dj_kind job) payload (dc_cabinet_url cfg)) of
             Some m \<Rightarrow> Some \<lparr>om_to = dj_recipient job, om_mail = m, om_unsubscribe_url = []\<rparr>
           | None \<Rightarrow> map_option (\<lambda>m. \<lparr>om_to = dj_recipient job, om_mail = m, om_unsubscribe_url = unsubscribe_url\<rparr>)
               (render_plain job cfg origin unsubscribe_url)))"

section \<open>Draining\<close>

text \<open>What a pass meets outside the queue. The transport answers a mail with None (sent) or the text of
  its error. Reading the day's count and claiming may fail. The settlements of the rows \<open>de_lost\<close>
  names are not recorded: the update failed, or the dispatcher died before it; the row stays
  claimed until its lease lapses.\<close>

record drain_env =
  de_send :: "outgoing_mail \<Rightarrow> rstr option"
  de_count_read :: bool
  de_claims :: bool
  de_lost :: "nat list"

definition settle_job ::
  "(json \<Rightarrow> bool) \<Rightarrow> drain_env \<Rightarrow> int \<Rightarrow> dispatcher_config \<Rightarrow> delivery_job \<Rightarrow> 'z notify_db_scheme \<Rightarrow> 'z notify_db_scheme" where
  "settle_job terms env clock cfg job db =
     (let recorded = dj_id job \<notin> set (de_lost env) in
      case render terms job cfg of
        None \<Rightarrow> if recorded then mark_failed clock db (dj_id job) (lit ''unrenderable delivery'') (backoff_secs (int (dj_attempts job))) 0 else db
      | Some mail \<Rightarrow>
          (case de_send env mail of
             None \<Rightarrow> if recorded then mark_sent clock db (dj_id job) else db
           | Some err \<Rightarrow> if recorded then mark_failed clock db (dj_id job) err (backoff_secs (int (dj_attempts job))) MAX_ATTEMPTS else db))"

fun deliver_jobs ::
  "(json \<Rightarrow> bool) \<Rightarrow> drain_env \<Rightarrow> int \<Rightarrow> dispatcher_config \<Rightarrow> delivery_job list \<Rightarrow> 'z notify_db_scheme \<Rightarrow> 'z notify_db_scheme" where
  "deliver_jobs terms env clock cfg [] db = db"
| "deliver_jobs terms env clock cfg (job # jobs) db = deliver_jobs terms env clock cfg jobs (settle_job terms env clock cfg job db)"

definition drain_once ::
  "(json \<Rightarrow> bool) \<Rightarrow> drain_env \<Rightarrow> int \<Rightarrow> dispatcher_config \<Rightarrow> 'z notify_db_scheme \<Rightarrow> nat \<times> 'z notify_db_scheme" where
  "drain_once terms env clock cfg db =
     (if de_count_read env \<and> int (sent_last_24h clock db) \<ge> dc_daily_budget cfg then (0, db)
      else if \<not> de_claims env then (0, db)
      else let (jobs, db) = claim_due clock db BATCH LEASE_SECS
           in (length jobs, deliver_jobs terms env clock cfg jobs db))"

end
