(* ===== verification/Mail_Safety.thy ===== *)
theory Mail_Safety
  imports Mail_Dispatch
begin

text \<open>
  What the notification plane keeps through any sequence of its operations: an inbox entry
  and a governance mail are written once per key, a queued copy always has its inbox entry,
  nothing that armed a decision survives the delivery that carried it, and a mail is tried six
  times at most beyond the passes whose settlements were lost.
\<close>

section \<open>Operations\<close>

datatype mail_op =
    M_Subscriber int nat rstr user_id rstr bool
  | M_SetChannel nat "bool option" "bool option"
  | M_SetTopic nat rstr bool bool
  | M_Emit int nat user_id rstr rstr rstr rstr rstr rstr int
  | M_Record int nat nat rstr user_id rstr bool rstr rstr rstr rstr rstr int
  | M_MarkRead int nat "nat list" bool
  | M_Anonymous int nat rstr rstr rstr rstr int
  | M_Confirm int rstr
  | M_Unsubscribe rstr "rstr option"
  | M_Governance int nat rstr rstr rstr json
  | M_Drain int drain_env
  | M_Settle int drain_env delivery_job

text \<open>\<open>M_Settle\<close> is a dispatcher slower than its lease, settling a job of an earlier pass late, when
  others may have claimed the row again.\<close>

definition or_same :: "'db \<Rightarrow> domain_error + 'db \<Rightarrow> 'db" where
  "or_same db r = (case r of Inl _ \<Rightarrow> db | Inr db' \<Rightarrow> db')"

fun mail_step ::
  "ext \<Rightarrow> (json \<Rightarrow> bool) \<Rightarrow> dispatcher_config \<Rightarrow> 'z notify_db_scheme \<Rightarrow> mail_op
     \<Rightarrow> 'z notify_db_scheme" where
  "mail_step E terms cfg db (M_Subscriber clock fresh token i mail v) =
     or_same db (rbind (upsert_subscriber E clock fresh token db i mail v) (\<lambda>r. Inr (fst r)))"
| "mail_step E terms cfg db (M_SetChannel sid a b) = set_channel_enabled db sid a b"
| "mail_step E terms cfg db (M_SetTopic sid t on mail) = or_same db (set_topic_subscription E db sid t on mail)"
| "mail_step E terms cfg db (M_Emit clock fresh i topic kind title body link key at) =
     snd (emit_notification E clock fresh i topic kind title body link key at db)"
| "mail_step E terms cfg db (M_Record clock fs fresh token i mail v topic kind title body key at) =
     snd (record_notification E clock fs fresh token i mail v topic kind title body key at db)"
| "mail_step E terms cfg db (M_MarkRead clock sid ids all) = snd (mark_read clock db sid ids all)"
| "mail_step E terms cfg db (M_Anonymous clock fresh ct ut mail topic throttle) =
     snd (subscribe_anonymous E clock fresh ct ut mail topic throttle db)"
| "mail_step E terms cfg db (M_Confirm clock token) = snd (confirm_subscription clock db token)"
| "mail_step E terms cfg db (M_Unsubscribe token topic) = snd (unsubscribe db token topic)"
| "mail_step E terms cfg db (M_Governance clock sid recipient kind key payload) =
     or_same db (rbind (enqueue_governance_mail E clock db sid recipient kind key payload) (\<lambda>r. Inr (fst r)))"
| "mail_step E terms cfg db (M_Drain clock env) = snd (drain_once terms env clock cfg db)"
| "mail_step E terms cfg db (M_Settle clock env job) = settle_job terms env clock cfg job db"

definition run_mail ::
  "ext \<Rightarrow> (json \<Rightarrow> bool) \<Rightarrow> dispatcher_config \<Rightarrow> mail_op list \<Rightarrow> 'z notify_db_scheme
     \<Rightarrow> 'z notify_db_scheme" where
  "run_mail E terms cfg ops db = foldl (mail_step E terms cfg) db ops"

section \<open>The invariant\<close>

definition holds_no_secret :: "json option \<Rightarrow> bool" where
  "holds_no_secret p = (case p of Some (JObject kvs) \<Rightarrow> \<forall>kv\<in>set kvs. fst kv \<notin> set SECRET_PAYLOAD_KEYS | _ \<Rightarrow> True)"

text \<open>How often a row was claimed by a pass that did not record what became of it: the allowance
  \<open>lost\<close> of the invariant.\<close>

definition loses :: "nat \<Rightarrow> mail_op \<Rightarrow> bool" where
  "loses i op = (case op of M_Drain _ env \<Rightarrow> i \<in> set (de_lost env) | _ \<Rightarrow> False)"

definition times_lost :: "mail_op list \<Rightarrow> nat \<Rightarrow> nat" where
  "times_lost ops i = length (filter (loses i) ops)"

definition row_settled :: "(nat \<Rightarrow> nat) \<Rightarrow> nat set \<Rightarrow> delivery_row \<Rightarrow> bool" where
  "row_settled lost open_ids d \<longleftrightarrow>
     (dl_status d = lit ''pending'' \<or> dl_status d = lit ''sent'' \<or> dl_status d = lit ''failed'')
     \<and> (dl_status d \<noteq> lit ''pending'' \<longrightarrow> holds_no_secret (dl_payload d))
     \<and> (dl_status d = lit ''pending'' \<longrightarrow> dl_attempts d < MAX_ATTEMPTS + lost (dl_id d) \<or> dl_id d \<in> open_ids)
     \<and> dl_attempts d \<le> MAX_ATTEMPTS + lost (dl_id d)"

definition keys_once :: "'z notify_db_scheme \<Rightarrow> bool" where
  "keys_once db \<longleftrightarrow>
     distinct (map (\<lambda>n. (ib_subscriber_id n, ib_dedupe_key n)) (db_inbox db)) \<and> distinct (map ib_id (db_inbox db))
     \<and> distinct (map dl_id (db_deliveries db)) \<and> (\<forall>d\<in>set (db_deliveries db). dl_id d \<le> db_delivery_serial db)
     \<and> distinct (map dl_dedupe_key (filter (\<lambda>d. dl_dedupe_key d \<noteq> None) (db_deliveries db)))"

definition backed_by_inbox :: "'z notify_db_scheme \<Rightarrow> bool" where
  "backed_by_inbox db \<longleftrightarrow>
     (\<forall>d\<in>set (db_deliveries db). \<forall>nid. dl_notification_id d = Some nid \<longrightarrow>
        (\<exists>n\<in>set (db_inbox db). ib_id n = nid \<and> dl_subscriber_id d = Some (ib_subscriber_id n)))"

definition mail_ok :: "(nat \<Rightarrow> nat) \<Rightarrow> 'z notify_db_scheme \<Rightarrow> bool" where
  "mail_ok lost db \<longleftrightarrow> keys_once db \<and> backed_by_inbox db \<and> (\<forall>d\<in>set (db_deliveries db). row_settled lost {} d)"

text \<open>Operations that touch neither the inbox nor the queue keep all of it.\<close>

definition same_mail :: "'z notify_db_scheme \<Rightarrow> 'z notify_db_scheme \<Rightarrow> bool" where
  "same_mail db db' \<longleftrightarrow> db_inbox db' = db_inbox db \<and> db_deliveries db' = db_deliveries db
     \<and> db_delivery_serial db \<le> db_delivery_serial db'"

lemma same_mail_ok: "same_mail db db' \<Longrightarrow> mail_ok lost db \<Longrightarrow> mail_ok lost db'"
  by (auto simp: same_mail_def mail_ok_def keys_once_def backed_by_inbox_def)

lemma same_mail_ops:
  "upsert_subscriber E clock fresh token db i mail v = Inr (db', s) \<Longrightarrow> same_mail db db'"
  "upsert_anonymous E fresh ct ut db mail = Inr (db', s) \<Longrightarrow> same_mail db db'"
  "set_topic_subscription E db sid t on m = Inr db' \<Longrightarrow> same_mail db db'"
  "same_mail db (set_channel_enabled db sid a b)" "same_mail db (snd (confirm_subscription clock db token))"
  "same_mail db (snd (unsubscribe db token topic))"
  by (auto simp: same_mail_def upsert_subscriber_def upsert_anonymous_def set_topic_subscription_def
      set_channel_enabled_def confirm_subscription_def unsubscribe_def Let_def split: if_splits option.splits)

lemma queue_ok:
  assumes "queue_delivery E clock db nid sid kind recipient key payload = Inr db'" and "mail_ok lost db"
    and "\<And>x. nid = Some x \<Longrightarrow> \<exists>n\<in>set (db_inbox db). ib_id n = x \<and> sid = Some (ib_subscriber_id n)"
    and "\<And>k d. key = Some k \<Longrightarrow> d \<in> set (db_deliveries db) \<Longrightarrow> dl_dedupe_key d \<noteq> Some k"
  shows "mail_ok lost db'"
proof -
  obtain d where d: "db' = db\<lparr>db_deliveries := db_deliveries db @ [d], db_delivery_serial := db_delivery_serial db + 1\<rparr>"
    "dl_id d = db_delivery_serial db + 1" "dl_notification_id d = nid" "dl_subscriber_id d = sid"
    "dl_status d = lit ''pending''" "dl_attempts d = 0" "dl_dedupe_key d = key"
    using assms(1) by (auto simp: queue_delivery_def Let_def split: option.splits)
  have "row_settled lost {} d" using d by (simp add: row_settled_def MAX_ATTEMPTS_def)
  moreover have "keys_once db'"
    using assms(2,4) d by (fastforce simp: mail_ok_def keys_once_def)
  moreover have "backed_by_inbox db'"
    using assms(2,3) d by (auto simp: mail_ok_def backed_by_inbox_def)
  ultimately show ?thesis using assms(2) d by (auto simp: mail_ok_def)
qed

lemma insert_inbox_ok:
  assumes "insert_inbox E db n = Inr (db', r)" and "mail_ok lost db"
  shows "mail_ok lost db' \<and> (r = None \<longrightarrow> db' = db) \<and> (\<forall>nid. r = Some nid \<longrightarrow> nid = ib_id n \<and> n \<in> set (db_inbox db'))
    \<and> db_deliveries db' = db_deliveries db"
proof -
  from assms(1) have "db' = db \<and> r = None \<or> db' = db\<lparr>db_inbox := db_inbox db @ [n]\<rparr> \<and> r = Some (ib_id n)
      \<and> (\<forall>x\<in>set (db_inbox db). \<not> (ib_subscriber_id x = ib_subscriber_id n \<and> ib_dedupe_key x = ib_dedupe_key n) \<and> ib_id x \<noteq> ib_id n)"
    by (auto simp: insert_inbox_def list_ex_iff split: option.splits if_splits)
  then show ?thesis
  proof
    assume new: "db' = db\<lparr>db_inbox := db_inbox db @ [n]\<rparr> \<and> r = Some (ib_id n)
      \<and> (\<forall>x\<in>set (db_inbox db). \<not> (ib_subscriber_id x = ib_subscriber_id n \<and> ib_dedupe_key x = ib_dedupe_key n) \<and> ib_id x \<noteq> ib_id n)"
    then have "keys_once db'" using assms(2) by (fastforce simp: mail_ok_def keys_once_def)
    moreover have "backed_by_inbox db'" using assms(2) new by (auto simp: mail_ok_def backed_by_inbox_def)
    ultimately show ?thesis using assms(2) new by (auto simp: mail_ok_def)
  qed (use assms(2) in simp)
qed

lemma transact_keeps:
  "P db \<Longrightarrow> (\<And>out db'. tx db = Inr (out, db') \<Longrightarrow> P db') \<Longrightarrow> P (snd (transact tx db))"
  by (auto simp: transact_def split: sum.splits)

text \<open>What emitting did to the tables: nothing, an inbox entry, or an entry and its queued copy.\<close>

lemma emit_cases:
  obtains "snd (emit_notification E clock fresh i topic kind title body link key at db) = db"
  | n db1 r where "insert_inbox E db n = Inr (db1, r)"
    "snd (emit_notification E clock fresh i topic kind title body link key at db) = db1"
  | n db1 recipient where "insert_inbox E db n = Inr (db1, Some (ib_id n))"
    "queue_delivery E clock db1 (Some (ib_id n)) (Some (ib_subscriber_id n)) (lit ''notification'') recipient None None
       = Inr (snd (emit_notification E clock fresh i topic kind title body link key at db))"
proof (cases "\<exists>s c. subscriber_of db i = Some s \<and> subscription_of db (sb_id s) topic = Some c")
  case False
  then have "snd (emit_notification E clock fresh i topic kind title body link key at db) = db"
    by (auto simp: emit_notification_def transact_def split: option.splits)
  then show thesis by (rule that(1))
next
  case True
  then obtain s c where sc: "subscriber_of db i = Some s" "subscription_of db (sb_id s) topic = Some c" by blast
  let ?n = "\<lparr>ib_id = fresh, ib_subscriber_id = sb_id s, ib_topic = topic, ib_kind = kind,
      ib_title = title, ib_body = body, ib_link = link, ib_dedupe_key = key,
      ib_occurred_at = at, ib_created_at = clock, ib_read_at = None\<rparr>"
  let ?q = "\<lambda>db1. queue_delivery E clock db1 (Some fresh) (Some (sb_id s)) (lit ''notification'') (sb_email s) None None"
  note emit = emit_notification_def transact_def
  show thesis
  proof (cases "insert_inbox E db ?n")
    case (Inl e)
    with sc have "snd (emit_notification E clock fresh i topic kind title body link key at db) = db" by (simp add: emit)
    then show thesis by (rule that(1))
  next
    case (Inr res)
    then obtain db1 r where ins: "insert_inbox E db ?n = Inr (db1, r)" by (cases res) simp
    then have r: "r = None \<or> r = Some fresh"
      by (auto simp: insert_inbox_def split: option.splits if_splits)
    show thesis
    proof (cases "r = None \<or> \<not> may_mail s c")
      case True
      with sc ins r have "snd (emit_notification E clock fresh i topic kind title body link key at db) = db1"
        by (auto simp: emit)
      with ins show thesis by (rule that(2))
    next
      case False
      with r have r: "r = Some fresh" "may_mail s c" by auto
      show thesis
      proof (cases "?q db1")
        case (Inl e)
        with sc ins r have "snd (emit_notification E clock fresh i topic kind title body link key at db) = db" by (simp add: emit)
        then show thesis by (rule that(1))
      next
        case (Inr db2)
        with sc ins r have "?q db1 = Inr (snd (emit_notification E clock fresh i topic kind title body link key at db))"
          by (simp add: emit)
        then show thesis using that(3) [of ?n db1 "sb_email s"] ins r by simp
      qed
    qed
  qed
qed

lemma emit_ok:
  assumes ok: "mail_ok lost db"
  shows "mail_ok lost (snd (emit_notification E clock fresh i topic kind title body link key at db))"
proof (cases rule: emit_cases [of E clock fresh i topic kind title body link key at db])
  case (2 n db1 r)
  then show ?thesis using insert_inbox_ok [OF 2(1) ok] by simp
next
  case (3 n db1 recipient)
  note ins = insert_inbox_ok [OF 3(1) ok]
  show ?thesis by (rule queue_ok [OF 3(2)]) (use ins in auto)
qed (use ok in simp)

lemma record_ok:
  assumes ok: "mail_ok lost db"
  shows "mail_ok lost (snd (record_notification E clock fs fresh token i mail v topic kind title body key at db))"
  unfolding record_notification_def
proof (rule transact_keeps [where P = "mail_ok lost"])
  fix out db'
  assume "rbind (upsert_subscriber E clock fs token db i mail v) (\<lambda>(db, s).
     rbind (insert_inbox E db \<lparr>ib_id = fresh, ib_subscriber_id = sb_id s, ib_topic = topic, ib_kind = kind,
         ib_title = title, ib_body = body, ib_link = [], ib_dedupe_key = key,
         ib_occurred_at = at, ib_created_at = clock, ib_read_at = None\<rparr>) (\<lambda>(db, inserted).
     Inr (Inr (inserted \<noteq> None), db))) = Inr (out :: domain_error + bool, db')"
  then obtain db1 s n r where up: "upsert_subscriber E clock fs token db i mail v = Inr (db1, s)"
    and ins: "insert_inbox E db1 n = Inr (db', r)"
    by (auto simp: rbind_Inr_iff)
  show "mail_ok lost db'"
    using insert_inbox_ok [OF ins same_mail_ok [OF same_mail_ops(1) [OF up] ok]] by (rule conjunct1)
qed (rule ok)

lemma anonymous_ok:
  assumes ok: "mail_ok lost db"
  shows "mail_ok lost (snd (subscribe_anonymous E clock fresh ct ut mail topic throttle db))"
  unfolding subscribe_anonymous_def
proof (rule transact_keeps [where P = "mail_ok lost"])
  fix out db'
  assume "rbind (upsert_anonymous E fresh ct ut db mail) (\<lambda>(db, s).
     rbind (set_topic_subscription E db (sb_id s) topic True True) (\<lambda>db.
     let since_sent = (case sb_confirm_sent_at s of None \<Rightarrow> throttle + 1 | Some t \<Rightarrow> clock - t);
         should_mail = (sb_confirmed_at s = None \<and> since_sent > throttle)
     in if \<not> should_mail then Inr (Inr None, db)
        else rbind (queue_delivery E clock
               (db\<lparr>db_subscribers := map (\<lambda>x. if sb_id x = sb_id s then x\<lparr>sb_confirm_sent_at := Some clock\<rparr> else x) (db_subscribers db)\<rparr>)
               None (Some (sb_id s)) (lit ''confirm'') mail None None) (\<lambda>db.
             Inr (Inr (map_option (\<lambda>t. (sb_id s, t)) (sb_confirm_token s)), db))))
     = Inr (out :: domain_error + (nat \<times> rstr) option, db')"
  then obtain db1 s db2 where up: "upsert_anonymous E fresh ct ut db mail = Inr (db1, s)"
    and sub: "set_topic_subscription E db1 (sb_id s) topic True True = Inr db2"
    and rest: "db' = db2 \<or> queue_delivery E clock
       (db2\<lparr>db_subscribers := map (\<lambda>x. if sb_id x = sb_id s then x\<lparr>sb_confirm_sent_at := Some clock\<rparr> else x) (db_subscribers db2)\<rparr>)
       None (Some (sb_id s)) (lit ''confirm'') mail None None = Inr db'"
    by (auto simp: rbind_Inr_iff Let_def split: if_splits)
  have ok2: "mail_ok lost db2"
    using same_mail_ok [OF same_mail_ops(3) [OF sub] same_mail_ok [OF same_mail_ops(2) [OF up] ok]] .
  let ?db3 = "db2\<lparr>db_subscribers := map (\<lambda>x. if sb_id x = sb_id s then x\<lparr>sb_confirm_sent_at := Some clock\<rparr> else x) (db_subscribers db2)\<rparr>"
  have ok3: "mail_ok lost ?db3"
    by (rule same_mail_ok [OF _ ok2]) (simp add: same_mail_def)
  from rest show "mail_ok lost db'"
  proof
    assume "queue_delivery E clock ?db3 None (Some (sb_id s)) (lit ''confirm'') mail None None = Inr db'"
    then show ?thesis by (rule queue_ok [OF _ ok3]) simp_all
  qed (use ok2 in simp)
qed (rule ok)

lemma enqueue_ok:
  assumes "enqueue_governance_mail E clock db sid recipient kind key payload = Inr (db', q)" and ok: "mail_ok lost db"
  shows "mail_ok lost db'"
proof (cases "find (\<lambda>d. dl_dedupe_key d = Some key) (db_deliveries db)")
  case None
  have q: "queue_delivery E clock db None (Some sid) kind recipient (Some key) (Some payload) = Inr db'"
    using assms(1) None by (auto simp: enqueue_governance_mail_def rbind_Inr_iff)
  show ?thesis
    by (rule queue_ok [OF q ok]) (use None in \<open>auto simp: find_None_iff_all\<close>)
next
  case (Some d)
  have "same_mail db db'"
    using assms(1) Some by (auto simp: enqueue_governance_mail_def rbind_Inr_iff same_mail_def)
  then show ?thesis using ok by (rule same_mail_ok)
qed

lemma mark_read_ok:
  assumes ok: "mail_ok lost db" shows "mail_ok lost (snd (mark_read clock db sid ids all))"
proof -
  define f :: "inbox_row \<Rightarrow> inbox_row" where "f = (\<lambda>n. if ib_subscriber_id n = sid \<and> (all \<or> ib_id n \<in> set ids) \<and> ib_read_at n = None
    then n\<lparr>ib_read_at := Some clock\<rparr> else n)"
  have keep: "ib_subscriber_id (f n) = ib_subscriber_id n" "ib_dedupe_key (f n) = ib_dedupe_key n" "ib_id (f n) = ib_id n" for n
    by (simp_all add: f_def)
  have db': "snd (mark_read clock db sid ids all) = db\<lparr>db_inbox := map f (db_inbox db)\<rparr>"
    by (simp add: mark_read_def Let_def f_def)
  have "keys_once (db\<lparr>db_inbox := map f (db_inbox db)\<rparr>)"
    using ok by (simp add: mail_ok_def keys_once_def comp_def keep)
  moreover have "backed_by_inbox (db\<lparr>db_inbox := map f (db_inbox db)\<rparr>)"
    using ok by (simp add: mail_ok_def backed_by_inbox_def keep)
  ultimately show ?thesis using ok by (simp add: mail_ok_def db')
qed

section \<open>The dispatcher\<close>

text \<open>Settling a row changes neither its keys nor what it belongs to.\<close>

definition row_frame :: "(delivery_row \<Rightarrow> delivery_row) \<Rightarrow> bool" where
  "row_frame f \<longleftrightarrow> (\<forall>d. dl_id (f d) = dl_id d \<and> dl_dedupe_key (f d) = dl_dedupe_key d
     \<and> dl_notification_id (f d) = dl_notification_id d \<and> dl_subscriber_id (f d) = dl_subscriber_id d)"

definition queue_ok_but :: "(nat \<Rightarrow> nat) \<Rightarrow> nat set \<Rightarrow> 'z notify_db_scheme \<Rightarrow> bool" where
  "queue_ok_but lost ids db \<longleftrightarrow> keys_once db \<and> backed_by_inbox db \<and> (\<forall>d\<in>set (db_deliveries db). row_settled lost ids d)"

lemma mail_ok_but: "mail_ok lost db \<longleftrightarrow> queue_ok_but lost {} db"
  by (simp add: mail_ok_def queue_ok_but_def)

lemma frame_ok:
  assumes "row_frame f" and "queue_ok_but lost ids db"
    and "\<And>d. d \<in> set (db_deliveries db) \<Longrightarrow> row_settled lost ids d \<Longrightarrow> row_settled lost ids' (f d)"
  shows "queue_ok_but lost ids' (db\<lparr>db_deliveries := map f (db_deliveries db)\<rparr>)"
proof -
  have keep: "dl_id (f d) = dl_id d" "dl_dedupe_key (f d) = dl_dedupe_key d"
    "dl_notification_id (f d) = dl_notification_id d" "dl_subscriber_id (f d) = dl_subscriber_id d" for d
    using assms(1) by (simp_all add: row_frame_def)
  have "map dl_dedupe_key (filter (\<lambda>d. dl_dedupe_key d \<noteq> None) (map f ds)) = map dl_dedupe_key (filter (\<lambda>d. dl_dedupe_key d \<noteq> None) ds)" for ds
    by (induction ds) (simp_all add: keep)
  then show ?thesis
    using assms(2,3) by (simp add: queue_ok_but_def keys_once_def backed_by_inbox_def keep comp_def)
qed

lemma redact_clean: "holds_no_secret (map_option redact p)"
  by (auto simp: holds_no_secret_def redact_def split: option.splits json.splits)

lemma settled_other: "row_settled lost (insert i ids) d \<Longrightarrow> dl_id d \<noteq> i \<Longrightarrow> row_settled lost ids d"
  by (auto simp: row_settled_def)

lemma mark_sent_ok: "queue_ok_but lost (insert i ids) db \<Longrightarrow> queue_ok_but lost ids (mark_sent clock db i)"
  unfolding mark_sent_def
  by (rule frame_ok) (auto simp: row_frame_def row_settled_def holds_no_secret_def)

lemma mark_failed_ok:
  assumes "queue_ok_but lost (insert i ids) db" and "m = 0 \<or> m = MAX_ATTEMPTS"
  shows "queue_ok_but lost ids (mark_failed clock db i err backoff m)"
  unfolding mark_failed_def
  by (rule frame_ok [OF _ assms(1)]) (use assms(2) in \<open>auto simp: row_frame_def row_settled_def redact_clean\<close>)

lemma queue_ok_mono: "queue_ok_but lost ids db \<Longrightarrow> ids \<subseteq> ids' \<Longrightarrow> queue_ok_but lost ids' db"
  by (auto simp: queue_ok_but_def row_settled_def)

lemma settle_lost: "dj_id job \<in> set (de_lost env) \<Longrightarrow> settle_job terms env clock cfg job db = db"
  by (simp add: settle_job_def split: option.splits)

lemma settle_ok:
  "dj_id job \<notin> set (de_lost env) \<Longrightarrow> queue_ok_but lost (insert (dj_id job) ids) db \<Longrightarrow>
   queue_ok_but lost ids (settle_job terms env clock cfg job db)"
  by (simp add: settle_job_def mark_sent_ok mark_failed_ok split: option.splits)

lemma deliver_ok:
  "queue_ok_but lost (set (map dj_id jobs) \<union> set (de_lost env)) db \<Longrightarrow>
   queue_ok_but lost (set (de_lost env)) (deliver_jobs terms env clock cfg jobs db)"
proof (induction jobs arbitrary: db)
  case (Cons job jobs)
  then have open_job: "queue_ok_but lost (insert (dj_id job) (set (map dj_id jobs) \<union> set (de_lost env))) db" by simp
  have "queue_ok_but lost (set (map dj_id jobs) \<union> set (de_lost env)) (settle_job terms env clock cfg job db)"
  proof (cases "dj_id job \<in> set (de_lost env)")
    case True
    then show ?thesis using queue_ok_mono [OF open_job] by (simp add: settle_lost insert_absorb)
  next
    case False
    then show ?thesis by (rule settle_ok [OF _ open_job])
  qed
  then show ?case by (simp add: Cons.IH)
qed simp

text \<open>A row whose settlement was lost is charged to the allowance.\<close>

lemma charge_lost:
  "queue_ok_but lost ids db \<Longrightarrow> queue_ok_but (\<lambda>i. lost i + of_bool (i \<in> ids)) {} db"
  by (fastforce simp: queue_ok_but_def row_settled_def)

lemma claim_ok:
  assumes ok: "mail_ok lost db" and claim: "claim_due clock db limit lease = (jobs, db')"
  shows "queue_ok_but lost (set (map dj_id jobs)) db'"
proof -
  let ?ids = "due_ids clock limit db"
  let ?f = "\<lambda>d. if dl_id d \<in> set ?ids then d\<lparr>dl_attempts := dl_attempts d + 1, dl_next_attempt_at := clock + lease\<rparr> else d"
  have dist: "distinct (map dl_id (db_deliveries db))" using ok by (simp add: mail_ok_def keys_once_def)
  have due: "is_due clock d" if "d \<in> set (db_deliveries db)" "dl_id d \<in> set ?ids" for d
  proof -
    have "dl_id d \<in> dl_id ` set (filter (is_due clock) (db_deliveries db))"
      using that(2) by (auto simp: due_ids_def dest: in_set_takeD)
    then show ?thesis using that(1) dist by (auto simp: distinct_map inj_on_def)
  qed
  have db': "db' = db\<lparr>db_deliveries := map ?f (db_deliveries db)\<rparr>"
    using claim by (auto simp: claim_due_def Let_def split: if_splits)
  have sub: "set ?ids \<subseteq> set (map dj_id jobs)"
  proof
    fix i assume i: "i \<in> set ?ids"
    then obtain d where d: "d \<in> set (db_deliveries db)" "dl_id d = i"
      by (fastforce simp: due_ids_def dest: in_set_takeD)
    have "jobs = map (job_of db') (sort_key dl_id (filter (\<lambda>d. dl_id d \<in> set ?ids) (db_deliveries db')))"
      using claim i by (auto simp: claim_due_def Let_def split: if_splits)
    moreover have "?f d \<in> set (db_deliveries db')" "dl_id (?f d) = i" using d by (auto simp: db')
    ultimately show "i \<in> set (map dj_id jobs)" using i by (force simp: job_of_def Let_def)
  qed
  have "queue_ok_but lost (set ?ids) db'"
    unfolding db'
  proof (rule frame_ok)
    show "queue_ok_but lost {} db" using ok by (simp add: mail_ok_but)
    show "row_settled lost (set ?ids) (?f d)" if "d \<in> set (db_deliveries db)" "row_settled lost {} d" for d
      using due [OF that(1)] that(2) by (auto simp: row_settled_def is_due_def)
  qed (simp add: row_frame_def)
  with sub show ?thesis by (auto simp: queue_ok_but_def row_settled_def)
qed

lemma mail_ok_mono:
  assumes "mail_ok lost db" and "\<And>i. lost i \<le> lost' i"
  shows "mail_ok lost' db"
proof -
  have "row_settled lost' {} d" if "row_settled lost {} d" for d
    using that assms(2) [of "dl_id d"] by (auto simp: row_settled_def)
  then show ?thesis using assms(1) by (simp add: mail_ok_def)
qed

lemma drain_ok:
  assumes ok: "mail_ok lost db"
  shows "mail_ok (\<lambda>i. lost i + of_bool (i \<in> set (de_lost env))) (snd (drain_once terms env clock cfg db))"
proof -
  obtain jobs db' where claim: "claim_due clock db BATCH LEASE_SECS = (jobs, db')" by fastforce
  have "queue_ok_but lost (set (map dj_id jobs) \<union> set (de_lost env)) db'"
    by (rule queue_ok_mono [OF claim_ok [OF ok claim]]) simp
  then have "mail_ok (\<lambda>i. lost i + of_bool (i \<in> set (de_lost env))) (deliver_jobs terms env clock cfg jobs db')"
    unfolding mail_ok_but by (intro charge_lost deliver_ok)
  moreover have "mail_ok (\<lambda>i. lost i + of_bool (i \<in> set (de_lost env))) db"
    by (rule mail_ok_mono [OF ok]) simp
  ultimately show ?thesis by (simp add: drain_once_def claim)
qed

lemma settle_step_ok: "mail_ok lost db \<Longrightarrow> mail_ok lost (settle_job terms env clock cfg job db)"
  by (cases "dj_id job \<in> set (de_lost env)")
    (auto simp: settle_lost mail_ok_but intro: settle_ok queue_ok_mono)

lemma mail_step_ok:
  assumes "mail_ok lost db"
  shows "mail_ok (\<lambda>i. lost i + of_bool (loses i op)) (mail_step E terms cfg db op)"
proof (cases op)
  case (M_Drain clock env)
  then show ?thesis using drain_ok [OF assms, of env] by (simp add: loses_def)
qed (use assms in \<open>auto simp: loses_def or_same_def rbind_def emit_ok record_ok anonymous_ok mark_read_ok settle_step_ok
    split: sum.splits intro: same_mail_ops same_mail_ok enqueue_ok\<close>)

lemma run_mail_ok: "mail_ok (\<lambda>_. 0) db \<Longrightarrow> mail_ok (times_lost ops) (run_mail E terms cfg ops db)"
proof (induction ops rule: rev_induct)
  case (snoc op ops)
  have "mail_ok (\<lambda>i. times_lost ops i + of_bool (loses i op)) (mail_step E terms cfg (run_mail E terms cfg ops db) op)"
    using snoc by (intro mail_step_ok) simp
  then have "mail_ok (times_lost (ops @ [op])) (mail_step E terms cfg (run_mail E terms cfg ops db) op)"
    by (rule mail_ok_mono) (simp add: times_lost_def)
  then show ?case by (simp add: run_mail_def)
qed (simp add: run_mail_def times_lost_def [abs_def])

end
