(* ===== verification/Mail_Runs.thy ===== *)
theory Mail_Runs
  imports Mail_Safety
begin

text \<open>
  The properties of the notification plane over whole runs: what a settled mail still
  holds, what is written once, what one drain does to the mail it claimed, how far the
  daily budget can be overshot, and how often a stranger's address can be mailed.
\<close>

definition no_mail :: "'z notify_db_scheme \<Rightarrow> bool" where
  "no_mail db \<longleftrightarrow> db_inbox db = [] \<and> db_deliveries db = []"

lemma run_from_nothing: "no_mail db \<Longrightarrow> mail_ok (times_lost ops) (run_mail E terms cfg ops db)"
  by (rule run_mail_ok) (simp add: no_mail_def mail_ok_def keys_once_def backed_by_inbox_def)

section \<open>One drain, row by row\<close>

definition failed_row :: "int \<Rightarrow> rstr \<Rightarrow> int \<Rightarrow> nat \<Rightarrow> delivery_row \<Rightarrow> delivery_row" where
  "failed_row clock err backoff m d =
     d\<lparr>dl_status := (if dl_attempts d \<ge> m then lit ''failed'' else lit ''pending''),
       dl_payload := (if dl_attempts d \<ge> m then map_option redact (dl_payload d) else dl_payload d),
       dl_next_attempt_at := clock + backoff, dl_last_error := take 500 err\<rparr>"

definition sent_row :: "int \<Rightarrow> delivery_row \<Rightarrow> delivery_row" where
  "sent_row clock d = d\<lparr>dl_status := lit ''sent'', dl_sent_at := Some clock, dl_last_error := [], dl_payload := None\<rparr>"

definition row_after ::
  "(json \<Rightarrow> bool) \<Rightarrow> drain_env \<Rightarrow> int \<Rightarrow> dispatcher_config \<Rightarrow> delivery_job \<Rightarrow> delivery_row \<Rightarrow> delivery_row" where
  "row_after terms env clock cfg job d =
     (if dj_id job \<in> set (de_lost env) then d
      else case render terms job cfg of
        None \<Rightarrow> failed_row clock (lit ''unrenderable delivery'') (backoff_secs (int (dj_attempts job))) 0 d
      | Some mail \<Rightarrow> (case de_send env mail of
            None \<Rightarrow> sent_row clock d
          | Some err \<Rightarrow> failed_row clock err (backoff_secs (int (dj_attempts job))) MAX_ATTEMPTS d))"

lemma row_after_id [simp]: "dl_id (row_after terms env clock cfg job d) = dl_id d"
  by (simp add: row_after_def failed_row_def sent_row_def split: option.splits)

lemma settle_rows:
  "settle_job terms env clock cfg job db =
     db\<lparr>db_deliveries := map (\<lambda>d. if dl_id d = dj_id job then row_after terms env clock cfg job d else d) (db_deliveries db)\<rparr>"
  by (cases "dj_id job \<in> set (de_lost env)"; cases "render terms job cfg"; cases "de_send env (the (render terms job cfg))")
    (simp_all add: settle_job_def row_after_def failed_row_def sent_row_def mark_failed_def mark_sent_def cong: if_cong)

lemma deliver_step:
  "deliver_jobs terms env clock cfg (job # jobs) db =
     deliver_jobs terms env clock cfg jobs
       (db\<lparr>db_deliveries := map (\<lambda>d. if dl_id d = dj_id job then row_after terms env clock cfg job d else d) (db_deliveries db)\<rparr>)"
  by (simp add: settle_rows)

declare deliver_jobs.simps(2) [simp del]

lemma deliver_rows:
  "distinct (map dj_id jobs) \<Longrightarrow>
   db_deliveries (deliver_jobs terms env clock cfg jobs db) =
     map (\<lambda>d. case find (\<lambda>j. dj_id j = dl_id d) jobs of None \<Rightarrow> d | Some j \<Rightarrow> row_after terms env clock cfg j d) (db_deliveries db)"
proof (induction jobs arbitrary: db)
  case (Cons job jobs)
  then have "find (\<lambda>j. dj_id j = dj_id job) jobs = None"
    by (auto simp: find_None_iff_all image_iff)
  with Cons show ?case by (auto simp: deliver_step)
qed simp

lemma claim_jobs:
  assumes ok: "mail_ok lost db" and claim: "claim_due clock db limit lease = (jobs, db')"
  shows "distinct (map dj_id jobs) \<and> set (map dj_id jobs) = set (due_ids clock limit db) \<and> length jobs \<le> limit
    \<and> (\<forall>d\<in>set (db_deliveries db). dl_id d \<in> set (due_ids clock limit db) \<longrightarrow>
         find (\<lambda>j. dj_id j = dl_id d) jobs = Some ((job_of db d)\<lparr>dj_attempts := dl_attempts d + 1\<rparr>))
    \<and> db_deliveries db' = map (\<lambda>d. if dl_id d \<in> set (due_ids clock limit db)
         then d\<lparr>dl_attempts := dl_attempts d + 1, dl_next_attempt_at := clock + lease\<rparr> else d) (db_deliveries db)"
proof -
  let ?ids = "due_ids clock limit db"
  let ?f = "\<lambda>d. if dl_id d \<in> set ?ids then d\<lparr>dl_attempts := dl_attempts d + 1, dl_next_attempt_at := clock + lease\<rparr> else d"
  let ?L = "sort_key dl_id (filter (\<lambda>d. dl_id d \<in> set ?ids) (map ?f (db_deliveries db)))"
  have db': "db' = db\<lparr>db_deliveries := map ?f (db_deliveries db)\<rparr>"
    using claim by (auto simp: claim_due_def Let_def split: if_splits)
  have jobs: "jobs = map (job_of db') ?L"
  proof (cases "?ids = []")
    case True
    then show ?thesis using claim by (simp add: claim_due_def Let_def)
  next
    case False
    then show ?thesis using claim db' by (simp add: claim_due_def Let_def)
  qed
  have id_f: "dl_id (?f d) = dl_id d" for d by simp
  have dist: "distinct (map dl_id (db_deliveries db))" using ok by (simp add: mail_ok_def keys_once_def)
  have dist': "distinct (map dl_id (map ?f (db_deliveries db)))"
    using dist by (simp add: comp_def id_f)
  have distL: "distinct (map dl_id ?L)"
    using distinct_map_filter [OF dist', of "\<lambda>d. dl_id d \<in> set ?ids"] by (simp add: distinct_map)
  have ids_of: "map dj_id jobs = map dl_id ?L" by (simp add: jobs job_of_def Let_def comp_def)
  have in_db: "set ?ids \<subseteq> dl_id ` set (db_deliveries db)"
    by (auto simp: due_ids_def dest: in_set_takeD)
  have "set (map dl_id ?L) = {i \<in> dl_id ` ?f ` set (db_deliveries db). i \<in> set ?ids}" by auto
  also have "dl_id ` ?f ` set (db_deliveries db) = dl_id ` set (db_deliveries db)"
    by (simp only: image_image id_f)
  finally have sets: "set (map dl_id ?L) = set ?ids" using in_db by blast
  have "distinct (map dj_id jobs)" "set (map dj_id jobs) = set ?ids"
    using distL sets by (simp_all only: ids_of)
  moreover have "length jobs \<le> limit"
    using distinct_card [OF distL] card_length [of ?ids] sets ids_of
    by (metis (no_types, lifting) due_ids_def length_map length_take min.bounded_iff order.trans min.cobounded1 nle_le)
  moreover have "find (\<lambda>j. dj_id j = dl_id d) jobs = Some ((job_of db d)\<lparr>dj_attempts := dl_attempts d + 1\<rparr>)"
    if d: "d \<in> set (db_deliveries db)" "dl_id d \<in> set ?ids" for d
  proof -
    have job: "job_of db' (?f d) = (job_of db d)\<lparr>dj_attempts := dl_attempts d + 1\<rparr>"
      using d(2) by (simp add: job_of_def Let_def db')
    have "?f d \<in> set (map ?f (db_deliveries db))" unfolding list.set_map by (rule image_eqI [OF refl d(1)])
    then have "?f d \<in> set ?L" unfolding set_sort set_filter mem_Collect_eq by (rule conjI) (simp add: d(2))
    then have "job_of db' (?f d) \<in> set jobs" unfolding jobs list.set_map by (rule imageI)
    moreover have "dj_id (job_of db' (?f d)) = dl_id d" by (simp add: job_of_def Let_def)
    ultimately show ?thesis
      using find_eq_Some_distinct [of dj_id jobs "job_of db' (?f d)"] distL ids_of job by simp
  qed
  ultimately show ?thesis by (simp add: db')
qed

lemma drain_rows:
  assumes ok: "mail_ok lost db" and spare: "int (sent_last_24h clock db) < dc_daily_budget cfg"
    and env: "de_count_read env" "de_claims env"
  shows "db_deliveries (snd (drain_once terms env clock cfg db)) =
    map (\<lambda>d. if dl_id d \<in> set (due_ids clock BATCH db)
         then row_after terms env clock cfg ((job_of db d)\<lparr>dj_attempts := dl_attempts d + 1\<rparr>)
                (d\<lparr>dl_attempts := dl_attempts d + 1, dl_next_attempt_at := clock + LEASE_SECS\<rparr>)
         else d) (db_deliveries db)"
proof -
  obtain jobs db' where claim: "claim_due clock db BATCH LEASE_SECS = (jobs, db')" by fastforce
  note c = claim_jobs [OF ok claim]
  have "find (\<lambda>j. dj_id j = i) jobs = None" if "i \<notin> set (due_ids clock BATCH db)" for i
    using that c by (auto simp: find_None_iff_all)
  moreover have "snd (drain_once terms env clock cfg db) = deliver_jobs terms env clock cfg jobs db'"
    using claim spare env by (simp add: drain_once_def)
  ultimately show ?thesis
    using c by (simp add: deliver_rows)
qed

text \<open>What one drain does to a mail it claimed: an unrenderable one is parked without its
  secrets; a delivered one is marked sent and its payload forgotten; a refused one is
  tried again after a backoff that doubles from one minute up to six hours, until the
  sixth refusal parks it without its secrets. Nothing it did not claim changes, and with
  the budget spent it claims nothing.\<close>

theorem drain_settles:
  assumes db: "db = run_mail E terms cfg0 ops db0"
    and start: "no_mail db0"
    and d: "d \<in> set (db_deliveries db)" "dl_id d \<in> set (due_ids clock BATCH db)"
    and spare: "int (sent_last_24h clock db) < dc_daily_budget cfg"
    and env: "de_count_read env" "de_claims env" "dl_id d \<notin> set (de_lost env)"
  shows "\<exists>d'\<in>set (db_deliveries (snd (drain_once terms env clock cfg db))).
    dl_id d' = dl_id d \<and> dl_attempts d' = dl_attempts d + 1 \<and>
    (case render terms ((job_of db d)\<lparr>dj_attempts := dl_attempts d + 1\<rparr>) cfg of
       None \<Rightarrow> dl_status d' = lit ''failed'' \<and> dl_payload d' = map_option redact (dl_payload d)
     | Some mail \<Rightarrow>
         (case de_send env mail of
            None \<Rightarrow> dl_status d' = lit ''sent'' \<and> dl_payload d' = None \<and> dl_sent_at d' = Some clock
          | Some err \<Rightarrow>
              if dl_attempts d < 5
              then dl_status d' = lit ''pending'' \<and> dl_payload d' = dl_payload d
                \<and> dl_next_attempt_at d' = clock + min (60 * 2 ^ dl_attempts d) 21600
              else dl_status d' = lit ''failed'' \<and> dl_payload d' = map_option redact (dl_payload d)))"
proof -
  have "mail_ok (times_lost ops) db"
    unfolding db by (rule run_from_nothing [OF start])
  note rows = drain_rows [OF this spare env(1,2), of terms]
  let ?job = "(job_of db d)\<lparr>dj_attempts := dl_attempts d + 1\<rparr>"
  let ?d = "d\<lparr>dl_attempts := dl_attempts d + 1, dl_next_attempt_at := clock + LEASE_SECS\<rparr>"
  have "row_after terms env clock cfg ?job ?d \<in> set (db_deliveries (snd (drain_once terms env clock cfg db)))"
    unfolding rows using d by (auto intro!: image_eqI [where x = d])
  moreover have "backoff_secs (int (dl_attempts d) + 1) = min (60 * 2 ^ dl_attempts d) 21600" if "dl_attempts d < 5"
    using that by (simp add: backoff_secs_def Let_def nat_add_distrib)
  moreover have "dj_id (job_of db d) \<notin> set (de_lost env)" using env(3) by (simp add: job_of_def Let_def)
  ultimately show ?thesis
    by (intro bexI [where x = "row_after terms env clock cfg ?job ?d"])
      (auto simp: row_after_def failed_row_def sent_row_def MAX_ATTEMPTS_def add.commute split: option.splits)
qed

section \<open>What the queue keeps\<close>


text \<open>Retrying is safe: whatever the plane is asked to do from an empty queue on, a subscriber
  has at most one inbox entry per deduplication key, the queue at most one mail per
  governance key, and a queued copy of a notification always goes to the subscriber whose
  inbox holds that notification.\<close>

theorem mail_written_once:
  assumes "no_mail db" and "db' = run_mail E terms cfg ops db"
  shows "(\<forall>n\<in>set (db_inbox db'). \<forall>n'\<in>set (db_inbox db').
        ib_subscriber_id n = ib_subscriber_id n' \<and> ib_dedupe_key n = ib_dedupe_key n' \<longrightarrow> n = n')
    \<and> (\<forall>d\<in>set (db_deliveries db'). \<forall>d'\<in>set (db_deliveries db').
        dl_dedupe_key d = dl_dedupe_key d' \<and> dl_dedupe_key d \<noteq> None \<longrightarrow> d = d')
    \<and> (\<forall>d\<in>set (db_deliveries db'). \<forall>nid. dl_notification_id d = Some nid \<longrightarrow>
        (\<exists>n\<in>set (db_inbox db'). ib_id n = nid \<and> dl_subscriber_id d = Some (ib_subscriber_id n)))"
proof -
  have ok: "mail_ok (times_lost ops) db'" unfolding assms(2) by (rule run_from_nothing [OF assms(1)])
  then have "inj_on (\<lambda>n. (ib_subscriber_id n, ib_dedupe_key n)) (set (db_inbox db'))"
    "inj_on dl_dedupe_key {d \<in> set (db_deliveries db'). dl_dedupe_key d \<noteq> None}"
    by (auto simp: mail_ok_def keys_once_def distinct_map)
  then show ?thesis
    using ok unfolding mail_ok_def backed_by_inbox_def inj_on_def by (simp; metis)
qed

section \<open>The daily budget\<close>

lemma length_filter_map_le:
  assumes "distinct (map k xs)" and "\<And>x. x \<in> set xs \<Longrightarrow> k x \<notin> A \<Longrightarrow> f x = x" and "finite A"
  shows "length (filter P (map f xs)) \<le> length (filter P xs) + card A"
  using assms
proof (induction xs arbitrary: A)
  case (Cons x xs)
  show ?case
  proof (cases "k x \<in> A")
    case True
    have "length (filter P (map f xs)) \<le> length (filter P xs) + card (A - {k x})"
      using Cons.prems by (intro Cons.IH) (auto simp: image_iff)
    moreover have "Suc (card (A - {k x})) = card A"
      using True Cons.prems(3) by (simp only: card_Suc_Diff1)
    ultimately show ?thesis by simp
  next
    case False
    then show ?thesis using Cons by auto
  qed
qed simp

text \<open>The daily budget holds up to the batch being sent: after a drain that read the day's count the mails sent in the
  trailing day are no more than before it, or than the budget plus a batch less one.\<close>

theorem budget_overshoot:
  assumes db: "db = run_mail E terms cfg0 ops db0" and start: "no_mail db0" and count: "de_count_read env"
  shows "int (sent_last_24h clock (snd (drain_once terms env clock cfg db)))
    \<le> max (int (sent_last_24h clock db)) (dc_daily_budget cfg + 24)"
proof (cases "int (sent_last_24h clock db) < dc_daily_budget cfg \<and> de_claims env")
  case True
  have ok: "mail_ok (times_lost ops) db"
    unfolding db by (rule run_from_nothing [OF start])
  have "length (due_ids clock BATCH db) \<le> 25" by (simp add: due_ids_def BATCH_def)
  then have "card (set (due_ids clock BATCH db)) \<le> 25" using card_length le_trans by blast
  moreover have "sent_last_24h clock (snd (drain_once terms env clock cfg db))
      \<le> sent_last_24h clock db + card (set (due_ids clock BATCH db))"
    unfolding sent_last_24h_def drain_rows [OF ok conjunct1 [OF True] count conjunct2 [OF True]]
    by (rule length_filter_map_le [where k = dl_id]) (use ok in \<open>auto simp: mail_ok_def keys_once_def\<close>)
  ultimately show ?thesis using True by linarith
next
  case False
  with count have "snd (drain_once terms env clock cfg db) = db" by (auto simp: drain_once_def)
  then show ?thesis by simp
qed

section \<open>The confirmation throttle\<close>

fun mail_clock :: "mail_op \<Rightarrow> int option" where
  "mail_clock (M_Subscriber clock _ _ _ _ _) = Some clock"
| "mail_clock (M_SetChannel _ _ _) = None"
| "mail_clock (M_SetTopic _ _ _ _) = None"
| "mail_clock (M_Emit clock _ _ _ _ _ _ _ _ _) = Some clock"
| "mail_clock (M_Record clock _ _ _ _ _ _ _ _ _ _ _ _) = Some clock"
| "mail_clock (M_MarkRead clock _ _ _) = Some clock"
| "mail_clock (M_Anonymous clock _ _ _ _ _ _) = Some clock"
| "mail_clock (M_Confirm clock _) = Some clock"
| "mail_clock (M_Unsubscribe _ _) = None"
| "mail_clock (M_Governance clock _ _ _ _ _) = Some clock"
| "mail_clock (M_Drain clock _) = Some clock"
| "mail_clock (M_Settle clock _ _) = Some clock"

text \<open>What operations at or after a time do to subscribers: an account-less one keeps its
  address, nobody becomes unconfirmed, a confirmation's time only moves up to then or later.\<close>

definition later_row :: "int \<Rightarrow> (subscriber_row \<Rightarrow> subscriber_row) \<Rightarrow> bool" where
  "later_row t f \<longleftrightarrow> (\<forall>s. sb_user_id (f s) = sb_user_id s \<and> (sb_user_id s = None \<longrightarrow> sb_email (f s) = sb_email s)
     \<and> (sb_confirmed_at s \<noteq> None \<longrightarrow> sb_confirmed_at (f s) \<noteq> None)
     \<and> (sb_confirm_sent_at (f s) = sb_confirm_sent_at s \<or> (\<exists>u\<ge>t. sb_confirm_sent_at (f s) = Some u)))"

definition later :: "int \<Rightarrow> 'z notify_db_scheme \<Rightarrow> 'z notify_db_scheme \<Rightarrow> bool" where
  "later t db db' \<longleftrightarrow> (\<exists>f new. later_row t f \<and> db_subscribers db' = map f (db_subscribers db) @ new)"

lemma later_same: "db_subscribers db' = db_subscribers db \<Longrightarrow> later t db db'"
  unfolding later_def by (intro exI [of _ id] exI [of _ "[]"]) (simp add: later_row_def)

lemma subscribers_set: "db_subscribers (db\<lparr>db_subscribers := xs\<rparr>) = xs"
  by simp

lemma later_map: "db_subscribers db' = map f (db_subscribers db) \<Longrightarrow> later_row t f \<Longrightarrow> later t db db'"
  unfolding later_def by (intro exI [of _ f] exI [of _ "[]"]) simp

lemma later_append: "db_subscribers db' = db_subscribers db @ new \<Longrightarrow> later t db db'"
  unfolding later_def by (intro exI [of _ id] exI [of _ new]) (simp add: later_row_def)

lemma later_row_comp:
  assumes "later_row t f" and "later_row t g" shows "later_row t (g \<circ> f)"
  unfolding later_row_def
proof (intro allI conjI impI)
  fix s
  show "sb_confirm_sent_at ((g \<circ> f) s) = sb_confirm_sent_at s \<or> (\<exists>u\<ge>t. sb_confirm_sent_at ((g \<circ> f) s) = Some u)"
  proof (cases "sb_confirm_sent_at (g (f s)) = sb_confirm_sent_at (f s)")
    case True
    then show ?thesis using assms(1) by (simp add: later_row_def)
  next
    case False
    then have "\<exists>u\<ge>t. sb_confirm_sent_at (g (f s)) = Some u"
      using assms(2) unfolding later_row_def by blast
    then show ?thesis by simp
  qed
qed (use assms in \<open>simp_all add: later_row_def\<close>)

lemma later_trans:
  assumes "later t db db1" and "later t db1 db2" shows "later t db db2"
proof -
  obtain f new g new' where "later_row t f" "db_subscribers db1 = map f (db_subscribers db) @ new"
    "later_row t g" "db_subscribers db2 = map g (db_subscribers db1) @ new'"
    using assms by (auto simp: later_def)
  then have "later_row t (g \<circ> f)" "db_subscribers db2 = map (g \<circ> f) (db_subscribers db) @ (map g new @ new')"
    by (simp_all add: later_row_comp)
  then show ?thesis unfolding later_def by blast
qed

lemma upsert_later:
  assumes "upsert_subscriber E clock fresh token db i mail v = Inr (db', s)" shows "later t db db'"
proof (cases "subscriber_of db i")
  case None
  with assms show ?thesis by (auto simp: upsert_subscriber_def Let_def intro: later_append split: if_splits)
next
  case (Some s0)
  then have "db_subscribers db' = map (\<lambda>x. if sb_user_id x = Some i then x\<lparr>sb_email := mail, sb_email_verified := v\<rparr> else x)
      (db_subscribers db)"
    using assms by (auto simp: upsert_subscriber_def Let_def split: if_splits)
  then show ?thesis by (rule later_map) (simp add: later_row_def)
qed

lemma anonymous_upsert_later: "upsert_anonymous E fresh ct ut db mail = Inr (db', s) \<Longrightarrow> later t db db'"
  by (auto simp: upsert_anonymous_def Let_def intro: later_same later_append split: if_splits option.splits)

lemma topic_later: "set_topic_subscription E db sid topic on m = Inr db' \<Longrightarrow> later t db db'"
  by (auto simp: set_topic_subscription_def intro!: later_same split: if_splits option.splits)

lemma mail_subscribers:
  "insert_inbox E db n = Inr (db', r) \<Longrightarrow> db_subscribers db' = db_subscribers db"
  "queue_delivery E clock db nid sid kind recipient key payload = Inr db' \<Longrightarrow> db_subscribers db' = db_subscribers db"
  by (auto simp: insert_inbox_def queue_delivery_def Let_def split: option.splits if_splits)

lemma emit_later: "later t db (snd (emit_notification E clock fresh i topic kind title body link key at db))"
  by (rule later_same, cases rule: emit_cases [of E clock fresh i topic kind title body link key at db])
    (simp_all add: mail_subscribers)

lemma record_later: "later t db (snd (record_notification E clock fs fresh token i mail v topic kind title body key at db))"
  unfolding record_notification_def
proof (rule transact_keeps [where P = "later t db"])
  fix out db'
  assume "rbind (upsert_subscriber E clock fs token db i mail v) (\<lambda>(db, s).
     rbind (insert_inbox E db \<lparr>ib_id = fresh, ib_subscriber_id = sb_id s, ib_topic = topic, ib_kind = kind,
         ib_title = title, ib_body = body, ib_link = [], ib_dedupe_key = key,
         ib_occurred_at = at, ib_created_at = clock, ib_read_at = None\<rparr>) (\<lambda>(db, inserted).
     Inr (Inr (inserted \<noteq> None), db))) = Inr (out :: domain_error + bool, db')"
  then obtain db1 s n r where up: "upsert_subscriber E clock fs token db i mail v = Inr (db1, s)"
    and "insert_inbox E db1 n = Inr (db', r)"
    by (auto simp: rbind_Inr_iff)
  then have "db_subscribers db' = db_subscribers db1"
    by (auto simp: insert_inbox_def split: option.splits if_splits)
  with upsert_later [OF up] show "later t db db'" by (rule later_trans [OF _ later_same])
qed (simp add: later_same)

lemma confirm_mark_later:
  "t \<le> clock \<Longrightarrow> later t db (db\<lparr>db_subscribers := map (\<lambda>x. if sb_id x = sid then x\<lparr>sb_confirm_sent_at := Some clock\<rparr> else x) (db_subscribers db)\<rparr>)"
  by (rule later_map [where f = "\<lambda>x. if sb_id x = sid then x\<lparr>sb_confirm_sent_at := Some clock\<rparr> else x"])
    (auto simp: later_row_def)

lemma subscribe_later:
  assumes "t \<le> clock" shows "later t db (snd (subscribe_anonymous E clock fresh ct ut mail topic throttle db))"
  unfolding subscribe_anonymous_def
proof (rule transact_keeps [where P = "later t db"])
  let ?mark = "\<lambda>db2 s. db2\<lparr>db_subscribers := map (\<lambda>x. if sb_id x = sb_id s then x\<lparr>sb_confirm_sent_at := Some clock\<rparr> else x)
       (db_subscribers db2)\<rparr>"
  fix out db'
  assume "rbind (upsert_anonymous E fresh ct ut db mail) (\<lambda>(db, s).
     rbind (set_topic_subscription E db (sb_id s) topic True True) (\<lambda>db.
     let since_sent = (case sb_confirm_sent_at s of None \<Rightarrow> throttle + 1 | Some t \<Rightarrow> clock - t);
         should_mail = (sb_confirmed_at s = None \<and> since_sent > throttle)
     in if \<not> should_mail then Inr (Inr None, db)
        else rbind (queue_delivery E clock (?mark db s) None (Some (sb_id s)) (lit ''confirm'') mail None None) (\<lambda>db.
             Inr (Inr (map_option (\<lambda>t. (sb_id s, t)) (sb_confirm_token s)), db))))
     = Inr (out :: domain_error + (nat \<times> rstr) option, db')"
  then obtain db1 s db2 where up: "upsert_anonymous E fresh ct ut db mail = Inr (db1, s)"
    and sub: "set_topic_subscription E db1 (sb_id s) topic True True = Inr db2"
    and rest: "db' = db2 \<or> queue_delivery E clock (?mark db2 s) None (Some (sb_id s)) (lit ''confirm'') mail None None = Inr db'"
    by (auto simp: rbind_Inr_iff Let_def split: if_splits)
  have "later t db db2" using later_trans [OF anonymous_upsert_later [OF up] topic_later [OF sub]] .
  moreover have "db' = db2 \<or> later t db2 db'"
    using rest later_trans [OF confirm_mark_later [OF assms] later_same [OF mail_subscribers(2)]] by blast
  ultimately show "later t db db'" using later_trans by blast
qed (simp add: later_same)

lemma deliver_subscribers: "db_subscribers (deliver_jobs terms env clock cfg jobs db) = db_subscribers db"
  by (induction jobs arbitrary: db) (simp_all add: deliver_step)

lemma settle_later: "later t db (settle_job terms env clock cfg job db)"
  by (intro later_same) (simp add: settle_rows)

lemma drain_later: "later t db (snd (drain_once terms env clock cfg db))"
  by (intro later_same) (simp add: drain_once_def claim_due_def Let_def deliver_subscribers)

lemma mail_step_later:
  assumes "case mail_clock op of None \<Rightarrow> True | Some clock \<Rightarrow> t \<le> clock"
  shows "later t db (mail_step E terms cfg db op)"
proof (cases op)
  case (M_SetChannel sid a b)
  show ?thesis unfolding M_SetChannel mail_step.simps set_channel_enabled_def
    by (rule later_map [OF subscribers_set]) (simp add: later_row_def)
next
  case (M_Confirm clock token)
  show ?thesis unfolding M_Confirm mail_step.simps confirm_subscription_def snd_conv
    by (rule later_map [OF subscribers_set]) (simp add: later_row_def)
next
  case (M_Unsubscribe token topic)
  have "later t db (db\<lparr>db_subscribers := map (\<lambda>x. if sb_id x = sid then x\<lparr>sb_email_enabled := False\<rparr> else x) (db_subscribers db)\<rparr>)" for sid
    by (rule later_map [OF subscribers_set]) (simp add: later_row_def)
  then show ?thesis
    using M_Unsubscribe by (auto simp: unsubscribe_def intro!: later_same split: option.splits)
next
  case (M_MarkRead clock sid ids all)
  then show ?thesis by (auto simp: mark_read_def Let_def intro!: later_same)
next
  case (M_Governance clock sid recipient kind key payload)
  then show ?thesis
    by (auto simp: or_same_def rbind_def enqueue_governance_mail_def queue_delivery_def Let_def
        intro!: later_same split: sum.splits option.splits)
qed (use assms in \<open>auto simp: or_same_def rbind_def emit_later record_later subscribe_later drain_later settle_later
      intro: later_same upsert_later topic_later split: sum.splits\<close>)

lemma run_mail_later:
  "\<forall>op\<in>set ops. case mail_clock op of None \<Rightarrow> True | Some clock \<Rightarrow> t \<le> clock \<Longrightarrow> later t db (run_mail E terms cfg ops db)"
proof (induction ops rule: rev_induct)
  case (snoc op ops)
  then have "later t db (run_mail E terms cfg ops db)" by simp
  moreover have "later t (run_mail E terms cfg ops db) (mail_step E terms cfg (run_mail E terms cfg ops db) op)"
    using snoc.prems by (intro mail_step_later) simp
  ultimately have "later t db (mail_step E terms cfg (run_mail E terms cfg ops db) op)" by (rule later_trans)
  then show ?case by (simp add: run_mail_def)
qed (simp add: run_mail_def later_same)

lemma find_map_append:
  "find P xs = Some s \<Longrightarrow> (\<And>x. P (f x) = P x) \<Longrightarrow> find P (map f xs @ ys) = Some (f s)"
  by (induction xs) (auto split: if_splits)

definition anonymous_for :: "ext \<Rightarrow> rstr \<Rightarrow> subscriber_row \<Rightarrow> bool" where
  "anonymous_for E mail s \<longleftrightarrow> sb_user_id s = None \<and> pg_lower E (sb_email s) = pg_lower E mail"

definition held_back :: "ext \<Rightarrow> rstr \<Rightarrow> int \<Rightarrow> 'z notify_db_scheme \<Rightarrow> bool" where
  "held_back E mail t db \<longleftrightarrow> (\<exists>s. find (anonymous_for E mail) (db_subscribers db) = Some s
     \<and> (sb_confirmed_at s \<noteq> None \<or> (\<exists>u\<ge>t. sb_confirm_sent_at s = Some u)))"

lemma held_back_later: "later t db db' \<Longrightarrow> held_back E mail t db \<Longrightarrow> held_back E mail t db'"
proof -
  assume "later t db db'" "held_back E mail t db"
  then obtain f new s where f: "later_row t f" "db_subscribers db' = map f (db_subscribers db) @ new"
    and s: "find (anonymous_for E mail) (db_subscribers db) = Some s"
      "sb_confirmed_at s \<noteq> None \<or> (\<exists>u\<ge>t. sb_confirm_sent_at s = Some u)"
    by (auto simp: later_def held_back_def)
  have "anonymous_for E mail (f x) = anonymous_for E mail x" for x
    using f(1) by (cases "sb_user_id x") (simp_all add: anonymous_for_def later_row_def)
  then have "find (anonymous_for E mail) (db_subscribers db') = Some (f s)"
    unfolding f(2) by (rule find_map_append [OF s(1)])
  moreover have "sb_confirmed_at (f s) \<noteq> None \<or> (\<exists>u\<ge>t. sb_confirm_sent_at (f s) = Some u)"
    using f(1) s(2) unfolding later_row_def by metis
  ultimately show ?thesis by (auto simp: held_back_def)
qed

lemma anonymous_found:
  "find (\<lambda>s. sb_user_id s = None \<and> pg_lower E (sb_email s) = pg_lower E mail) = find (anonymous_for E mail)"
  by (rule arg_cong [where f = find]) (simp add: anonymous_for_def fun_eq_iff)

lemma find_append_new: "find P xs = None \<Longrightarrow> P x \<Longrightarrow> find P (xs @ [x]) = Some x"
  by (induction xs) (auto split: if_splits)

lemma topic_frame:
  "set_topic_subscription E db sid topic on m = Inr db' \<Longrightarrow> db_subscribers db' = db_subscribers db \<and> db_deliveries db' = db_deliveries db"
  by (auto simp: set_topic_subscription_def split: if_splits option.splits)

lemma held_back_silent:
  assumes "held_back E mail t db" and "clock \<le> t + throttle"
  shows "db_deliveries (snd (subscribe_anonymous E clock fresh ct ut mail topic throttle db)) = db_deliveries db"
proof -
  obtain s where s: "find (anonymous_for E mail) (db_subscribers db) = Some s"
    "sb_confirmed_at s \<noteq> None \<or> (\<exists>u\<ge>t. sb_confirm_sent_at s = Some u)"
    using assms(1) by (auto simp: held_back_def)
  have "upsert_anonymous E fresh ct ut db mail = Inr (db', s') \<Longrightarrow> db' = db \<and> s' = s" for db' s'
    using s(1) by (auto simp: upsert_anonymous_def anonymous_found split: if_splits)
  moreover have "\<not> (sb_confirmed_at s = None \<and>
      (case sb_confirm_sent_at s of None \<Rightarrow> throttle + 1 | Some u \<Rightarrow> clock - u) > throttle)"
    using s(2) assms(2) by auto
  ultimately show ?thesis
    unfolding subscribe_anonymous_def
    by (intro transact_keeps [where P = "\<lambda>db'. db_deliveries db' = db_deliveries db"])
      (auto simp: rbind_Inr_iff Let_def dest!: topic_frame split: if_splits)
qed

lemma mailed_holds_back:
  assumes "db_deliveries (snd (subscribe_anonymous E t fresh ct ut mail topic throttle db)) \<noteq> db_deliveries db"
  shows "held_back E mail t (snd (subscribe_anonymous E t fresh ct ut mail topic throttle db))"
proof -
  obtain out db' where run: "subscribe_anonymous E t fresh ct ut mail topic throttle db = (out, db')" by fastforce
  have "\<exists>db1 s db2. upsert_anonymous E fresh ct ut db mail = Inr (db1, s)
    \<and> set_topic_subscription E db1 (sb_id s) topic True True = Inr db2
    \<and> (db' = db2 \<or> queue_delivery E t (db2\<lparr>db_subscribers := map (\<lambda>x. if sb_id x = sb_id s then x\<lparr>sb_confirm_sent_at := Some t\<rparr> else x)
       (db_subscribers db2)\<rparr>) None (Some (sb_id s)) (lit ''confirm'') mail None None = Inr db')"
    using assms run
    by (auto simp: subscribe_anonymous_def transact_def rbind_Inr_iff Let_def split: sum.splits if_splits)
  then obtain db1 s db2 where up: "upsert_anonymous E fresh ct ut db mail = Inr (db1, s)"
    and sub: "set_topic_subscription E db1 (sb_id s) topic True True = Inr db2"
    and q: "db' = db2 \<or> queue_delivery E t (db2\<lparr>db_subscribers := map (\<lambda>x. if sb_id x = sb_id s then x\<lparr>sb_confirm_sent_at := Some t\<rparr> else x)
       (db_subscribers db2)\<rparr>) None (Some (sb_id s)) (lit ''confirm'') mail None None = Inr db'" by blast
  have "db_deliveries db1 = db_deliveries db" and found: "find (anonymous_for E mail) (db_subscribers db1) = Some s"
    using up by (auto simp: upsert_anonymous_def anonymous_found Let_def anonymous_for_def find_append_new
        split: if_splits option.splits)
  then have "db' \<noteq> db2" using assms run topic_frame [OF sub] by auto
  then have "db_subscribers db' = map (\<lambda>x. if sb_id x = sb_id s then x\<lparr>sb_confirm_sent_at := Some t\<rparr> else x) (db_subscribers db1) @ []"
    using q topic_frame [OF sub] by (auto dest: mail_subscribers(2))
  then have "find (anonymous_for E mail) (db_subscribers db') = Some (s\<lparr>sb_confirm_sent_at := Some t\<rparr>)"
    using find_map_append [OF found, of "\<lambda>x. if sb_id x = sb_id s then x\<lparr>sb_confirm_sent_at := Some t\<rparr> else x" "[]"]
    by (simp add: anonymous_for_def)
  then show ?thesis using run by (simp add: held_back_def)
qed

text \<open>C36. An open subscription form is no mail cannon: once a confirmation was mailed to an address at
  time t, and whatever the plane is asked to do from t on, subscribing the same address
  again (in any case, on any topic) within the throttle after t queues no mail at all.\<close>

theorem confirmation_throttled:
  assumes "db_deliveries (snd (subscribe_anonymous E t fresh ct ut mail topic throttle db)) \<noteq> db_deliveries db"
    and "db' = run_mail E terms cfg ops (snd (subscribe_anonymous E t fresh ct ut mail topic throttle db))"
    and "\<forall>op\<in>set ops. case mail_clock op of None \<Rightarrow> True | Some clock \<Rightarrow> t \<le> clock"
    and "pg_lower E mail' = pg_lower E mail" and "t' \<le> t + throttle"
  shows "db_deliveries (snd (subscribe_anonymous E t' fresh' ct' ut' mail' topic' throttle db')) = db_deliveries db'"
proof -
  have "held_back E mail t db'"
    unfolding assms(2) using mailed_holds_back [OF assms(1)] run_mail_later [OF assms(3)] held_back_later by blast
  moreover have "anonymous_for E mail' = anonymous_for E mail"
    by (simp add: anonymous_for_def fun_eq_iff assms(4))
  ultimately have "held_back E mail' t db'" by (simp add: held_back_def)
  then show ?thesis using assms(5) by (rule held_back_silent)
qed

section \<open>Concrete runs\<close>

definition plain_env :: drain_env where
  "plain_env = \<lparr>de_send = \<lambda>_. None, de_count_read = True, de_claims = True, de_lost = []\<rparr>"

definition empty_mail :: notify_db where
  "empty_mail = \<lparr>db_users = [], db_outbox = [], db_actions = [], db_passwords = [], db_identities = [], db_seat_meanings = [],
     db_subscribers = [], db_subscriptions = [], db_inbox = [], db_deliveries = [], db_delivery_serial = 0\<rparr>"

definition sample_mailer :: dispatcher_config where
  "sample_mailer = \<lparr>dc_cabinet_url = lit ''https://cabinet'', dc_public_origin = lit ''https://site/'', dc_daily_budget = 10\<rparr>"

definition sample_mail_ops :: "mail_op list" where
  "sample_mail_ops =
     [M_Anonymous 100 1 (lit ''ct'') (lit ''ut'') (lit ''ada@example.com'') (lit ''fund:quy-nhon'') 86400,
      M_Governance 100 1 (lit ''ada@example.com'') (lit ''owner_removal_self_accept'') (lit ''k'')
        (JObject [(lit ''code'', JStr (lit ''1234'')), (lit ''reason'', JStr (lit ''gone''))])]"

definition sample_queue :: "mail_op list \<Rightarrow> notify_db" where
  "sample_queue rest = run_mail ascii_ext (\<lambda>_. True) sample_mailer (sample_mail_ops @ rest) empty_mail"

lemma empty_mail_empty: "no_mail empty_mail" by (simp add: no_mail_def empty_mail_def)

lemma sample_deliveries:
  "map (\<lambda>d. (dl_id d, dl_status d, dl_attempts d)) (db_deliveries (sample_queue []))
     = [(1, lit ''pending'', 0), (2, lit ''pending'', 0)]"
  "map (\<lambda>d. (dl_status d, dl_attempts d)) (db_deliveries (sample_queue [M_Drain 100 plain_env]))
     = [(lit ''sent'', 1), (lit ''sent'', 1)]"
  "map (\<lambda>d. (dl_id d, dl_status d, dl_attempts d)) (db_deliveries (sample_queue [M_Drain 100 (plain_env\<lparr>de_lost := [2]\<rparr>)]))
     = [(1, lit ''sent'', 1), (2, lit ''pending'', 1)]"
  "map (\<lambda>d. (dl_id d, dl_status d, dl_attempts d))
      (db_deliveries (sample_queue [M_Drain 100 (plain_env\<lparr>de_lost := [2]\<rparr>), M_Drain 500 plain_env]))
     = [(1, lit ''sent'', 1), (2, lit ''sent'', 2)]"
  "sent_last_24h 100 (sample_queue []) = 0"
  "due_ids 100 BATCH (sample_queue []) = [1, 2]"
  by code_simp+

theorem drain_settles_witness:
  "\<exists>d\<in>set (db_deliveries (snd (drain_once (\<lambda>_. True) plain_env 100 sample_mailer (sample_queue [])))).
     dl_attempts d = 1"
proof -
  obtain d e where ds: "db_deliveries (sample_queue []) = [d, e]" "dl_id d = 1" "dl_attempts d = 0"
    using sample_deliveries(1) by (auto simp: map_eq_Cons_conv)
  have "d \<in> set (db_deliveries (sample_queue []))" "dl_id d \<in> set (due_ids 100 BATCH (sample_queue []))"
    "int (sent_last_24h 100 (sample_queue [])) < dc_daily_budget sample_mailer"
    "de_count_read plain_env" "de_claims plain_env" "dl_id d \<notin> set (de_lost plain_env)"
    using ds sample_deliveries(5,6) by (simp_all add: sample_mailer_def plain_env_def)
  from drain_settles [OF sample_queue_def empty_mail_empty this] show ?thesis
    using ds(3) by auto
qed


theorem mail_written_once_witness:
  "\<exists>d e. set (db_deliveries (sample_queue [])) = {d, e} \<and> dl_dedupe_key d \<noteq> dl_dedupe_key e"
proof -
  obtain d e where ds: "db_deliveries (sample_queue []) = [d, e]" "dl_id d = 1" "dl_id e = 2"
    using sample_deliveries(1) by (auto simp: map_eq_Cons_conv)
  moreover have "map dl_dedupe_key (db_deliveries (sample_queue [])) = [None, Some (lit ''k'')]" by code_simp
  ultimately show ?thesis
    using mail_written_once [OF empty_mail_empty sample_queue_def] by (intro exI [of _ d] exI [of _ e]) auto
qed

theorem budget_overshoot_witness:
  "int (sent_last_24h 100 (snd (drain_once (\<lambda>_. True) plain_env 100 sample_mailer (sample_queue [])))) \<le> 34"
  using budget_overshoot [OF sample_queue_def [of "[]"] empty_mail_empty, where clock = 100 and cfg = sample_mailer and env = plain_env] sample_deliveries(5)
  by (simp add: sample_mailer_def plain_env_def)

theorem confirmation_throttled_witness:
  "length (db_deliveries (snd (subscribe_anonymous ascii_ext 86500 2 (lit ''ct2'') (lit ''ut2'') (lit ''ADA@example.com'')
     (lit ''platform:announcements'') 86400 (snd (subscribe_anonymous ascii_ext 100 1 (lit ''ct'') (lit ''ut'')
        (lit ''ada@example.com'') (lit ''fund:quy-nhon'') 86400 empty_mail))))) = 1"
proof -
  let ?first = "snd (subscribe_anonymous ascii_ext 100 1 (lit ''ct'') (lit ''ut'') (lit ''ada@example.com'') (lit ''fund:quy-nhon'') 86400 empty_mail)"
  have one: "length (db_deliveries ?first) = 1" by code_simp
  then have grew: "db_deliveries ?first \<noteq> db_deliveries empty_mail" by (auto simp: empty_mail_def)
  have low: "pg_lower ascii_ext (lit ''ADA@example.com'') = pg_lower ascii_ext (lit ''ada@example.com'')" by code_simp
  have "db_deliveries (snd (subscribe_anonymous ascii_ext 86500 2 (lit ''ct2'') (lit ''ut2'') (lit ''ADA@example.com'')
     (lit ''platform:announcements'') 86400 ?first)) = db_deliveries ?first"
    by (rule confirmation_throttled [OF grew _ _ low, where ops = "[]"]) (simp_all add: run_mail_def)
  then show ?thesis by (simp only: one)
qed

end
