(* ===== verification/Consilium_Tables.thy ===== *)
theory Consilium_Tables
  imports Mail_Runs Proposal_Liveness
begin

text \<open>
  \<open>runner/src/infrastructure/governance.rs\<close>, the tables: the rows of the three consilia and
  of their electorates, the invitation tokens, the audit log and the revision, with the
  checks of migrations 0009 and 0015; loading an aggregate and writing it back with its
  events. The columns holding a state, a kind or a vote are the strings the database has;
  the checks that list those strings admit what \<open>as_str\<close> writes and are left out, as is the
  width of the digests, which SHA-256 gives.
\<close>

section \<open>Rows\<close>

record removal_row =
  rr_id :: removal_id
  rr_target :: user_id
  rr_initiator :: user_id
  rr_reason :: rstr
  rr_state :: rstr
  rr_owner_count :: nat
  rr_created_at :: int
  rr_expires_at :: int
  rr_decided_at :: "int option"
  rr_void_reason :: rstr
  rr_version :: nat
  rr_target_decision :: rstr
  rr_target_decided_at :: "int option"
  rr_target_notified :: bool

record admission_row =
  ar_id :: admission_id
  ar_candidate :: user_id
  ar_initiator :: user_id
  ar_reason :: rstr
  ar_state :: rstr
  ar_owner_count :: nat
  ar_created_at :: int
  ar_expires_at :: int
  ar_decided_at :: "int option"
  ar_void_reason :: rstr
  ar_version :: nat

record proposal_row =
  qr_id :: user_proposal_id
  qr_kind :: rstr
  qr_subject :: user_id
  qr_initiator :: user_id
  qr_reason :: rstr
  qr_state :: rstr
  qr_owner_count :: nat
  qr_threshold :: nat
  qr_created_at :: int
  qr_expires_at :: int
  qr_decided_at :: "int option"
  qr_void_reason :: rstr
  qr_version :: nat

record 'i peer_row =
  pw_proposal :: 'i
  pw_user_id :: user_id
  pw_vote :: rstr
  pw_voted_at :: "int option"

record token_row =
  tk_removal_id :: removal_id
  tk_token_hash :: rstr
  tk_code_hash :: rstr
  tk_attempts :: int
  tk_burned_at :: "int option"
  tk_expires_at :: int
  tk_used_at :: "int option"

datatype governance_subject =
    Subject_Removal removal_id | Subject_Admission admission_id | Subject_UserProposal user_proposal_id

record governance_row =
  gv_subject :: governance_subject
  gv_kind :: rstr
  gv_actor :: "user_id option"
  gv_version :: nat
  gv_occurred_at :: int
  gv_client_ip :: rstr
  gv_user_agent :: rstr

record consilium_db = notify_db +
  db_removals :: "removal_row list"
  db_removal_peers :: "removal_id peer_row list"
  db_admissions :: "admission_row list"
  db_admission_peers :: "admission_id peer_row list"
  db_proposals :: "proposal_row list"
  db_proposal_peers :: "user_proposal_id peer_row list"
  db_tokens :: "token_row list"
  db_governance_events :: "governance_row list"
  db_revision :: nat

record audit =
  au_client_ip :: rstr
  au_user_agent :: rstr

definition audit_default :: audit where
  "audit_default = \<lparr>au_client_ip = [], au_user_agent = []\<rparr>"

definition audit_truncated :: "audit \<Rightarrow> rstr \<times> rstr" where
  "audit_truncated a = (take 64 (au_client_ip a), take 256 (au_user_agent a))"

definition digest :: "ext \<Rightarrow> rstr \<Rightarrow> rstr" where
  "digest E raw = sha256 E raw"

definition optional_ts :: "int \<Rightarrow> int option" where
  "optional_ts value = (if value \<noteq> 0 then Some value else None)"

definition stored_ts :: "int option \<Rightarrow> int" where
  "stored_ts v = (case v of None \<Rightarrow> 0 | Some t \<Rightarrow> t)"

section \<open>Checks\<close>

definition first_broken :: "(string \<times> bool) list \<Rightarrow> string option" where
  "first_broken checks = map_option fst (find (\<lambda>c. \<not> snd c) checks)"

definition check_row :: "ext \<Rightarrow> (string \<times> bool) list \<Rightarrow> domain_error + unit" where
  "check_row E checks = (case first_broken checks of Some name \<Rightarrow> Inl (sql_error E name) | None \<Rightarrow> Inr ())"

definition user_exists :: "'z identity_db_scheme \<Rightarrow> user_id \<Rightarrow> bool" where
  "user_exists db i \<longleftrightarrow> list_ex (\<lambda>r. ur_id r = i) (db_users db)"

definition removal_checks :: "removal_row list \<Rightarrow> removal_row \<Rightarrow> (string \<times> bool) list" where
  "removal_checks others r =
     [(''owner_removal_not_self'', rr_target r \<noteq> rr_initiator r),
      (''owner_removal_reason_len'', 1 \<le> length (rr_reason r) \<and> length (rr_reason r) \<le> 500),
      (''owner_removal_void_reason_len'', length (rr_void_reason r) \<le> 200),
      (''owner_removal_floor'', 3 \<le> rr_owner_count r),
      (''owner_removal_ttl'', rr_created_at r < rr_expires_at r),
      (''owner_removal_decided'', (rr_state r = lit ''open'') = (rr_decided_at r = None)),
      (''owner_removal_target_decided'', (rr_target_decision r = lit ''pending'') = (rr_target_decided_at r = None)),
      (''owner_removal_void_reason_only_void'', rr_state r = lit ''void'' \<or> rr_void_reason r = []),
      (''owner_removal_pkey'', \<not> list_ex (\<lambda>w. rr_id w = rr_id r) others),
      (''owner_removal_open_target_idx'', rr_state r \<noteq> lit ''open''
         \<or> \<not> list_ex (\<lambda>w. rr_state w = lit ''open'' \<and> rr_target w = rr_target r) others)]"

definition removal_fkeys :: "'z identity_db_scheme \<Rightarrow> removal_row \<Rightarrow> (string \<times> bool) list" where
  "removal_fkeys db r =
     [(''owner_removal_target_user_id_fkey'', user_exists db (rr_target r)),
      (''owner_removal_initiator_user_id_fkey'', user_exists db (rr_initiator r))]"

definition admission_checks :: "admission_row list \<Rightarrow> admission_row \<Rightarrow> (string \<times> bool) list" where
  "admission_checks others a =
     [(''owner_admission_not_self'', ar_candidate a \<noteq> ar_initiator a),
      (''owner_admission_reason_len'', 1 \<le> length (ar_reason a) \<and> length (ar_reason a) \<le> 500),
      (''owner_admission_void_reason_len'', length (ar_void_reason a) \<le> 200),
      (''owner_admission_needs_a_peer'', 2 \<le> ar_owner_count a),
      (''owner_admission_ttl'', ar_created_at a < ar_expires_at a),
      (''owner_admission_decided'', (ar_state a = lit ''open'') = (ar_decided_at a = None)),
      (''owner_admission_void_reason_only_void'', ar_state a = lit ''void'' \<or> ar_void_reason a = []),
      (''owner_admission_pkey'', \<not> list_ex (\<lambda>w. ar_id w = ar_id a) others),
      (''owner_admission_open_candidate_idx'', ar_state a \<noteq> lit ''open''
         \<or> \<not> list_ex (\<lambda>w. ar_state w = lit ''open'' \<and> ar_candidate w = ar_candidate a) others)]"

definition admission_fkeys :: "'z identity_db_scheme \<Rightarrow> admission_row \<Rightarrow> (string \<times> bool) list" where
  "admission_fkeys db a =
     [(''owner_admission_candidate_user_id_fkey'', user_exists db (ar_candidate a)),
      (''owner_admission_initiator_user_id_fkey'', user_exists db (ar_initiator a))]"

definition proposal_checks :: "proposal_row list \<Rightarrow> proposal_row \<Rightarrow> (string \<times> bool) list" where
  "proposal_checks others q =
     [(''user_proposal_not_self'', qr_subject q \<noteq> qr_initiator q),
      (''user_proposal_reason_len'', 1 \<le> length (qr_reason q) \<and> length (qr_reason q) \<le> 500),
      (''user_proposal_void_reason_len'', length (qr_void_reason q) \<le> 200),
      (''user_proposal_needs_a_peer'', 2 \<le> qr_owner_count q),
      (''user_proposal_threshold'', 1 \<le> qr_threshold q \<and> qr_threshold q \<le> qr_owner_count q - 1),
      (''user_proposal_ttl'', qr_created_at q < qr_expires_at q),
      (''user_proposal_decided'', (qr_state q = lit ''open'') = (qr_decided_at q = None)),
      (''user_proposal_void_reason_only_void'', qr_state q = lit ''void'' \<or> qr_void_reason q = []),
      (''user_proposal_pkey'', \<not> list_ex (\<lambda>w. qr_id w = qr_id q) others),
      (''user_proposal_open_subject_idx'', qr_state q \<noteq> lit ''open''
         \<or> \<not> list_ex (\<lambda>w. qr_state w = lit ''open'' \<and> qr_subject w = qr_subject q \<and> qr_kind w = qr_kind q) others)]"

definition proposal_fkeys :: "'z identity_db_scheme \<Rightarrow> proposal_row \<Rightarrow> (string \<times> bool) list" where
  "proposal_fkeys db q =
     [(''user_proposal_subject_user_id_fkey'', user_exists db (qr_subject q)),
      (''user_proposal_initiator_user_id_fkey'', user_exists db (qr_initiator q))]"

definition token_checks :: "token_row list \<Rightarrow> token_row \<Rightarrow> (string \<times> bool) list" where
  "token_checks others k =
     [(''owner_removal_token_attempts'', 0 \<le> tk_attempts k \<and> tk_attempts k \<le> 5),
      (''owner_removal_token_burn'', tk_burned_at k = None \<or> 5 \<le> tk_attempts k),
      (''owner_removal_token_pkey'', \<not> list_ex (\<lambda>w. tk_removal_id w = tk_removal_id k) others),
      (''owner_removal_token_hash_idx'', \<not> list_ex (\<lambda>w. tk_token_hash w = tk_token_hash k) others)]"

definition peer_checks :: "rstr \<Rightarrow> int option \<Rightarrow> (string \<times> bool) list" where
  "peer_checks v voted_at = [(''peer_voted'', (v = lit ''pending'') = (voted_at = None))]"

section \<open>Electorates\<close>

definition load_peers_of :: "(rstr \<Rightarrow> domain_error + 'v) \<Rightarrow> 'i peer_row list \<Rightarrow> 'i \<Rightarrow> domain_error + 'v peer list" where
  "load_peers_of parse rows i =
     traverse (\<lambda>r. rbind (parse (pw_vote r)) (\<lambda>v.
         Inr \<lparr>p_user_id = pw_user_id r, p_vote = v, p_voted_at = stored_ts (pw_voted_at r)\<rparr>))
       (sort_key pw_user_id (filter (\<lambda>r. pw_proposal r = i) rows))"

fun save_peers ::
  "ext \<Rightarrow> ('v \<Rightarrow> rstr) \<Rightarrow> ('v peer \<Rightarrow> int option) \<Rightarrow> 'i \<Rightarrow> 'v peer list \<Rightarrow> 'i peer_row list \<Rightarrow> domain_error + 'i peer_row list" where
  "save_peers E as_str stamp i [] rows = Inr rows"
| "save_peers E as_str stamp i (p # ps) rows =
     rbind (if list_ex (\<lambda>r. pw_proposal r = i \<and> pw_user_id r = p_user_id p) rows
            then check_row E (peer_checks (as_str (p_vote p)) (stamp p)) else Inr ()) (\<lambda>_.
     save_peers E as_str stamp i ps
       (map (\<lambda>r. if pw_proposal r = i \<and> pw_user_id r = p_user_id p
             then r\<lparr>pw_vote := as_str (p_vote p), pw_voted_at := stamp p\<rparr> else r) rows))"

definition new_peers :: "'i \<Rightarrow> 'v peer list \<Rightarrow> 'i peer_row list" where
  "new_peers i ps = map (\<lambda>p. \<lparr>pw_proposal = i, pw_user_id = p_user_id p, pw_vote = lit ''pending'', pw_voted_at = None\<rparr>) ps"

section \<open>The audit log and the revision\<close>

definition insert_events ::
  "'z consilium_db_scheme \<Rightarrow> governance_subject \<Rightarrow> nat \<Rightarrow> governance_event list \<Rightarrow> user_id option \<Rightarrow> audit \<Rightarrow> int
     \<Rightarrow> 'z consilium_db_scheme" where
  "insert_events db subject version events actor audit now =
     (let (client_ip, user_agent) = audit_truncated audit; count = length events
      in db\<lparr>db_governance_events := db_governance_events db @
           map (\<lambda>(i, event). \<lparr>gv_subject = subject, gv_kind = governance_event_kind event, gv_actor = actor,
               gv_version = version - (count - 1 - i), gv_occurred_at = now, gv_client_ip = client_ip, gv_user_agent = user_agent\<rparr>)
             (enumerate 0 events)\<rparr>)"

definition lock_governance :: "'z consilium_db_scheme \<Rightarrow> 'z consilium_db_scheme" where
  "lock_governance db = db\<lparr>db_revision := db_revision db + 1\<rparr>"

definition owner_ids_for_update :: "'z identity_db_scheme \<Rightarrow> user_id list" where
  "owner_ids_for_update db = sort (map ur_id (filter (\<lambda>r. ur_role r = lit ''owner'') (db_users db)))"

section \<open>Removals\<close>

definition rehydrate_removal :: "removal_row \<Rightarrow> removal_peer list \<Rightarrow> domain_error + owner_removal" where
  "rehydrate_removal row peers =
     rbind (proposal_state_parse (rr_state row)) (\<lambda>st.
     rbind (vote_parse (rr_target_decision row)) (\<lambda>decision.
     Inr (removal_rehydrate (rr_id row) (rr_target row) (rr_initiator row) (rr_reason row) st (rr_owner_count row) peers
       decision (stored_ts (rr_target_decided_at row)) (rr_target_notified row) (rr_created_at row) (rr_expires_at row)
       (stored_ts (rr_decided_at row)) (rr_void_reason row) (rr_version row))))"

definition load_removal :: "ext \<Rightarrow> 'z consilium_db_scheme \<Rightarrow> removal_id \<Rightarrow> domain_error + owner_removal" where
  "load_removal E db i =
     (case find (\<lambda>r. rr_id r = i) (db_removals db) of
        None \<Rightarrow> Inl (NotFound (lit ''owner removal'') (uuid_text E (rid_raw i)))
      | Some row \<Rightarrow> rbind (load_peers_of vote_parse (db_removal_peers db) i) (rehydrate_removal row))"

definition removal_columns :: "owner_removal \<Rightarrow> removal_row \<Rightarrow> removal_row" where
  "removal_columns r row =
     row\<lparr>rr_state := proposal_state_as_str (removal_state r), rr_decided_at := optional_ts (lc_decided_at (rm_life r)),
         rr_void_reason := lc_void_reason (rm_life r), rr_version := lc_version (rm_life r),
         rr_target_decision := vote_as_str (rm_decision r), rr_target_decided_at := optional_ts (rm_decided_as_target_at r),
         rr_target_notified := rm_target_notified r\<rparr>"

definition update_removal :: "ext \<Rightarrow> 'z consilium_db_scheme \<Rightarrow> owner_removal \<Rightarrow> domain_error + 'z consilium_db_scheme" where
  "update_removal E db r =
     (case find (\<lambda>w. rr_id w = rm_id r) (db_removals db) of
        None \<Rightarrow> Inr db
      | Some row \<Rightarrow>
          rbind (check_row E (removal_checks (filter (\<lambda>w. rr_id w \<noteq> rm_id r) (db_removals db)) (removal_columns r row))) (\<lambda>_.
          Inr (db\<lparr>db_removals := map (\<lambda>w. if rr_id w = rm_id r then removal_columns r w else w) (db_removals db)\<rparr>)))"

definition persist_removal ::
  "ext \<Rightarrow> 'z consilium_db_scheme \<Rightarrow> owner_removal \<Rightarrow> user_id option \<Rightarrow> audit \<Rightarrow> int
     \<Rightarrow> domain_error + ('z consilium_db_scheme \<times> owner_removal)" where
  "persist_removal E db r actor audit now =
     rbind (update_removal E db r) (\<lambda>db.
     rbind (save_peers E vote_as_str (\<lambda>p. optional_ts (p_voted_at p)) (rm_id r) (rm_peers r) (db_removal_peers db)) (\<lambda>peers.
     let (events, r') = removal_drain_events r
     in Inr (insert_events (db\<lparr>db_removal_peers := peers\<rparr>) (Subject_Removal (rm_id r)) (lc_version (rm_life r)) events actor audit now, r')))"

definition removal_row_of :: "owner_removal \<Rightarrow> removal_row" where
  "removal_row_of r =
     \<lparr>rr_id = rm_id r, rr_target = rm_target r, rr_initiator = rm_initiator r, rr_reason = rm_reason r,
      rr_state = proposal_state_as_str (removal_state r), rr_owner_count = rm_owner_count r,
      rr_created_at = lc_created_at (rm_life r), rr_expires_at = lc_expires_at (rm_life r), rr_decided_at = None,
      rr_void_reason = [], rr_version = lc_version (rm_life r), rr_target_decision = lit ''pending'',
      rr_target_decided_at = None, rr_target_notified = False\<rparr>"

definition insert_removal :: "ext \<Rightarrow> 'z consilium_db_scheme \<Rightarrow> owner_removal \<Rightarrow> domain_error + 'z consilium_db_scheme" where
  "insert_removal E db r =
     rbind (check_row E (removal_checks (db_removals db) (removal_row_of r) @ removal_fkeys db (removal_row_of r))) (\<lambda>_.
     Inr (db\<lparr>db_removals := db_removals db @ [removal_row_of r],
             db_removal_peers := db_removal_peers db @ new_peers (rm_id r) (rm_peers r)\<rparr>))"

section \<open>Admissions\<close>

definition rehydrate_admission :: "admission_row \<Rightarrow> admission_peer list \<Rightarrow> domain_error + owner_admission" where
  "rehydrate_admission row peers =
     rbind (proposal_state_parse (ar_state row)) (\<lambda>st.
     Inr (admission_rehydrate (ar_id row) (ar_candidate row) (ar_initiator row) (ar_reason row) st (ar_owner_count row) peers
       (ar_created_at row) (ar_expires_at row) (stored_ts (ar_decided_at row)) (ar_void_reason row) (ar_version row)))"

definition load_admission :: "ext \<Rightarrow> 'z consilium_db_scheme \<Rightarrow> admission_id \<Rightarrow> domain_error + owner_admission" where
  "load_admission E db i =
     (case find (\<lambda>r. ar_id r = i) (db_admissions db) of
        None \<Rightarrow> Inl (NotFound (lit ''owner admission'') (uuid_text E (aid_raw i)))
      | Some row \<Rightarrow> rbind (load_peers_of admission_vote_parse (db_admission_peers db) i) (rehydrate_admission row))"

definition admission_columns :: "owner_admission \<Rightarrow> admission_row \<Rightarrow> admission_row" where
  "admission_columns a row =
     row\<lparr>ar_state := proposal_state_as_str (admission_state a), ar_decided_at := optional_ts (lc_decided_at (ad_life a)),
         ar_void_reason := lc_void_reason (ad_life a), ar_version := lc_version (ad_life a)\<rparr>"

definition update_admission :: "ext \<Rightarrow> 'z consilium_db_scheme \<Rightarrow> owner_admission \<Rightarrow> domain_error + 'z consilium_db_scheme" where
  "update_admission E db a =
     (case find (\<lambda>w. ar_id w = ad_id a) (db_admissions db) of
        None \<Rightarrow> Inr db
      | Some row \<Rightarrow>
          rbind (check_row E (admission_checks (filter (\<lambda>w. ar_id w \<noteq> ad_id a) (db_admissions db)) (admission_columns a row))) (\<lambda>_.
          Inr (db\<lparr>db_admissions := map (\<lambda>w. if ar_id w = ad_id a then admission_columns a w else w) (db_admissions db)\<rparr>)))"

definition persist_admission ::
  "ext \<Rightarrow> 'z consilium_db_scheme \<Rightarrow> owner_admission \<Rightarrow> user_id option \<Rightarrow> audit \<Rightarrow> int
     \<Rightarrow> domain_error + ('z consilium_db_scheme \<times> owner_admission)" where
  "persist_admission E db a actor audit now =
     rbind (update_admission E db a) (\<lambda>db.
     rbind (save_peers E admission_vote_as_str (\<lambda>p. optional_ts (p_voted_at p)) (ad_id a) (ad_peers a) (db_admission_peers db)) (\<lambda>peers.
     let (events, a') = admission_drain_events a
     in Inr (insert_events (db\<lparr>db_admission_peers := peers\<rparr>) (Subject_Admission (ad_id a)) (lc_version (ad_life a)) events actor audit now, a')))"

definition admission_row_of :: "owner_admission \<Rightarrow> admission_row" where
  "admission_row_of a =
     \<lparr>ar_id = ad_id a, ar_candidate = ad_candidate a, ar_initiator = ad_initiator a, ar_reason = ad_reason a,
      ar_state = proposal_state_as_str (admission_state a), ar_owner_count = ad_owner_count a,
      ar_created_at = lc_created_at (ad_life a), ar_expires_at = lc_expires_at (ad_life a), ar_decided_at = None,
      ar_void_reason = [], ar_version = lc_version (ad_life a)\<rparr>"

definition insert_admission :: "ext \<Rightarrow> 'z consilium_db_scheme \<Rightarrow> owner_admission \<Rightarrow> domain_error + 'z consilium_db_scheme" where
  "insert_admission E db a =
     rbind (check_row E (admission_checks (db_admissions db) (admission_row_of a) @ admission_fkeys db (admission_row_of a))) (\<lambda>_.
     Inr (db\<lparr>db_admissions := db_admissions db @ [admission_row_of a],
             db_admission_peers := db_admission_peers db @ new_peers (ad_id a) (ad_peers a)\<rparr>))"

section \<open>User proposals\<close>

definition rehydrate_proposal :: "proposal_row \<Rightarrow> proposal_peer list \<Rightarrow> domain_error + user_proposal" where
  "rehydrate_proposal row peers =
     rbind (user_proposal_kind_parse (qr_kind row)) (\<lambda>kind.
     rbind (proposal_state_parse (qr_state row)) (\<lambda>st.
     Inr (proposal_rehydrate (qr_id row) kind (qr_subject row) (qr_initiator row) (qr_reason row) st (qr_owner_count row)
       (qr_threshold row) peers (qr_created_at row) (qr_expires_at row) (stored_ts (qr_decided_at row)) (qr_void_reason row) (qr_version row))))"

definition load_proposal :: "ext \<Rightarrow> 'z consilium_db_scheme \<Rightarrow> user_proposal_id \<Rightarrow> domain_error + user_proposal" where
  "load_proposal E db i =
     (case find (\<lambda>r. qr_id r = i) (db_proposals db) of
        None \<Rightarrow> Inl (NotFound (lit ''user proposal'') (uuid_text E (pid_raw i)))
      | Some row \<Rightarrow> rbind (load_peers_of proposal_vote_parse (db_proposal_peers db) i) (rehydrate_proposal row))"

definition proposal_columns :: "user_proposal \<Rightarrow> proposal_row \<Rightarrow> proposal_row" where
  "proposal_columns p row =
     row\<lparr>qr_state := proposal_state_as_str (up_state p),
         qr_decided_at := (if is_open (up_state p) then None else Some (lc_decided_at (pr_life p))),
         qr_void_reason := lc_void_reason (pr_life p), qr_version := lc_version (pr_life p)\<rparr>"

definition update_proposal :: "ext \<Rightarrow> 'z consilium_db_scheme \<Rightarrow> user_proposal \<Rightarrow> domain_error + 'z consilium_db_scheme" where
  "update_proposal E db p =
     (case find (\<lambda>w. qr_id w = pr_id p) (db_proposals db) of
        None \<Rightarrow> Inr db
      | Some row \<Rightarrow>
          rbind (check_row E (proposal_checks (filter (\<lambda>w. qr_id w \<noteq> pr_id p) (db_proposals db)) (proposal_columns p row))) (\<lambda>_.
          Inr (db\<lparr>db_proposals := map (\<lambda>w. if qr_id w = pr_id p then proposal_columns p w else w) (db_proposals db)\<rparr>)))"

definition persist_proposal ::
  "ext \<Rightarrow> 'z consilium_db_scheme \<Rightarrow> user_proposal \<Rightarrow> user_id option \<Rightarrow> audit \<Rightarrow> int
     \<Rightarrow> domain_error + ('z consilium_db_scheme \<times> user_proposal)" where
  "persist_proposal E db p actor audit now =
     rbind (update_proposal E db p) (\<lambda>db.
     rbind (save_peers E proposal_vote_as_str (\<lambda>q. if proposal_vote_is_cast (p_vote q) then Some (p_voted_at q) else None)
         (pr_id p) (pr_peers p) (db_proposal_peers db)) (\<lambda>peers.
     let (events, p') = proposal_drain_events p
     in Inr (insert_events (db\<lparr>db_proposal_peers := peers\<rparr>) (Subject_UserProposal (pr_id p)) (lc_version (pr_life p)) events actor audit now, p')))"

definition proposal_row_of :: "user_proposal \<Rightarrow> proposal_row" where
  "proposal_row_of p =
     \<lparr>qr_id = pr_id p, qr_kind = user_proposal_kind_as_str (pr_kind p), qr_subject = pr_subject p, qr_initiator = pr_initiator p,
      qr_reason = pr_reason p, qr_state = proposal_state_as_str (up_state p), qr_owner_count = pr_owner_count p,
      qr_threshold = pr_threshold p, qr_created_at = lc_created_at (pr_life p), qr_expires_at = lc_expires_at (pr_life p),
      qr_decided_at = None, qr_void_reason = [], qr_version = lc_version (pr_life p)\<rparr>"

definition insert_proposal :: "ext \<Rightarrow> 'z consilium_db_scheme \<Rightarrow> user_proposal \<Rightarrow> domain_error + 'z consilium_db_scheme" where
  "insert_proposal E db p =
     rbind (check_row E (proposal_checks (db_proposals db) (proposal_row_of p) @ proposal_fkeys db (proposal_row_of p))) (\<lambda>_.
     Inr (db\<lparr>db_proposals := db_proposals db @ [proposal_row_of p],
             db_proposal_peers := db_proposal_peers db @ new_peers (pr_id p) (pr_peers p)\<rparr>))"

end
