(* ===== verification/Consilium_Store.thy ===== *)
theory Consilium_Store
  imports Consilium_Tables
begin

text \<open>
  \<open>runner/src/infrastructure/governance.rs\<close>, the operations: settling a verdict together
  with its consequence on the directory, and the methods of \<open>PgGovernance\<close>. Every write is
  one transaction that opens with \<open>lock_governance\<close>, so transactions follow one another;
  what a method reads after its commit it reads of the committed tables. Identifiers, tokens
  and random bytes drawn by the code are arguments. Ties of \<open>ORDER BY created_at DESC\<close>,
  which SQL leaves open, come in table order.
\<close>

section \<open>Records the surfaces read\<close>

record 'a consilium_record =
  cr_proposal :: 'a
  cr_state :: proposal_state
  cr_subject_email :: rstr
  cr_initiator_email :: rstr
  cr_peer_emails :: "rstr list"

type_synonym removal_record = "owner_removal consilium_record"
type_synonym admission_record = "owner_admission consilium_record"
type_synonym user_proposal_record = "user_proposal consilium_record"

record invitation_record =
  ir_removal_id :: removal_id
  ir_state :: proposal_state
  ir_initiator_email :: rstr
  ir_target_email :: rstr
  ir_reason :: rstr
  ir_created_at :: int
  ir_expires_at :: int
  ir_decision :: vote
  ir_attempts_remaining :: nat

datatype self_answer = Unusable | WrongCode nat | Decided invitation_record

record owner_row =
  ow_id :: user_id
  ow_email :: "rstr option"
  ow_email_verified :: bool
  ow_display_name :: "rstr option"
  ow_owner_since :: int

definition effective_state :: "proposal_state \<Rightarrow> int \<Rightarrow> int \<Rightarrow> proposal_state" where
  "effective_state stored expires_at now = (if is_open stored \<and> expires_at \<le> now then proposal_state.Expired else stored)"

text \<open>Joins with the users table: the address a surface shows, None for no such user.\<close>

definition email_of :: "'z identity_db_scheme \<Rightarrow> user_id \<Rightarrow> rstr option" where
  "email_of db i = map_option (\<lambda>r. case ur_email r of None \<Rightarrow> [] | Some m \<Rightarrow> m) (find (\<lambda>r. ur_id r = i) (db_users db))"

definition peers_with_emails ::
  "(rstr \<Rightarrow> domain_error + 'v) \<Rightarrow> 'z identity_db_scheme \<Rightarrow> 'i peer_row list \<Rightarrow> 'i
     \<Rightarrow> domain_error + ('v peer list \<times> rstr list)" where
  "peers_with_emails parse db rows i =
     (let joined = filter (\<lambda>r. email_of db (pw_user_id r) \<noteq> None) rows
      in rbind (load_peers_of parse joined i) (\<lambda>peers.
         Inr (peers, map (\<lambda>p. case email_of db (p_user_id p) of None \<Rightarrow> [] | Some m \<Rightarrow> m) peers)))"

definition newest :: "('r \<Rightarrow> int) \<Rightarrow> int \<Rightarrow> 'r list \<Rightarrow> 'r list" where
  "newest created_at limit rows = take (nat limit) (sort_key (\<lambda>r. - created_at r) rows)"

section \<open>Seats\<close>

definition set_seat ::
  "ext \<Rightarrow> int \<Rightarrow> role \<Rightarrow> 'z identity_db_scheme \<Rightarrow> user_id \<Rightarrow> domain_error + 'z identity_db_scheme" where
  "set_seat E clock seat db i =
     rbind (load_for_update E db i) (\<lambda>u.
     rbind (save_user E clock db (user_set_role u seat)) (\<lambda>(db, u). Inr db))"

definition take_seat :: "ext \<Rightarrow> int \<Rightarrow> 'z identity_db_scheme \<Rightarrow> user_id \<Rightarrow> domain_error + 'z identity_db_scheme" where
  "take_seat E clock db target = set_seat E clock Investor db target"

definition grant_seat :: "ext \<Rightarrow> int \<Rightarrow> 'z identity_db_scheme \<Rightarrow> user_id \<Rightarrow> domain_error + 'z identity_db_scheme" where
  "grant_seat E clock db candidate = set_seat E clock Owner db candidate"

section \<open>Settling\<close>

definition settle ::
  "ext \<Rightarrow> int \<Rightarrow> 'z consilium_db_scheme \<Rightarrow> owner_removal \<Rightarrow> int \<Rightarrow> domain_error + ('z consilium_db_scheme \<times> owner_removal)" where
  "settle E clock db r now =
     (if \<not> is_open (removal_state r) \<or> removal_outcome r \<noteq> Passes then Inr (db, r)
      else rbind (removal_execute r (owner_ids_for_update db) now) (\<lambda>(r, st).
        if st = proposal_state.Executed
        then rbind (take_seat E clock db (rm_target r)) (\<lambda>db. Inr (db, r))
        else Inr (db, r)))"

definition lost_seats :: rstr where
  "lost_seats = lit ''the owners who carried this no longer hold their seats''"

definition settle_admission ::
  "ext \<Rightarrow> int \<Rightarrow> 'z consilium_db_scheme \<Rightarrow> owner_admission \<Rightarrow> int \<Rightarrow> domain_error + ('z consilium_db_scheme \<times> owner_admission)" where
  "settle_admission E clock db a now =
     (if \<not> is_open (admission_state a) \<or> admission_outcome a \<noteq> Passes then Inr (db, a)
      else
        let owners = owner_ids_for_update db in
        if admission_outcome_among a owners \<noteq> Passes
        then rbind (admission_void a lost_seats now) (\<lambda>a. Inr (db, a))
        else rbind (admission_execute a owners now) (\<lambda>(a, st).
          if st = proposal_state.Executed
          then rbind (grant_seat E clock db (ad_candidate a)) (\<lambda>db. Inr (db, a))
          else Inr (db, a)))"

definition inapplicable :: "user \<Rightarrow> user_proposal_kind \<Rightarrow> rstr option" where
  "inapplicable subject kind =
     (case kind of
        Suspension \<Rightarrow> None
      | Reinstatement \<Rightarrow>
          (if (case us_suspension subject of None \<Rightarrow> False | Some by_whom \<Rightarrow> \<not> is_reversible_by_one_admin by_whom)
           then None else Some (lit ''the account is no longer suspended by the consilium''))
      | AdminAdmission \<Rightarrow>
          (case us_role subject of
             Owner \<Rightarrow> Some (lit ''the subject holds an owner seat, which outranks admin'')
           | Admin \<Rightarrow> Some (lit ''the subject already holds the admin role'')
           | Investor \<Rightarrow> None
           | Operator \<Rightarrow> None))"

definition apply_effect :: "user_proposal_kind \<Rightarrow> user \<Rightarrow> int \<Rightarrow> user \<times> rstr" where
  "apply_effect kind subject now =
     (case kind of
        Suspension \<Rightarrow> (user_suspend subject, lit ''suspended_by_consilium'')
      | Reinstatement \<Rightarrow> (user_enable subject now, lit ''reinstated_by_consilium'')
      | AdminAdmission \<Rightarrow> (user_set_role subject Admin, lit ''admin_granted_by_consilium''))"

definition settle_proposal ::
  "ext \<Rightarrow> int \<Rightarrow> 'z consilium_db_scheme \<Rightarrow> user_proposal \<Rightarrow> int \<Rightarrow> domain_error + ('z consilium_db_scheme \<times> user_proposal)" where
  "settle_proposal E clock db p now =
     (if \<not> is_open (up_state p) \<or> proposal_outcome p \<noteq> Passes then Inr (db, p)
      else
        let owners = owner_ids_for_update db in
        if proposal_outcome_among p owners \<noteq> Passes
        then rbind (proposal_void p lost_seats now) (\<lambda>p. Inr (db, p))
        else rbind (load_for_update E db (pr_subject p)) (\<lambda>subject.
          case inapplicable subject (pr_kind p) of
            Some blocked \<Rightarrow> rbind (proposal_void p blocked now) (\<lambda>p. Inr (db, p))
          | None \<Rightarrow> rbind (proposal_execute p owners now) (\<lambda>(p, st).
              if st \<noteq> proposal_state.Executed then Inr (db, p)
              else
                let (subject, action) = apply_effect (pr_kind p) subject now in
                rbind (save_user E clock db subject) (\<lambda>(db, subject).
                Inr (record_action db (pr_subject p)
                  (with_proposal (with_reason (action_system action) (pr_reason p)) (pr_id p)) now, p)))))"

section \<open>Lazy expiry\<close>

definition expire_if_due :: "owner_removal \<Rightarrow> int \<Rightarrow> bool \<times> owner_removal" where
  "expire_if_due r now =
     (if is_open (removal_state r) \<and> lc_expires_at (rm_life r) \<le> now
      then (case removal_expire r now of Inl e \<Rightarrow> (False, r) | Inr r' \<Rightarrow> (True, r'))
      else (False, r))"

definition expire_admission_if_due :: "owner_admission \<Rightarrow> int \<Rightarrow> bool \<times> owner_admission" where
  "expire_admission_if_due a now =
     (if is_open (admission_state a) \<and> lc_expires_at (ad_life a) \<le> now
      then (case admission_expire a now of Inl e \<Rightarrow> (False, a) | Inr a' \<Rightarrow> (True, a'))
      else (False, a))"

definition expire_proposal_if_due :: "user_proposal \<Rightarrow> int \<Rightarrow> bool \<times> user_proposal" where
  "expire_proposal_if_due p now =
     (if is_open (up_state p) \<and> lc_expires_at (pr_life p) \<le> now
      then (case proposal_expire p now of Inl e \<Rightarrow> (False, p) | Inr p' \<Rightarrow> (True, p'))
      else (False, p))"

section \<open>Reading\<close>

definition removal_record_of ::
  "ext \<Rightarrow> 'z consilium_db_scheme \<Rightarrow> int \<Rightarrow> removal_row \<Rightarrow> rstr \<Rightarrow> rstr \<Rightarrow> domain_error + removal_record" where
  "removal_record_of E db now row target_email initiator_email =
     rbind (peers_with_emails vote_parse db (db_removal_peers db) (rr_id row)) (\<lambda>(peers, emails).
     rbind (rehydrate_removal row peers) (\<lambda>r.
     Inr \<lparr>cr_proposal = r, cr_state = effective_state (removal_state r) (lc_expires_at (rm_life r)) now,
          cr_subject_email = target_email, cr_initiator_email = initiator_email, cr_peer_emails = emails\<rparr>))"

definition admission_record_of ::
  "ext \<Rightarrow> 'z consilium_db_scheme \<Rightarrow> int \<Rightarrow> admission_row \<Rightarrow> rstr \<Rightarrow> rstr \<Rightarrow> domain_error + admission_record" where
  "admission_record_of E db now row candidate_email initiator_email =
     rbind (peers_with_emails admission_vote_parse db (db_admission_peers db) (ar_id row)) (\<lambda>(peers, emails).
     rbind (rehydrate_admission row peers) (\<lambda>a.
     Inr \<lparr>cr_proposal = a, cr_state = effective_state (admission_state a) (lc_expires_at (ad_life a)) now,
          cr_subject_email = candidate_email, cr_initiator_email = initiator_email, cr_peer_emails = emails\<rparr>))"

definition proposal_record_of ::
  "ext \<Rightarrow> 'z consilium_db_scheme \<Rightarrow> int \<Rightarrow> proposal_row \<Rightarrow> rstr \<Rightarrow> rstr \<Rightarrow> domain_error + user_proposal_record" where
  "proposal_record_of E db now row subject_email initiator_email =
     rbind (peers_with_emails proposal_vote_parse db (db_proposal_peers db) (qr_id row)) (\<lambda>(peers, emails).
     rbind (rehydrate_proposal row peers) (\<lambda>p.
     Inr \<lparr>cr_proposal = p, cr_state = effective_state (up_state p) (lc_expires_at (pr_life p)) now,
          cr_subject_email = subject_email, cr_initiator_email = initiator_email, cr_peer_emails = emails\<rparr>))"

definition find_removal ::
  "ext \<Rightarrow> 'z consilium_db_scheme \<Rightarrow> removal_id \<Rightarrow> int \<Rightarrow> domain_error + removal_record option" where
  "find_removal E db i now =
     (case find (\<lambda>r. rr_id r = i) (db_removals db) of
        None \<Rightarrow> Inr None
      | Some row \<Rightarrow>
          (case (email_of db (rr_target row), email_of db (rr_initiator row)) of
             (Some t, Some n) \<Rightarrow> rbind (removal_record_of E db now row t n) (\<lambda>x. Inr (Some x))
           | _ \<Rightarrow> Inr None))"

definition find_admission ::
  "ext \<Rightarrow> 'z consilium_db_scheme \<Rightarrow> admission_id \<Rightarrow> int \<Rightarrow> domain_error + admission_record option" where
  "find_admission E db i now =
     (case find (\<lambda>r. ar_id r = i) (db_admissions db) of
        None \<Rightarrow> Inr None
      | Some row \<Rightarrow>
          (case (email_of db (ar_candidate row), email_of db (ar_initiator row)) of
             (Some c, Some n) \<Rightarrow> rbind (admission_record_of E db now row c n) (\<lambda>x. Inr (Some x))
           | _ \<Rightarrow> Inr None))"

definition find_user_proposal ::
  "ext \<Rightarrow> 'z consilium_db_scheme \<Rightarrow> user_proposal_id \<Rightarrow> int \<Rightarrow> domain_error + user_proposal_record option" where
  "find_user_proposal E db i now =
     (case find (\<lambda>r. qr_id r = i) (db_proposals db) of
        None \<Rightarrow> Inr None
      | Some row \<Rightarrow>
          (case (email_of db (qr_subject row), email_of db (qr_initiator row)) of
             (Some s, Some n) \<Rightarrow> rbind (proposal_record_of E db now row s n) (\<lambda>x. Inr (Some x))
           | _ \<Rightarrow> Inr None))"

definition list_removals ::
  "ext \<Rightarrow> 'z consilium_db_scheme \<Rightarrow> int \<Rightarrow> int \<Rightarrow> domain_error + removal_record list" where
  "list_removals E db limit now =
     (if limit < 0 then Inl (sql_error E ''LIMIT must not be negative'')
      else traverse (\<lambda>(row, t, n). removal_record_of E db now row t n)
        (List.map_filter (\<lambda>row. case (email_of db (rr_target row), email_of db (rr_initiator row)) of
             (Some t, Some n) \<Rightarrow> Some (row, t, n) | _ \<Rightarrow> None)
          (newest rr_created_at limit (filter (\<lambda>row. email_of db (rr_target row) \<noteq> None \<and> email_of db (rr_initiator row) \<noteq> None)
            (db_removals db)))))"

definition list_admissions ::
  "ext \<Rightarrow> 'z consilium_db_scheme \<Rightarrow> int \<Rightarrow> int \<Rightarrow> domain_error + admission_record list" where
  "list_admissions E db limit now =
     (if limit < 0 then Inl (sql_error E ''LIMIT must not be negative'')
      else traverse (\<lambda>(row, c, n). admission_record_of E db now row c n)
        (List.map_filter (\<lambda>row. case (email_of db (ar_candidate row), email_of db (ar_initiator row)) of
             (Some c, Some n) \<Rightarrow> Some (row, c, n) | _ \<Rightarrow> None)
          (newest ar_created_at limit (filter (\<lambda>row. email_of db (ar_candidate row) \<noteq> None \<and> email_of db (ar_initiator row) \<noteq> None)
            (db_admissions db)))))"

definition list_user_proposals ::
  "ext \<Rightarrow> 'z consilium_db_scheme \<Rightarrow> user_proposal_kind option \<Rightarrow> int \<Rightarrow> int \<Rightarrow> domain_error + user_proposal_record list" where
  "list_user_proposals E db kind limit now =
     (let wanted = (case kind of None \<Rightarrow> [] | Some k \<Rightarrow> user_proposal_kind_as_str k)
      in if limit < 0 then Inl (sql_error E ''LIMIT must not be negative'')
      else traverse (\<lambda>(row, s, n). proposal_record_of E db now row s n)
        (List.map_filter (\<lambda>row. case (email_of db (qr_subject row), email_of db (qr_initiator row)) of
             (Some s, Some n) \<Rightarrow> Some (row, s, n) | _ \<Rightarrow> None)
          (newest qr_created_at limit (filter (\<lambda>row. email_of db (qr_subject row) \<noteq> None \<and> email_of db (qr_initiator row) \<noteq> None
              \<and> (wanted = [] \<or> qr_kind row = wanted)) (db_proposals db)))))"

text \<open>The roster; \<open>created\<close> reads \<open>users.created_at\<close>, a column nothing else here uses.\<close>

definition owner_row_of :: "(user_id \<Rightarrow> int) \<Rightarrow> 'z identity_db_scheme \<Rightarrow> user_row \<Rightarrow> owner_row" where
  "owner_row_of created db u =
     (let since = map ob_occurred_at (filter (\<lambda>o'. ob_user_id o' = ur_id u \<and> ob_kind o' = lit ''ROLE_CHANGED''
                    \<and> ob_role o' = lit ''owner'') (db_outbox db));
          preferred = preferred_name (ur_profile u)
      in \<lparr>ow_id = ur_id u, ow_email = ur_email u, ow_email_verified = ur_email_verified u,
          ow_display_name = (if preferred = None \<or> preferred = Some [] then legal_name (ur_profile u) else preferred),
          ow_owner_since = (if since = [] then created (ur_id u) else Max (set since))\<rparr>)"

definition list_owners :: "(user_id \<Rightarrow> int) \<Rightarrow> 'z identity_db_scheme \<Rightarrow> owner_row list" where
  "list_owners created db =
     sort_key ow_owner_since (sort_key ow_id
       (map (owner_row_of created db) (filter (\<lambda>u. ur_role u = lit ''owner'') (db_users db))))"

definition revision :: "'z consilium_db_scheme \<Rightarrow> nat" where
  "revision db = db_revision db"

section \<open>The shape of a decision\<close>

text \<open>
  Every vote and every withdrawal is the same transaction over one of the three aggregates:
  lock, load, close it instead if it is due (committed, and answered with a conflict), act,
  persist, commit; the record is then read back.
\<close>

definition decide ::
  "('z consilium_db_scheme \<Rightarrow> domain_error + 'a) \<Rightarrow> ('a \<Rightarrow> int \<Rightarrow> bool \<times> 'a)
     \<Rightarrow> ('z consilium_db_scheme \<Rightarrow> 'a \<Rightarrow> user_id option \<Rightarrow> audit \<Rightarrow> int \<Rightarrow> domain_error + ('z consilium_db_scheme \<times> 'a))
     \<Rightarrow> rstr \<Rightarrow> ('z consilium_db_scheme \<Rightarrow> 'a \<Rightarrow> domain_error + ('z consilium_db_scheme \<times> 'a))
     \<Rightarrow> user_id \<Rightarrow> audit \<Rightarrow> int \<Rightarrow> 'z consilium_db_scheme \<Rightarrow> (domain_error + unit) \<times> 'z consilium_db_scheme" where
  "decide load due persist expired act actor audit now = transact (\<lambda>db.
     let db = lock_governance db in
     rbind (load db) (\<lambda>a.
     let (was_due, a) = due a now in
     if was_due then rbind (persist db a None audit_default now) (\<lambda>(db, a). Inr (Inl (Conflict expired), db))
     else rbind (act db a) (\<lambda>(db, a).
          rbind (persist db a (Some actor) audit now) (\<lambda>(db, a). Inr (Inr (), db)))))"

definition then_read ::
  "('db \<Rightarrow> domain_error + 'r option) \<Rightarrow> domain_error \<Rightarrow> (domain_error + unit) \<times> 'db \<Rightarrow> (domain_error + 'r) \<times> 'db" where
  "then_read read absent res =
     (rbind (fst res) (\<lambda>_. rbind (read (snd res)) (\<lambda>r. case r of None \<Rightarrow> Inl absent | Some x \<Rightarrow> Inr x)), snd res)"

text \<open>A due proposal in the way of a new one is closed first.\<close>

definition close_stale ::
  "'i option \<Rightarrow> ('z consilium_db_scheme \<Rightarrow> 'i \<Rightarrow> domain_error + 'a) \<Rightarrow> ('a \<Rightarrow> int \<Rightarrow> bool \<times> 'a)
     \<Rightarrow> ('z consilium_db_scheme \<Rightarrow> 'a \<Rightarrow> user_id option \<Rightarrow> audit \<Rightarrow> int \<Rightarrow> domain_error + ('z consilium_db_scheme \<times> 'a))
     \<Rightarrow> int \<Rightarrow> 'z consilium_db_scheme \<Rightarrow> domain_error + 'z consilium_db_scheme" where
  "close_stale stale load due persist now db =
     (case stale of
        None \<Rightarrow> Inr db
      | Some i \<Rightarrow>
          rbind (load db i) (\<lambda>a.
          let (was_due, a) = due a now in
          if was_due then rbind (persist db a None audit_default now) (\<lambda>(db, a). Inr db) else Inr db))"

section \<open>Removals\<close>

definition CODE_ALPHABET :: rstr where
  "CODE_ALPHABET = lit ''0123456789ABCDEFGHJKMNPQRSTVWXYZ''"

definition CODE_LEN :: nat where "CODE_LEN = 10"

definition secret_code :: "int list \<Rightarrow> rstr" where
  "secret_code bytes = map (\<lambda>b. CODE_ALPHABET ! nat (take_bit 5 b)) bytes"

definition INVITE_DEDUPE_PREFIX :: rstr where "INVITE_DEDUPE_PREFIX = lit ''owner-removal-invite''"
definition INVITE_MAIL_KIND :: rstr where "INVITE_MAIL_KIND = lit ''owner_removal_self_accept''"

record removal_draws =
  rd_id :: removal_id
  rd_token :: rstr
  rd_code_bytes :: "int list"
  rd_subscriber :: nat
  rd_unsubscribe_token :: rstr

definition insert_token ::
  "ext \<Rightarrow> 'z consilium_db_scheme \<Rightarrow> removal_id \<Rightarrow> rstr \<Rightarrow> rstr \<Rightarrow> int \<Rightarrow> domain_error + 'z consilium_db_scheme" where
  "insert_token E db i token code expires_at =
     (let k = \<lparr>tk_removal_id = i, tk_token_hash = digest E token, tk_code_hash = digest E code, tk_attempts = 0,
               tk_burned_at = None, tk_expires_at = expires_at, tk_used_at = None\<rparr>
      in rbind (check_row E (token_checks (db_tokens db) k)) (\<lambda>_. Inr (db\<lparr>db_tokens := db_tokens db @ [k]\<rparr>)))"

definition update_token ::
  "ext \<Rightarrow> 'z consilium_db_scheme \<Rightarrow> removal_id \<Rightarrow> (token_row \<Rightarrow> token_row) \<Rightarrow> domain_error + 'z consilium_db_scheme" where
  "update_token E db i f =
     (case find (\<lambda>k. tk_removal_id k = i) (db_tokens db) of
        None \<Rightarrow> Inr db
      | Some k \<Rightarrow>
          rbind (check_row E (token_checks (filter (\<lambda>w. tk_removal_id w \<noteq> i) (db_tokens db)) (f k))) (\<lambda>_.
          Inr (db\<lparr>db_tokens := map (\<lambda>w. if tk_removal_id w = i then f w else w) (db_tokens db)\<rparr>)))"

definition invite_payload :: "rstr \<Rightarrow> user \<Rightarrow> owner_removal \<Rightarrow> rstr \<Rightarrow> rstr \<Rightarrow> json" where
  "invite_payload base initiator_user r token code =
     JObject [(lit ''initiator_email'', JStr (email_as_str (us_email initiator_user))),
              (lit ''reason'', JStr (rm_reason r)),
              (lit ''approval_url'', JStr (trim_end_slash base @ lit ''/'' @ token)),
              (lit ''code'', JStr code),
              (lit ''expires_at'', JInt (lc_expires_at (rm_life r)))]"

definition removal_tx ::
  "ext \<Rightarrow> int \<Rightarrow> rstr \<Rightarrow> removal_draws \<Rightarrow> user_id \<Rightarrow> user_id \<Rightarrow> rstr \<Rightarrow> int \<Rightarrow> 'z consilium_db_scheme
     \<Rightarrow> (domain_error + unit) \<times> 'z consilium_db_scheme" where
  "removal_tx E clock base d target initiator reason now = transact (\<lambda>db.
     let db = lock_governance db;
         stale = map_option rr_id (find (\<lambda>r. rr_target r = target \<and> rr_state r = lit ''open'' \<and> rr_expires_at r \<le> now) (db_removals db))
     in
     rbind (close_stale stale (load_removal E) expire_if_due (persist_removal E) now db) (\<lambda>db.
     rbind (removal_open (rd_id d) target initiator reason (owner_ids_for_update db) now REMOVAL_TTL_SECS) (\<lambda>r.
     rbind (insert_removal E db r) (\<lambda>db.
     let token = rd_token d; code = secret_code (rd_code_bytes d) in
     rbind (insert_token E db (rm_id r) token code (lc_expires_at (rm_life r))) (\<lambda>db.
     rbind (load_for_update E db target) (\<lambda>target_user.
     rbind (load_for_update E db initiator) (\<lambda>initiator_user.
     rbind (upsert_subscriber E clock (rd_subscriber d) (rd_unsubscribe_token d) db target
              (email_as_str (us_email target_user)) (us_email_verified target_user)) (\<lambda>(db, subscriber).
     rbind (enqueue_governance_mail E clock db (sb_id subscriber) (email_as_str (us_email target_user)) INVITE_MAIL_KIND
              (INVITE_DEDUPE_PREFIX @ lit '':'' @ uuid_text E (rid_raw (rm_id r)))
              (invite_payload base initiator_user r token code)) (\<lambda>(db, queued).
     rbind (persist_removal E db (removal_mark_target_notified r) (Some initiator) audit_default now) (\<lambda>(db, r).
     Inr (Inr (), db)))))))))))"

definition open_removal ::
  "ext \<Rightarrow> int \<Rightarrow> rstr \<Rightarrow> removal_draws \<Rightarrow> user_id \<Rightarrow> user_id \<Rightarrow> rstr \<Rightarrow> int \<Rightarrow> 'z consilium_db_scheme
     \<Rightarrow> (domain_error + removal_record) \<times> 'z consilium_db_scheme" where
  "open_removal E clock base d target initiator reason now db =
     then_read (\<lambda>db. find_removal E db (rd_id d) now) (Repository (lit ''the removal vanished after being opened''))
       (removal_tx E clock base d target initiator reason now db)"

definition removal_not_found :: "ext \<Rightarrow> removal_id \<Rightarrow> domain_error" where
  "removal_not_found E i = NotFound (lit ''owner removal'') (uuid_text E (rid_raw i))"

definition peer_vote ::
  "ext \<Rightarrow> int \<Rightarrow> removal_id \<Rightarrow> user_id \<Rightarrow> vote \<Rightarrow> int \<Rightarrow> audit \<Rightarrow> 'z consilium_db_scheme
     \<Rightarrow> (domain_error + removal_record) \<times> 'z consilium_db_scheme" where
  "peer_vote E clock i voter v now audit db =
     then_read (\<lambda>db. find_removal E db i now) (removal_not_found E i)
       (decide (\<lambda>db. load_removal E db i) expire_if_due (persist_removal E) (lit ''the removal is expired'')
         (\<lambda>db r. rbind (removal_peer_vote r voter v now) (\<lambda>r. settle E clock db r now)) voter audit now db)"

definition cancel_removal ::
  "ext \<Rightarrow> removal_id \<Rightarrow> user_id \<Rightarrow> int \<Rightarrow> 'z consilium_db_scheme
     \<Rightarrow> (domain_error + removal_record) \<times> 'z consilium_db_scheme" where
  "cancel_removal E i by_user now db =
     then_read (\<lambda>db. find_removal E db i now) (removal_not_found E i)
       (decide (\<lambda>db. load_removal E db i) expire_if_due (persist_removal E) (lit ''the removal is expired'')
         (\<lambda>db r. rbind (removal_cancel r by_user now) (\<lambda>r. Inr (db, r))) by_user audit_default now db)"

section \<open>The target's answer from a mailbox\<close>

definition invitation ::
  "ext \<Rightarrow> 'z consilium_db_scheme \<Rightarrow> rstr \<Rightarrow> int \<Rightarrow> domain_error + invitation_record option" where
  "invitation E db token now =
     (case find (\<lambda>k. tk_token_hash k = digest E token) (db_tokens db) of
        None \<Rightarrow> Inr None
      | Some k \<Rightarrow>
     (case find (\<lambda>r. rr_id r = tk_removal_id k) (db_removals db) of
        None \<Rightarrow> Inr None
      | Some r \<Rightarrow>
     (case (email_of db (rr_target r), email_of db (rr_initiator r)) of
        (Some target_email, Some initiator_email) \<Rightarrow>
          rbind (proposal_state_parse (rr_state r)) (\<lambda>stored.
          let st = effective_state stored (rr_expires_at r) now in
          if tk_burned_at k \<noteq> None \<or> tk_used_at k \<noteq> None \<or> tk_expires_at k \<le> now \<or> \<not> is_open st then Inr None
          else rbind (vote_parse (rr_target_decision r)) (\<lambda>decision.
            Inr (Some \<lparr>ir_removal_id = rr_id r, ir_state = st, ir_initiator_email = initiator_email,
              ir_target_email = target_email, ir_reason = rr_reason r, ir_created_at = rr_created_at r,
              ir_expires_at = rr_expires_at r, ir_decision = decision,
              ir_attempts_remaining = nat (MAX_CODE_ATTEMPTS - tk_attempts k)\<rparr>)))
      | _ \<Rightarrow> Inr None)))"

definition decided ::
  "ext \<Rightarrow> 'z consilium_db_scheme \<Rightarrow> removal_id \<Rightarrow> int \<Rightarrow> domain_error + self_answer" where
  "decided E db i now =
     rbind (find_removal E db i now) (\<lambda>found. case found of
       None \<Rightarrow> Inl (removal_not_found E i)
     | Some record \<Rightarrow>
         let r = cr_proposal record in
         Inr (Decided \<lparr>ir_removal_id = rm_id r, ir_state = cr_state record,
           ir_initiator_email = cr_initiator_email record, ir_target_email = cr_subject_email record,
           ir_reason = rm_reason r, ir_created_at = lc_created_at (rm_life r), ir_expires_at = lc_expires_at (rm_life r),
           ir_decision = rm_decision r, ir_attempts_remaining = 0\<rparr>))"

text \<open>
  What the transaction of an answer ends in: an answer to return, or the removal whose
  record is to be read after the commit. Returning early drops the transaction, which rolls
  back to the tables it began with.
\<close>

datatype answer = Answered self_answer | Accepted removal_id

definition answer_tx ::
  "ext \<Rightarrow> int \<Rightarrow> rstr \<Rightarrow> rstr \<Rightarrow> vote \<Rightarrow> int \<Rightarrow> audit \<Rightarrow> 'z consilium_db_scheme
     \<Rightarrow> (domain_error + answer) \<times> 'z consilium_db_scheme" where
  "answer_tx E clock token code v now audit = transact (\<lambda>start.
     let db = lock_governance start; unusable = Inr (Inr (Answered Unusable), start) in
     case find (\<lambda>k. tk_token_hash k = digest E token) (db_tokens db) of
       None \<Rightarrow> unusable
     | Some k \<Rightarrow>
       if tk_burned_at k \<noteq> None \<or> tk_expires_at k \<le> now then unusable
       else rbind (load_removal E db (tk_removal_id k)) (\<lambda>r.
         let (was_due, r) = (if tk_used_at k = None then expire_if_due r now else (False, r)) in
         if was_due
         then rbind (persist_removal E db r None audit_default now) (\<lambda>(db, r). Inr (Inr (Answered Unusable), db))
         else if tk_used_at k = None \<and> \<not> is_open (removal_state r) then unusable
         else rbind (update_token E db (tk_removal_id k) (\<lambda>w. w\<lparr>tk_attempts := tk_attempts w + 1\<rparr>)) (\<lambda>db.
           let attempts = tk_attempts k + 1 in
           if digest E code \<noteq> tk_code_hash k
           then rbind (if MAX_CODE_ATTEMPTS \<le> attempts
                       then update_token E db (tk_removal_id k) (\<lambda>w. w\<lparr>tk_burned_at := Some now\<rparr>) else Inr db) (\<lambda>db.
                Inr (Inr (Answered (WrongCode (nat (MAX_CODE_ATTEMPTS - attempts)))), db))
           else if tk_used_at k \<noteq> None
           then if rm_decision r \<noteq> v then unusable else Inr (Inr (Accepted (tk_removal_id k)), db)
           else rbind (removal_target_decision r v now) (\<lambda>r'.
                rbind (settle E clock db r' now) (\<lambda>(db, r').
                rbind (persist_removal E db r' (Some (rm_target r)) audit now) (\<lambda>(db, r').
                rbind (update_token E db (tk_removal_id k) (\<lambda>w. w\<lparr>tk_used_at := Some now\<rparr>)) (\<lambda>db.
                Inr (Inr (Accepted (tk_removal_id k)), db))))))))"

definition self_decision ::
  "ext \<Rightarrow> int \<Rightarrow> rstr \<Rightarrow> rstr \<Rightarrow> vote \<Rightarrow> int \<Rightarrow> audit \<Rightarrow> 'z consilium_db_scheme
     \<Rightarrow> (domain_error + self_answer) \<times> 'z consilium_db_scheme" where
  "self_decision E clock token code v now audit db =
     (let (out, db) = answer_tx E clock token code v now audit db
      in (rbind out (\<lambda>ans. case ans of Answered d \<Rightarrow> Inr d | Accepted i \<Rightarrow> decided E db i now), db))"

section \<open>Leaving\<close>

definition resign ::
  "ext \<Rightarrow> int \<Rightarrow> user_id \<Rightarrow> int \<Rightarrow> 'z consilium_db_scheme \<Rightarrow> (domain_error + unit) \<times> 'z consilium_db_scheme" where
  "resign E clock who now = transact (\<lambda>db.
     let db = lock_governance db; owners = owner_ids_for_update db in
     if who \<notin> set owners then Inl (Forbidden (lit ''you do not hold an owner seat''))
     else rbind (check_floor (length owners)) (\<lambda>_.
       rbind (case find (\<lambda>r. rr_target r = who \<and> rr_state r = lit ''open'') (db_removals db) of
                None \<Rightarrow> Inr db
              | Some row \<Rightarrow>
                  rbind (load_removal E db (rr_id row)) (\<lambda>moot.
                  rbind (removal_void moot (lit ''the target resigned the seat'') now) (\<lambda>moot.
                  rbind (persist_removal E db moot (Some who) audit_default now) (\<lambda>(db, moot). Inr db)))) (\<lambda>db.
       rbind (take_seat E clock db who) (\<lambda>db. Inr (Inr (), db)))))"

section \<open>Admissions\<close>

definition open_admission ::
  "ext \<Rightarrow> admission_id \<Rightarrow> user_id \<Rightarrow> user_id \<Rightarrow> rstr \<Rightarrow> int \<Rightarrow> 'z consilium_db_scheme
     \<Rightarrow> (domain_error + admission_record) \<times> 'z consilium_db_scheme" where
  "open_admission E fresh candidate initiator reason now db =
     then_read (\<lambda>db. find_admission E db fresh now) (Repository (lit ''the admission vanished after being opened''))
       (transact (\<lambda>db.
         let db = lock_governance db;
             stale = map_option ar_id (find (\<lambda>a. ar_candidate a = candidate \<and> ar_state a = lit ''open'' \<and> ar_expires_at a \<le> now) (db_admissions db))
         in
         rbind (close_stale stale (load_admission E) expire_admission_if_due (persist_admission E) now db) (\<lambda>db.
         rbind (admission_open fresh candidate initiator reason (owner_ids_for_update db) now REMOVAL_TTL_SECS) (\<lambda>a.
         rbind (insert_admission E db a) (\<lambda>db.
         rbind (persist_admission E db a (Some initiator) audit_default now) (\<lambda>(db, a).
         Inr (Inr (), db)))))) db)"

definition admission_not_found :: "ext \<Rightarrow> admission_id \<Rightarrow> domain_error" where
  "admission_not_found E i = NotFound (lit ''owner admission'') (uuid_text E (aid_raw i))"

definition store_admission_vote ::
  "ext \<Rightarrow> int \<Rightarrow> admission_id \<Rightarrow> user_id \<Rightarrow> admission_vote \<Rightarrow> int \<Rightarrow> audit \<Rightarrow> 'z consilium_db_scheme
     \<Rightarrow> (domain_error + admission_record) \<times> 'z consilium_db_scheme" where
  "store_admission_vote E clock i voter v now audit db =
     then_read (\<lambda>db. find_admission E db i now) (admission_not_found E i)
       (decide (\<lambda>db. load_admission E db i) expire_admission_if_due (persist_admission E) (lit ''the admission is expired'')
         (\<lambda>db a. rbind (admission_vote_by a voter v now) (\<lambda>a. settle_admission E clock db a now)) voter audit now db)"

definition cancel_admission ::
  "ext \<Rightarrow> admission_id \<Rightarrow> user_id \<Rightarrow> int \<Rightarrow> 'z consilium_db_scheme
     \<Rightarrow> (domain_error + admission_record) \<times> 'z consilium_db_scheme" where
  "cancel_admission E i by_user now db =
     then_read (\<lambda>db. find_admission E db i now) (admission_not_found E i)
       (decide (\<lambda>db. load_admission E db i) expire_admission_if_due (persist_admission E) (lit ''the admission is expired'')
         (\<lambda>db a. rbind (admission_cancel a by_user now) (\<lambda>a. Inr (db, a))) by_user audit_default now db)"

section \<open>User proposals\<close>

definition open_user_proposal ::
  "ext \<Rightarrow> user_proposal_id \<Rightarrow> user_proposal_kind \<Rightarrow> user_id \<Rightarrow> user_id \<Rightarrow> rstr \<Rightarrow> int \<Rightarrow> 'z consilium_db_scheme
     \<Rightarrow> (domain_error + user_proposal_record) \<times> 'z consilium_db_scheme" where
  "open_user_proposal E fresh kind subject initiator reason now db =
     then_read (\<lambda>db. find_user_proposal E db fresh now) (Repository (lit ''the proposal vanished after being opened''))
       (transact (\<lambda>db.
         let db = lock_governance db;
             stale = map_option qr_id (find (\<lambda>q. qr_subject q = subject \<and> qr_kind q = user_proposal_kind_as_str kind
               \<and> qr_state q = lit ''open'' \<and> qr_expires_at q \<le> now) (db_proposals db))
         in
         rbind (close_stale stale (load_proposal E) expire_proposal_if_due (persist_proposal E) now db) (\<lambda>db.
         rbind (proposal_open fresh kind subject initiator reason (owner_ids_for_update db) now REMOVAL_TTL_SECS) (\<lambda>p.
         rbind (insert_proposal E db p) (\<lambda>db.
         rbind (persist_proposal E db p (Some initiator) audit_default now) (\<lambda>(db, p).
         Inr (Inr (), db)))))) db)"

definition proposal_not_found :: "ext \<Rightarrow> user_proposal_id \<Rightarrow> domain_error" where
  "proposal_not_found E i = NotFound (lit ''user proposal'') (uuid_text E (pid_raw i))"

definition user_proposal_vote ::
  "ext \<Rightarrow> int \<Rightarrow> user_proposal_id \<Rightarrow> user_id \<Rightarrow> proposal_vote \<Rightarrow> int \<Rightarrow> audit \<Rightarrow> 'z consilium_db_scheme
     \<Rightarrow> (domain_error + user_proposal_record) \<times> 'z consilium_db_scheme" where
  "user_proposal_vote E clock i voter v now audit db =
     then_read (\<lambda>db. find_user_proposal E db i now) (proposal_not_found E i)
       (decide (\<lambda>db. load_proposal E db i) expire_proposal_if_due (persist_proposal E) (lit ''the proposal is expired'')
         (\<lambda>db p. rbind (proposal_vote_by p voter v now) (\<lambda>p. settle_proposal E clock db p now)) voter audit now db)"

definition cancel_user_proposal ::
  "ext \<Rightarrow> user_proposal_id \<Rightarrow> user_id \<Rightarrow> int \<Rightarrow> 'z consilium_db_scheme
     \<Rightarrow> (domain_error + user_proposal_record) \<times> 'z consilium_db_scheme" where
  "cancel_user_proposal E i by_user now db =
     then_read (\<lambda>db. find_user_proposal E db i now) (proposal_not_found E i)
       (decide (\<lambda>db. load_proposal E db i) expire_proposal_if_due (persist_proposal E) (lit ''the proposal is expired'')
         (\<lambda>db p. rbind (proposal_cancel p by_user now) (\<lambda>p. Inr (db, p))) by_user audit_default now db)"

text \<open>The query of \<open>hold_user\<close>: is a suspension of this account open and not yet due?\<close>

definition ratifying :: "'z consilium_db_scheme \<Rightarrow> user_id \<Rightarrow> int \<Rightarrow> bool" where
  "ratifying db i now \<longleftrightarrow>
     list_ex (\<lambda>q. qr_subject q = i \<and> qr_kind q = lit ''suspension'' \<and> qr_state q = lit ''open'' \<and> now < qr_expires_at q) (db_proposals db)"

definition hold_user ::
  "ext \<Rightarrow> int \<Rightarrow> user_id \<Rightarrow> admin_action \<Rightarrow> user_id \<Rightarrow> int \<Rightarrow> 'z consilium_db_scheme
     \<Rightarrow> (domain_error + user) \<times> 'z consilium_db_scheme" where
  "hold_user E clock i action by_user now db =
     store_hold_user ratifying E clock i action by_user now db"

section \<open>Governance mail of the other plane\<close>

text \<open>Two statements, each committed by itself.\<close>

definition enqueue_mail ::
  "ext \<Rightarrow> int \<Rightarrow> nat \<Rightarrow> rstr \<Rightarrow> user_id \<Rightarrow> rstr \<Rightarrow> bool \<Rightarrow> rstr \<Rightarrow> rstr \<Rightarrow> json \<Rightarrow> 'z notify_db_scheme
     \<Rightarrow> (domain_error + governance_mail_queued) \<times> 'z notify_db_scheme" where
  "enqueue_mail E clock fresh token i recipient verified kind dedupe payload db =
     (case upsert_subscriber E clock fresh token db i recipient verified of
        Inl e \<Rightarrow> (Inl e, db)
      | Inr (db, s) \<Rightarrow>
          (case enqueue_governance_mail E clock db (sb_id s) recipient kind dedupe payload of
             Inl e \<Rightarrow> (Inl e, db)
           | Inr (db, queued) \<Rightarrow> (Inr queued, db)))"

end
