(* ===== verification/Consilium_Laws.thy ===== *)
theory Consilium_Laws
  imports Consilium_Store
begin

text \<open>
  What writing an aggregate of the consilium and reading it back gives. A locale states the
  contract of a store of proposals (round trip, frame, the audit log) and proves its
  consequences once; the removal, admission and user proposal tables are its
  interpretations.
\<close>

section \<open>Electorates\<close>

lemma sort_key_map:
  assumes "\<And>x. k (f x) = k x"
  shows "sort_key k (map f xs) = map f (sort_key k xs)"
proof -
  have "insort_key k (f x) (map f ys) = map f (insort_key k x ys)" for x ys
    by (induction ys) (simp_all add: assms)
  then show ?thesis by (induction xs) (simp_all add: assms)
qed

definition peer_column :: "('v \<Rightarrow> rstr) \<Rightarrow> ('v peer \<Rightarrow> int option) \<Rightarrow> 'i \<Rightarrow> 'v peer list \<Rightarrow> 'i peer_row \<Rightarrow> 'i peer_row" where
  "peer_column as_str stamp i ps r =
     (if pw_proposal r = i
      then case find (\<lambda>p. p_user_id p = pw_user_id r) ps of
             None \<Rightarrow> r | Some p \<Rightarrow> r\<lparr>pw_vote := as_str (p_vote p), pw_voted_at := stamp p\<rparr>
      else r)"

lemma peer_column_keys [simp]:
  "pw_proposal (peer_column as_str stamp i ps r) = pw_proposal r" "pw_user_id (peer_column as_str stamp i ps r) = pw_user_id r"
  by (simp_all add: peer_column_def split: option.splits)

lemma save_peers_Inr:
  assumes "save_peers E as_str stamp i ps rows = Inr rows'" and "distinct (map p_user_id ps)"
  shows "rows' = map (peer_column as_str stamp i ps) rows"
  using assms
proof (induction ps arbitrary: rows)
  case Nil
  have "peer_column as_str stamp i [] = id" by (auto simp: peer_column_def fun_eq_iff)
  with Nil show ?case by simp
next
  case (Cons p ps)
  let ?f = "\<lambda>r. if pw_proposal r = i \<and> pw_user_id r = p_user_id p
             then r\<lparr>pw_vote := as_str (p_vote p), pw_voted_at := stamp p\<rparr> else r"
  have "rows' = map (peer_column as_str stamp i ps) (map ?f rows)"
    by (rule Cons.IH) (use Cons.prems in \<open>auto simp: result_simps\<close>)
  moreover have "peer_column as_str stamp i ps (?f r) = peer_column as_str stamp i (p # ps) r" for r
  proof -
    have "find (\<lambda>q. p_user_id q = p_user_id p) ps = None"
      using Cons.prems(2) by (auto simp: find_None_iff_all image_iff)
    then show ?thesis by (auto simp: peer_column_def split: option.splits)
  qed
  ultimately show ?case by simp
qed

lemma save_peers_keys:
  "save_peers E as_str stamp i ps rows = Inr rows' \<Longrightarrow>
     map pw_proposal rows' = map pw_proposal rows \<and> filter (\<lambda>r. pw_proposal r \<noteq> i) rows' = filter (\<lambda>r. pw_proposal r \<noteq> i) rows"
proof (induction ps arbitrary: rows)
  case (Cons p ps)
  let ?f = "\<lambda>r. if pw_proposal r = i \<and> pw_user_id r = p_user_id p
             then r\<lparr>pw_vote := as_str (p_vote p), pw_voted_at := stamp p\<rparr> else r"
  have "map pw_proposal (map ?f rows) = map pw_proposal rows
      \<and> filter (\<lambda>r. pw_proposal r \<noteq> i) (map ?f rows) = filter (\<lambda>r. pw_proposal r \<noteq> i) rows" for rows
    by (induction rows) auto
  moreover have "map pw_proposal rows' = map pw_proposal (map ?f rows)
      \<and> filter (\<lambda>r. pw_proposal r \<noteq> i) rows' = filter (\<lambda>r. pw_proposal r \<noteq> i) (map ?f rows)"
    by (rule Cons.IH) (use Cons.prems in \<open>auto simp: result_simps\<close>)
  ultimately show ?case by metis
qed simp

lemma save_peers_checked:
  assumes "save_peers E as_str stamp i ps rows = Inr rows'" and "p \<in> set ps"
    and "\<exists>r\<in>set rows. pw_proposal r = i \<and> pw_user_id r = p_user_id p"
  shows "(as_str (p_vote p) = lit ''pending'') = (stamp p = None)"
  using assms
proof (induction ps arbitrary: rows)
  case (Cons q ps)
  show ?case
  proof (cases "p = q")
    case True
    with Cons.prems(1,3) show ?thesis
      by (auto simp: result_simps list_ex_iff check_row_def first_broken_def peer_checks_def split: if_splits option.splits)
  next
    case False
    let ?f = "\<lambda>r. if pw_proposal r = i \<and> pw_user_id r = p_user_id q
             then r\<lparr>pw_vote := as_str (p_vote q), pw_voted_at := stamp q\<rparr> else r"
    have "\<exists>r\<in>set (map ?f rows). pw_proposal r = i \<and> pw_user_id r = p_user_id p"
    proof -
      obtain r where "r \<in> set rows" "pw_proposal r = i" "pw_user_id r = p_user_id p" using Cons.prems(3) by blast
      then have "?f r \<in> set (map ?f rows)" "pw_proposal (?f r) = i" "pw_user_id (?f r) = p_user_id p" by simp_all
      then show ?thesis by blast
    qed
    moreover have "save_peers E as_str stamp i ps (map ?f rows) = Inr rows'"
      using Cons.prems(1) by (auto simp: result_simps)
    ultimately show ?thesis using Cons.IH Cons.prems(2) False by auto
  qed
qed simp

lemma load_peers_other:
  "filter (\<lambda>r. pw_proposal r \<noteq> i) rows' = filter (\<lambda>r. pw_proposal r \<noteq> i) rows \<Longrightarrow> j \<noteq> i \<Longrightarrow>
     load_peers_of parse rows' j = load_peers_of parse rows j"
proof -
  assume same: "filter (\<lambda>r. pw_proposal r \<noteq> i) rows' = filter (\<lambda>r. pw_proposal r \<noteq> i) rows" and "j \<noteq> i"
  have "filter (\<lambda>r. pw_proposal r = j) xs = filter (\<lambda>r. pw_proposal r = j) (filter (\<lambda>r. pw_proposal r \<noteq> i) xs)" for xs :: "'a peer_row list"
    using \<open>j \<noteq> i\<close> by (induction xs) auto
  then have "filter (\<lambda>r. pw_proposal r = j) rows' = filter (\<lambda>r. pw_proposal r = j) rows"
    using same by metis
  then show ?thesis by (simp add: load_peers_of_def)
qed

lemma traverse_nth:
  "traverse f xs = Inr ys \<longleftrightarrow> length ys = length xs \<and> (\<forall>k<length xs. f (xs ! k) = Inr (ys ! k))"
proof (induction xs arbitrary: ys)
  case (Cons x xs)
  show ?case
    by (cases ys) (auto simp: result_simps Cons.IH nth_Cons' less_Suc_eq_0_disj)
qed auto

lemma load_peers_voters:
  "load_peers_of parse rows i = Inr ps \<Longrightarrow>
     map p_user_id ps = map pw_user_id (sort_key pw_user_id (filter (\<lambda>r. pw_proposal r = i) rows))"
proof (rule nth_equalityI)
  let ?mine = "sort_key pw_user_id (filter (\<lambda>r. pw_proposal r = i) rows)"
  assume "load_peers_of parse rows i = Inr ps"
  then have t: "length ps = length ?mine" "\<And>k. k < length ?mine \<Longrightarrow>
      rbind (parse (pw_vote (?mine ! k))) (\<lambda>v. Inr \<lparr>p_user_id = pw_user_id (?mine ! k), p_vote = v,
         p_voted_at = stored_ts (pw_voted_at (?mine ! k))\<rparr>) = Inr (ps ! k)"
    by (auto simp: load_peers_of_def traverse_nth)
  then show "length (map p_user_id ps) = length (map pw_user_id ?mine)" by simp
  show "map p_user_id ps ! k = map pw_user_id ?mine ! k" if "k < length (map p_user_id ps)" for k
  proof -
    have "p_user_id (ps ! k) = pw_user_id (?mine ! k)"
      using t(2) [of k] that t(1) by (auto simp: rbind_Inr_iff dest!: sym [of _ "ps ! k"])
    then show ?thesis using that t(1) by simp
  qed
qed

lemma load_peers_saved:
  assumes "load_peers_of parse rows i = Inr ps0" and "map p_user_id ps = map p_user_id ps0"
    and "distinct (map p_user_id ps)" and "save_peers E as_str stamp i ps rows = Inr rows'"
    and "\<And>v. parse (as_str v) = Inr v" and "\<And>p. p \<in> set ps \<Longrightarrow> stored_ts (stamp p) = p_voted_at p"
  shows "load_peers_of parse rows' i = Inr ps"
proof -
  let ?mine = "\<lambda>rows. sort_key pw_user_id (filter (\<lambda>r. pw_proposal r = i) rows)"
  let ?col = "peer_column as_str stamp i ps"
  have rows': "rows' = map ?col rows" by (rule save_peers_Inr [OF assms(4,3)])
  have "filter (\<lambda>r. pw_proposal r = i) (map ?col rows) = map ?col (filter (\<lambda>r. pw_proposal r = i) rows)"
    by (induction rows) auto
  then have mine: "?mine rows' = map ?col (?mine rows)" by (simp add: rows' sort_key_map)
  have ids: "map pw_user_id (?mine rows) = map p_user_id ps" using load_peers_voters [OF assms(1)] assms(2) by simp
  then have len: "length (?mine rows) = length ps" by (metis length_map)
  have row: "?col (?mine rows ! k) = (?mine rows ! k)\<lparr>pw_vote := as_str (p_vote (ps ! k)), pw_voted_at := stamp (ps ! k)\<rparr>"
    if "k < length ps" for k
  proof -
    have u: "pw_user_id (?mine rows ! k) = p_user_id (ps ! k)"
      using ids that len by (metis nth_map)
    have "?mine rows ! k \<in> set (?mine rows)" using that len by (metis nth_mem)
    then have "pw_proposal (?mine rows ! k) = i" by simp
    moreover have "find (\<lambda>p. p_user_id p = p_user_id (ps ! k)) ps = Some (ps ! k)"
      using assms(3) that by (intro find_eq_Some_distinct) simp_all
    ultimately show ?thesis by (simp add: peer_column_def u)
  qed
  have user: "pw_user_id (?mine rows ! k) = p_user_id (ps ! k)" if "k < length ps" for k
    using ids that len by (metis nth_map)
  show ?thesis
    unfolding load_peers_of_def mine traverse_nth
    using len by (auto simp: row user assms(5,6))
qed

section \<open>The audit log of one proposal\<close>

definition event_rows ::
  "governance_subject \<Rightarrow> nat \<Rightarrow> governance_event list \<Rightarrow> user_id option \<Rightarrow> audit \<Rightarrow> int \<Rightarrow> governance_row list" where
  "event_rows subject version events actor audit now =
     map (\<lambda>(i, event). \<lparr>gv_subject = subject, gv_kind = governance_event_kind event, gv_actor = actor,
         gv_version = version - (length events - 1 - i), gv_occurred_at = now,
         gv_client_ip = take 64 (au_client_ip audit), gv_user_agent = take 256 (au_user_agent audit)\<rparr>)
       (enumerate 0 events)"

lemma insert_events_eq:
  "insert_events db subject version events actor audit now =
     db\<lparr>db_governance_events := db_governance_events db @ event_rows subject version events actor audit now\<rparr>"
  by (simp add: insert_events_def event_rows_def audit_truncated_def Let_def)

lemma event_rows_subject: "g \<in> set (event_rows s v es actor au now) \<Longrightarrow> gv_subject g = s"
  by (auto simp: event_rows_def)

lemma event_rows_kinds: "map gv_kind (event_rows s v es actor au now) = map governance_event_kind es"
  by (rule nth_equalityI) (auto simp: event_rows_def nth_enumerate_eq)

lemma event_rows_versions:
  "map gv_version (event_rows s (v + length es) es actor au now) = [Suc v..<Suc (v + length es)]"
proof (rule nth_equalityI)
  show "map gv_version (event_rows s (v + length es) es actor au now) ! k = [Suc v..<Suc (v + length es)] ! k"
    if "k < length (map gv_version (event_rows s (v + length es) es actor au now))" for k
    using that by (simp add: event_rows_def nth_enumerate_eq del: upt_Suc)
qed (simp add: event_rows_def del: upt_Suc)

definition closing_kind :: "rstr \<Rightarrow> bool" where
  "closing_kind k \<longleftrightarrow> k \<notin> {lit ''OPENED'', lit ''PEER_VOTED'', lit ''TARGET_DECIDED''}"

lemma closing_kind_event [simp]: "closing_kind (governance_event_kind e) = is_closing e"
  by (cases e) (simp_all add: closing_kind_def governance_event_kind_def is_closing_def)

definition logged :: "governance_row list \<Rightarrow> lifecycle \<Rightarrow> bool" where
  "logged rows l \<longleftrightarrow>
     map gv_version rows = [1..<Suc (lc_version l)]
     \<and> filter closing_kind (map gv_kind rows) =
         (case closing_event (lc_state l) of None \<Rightarrow> [] | Some e \<Rightarrow> [governance_event_kind e])"

lemma life_steps_grow:
  assumes "life_step\<^sup>*\<^sup>* l0 l"
  shows "\<exists>es. lc_pending l = lc_pending l0 @ es \<and> lc_version l = lc_version l0 + length es
    \<and> lc_expires_at l = lc_expires_at l0 \<and> lc_created_at l = lc_created_at l0
    \<and> (lc_state l0 \<noteq> Open \<longrightarrow> l = l0)
    \<and> (lc_state l0 = Open \<longrightarrow> filter is_closing es = (case closing_event (lc_state l) of None \<Rightarrow> [] | Some e \<Rightarrow> [e]))"
  using assms
proof (induction rule: rtranclp_induct)
  case base
  then show ?case by (auto simp: closing_event_def split: proposal_state.splits)
next
  case (step l1 l2)
  then obtain es where es: "lc_pending l1 = lc_pending l0 @ es" "lc_version l1 = lc_version l0 + length es"
    "lc_expires_at l1 = lc_expires_at l0" "lc_created_at l1 = lc_created_at l0" "lc_state l0 \<noteq> Open \<longrightarrow> l1 = l0"
    "lc_state l0 = Open \<longrightarrow> filter is_closing es = (case closing_event (lc_state l1) of None \<Rightarrow> [] | Some e \<Rightarrow> [e])"
    by blast
  show ?case
  proof (cases "lc_state l1 = Open")
    case False
    then have "l2 = l1" using step.hyps(2) life_step_closed by blast
    with es show ?thesis by blast
  next
    case True
    obtain fs where fs: "lc_pending l2 = lc_pending l1 @ fs" "lc_version l2 = lc_version l1 + length fs"
      using life_step_frame [OF step.hyps(2)] by blast
    have "filter is_closing fs = (case closing_event (lc_state l2) of None \<Rightarrow> [] | Some e \<Rightarrow> [e])"
      using step.hyps(2) fs(1) True
    proof (cases rule: life_step.cases)
      case (close s ev now)
      then show ?thesis using fs(1) closing_event_closing [OF close(3)] by (auto simp: life_defs dest!: sym [of _ fs])
    qed (auto simp: life_defs closing_event_def is_closing_def)
    moreover have "filter is_closing es = []" if "lc_state l0 = Open" using es(6) that True by (simp add: closing_event_def)
    ultimately show ?thesis
      using es fs True life_step_frame [OF step.hyps(2)] by (intro exI [of _ "es @ fs"]) auto
  qed
qed

lemma logged_extend:
  assumes "logged rows l0" and "lc_pending l0 = []" and "life_step\<^sup>*\<^sup>* l0 l"
  shows "logged (rows @ event_rows s (lc_version l) (lc_pending l) actor au now) (l\<lparr>lc_pending := []\<rparr>)"
proof -
  obtain es where es: "lc_pending l = es" "lc_version l = lc_version l0 + length es" "lc_state l0 \<noteq> Open \<longrightarrow> l = l0"
    "lc_state l0 = Open \<longrightarrow> filter is_closing es = (case closing_event (lc_state l) of None \<Rightarrow> [] | Some e \<Rightarrow> [e])"
    using life_steps_grow [OF assms(3)] assms(2) by auto
  have v: "map gv_version (event_rows s (lc_version l) (lc_pending l) actor au now) = [Suc (lc_version l0)..<Suc (lc_version l)]"
    using event_rows_versions [of s "lc_version l0" es actor au now] by (simp add: es)
  have up: "[1..<Suc (lc_version l0)] @ [Suc (lc_version l0)..<Suc (lc_version l)] = [1..<Suc (lc_version l)]"
    using upt_add_eq_append [of 1 "Suc (lc_version l0)" "lc_version l - lc_version l0"] es(2) by simp
  have kinds: "filter closing_kind (map governance_event_kind xs) = map governance_event_kind (filter is_closing xs)" for xs
    by (induction xs) simp_all
  have "filter closing_kind (map gv_kind rows @ map governance_event_kind (lc_pending l)) =
      (case closing_event (lc_state l) of None \<Rightarrow> [] | Some e \<Rightarrow> [governance_event_kind e])"
  proof (cases "lc_state l0 = Open")
    case True
    then show ?thesis using assms(1) es by (simp add: logged_def kinds closing_event_def split: option.splits proposal_state.splits)
  next
    case False
    then have "l = l0" "es = []" using es assms(2) by auto
    then show ?thesis using assms(1,2) by (simp add: logged_def)
  qed
  then show ?thesis using assms(1) v up by (simp add: logged_def event_rows_kinds)
qed

section \<open>The contract of a store of proposals\<close>

definition evolves :: "('a \<Rightarrow> 'op \<Rightarrow> domain_error + 'a) \<Rightarrow> 'a \<Rightarrow> 'a \<Rightarrow> bool" where
  "evolves step = (\<lambda>a b. \<exists>op. step a op = Inr b)\<^sup>*\<^sup>*"

lemma evolves_refl [simp]: "evolves step a a"
  by (simp add: evolves_def)

lemma evolves_step: "step a op = Inr b \<Longrightarrow> evolves step a b"
  by (auto simp: evolves_def)

lemma evolves_trans: "evolves step a b \<Longrightarrow> evolves step b c \<Longrightarrow> evolves step a c"
  by (auto simp: evolves_def)

lemma evolves_keeps:
  assumes "evolves step a b" and "P a" and "\<And>x op y. P x \<Longrightarrow> step x op = Inr y \<Longrightarrow> P y"
  shows "P b"
  using assms(1) unfolding evolves_def
  by (induction rule: rtranclp_induct) (use assms(2,3) in auto)

locale proposal_store = lifecycle_aggregate life step
  for life :: "'a \<Rightarrow> lifecycle" and step :: "'a \<Rightarrow> 'op \<Rightarrow> domain_error + 'a" +
  fixes load :: "'z consilium_db_scheme \<Rightarrow> 'i \<Rightarrow> domain_error + 'a"
    and persist :: "'z consilium_db_scheme \<Rightarrow> 'a \<Rightarrow> user_id option \<Rightarrow> audit \<Rightarrow> int \<Rightarrow> domain_error + ('z consilium_db_scheme \<times> 'a)"
    and insert_new :: "'z consilium_db_scheme \<Rightarrow> 'a \<Rightarrow> domain_error + 'z consilium_db_scheme"
    and due :: "'a \<Rightarrow> int \<Rightarrow> bool \<times> 'a"
    and origin :: "'a \<Rightarrow> 'o"
    and key :: "'a \<Rightarrow> 'i"
    and clean :: "'a \<Rightarrow> 'a"
    and good :: "'a \<Rightarrow> bool"
    and fresh :: "'a \<Rightarrow> bool"
    and row_ids :: "'z consilium_db_scheme \<Rightarrow> 'i list"
    and peer_ids :: "'z consilium_db_scheme \<Rightarrow> 'i list"
    and subject :: "'i \<Rightarrow> governance_subject"
    and same :: "'z consilium_db_scheme \<Rightarrow> 'z consilium_db_scheme \<Rightarrow> bool"
  assumes subject_inj: "subject i = subject j \<Longrightarrow> i = j"
    and load_Inr: "load db i = Inr a \<Longrightarrow> key a = i \<and> lc_pending (life a) = [] \<and> i \<in> set (row_ids db)"
    and load_same: "same db db' \<Longrightarrow> load db' i = load db i \<and> row_ids db' = row_ids db \<and> peer_ids db' = peer_ids db"
    and origin_key: "origin a = origin b \<Longrightarrow> key a = key b"
    and step_keeps: "step a op = Inr b \<Longrightarrow> origin b = origin a" "step a op = Inr b \<Longrightarrow> good a \<Longrightarrow> good b"
    and clean_keeps: "origin (clean a) = origin a" "good (clean a) = good a"
      "life (clean a) = (life a)\<lparr>lc_pending := []\<rparr>"
    and due_cases: "due a now = (was_due, a') \<Longrightarrow>
       (if lc_state (life a) = Open \<and> lc_expires_at (life a) \<le> now
        then was_due \<and> evolves step a a' \<and> lc_state (life a') = proposal_state.Expired else \<not> was_due \<and> a' = a)"
    and persist_reads: "load db (key a) = Inr a0 \<Longrightarrow> origin a0 = origin a \<Longrightarrow> good a
       \<Longrightarrow> persist db a actor au now = Inr (db', a') \<Longrightarrow> load db' (key a) = Inr (clean a)"
    and persist_frame: "persist db a actor au now = Inr (db', a') \<Longrightarrow>
       row_ids db' = row_ids db \<and> peer_ids db' = peer_ids db \<and> (\<forall>j. j \<noteq> key a \<longrightarrow> load db' j = load db j)
       \<and> db_governance_events db' = db_governance_events db @ event_rows (subject (key a)) (lc_version (life a)) (lc_pending (life a)) actor au now"
    and insert_reads: "insert_new db a = Inr db' \<Longrightarrow> good a \<Longrightarrow> fresh a \<Longrightarrow> key a \<notin> set (peer_ids db) \<Longrightarrow> load db' (key a) = Inr (clean a)"
    and insert_frame: "insert_new db a = Inr db' \<Longrightarrow>
       row_ids db' = row_ids db @ [key a] \<and> key a \<notin> set (row_ids db) \<and> set (peer_ids db') \<subseteq> insert (key a) (set (peer_ids db))
       \<and> (\<forall>j. j \<noteq> key a \<longrightarrow> load db' j = load db j) \<and> db_governance_events db' = db_governance_events db"
begin

definition log_of :: "'z consilium_db_scheme \<Rightarrow> 'i \<Rightarrow> governance_row list" where
  "log_of db i = filter (\<lambda>g. gv_subject g = subject i) (db_governance_events db)"

text \<open>What the tables of this kind of proposal keep.\<close>

definition stored_ok :: "'z consilium_db_scheme \<Rightarrow> bool" where
  "stored_ok db \<longleftrightarrow> distinct (row_ids db) \<and> set (peer_ids db) \<subseteq> set (row_ids db)
     \<and> (\<forall>i. log_of db i \<noteq> [] \<longrightarrow> i \<in> set (row_ids db))
     \<and> (\<forall>i\<in>set (row_ids db). \<exists>a. load db i = Inr a \<and> good a \<and> logged (log_of db i) (life a))"

lemma evolves_life: "evolves step a b \<Longrightarrow> life_step\<^sup>*\<^sup>* (life a) (life b)"
  unfolding evolves_def
  by (induction rule: rtranclp_induct) (auto dest: step_life intro: rtranclp.rtrancl_into_rtrancl)

lemma evolves_origin: "evolves step a b \<Longrightarrow> origin b = origin a"
  by (erule evolves_keeps [where P = "\<lambda>x. origin x = origin a"]) (auto dest: step_keeps(1))

lemma evolves_good: "evolves step a b \<Longrightarrow> good a \<Longrightarrow> good b"
  by (erule evolves_keeps [where P = good]) (auto dest: step_keeps(2))

lemma ok_elsewhere:
  "same db db' \<Longrightarrow> (\<And>i. log_of db' i = log_of db i) \<Longrightarrow> stored_ok db \<Longrightarrow> stored_ok db'"
  by (simp add: stored_ok_def load_same)

lemma log_of_append:
  "db_governance_events db' = db_governance_events db @ event_rows (subject k) v es actor au now \<Longrightarrow>
     log_of db' i = log_of db i @ (if i = k then event_rows (subject k) v es actor au now else [])"
  by (auto simp: log_of_def filter_id_conv filter_empty_conv event_rows_subject)
    (metis event_rows_subject subject_inj)

lemma log_of_same: "db_governance_events db' = db_governance_events db \<Longrightarrow> log_of db' i = log_of db i"
  by (simp add: log_of_def)

text \<open>Load, act, persist: what is read afterwards, and that the tables stay in order.\<close>

lemma persist_evolves:
  assumes "stored_ok db" and "load db i = Inr a0" and "evolves step a0 a"
    and "persist db a actor au now = Inr (db', a')"
  shows "stored_ok db'" and "load db' i = Inr (clean a)"
proof -
  have key: "key a = i" "origin a0 = origin a"
    using load_Inr [OF assms(2)] evolves_origin [OF assms(3)] origin_key [of a a0] by auto
  have i: "i \<in> set (row_ids db)" using load_Inr [OF assms(2)] by simp
  then have a0: "good a0" "logged (log_of db i) (life a0)" using assms(1,2) by (auto simp: stored_ok_def)
  then have good: "good a" using assms(3) evolves_good by blast
  show read: "load db' i = Inr (clean a)"
    using persist_reads [OF _ key(2) good assms(4)] assms(2) key(1) by simp
  note frame = persist_frame [OF assms(4), unfolded key(1)]
  have log: "log_of db' j = log_of db j @ (if j = i then event_rows (subject i) (lc_version (life a)) (lc_pending (life a)) actor au now else [])" for j
    by (rule log_of_append) (use frame in blast)
  have "logged (log_of db' i) (life (clean a))"
    using logged_extend [OF a0(2) _ evolves_life [OF assms(3)]] load_Inr [OF assms(2)] by (simp add: log clean_keeps)
  moreover have "\<exists>a. load db' j = Inr a \<and> good a \<and> logged (log_of db' j) (life a)"
    if "j \<in> set (row_ids db)" "j \<noteq> i" for j
    using assms(1) that frame by (simp add: stored_ok_def log)
  moreover have "log_of db' j \<noteq> [] \<Longrightarrow> j \<in> set (row_ids db)" for j
    using assms(1) i by (cases "j = i") (auto simp: stored_ok_def log)
  ultimately show "stored_ok db'"
    using assms(1) frame read good unfolding stored_ok_def by (metis clean_keeps(2))
qed

lemma insert_persist:
  assumes "stored_ok db" and "insert_new db a = Inr db1" and "good a" and "fresh a" and "life a = bump_and_emit (lc_opened t ttl) Opened"
    and "same db1 db2" and "db_governance_events db2 = db_governance_events db1"
    and "origin a1 = origin a" and "good a1" and "life a1 = life a"
    and "persist db2 a1 actor au now = Inr (db', a')"
  shows "stored_ok db'" and "load db' (key a) = Inr (clean a1)"
proof -
  note ins = insert_frame [OF assms(2)]
  have unused: "key a \<notin> set (peer_ids db)" using assms(1) ins by (auto simp: stored_ok_def)
  have key: "key a1 = key a" by (rule origin_key [OF assms(8)])
  have "load db2 (key a) = Inr (clean a)"
    using insert_reads [OF assms(2,3,4) unused] load_same [OF assms(6)] by simp
  then show read: "load db' (key a) = Inr (clean a1)"
    using persist_reads [OF _ _ assms(9,11), of "clean a"] by (simp add: key clean_keeps assms(8))
  note frame = persist_frame [OF assms(11), unfolded key]
  note rows = load_same [OF assms(6)]
  have log: "log_of db' j = log_of db j @ (if j = key a then event_rows (subject (key a)) (lc_version (life a1)) (lc_pending (life a1)) actor au now else [])" for j
    using log_of_append [of db' db2 "key a" _ _ actor au now] log_of_same [of db2 db1] log_of_same [of db1 db] frame ins assms(7) by simp
  have none: "log_of db (key a) = []" using assms(1) ins by (auto simp: stored_ok_def)
  have ids: "row_ids db' = row_ids db @ [key a]" "set (peer_ids db') \<subseteq> insert (key a) (set (peer_ids db))"
    "j \<noteq> key a \<Longrightarrow> load db' j = load db j" for j
    using frame ins rows by simp_all
  have "logged (log_of db' (key a)) (life (clean a1))"
    using assms(5,10) event_rows_versions [of "subject (key a)" 0 "[Opened]" actor au now]
      event_rows_kinds [of "subject (key a)" 1 "[Opened]" actor au now]
    by (simp add: log none logged_def clean_keeps life_defs lc_opened_def closing_event_def
        governance_event_kind_def closing_kind_def)
  then show "stored_ok db'"
    using assms(1,9) ins ids read by (auto simp: stored_ok_def log none clean_keeps(2))
qed

text \<open>What a decision does to the tables of its own kind.\<close>

lemma decide_cases:
  obtains (rolled_back) e where "decide (\<lambda>db. load db i) due persist expired act actor au now db = (Inl e, db)"
  | (lapsed) a a' db1 a1 where "load (lock_governance db) i = Inr a" "lc_state (life a) = Open" "lc_expires_at (life a) \<le> now"
      "evolves step a a'" "lc_state (life a') = proposal_state.Expired"
      "persist (lock_governance db) a' None audit_default now = Inr (db1, a1)"
      "decide (\<lambda>db. load db i) due persist expired act actor au now db = (Inl (Conflict expired), db1)"
  | (acted) a db1 a1 db2 a2 where "load (lock_governance db) i = Inr a" "lc_state (life a) = Open \<longrightarrow> now < lc_expires_at (life a)"
      "act (lock_governance db) a = Inr (db1, a1)" "persist db1 a1 (Some actor) au now = Inr (db2, a2)"
      "decide (\<lambda>db. load db i) due persist expired act actor au now db = (Inr (), db2)"
proof (cases "load (lock_governance db) i")
  case (Inl e)
  then show thesis using rolled_back by (simp add: decide_def transact_def)
next
  case (Inr a)
  obtain b a' where d: "due a now = (b, a')" by fastforce
  note cases = due_cases [OF d]
  show thesis
  proof (cases b)
    case True
    with cases have dd: "lc_state (life a) = Open" "lc_expires_at (life a) \<le> now" "evolves step a a'"
      "lc_state (life a') = proposal_state.Expired" by (auto split: if_splits)
    show thesis
    proof (cases "persist (lock_governance db) a' None audit_default now")
      case (Inl e)
      then show thesis using Inr d True rolled_back by (simp add: decide_def transact_def)
    next
      case p: (Inr x)
      obtain db1 a1 where x: "x = (db1, a1)" by fastforce
      show thesis
        by (rule lapsed [OF Inr dd]) (use Inr d True p x in \<open>simp_all add: decide_def transact_def\<close>)
    qed
  next
    case False
    with cases have open_live: "lc_state (life a) = Open \<longrightarrow> now < lc_expires_at (life a)" and a': "a' = a"
      by (auto split: if_splits)
    show thesis
    proof (cases "act (lock_governance db) a")
      case (Inl e)
      then show thesis using Inr d False a' rolled_back by (simp add: decide_def transact_def)
    next
      case r: (Inr x)
      obtain db1 a1 where x: "x = (db1, a1)" by fastforce
      show thesis
      proof (cases "persist db1 a1 (Some actor) au now")
        case (Inl e)
        then show thesis using Inr d False a' r x rolled_back by (simp add: decide_def transact_def)
      next
        case p: (Inr y)
        obtain db2 a2 where y: "y = (db2, a2)" by fastforce
        show thesis
          by (rule acted [OF Inr open_live]) (use Inr d False a' r x p y in \<open>simp_all add: decide_def transact_def\<close>)
      qed
    qed
  qed
qed

lemma decide_ok:
  assumes "stored_ok db" and "\<And>db. same db (lock_governance db)"
    and "\<And>db a db1 a1. act db a = Inr (db1, a1) \<Longrightarrow> evolves step a a1 \<and> same db db1 \<and> db_governance_events db1 = db_governance_events db"
  shows "stored_ok (snd (decide (\<lambda>db. load db i) due persist expired act actor au now db))"
proof -
  have locked: "stored_ok (lock_governance db)"
    by (rule ok_elsewhere [OF assms(2) _ assms(1)]) (simp add: log_of_def lock_governance_def)
  show ?thesis
  proof (cases rule: decide_cases [of i expired act actor au now db])
    case (lapsed a a' db1 a1)
    then show ?thesis using persist_evolves(1) [OF locked] by simp
  next
    case (acted a db1 a1 db2 a2)
    note act = assms(3) [OF acted(3)]
    have "stored_ok db1"
      by (rule ok_elsewhere [OF _ _ locked]) (use act log_of_same in blast)+
    moreover have "load db1 i = Inr a" using load_same [of "lock_governance db" db1] act acted(1) by simp
    ultimately have "stored_ok db2" using persist_evolves(1) act acted(4) by blast
    then show ?thesis using acted(5) by simp
  qed (use assms(1) in simp)
qed

lemma close_stale_ok:
  assumes "stored_ok db" and "close_stale stale load due persist now db = Inr db'"
  shows "stored_ok db'"
proof (cases stale)
  case None
  then show ?thesis using assms by (simp add: close_stale_def)
next
  case (Some i)
  then obtain a where a: "load db i = Inr a" using assms(2) by (auto simp: close_stale_def rbind_Inr_iff)
  obtain b a' where d: "due a now = (b, a')" by fastforce
  show ?thesis
  proof (cases b)
    case False
    then show ?thesis using assms Some a d by (simp add: close_stale_def)
  next
    case True
    then obtain a1 where "persist db a' None audit_default now = Inr (db', a1)"
      using assms(2) Some a d by (auto simp: close_stale_def rbind_Inr_iff)
    then show ?thesis using persist_evolves(1) [OF assms(1) a] due_cases [OF d] True by (auto split: if_splits)
  qed
qed

end

text \<open>What every part of a decision keeps, the whole keeps.\<close>

lemma decide_keeps:
  assumes "P db" and "\<And>db. P db \<Longrightarrow> P (lock_governance db)"
    and "\<And>db a actor au db' a'. P db \<Longrightarrow> persist db a actor au now = Inr (db', a') \<Longrightarrow> P db'"
    and "\<And>db a db' a'. P db \<Longrightarrow> act db a = Inr (db', a') \<Longrightarrow> P db'"
  shows "P (snd (decide load due persist expired act actor au now db))"
  unfolding decide_def
proof (rule transact_keeps [where P = P, OF assms(1)])
  fix out db'
  let ?db = "lock_governance db"
  assume run: "(let db = ?db in rbind (load db) (\<lambda>a. let (was_due, a) = due a now in
      if was_due then rbind (persist db a None audit_default now) (\<lambda>(db, a). Inr (Inl (Conflict expired), db))
      else rbind (act db a) (\<lambda>(db, a). rbind (persist db a (Some actor) au now) (\<lambda>(db, a). Inr (Inr (), db))))) = Inr (out, db')"
  then obtain a where a: "load ?db = Inr a" by (auto simp: rbind_Inr_iff Let_def)
  obtain b a' where d: "due a now = (b, a')" by fastforce
  note P = assms(2) [OF assms(1)]
  show "P db'"
  proof (cases b)
    case True
    with run a d obtain a1 where "persist ?db a' None audit_default now = Inr (db', a1)" by (auto simp: rbind_Inr_iff Let_def)
    then show ?thesis by (rule assms(3) [OF P])
  next
    case False
    with run a d obtain db1 a1 a2 where "act ?db a' = Inr (db1, a1)" "persist db1 a1 (Some actor) au now = Inr (db', a2)"
      by (auto simp: rbind_Inr_iff Let_def)
    then show ?thesis using assms(3,4) P by blast
  qed
qed

lemma close_stale_keeps:
  assumes "P db" and "close_stale stale load due persist now db = Inr db'"
    and "\<And>db a actor au db' a'. P db \<Longrightarrow> persist db a actor au now = Inr (db', a') \<Longrightarrow> P db'"
  shows "P db'"
proof (cases stale)
  case (Some i)
  then obtain a where a: "load db i = Inr a" using assms(2) by (auto simp: close_stale_def rbind_Inr_iff)
  obtain b a' where d: "due a now = (b, a')" by fastforce
  then show ?thesis
    using assms(1,2) Some a by (cases b) (auto simp: close_stale_def rbind_Inr_iff dest: assms(3))
qed (use assms(1,2) in \<open>simp add: close_stale_def\<close>)

end
