(* ===== verification/Consilium_Stores.thy ===== *)
theory Consilium_Stores
  imports Consilium_Laws
begin

text \<open>
  The three tables of proposals meet the contract of \<open>proposal_store\<close>: writing a removal,
  an admission or a user proposal and reading it back gives the aggregate without its
  pending events, and its events are in the audit log.
\<close>

lemma stored_optional [simp]: "stored_ts (optional_ts t) = t"
  by (simp add: stored_ts_def optional_ts_def)

lemma check_row_Inr: "check_row E checks = Inr u \<longleftrightarrow> (\<forall>c\<in>set checks. snd c)"
  by (auto simp: check_row_def first_broken_def find_None_iff_all split: option.splits dest: find_Some_in)

lemma find_append_fresh:
  "\<not> list_ex (\<lambda>w. k w = j) xs \<Longrightarrow> k x = j \<Longrightarrow> find (\<lambda>w. k w = j) (xs @ [x]) = Some x"
  by (induction xs) auto

lemma find_append_other: "k x \<noteq> j \<Longrightarrow> find (\<lambda>w. k w = j) (xs @ [x]) = find (\<lambda>w. k w = j) xs"
  by (induction xs) auto

lemma find_update:
  "find (\<lambda>w. k w = j) (map (\<lambda>w. if k w = i then f w else w) xs) =
     (if j = i then map_option f (find (\<lambda>w. k w = i) xs) else find (\<lambda>w. k w = j) xs)"
  if "\<And>w. k (f w) = k w"
  by (induction xs) (auto simp: that)

lemma load_new_peers:
  assumes "i \<notin> set (map pw_proposal rows)" and "sorted (map p_user_id ps)"
    and "\<forall>p\<in>set ps. parse (lit ''pending'') = Inr (p_vote p) \<and> p_voted_at p = 0"
  shows "load_peers_of parse (rows @ new_peers i ps) i = Inr ps"
proof -
  have "filter (\<lambda>r. pw_proposal r = i) (rows @ new_peers i ps) = new_peers i ps"
    using assms(1) by (auto simp: new_peers_def filter_empty_conv)
  moreover have "sort_key pw_user_id (new_peers i ps) = new_peers i ps"
    using assms(2) by (simp add: sort_key_id_if_sorted new_peers_def comp_def)
  moreover have "rbind (parse (lit ''pending'')) (\<lambda>v. Inr \<lparr>p_user_id = p_user_id (ps ! k), p_vote = v, p_voted_at = 0\<rparr>) = Inr (ps ! k)"
    if "k < length ps" for k
    using assms(3) nth_mem [OF that] by (cases "ps ! k") auto
  ultimately show ?thesis
    by (simp add: load_peers_of_def traverse_nth new_peers_def stored_ts_def)
qed

lemma load_new_peers_other:
  "j \<noteq> i \<Longrightarrow> load_peers_of parse (rows @ new_peers i ps) j = load_peers_of parse rows j"
  by (rule load_peers_other) (simp_all add: new_peers_def filter_empty_conv)

section \<open>Removals\<close>

definition removal_origin :: "owner_removal \<Rightarrow> removal_id \<times> user_id \<times> user_id \<times> rstr \<times> nat \<times> int \<times> int \<times> user_id list" where
  "removal_origin r = (rm_id r, rm_target r, rm_initiator r, rm_reason r, rm_owner_count r,
     lc_created_at (rm_life r), lc_expires_at (rm_life r), voters (rm_peers r))"

definition removal_clean :: "owner_removal \<Rightarrow> owner_removal" where
  "removal_clean r = snd (removal_drain_events r)"

definition removal_good :: "owner_removal \<Rightarrow> bool" where
  "removal_good r \<longleftrightarrow> removal_inv r \<and> sorted (voters (rm_peers r))"

definition removal_fresh :: "owner_removal \<Rightarrow> bool" where
  "removal_fresh r \<longleftrightarrow> rm_decision r = vote.Pending \<and> rm_decided_as_target_at r = 0 \<and> \<not> rm_target_notified r
     \<and> lc_decided_at (rm_life r) = 0 \<and> lc_void_reason (rm_life r) = []
     \<and> (\<forall>p\<in>set (rm_peers r). p_vote p = vote.Pending \<and> p_voted_at p = 0)"

definition same_removals :: "'z consilium_db_scheme \<Rightarrow> 'z consilium_db_scheme \<Rightarrow> bool" where
  "same_removals db db' \<longleftrightarrow> db_removals db' = db_removals db \<and> db_removal_peers db' = db_removal_peers db"

lemma removal_columns_id [simp]: "rr_id (removal_columns r row) = rr_id row"
  by (simp add: removal_columns_def)

lemma load_removal_Inr:
  "load_removal E db i = Inr r \<longleftrightarrow> (\<exists>row ps. find (\<lambda>w. rr_id w = i) (db_removals db) = Some row
     \<and> load_peers_of vote_parse (db_removal_peers db) i = Inr ps \<and> rehydrate_removal row ps = Inr r)"
  by (auto simp: load_removal_def rbind_Inr_iff split: option.splits)

lemma rehydrate_removal_Inr:
  "rehydrate_removal row ps = Inr r \<longleftrightarrow> rr_state row = proposal_state_as_str (removal_state r)
     \<and> rr_target_decision row = vote_as_str (rm_decision r)
     \<and> r = removal_rehydrate (rr_id row) (rr_target row) (rr_initiator row) (rr_reason row) (removal_state r) (rr_owner_count row) ps
       (rm_decision r) (stored_ts (rr_target_decided_at row)) (rr_target_notified row) (rr_created_at row) (rr_expires_at row)
       (stored_ts (rr_decided_at row)) (rr_void_reason row) (rr_version row)"
proof
  assume "rehydrate_removal row ps = Inr r"
  then show "rr_state row = proposal_state_as_str (removal_state r)
     \<and> rr_target_decision row = vote_as_str (rm_decision r)
     \<and> r = removal_rehydrate (rr_id row) (rr_target row) (rr_initiator row) (rr_reason row) (removal_state r) (rr_owner_count row) ps
       (rm_decision r) (stored_ts (rr_target_decided_at row)) (rr_target_notified row) (rr_created_at row) (rr_expires_at row)
       (stored_ts (rr_decided_at row)) (rr_void_reason row) (rr_version row)"
    by (auto simp: rehydrate_removal_def rbind_Inr_iff state_codec.parse_Inr_iff vote_codec.parse_Inr_iff
        removal_rehydrate_def removal_state_def lc_rehydrate_def)
next
  assume "rr_state row = proposal_state_as_str (removal_state r)
     \<and> rr_target_decision row = vote_as_str (rm_decision r)
     \<and> r = removal_rehydrate (rr_id row) (rr_target row) (rr_initiator row) (rr_reason row) (removal_state r) (rr_owner_count row) ps
       (rm_decision r) (stored_ts (rr_target_decided_at row)) (rr_target_notified row) (rr_created_at row) (rr_expires_at row)
       (stored_ts (rr_decided_at row)) (rr_void_reason row) (rr_version row)"
  then show "rehydrate_removal row ps = Inr r"
    by (simp add: rehydrate_removal_def state_codec.parse_as_str vote_codec.parse_as_str)
qed

lemma update_removal_Inr:
  assumes "update_removal E db r = Inr db'"
  shows "db' = db\<lparr>db_removals := map (\<lambda>w. if rr_id w = rm_id r then removal_columns r w else w) (db_removals db)\<rparr>"
proof (cases "find (\<lambda>w. rr_id w = rm_id r) (db_removals db)")
  case None
  then have "map (\<lambda>w. if rr_id w = rm_id r then removal_columns r w else w) (db_removals db) = db_removals db"
    by (intro map_idI) (auto simp: find_None_iff_all)
  with None assms show ?thesis by (simp add: update_removal_def)
qed (use assms in \<open>auto simp: update_removal_def rbind_Inr_iff\<close>)

lemma persist_removal_Inr:
  assumes "persist_removal E db r actor au now = Inr (db', r')"
  obtains peers where "save_peers E vote_as_str (\<lambda>p. optional_ts (p_voted_at p)) (rm_id r) (rm_peers r) (db_removal_peers db) = Inr peers"
    "r' = removal_clean r"
    "db' = db\<lparr>db_removals := map (\<lambda>w. if rr_id w = rm_id r then removal_columns r w else w) (db_removals db),
        db_removal_peers := peers, db_governance_events := db_governance_events db
          @ event_rows (Subject_Removal (rm_id r)) (lc_version (rm_life r)) (lc_pending (rm_life r)) actor au now\<rparr>"
proof -
  obtain db1 peers where u: "update_removal E db r = Inr db1"
    and p: "save_peers E vote_as_str (\<lambda>p. optional_ts (p_voted_at p)) (rm_id r) (rm_peers r) (db_removal_peers db1) = Inr peers"
    and "db' = insert_events (db1\<lparr>db_removal_peers := peers\<rparr>) (Subject_Removal (rm_id r)) (lc_version (rm_life r)) (lc_pending (rm_life r)) actor au now"
    "r' = removal_clean r"
    using assms by (auto simp: persist_removal_def rbind_Inr_iff removal_drain_events_def removal_clean_def)
  then show thesis using update_removal_Inr [OF u] by (intro that [of peers]) (simp_all add: insert_events_eq)
qed

lemma insert_removal_Inr:
  assumes "insert_removal E db r = Inr db'"
  shows "db' = db\<lparr>db_removals := db_removals db @ [removal_row_of r],
             db_removal_peers := db_removal_peers db @ new_peers (rm_id r) (rm_peers r)\<rparr>
    \<and> \<not> list_ex (\<lambda>w. rr_id w = rm_id r) (db_removals db)"
  using assms by (auto simp: insert_removal_def rbind_Inr_iff check_row_Inr removal_checks_def removal_row_of_def)

lemma removal_step_origin: "removal_step r op = Inr r' \<Longrightarrow> removal_origin r' = removal_origin r"
proof -
  assume st: "removal_step r op = Inr r'"
  have "rm_id r' = rm_id r" "rm_reason r' = rm_reason r" "rm_owner_count r' = rm_owner_count r"
    using st by (cases op; auto simp: removal_op_defs result_simps removal_resolve_def Let_def split: if_splits option.splits)+
  then show ?thesis
    using removal_step_frame [OF st] life_step_frame [OF removal_life.step_life [OF st]] by (simp add: removal_origin_def)
qed

lemma removal_clean_simps [simp]:
  "rm_life (removal_clean r) = (rm_life r)\<lparr>lc_pending := []\<rparr>" "rm_id (removal_clean r) = rm_id r"
  "rm_peers (removal_clean r) = rm_peers r" "rm_target (removal_clean r) = rm_target r"
  "rm_reason (removal_clean r) = rm_reason r" "rm_owner_count (removal_clean r) = rm_owner_count r"
  "rm_decision (removal_clean r) = rm_decision r" "rm_initiator (removal_clean r) = rm_initiator r"
  by (simp_all add: removal_clean_def removal_drain_events_def)

lemma removal_rehydrate_clean:
  "removal_rehydrate (rm_id r) (rm_target r) (rm_initiator r) (rm_reason r) (removal_state r) (rm_owner_count r) (rm_peers r)
     (rm_decision r) (rm_decided_as_target_at r) (rm_target_notified r) (lc_created_at (rm_life r)) (lc_expires_at (rm_life r))
     (lc_decided_at (rm_life r)) (lc_void_reason (rm_life r)) (lc_version (rm_life r)) = removal_clean r"
  by (simp add: removal_rehydrate_def removal_clean_def removal_drain_events_def removal_state_def lc_rehydrate_def)

lemma rehydrate_removal_columns:
  assumes "rm_id r = rr_id row" "rm_target r = rr_target row" "rm_initiator r = rr_initiator row" "rm_reason r = rr_reason row"
    "rm_owner_count r = rr_owner_count row" "lc_created_at (rm_life r) = rr_created_at row" "lc_expires_at (rm_life r) = rr_expires_at row"
  shows "rehydrate_removal (removal_columns r row) (rm_peers r) = Inr (removal_clean r)"
  using removal_rehydrate_clean [of r] assms
  by (simp add: rehydrate_removal_def removal_columns_def state_codec.parse_as_str vote_codec.parse_as_str)

lemma load_removal_origin:
  assumes "load_removal E db i = Inr r"
  obtains row where "find (\<lambda>w. rr_id w = i) (db_removals db) = Some row" "rr_id row = i"
    "rm_id r = rr_id row" "rm_target r = rr_target row" "rm_initiator r = rr_initiator row" "rm_reason r = rr_reason row"
    "rm_owner_count r = rr_owner_count row" "lc_created_at (rm_life r) = rr_created_at row" "lc_expires_at (rm_life r) = rr_expires_at row"
    "load_peers_of vote_parse (db_removal_peers db) i = Inr (rm_peers r)" "lc_pending (rm_life r) = []"
    "rr_state row = proposal_state_as_str (removal_state r)" "rr_target_decision row = vote_as_str (rm_decision r)"
    "rr_version row = lc_version (rm_life r)"
proof -
  obtain row ps where row: "find (\<lambda>w. rr_id w = i) (db_removals db) = Some row"
    and ps: "load_peers_of vote_parse (db_removal_peers db) i = Inr ps" and r: "rehydrate_removal row ps = Inr r"
    using assms by (auto simp: load_removal_Inr)
  have "r = removal_rehydrate (rr_id row) (rr_target row) (rr_initiator row) (rr_reason row) (removal_state r) (rr_owner_count row) ps
       (rm_decision r) (stored_ts (rr_target_decided_at row)) (rr_target_notified row) (rr_created_at row) (rr_expires_at row)
       (stored_ts (rr_decided_at row)) (rr_void_reason row) (rr_version row)"
    "rr_state row = proposal_state_as_str (removal_state r)" "rr_target_decision row = vote_as_str (rm_decision r)"
    using r unfolding rehydrate_removal_Inr by blast+
  then show thesis
    using row ps find_Some_in [OF row]
    by (intro that [of row]) (simp_all add: removal_rehydrate_def lc_rehydrate_def,
        (metis lifecycle.select_convs owner_removal.select_convs)+)
qed

lemma persist_removal_reads:
  assumes "load_removal E db (rm_id r) = Inr r0" and "removal_origin r0 = removal_origin r" and "removal_good r"
    and "persist_removal E db r actor au now = Inr (db', r')"
  shows "load_removal E db' (rm_id r) = Inr (removal_clean r)"
proof -
  obtain peers where p: "save_peers E vote_as_str (\<lambda>p. optional_ts (p_voted_at p)) (rm_id r) (rm_peers r) (db_removal_peers db) = Inr peers"
    and db': "db' = db\<lparr>db_removals := map (\<lambda>w. if rr_id w = rm_id r then removal_columns r w else w) (db_removals db),
        db_removal_peers := peers, db_governance_events := db_governance_events db
          @ event_rows (Subject_Removal (rm_id r)) (lc_version (rm_life r)) (lc_pending (rm_life r)) actor au now\<rparr>"
    by (rule persist_removal_Inr [OF assms(4)]) (rule that, assumption+)
  obtain row where row: "find (\<lambda>w. rr_id w = rm_id r) (db_removals db) = Some row" "rr_id row = rm_id r"
    "rm_id r0 = rr_id row" "rm_target r0 = rr_target row" "rm_initiator r0 = rr_initiator row" "rm_reason r0 = rr_reason row"
    "rm_owner_count r0 = rr_owner_count row" "lc_created_at (rm_life r0) = rr_created_at row" "lc_expires_at (rm_life r0) = rr_expires_at row"
    and ps: "load_peers_of vote_parse (db_removal_peers db) (rm_id r) = Inr (rm_peers r0)"
    by (rule load_removal_origin [OF assms(1)]) (rule that, assumption+)
  have "load_peers_of vote_parse peers (rm_id r) = Inr (rm_peers r)"
    by (rule load_peers_saved [OF ps _ _ p])
      (use assms(2,3) in \<open>simp_all add: removal_origin_def voters_def removal_good_def removal_inv_def vote_codec.parse_as_str\<close>)
  moreover have "rehydrate_removal (removal_columns r row) (rm_peers r) = Inr (removal_clean r)"
    using rehydrate_removal_columns [of r row] row assms(2) by (simp add: removal_origin_def)
  ultimately show ?thesis
    using row(1) by (simp add: load_removal_Inr db' find_update)
qed

lemma insert_removal_reads:
  assumes "insert_removal E db r = Inr db'" and "removal_good r" and "removal_fresh r"
    and "rm_id r \<notin> set (map pw_proposal (db_removal_peers db))"
  shows "load_removal E db' (rm_id r) = Inr (removal_clean r)"
proof -
  note ins = insert_removal_Inr [OF assms(1)]
  have "load_peers_of vote_parse (db_removal_peers db @ new_peers (rm_id r) (rm_peers r)) (rm_id r) = Inr (rm_peers r)"
    using assms(2-4) by (intro load_new_peers)
      (auto simp: removal_good_def removal_fresh_def voters_def vote_parse_def)
  moreover have "rehydrate_removal (removal_row_of r) (rm_peers r) = Inr (removal_clean r)"
    using assms(3) removal_rehydrate_clean [of r]
    by (simp add: rehydrate_removal_def removal_row_of_def removal_fresh_def state_codec.parse_as_str vote_parse_def stored_ts_def)
  ultimately show ?thesis
    using ins find_append_fresh [of rr_id "rm_id r" "db_removals db" "removal_row_of r"]
    by (simp add: load_removal_Inr removal_row_of_def)
qed

lemma persist_removal_frame:
  assumes "persist_removal E db a actor au now = Inr (db', a')"
  shows "map rr_id (db_removals db') = map rr_id (db_removals db) \<and> map pw_proposal (db_removal_peers db') = map pw_proposal (db_removal_peers db)
       \<and> (\<forall>j. j \<noteq> rm_id a \<longrightarrow> load_removal E db' j = load_removal E db j)
       \<and> db_governance_events db' = db_governance_events db @ event_rows (Subject_Removal (rm_id a)) (lc_version (rm_life a)) (lc_pending (rm_life a)) actor au now"
proof -
  obtain peers where p: "save_peers E vote_as_str (\<lambda>p. optional_ts (p_voted_at p)) (rm_id a) (rm_peers a) (db_removal_peers db) = Inr peers"
    and db': "db' = db\<lparr>db_removals := map (\<lambda>w. if rr_id w = rm_id a then removal_columns a w else w) (db_removals db),
        db_removal_peers := peers, db_governance_events := db_governance_events db
          @ event_rows (Subject_Removal (rm_id a)) (lc_version (rm_life a)) (lc_pending (rm_life a)) actor au now\<rparr>"
    by (rule persist_removal_Inr [OF assms]) (rule that, assumption+)
  note keys = save_peers_keys [OF p]
  have "load_peers_of vote_parse peers j = load_peers_of vote_parse (db_removal_peers db) j" if "j \<noteq> rm_id a" for j
    by (rule load_peers_other [OF conjunct2 [OF keys] that])
  then have same: "load_removal E db' j = load_removal E db j" if "j \<noteq> rm_id a" for j
    using that by (simp add: db' load_removal_def find_update cong: option.case_cong)
  have "map rr_id (map (\<lambda>w. if rr_id w = rm_id a then removal_columns a w else w) xs) = map rr_id xs" for xs
    by (induction xs) simp_all
  then show ?thesis using keys same by (simp add: db')
qed

lemma insert_removal_frame:
  assumes "insert_removal E db a = Inr db'"
  shows "map rr_id (db_removals db') = map rr_id (db_removals db) @ [rm_id a] \<and> rm_id a \<notin> set (map rr_id (db_removals db))
       \<and> set (map pw_proposal (db_removal_peers db')) \<subseteq> insert (rm_id a) (set (map pw_proposal (db_removal_peers db)))
       \<and> (\<forall>j. j \<noteq> rm_id a \<longrightarrow> load_removal E db' j = load_removal E db j) \<and> db_governance_events db' = db_governance_events db"
proof -
  note ins = insert_removal_Inr [OF assms]
  have id: "rr_id (removal_row_of a) = rm_id a" by (simp add: removal_row_of_def)
  have "map pw_proposal (new_peers (rm_id a) (rm_peers a)) = map (\<lambda>_. rm_id a) (rm_peers a)"
    by (simp add: new_peers_def)
  then have "set (map pw_proposal (new_peers (rm_id a) (rm_peers a))) \<subseteq> {rm_id a}" by auto
  moreover have "load_removal E db' j = load_removal E db j" if "j \<noteq> rm_id a" for j
    using ins that id by (simp add: load_removal_def find_append_other load_new_peers_other cong: option.case_cong)
  ultimately show ?thesis using ins id by (auto simp: list_ex_iff)
qed

lemma removal_expire_due:
  assumes "expire_if_due r now = (b, r')"
  shows "if lc_state (rm_life r) = Open \<and> lc_expires_at (rm_life r) \<le> now
    then b \<and> evolves removal_step r r' \<and> lc_state (rm_life r') = proposal_state.Expired else \<not> b \<and> r' = r"
proof (cases "lc_state (rm_life r) = Open \<and> lc_expires_at (rm_life r) \<le> now")
  case True
  then obtain r1 where r1: "removal_expire r now = Inr r1"
    by (auto simp: removal_expire_def lc_expire_def lc_require_open_def is_open_def)
  then have "evolves removal_step r r1" using evolves_step [of removal_step r "R_Expire now" r1] by simp
  moreover have "lc_state (rm_life r1) = proposal_state.Expired"
    using r1 by (auto simp: removal_expire_def rbind_Inr_iff dest: lc_expire_state)
  ultimately show ?thesis
    using True assms r1 by (auto simp: expire_if_due_def removal_state_def is_open_def)
qed (use assms in \<open>auto simp: expire_if_due_def removal_state_def is_open_def\<close>)

interpretation removals: proposal_store rm_life removal_step "load_removal E" "persist_removal E" "insert_removal E"
  expire_if_due removal_origin rm_id removal_clean removal_good removal_fresh
  "\<lambda>db. map rr_id (db_removals db)" "\<lambda>db. map pw_proposal (db_removal_peers db)" Subject_Removal same_removals for E
proof unfold_locales
  show "load_removal E db i = Inr a \<Longrightarrow> rm_id a = i \<and> lc_pending (rm_life a) = [] \<and> i \<in> set (map rr_id (db_removals db))"
    for E and db :: "'z consilium_db_scheme" and i a
    by (erule load_removal_origin) (auto dest: find_Some_in)
  show "removal_step a op = Inr b \<Longrightarrow> removal_good a \<Longrightarrow> removal_good b" for a op b
    using removal_step_inv [of a op b] removal_step_voters [of a op b] by (simp add: removal_good_def)
  show "removal_good (removal_clean a) = removal_good a" for a
    by (simp add: removal_good_def removal_inv_def removal_state_def removal_outcome_def)
  show "persist_removal E db a actor au now = Inr (db', a') \<Longrightarrow>
       map rr_id (db_removals db') = map rr_id (db_removals db) \<and> map pw_proposal (db_removal_peers db') = map pw_proposal (db_removal_peers db)
       \<and> (\<forall>j. j \<noteq> rm_id a \<longrightarrow> load_removal E db' j = load_removal E db j)
       \<and> db_governance_events db' = db_governance_events db @ event_rows (Subject_Removal (rm_id a)) (lc_version (rm_life a)) (lc_pending (rm_life a)) actor au now"
    for E and db db' :: "'z consilium_db_scheme" and a a' actor au now
    by (rule persist_removal_frame)
  show "insert_removal E db a = Inr db' \<Longrightarrow>
       map rr_id (db_removals db') = map rr_id (db_removals db) @ [rm_id a] \<and> rm_id a \<notin> set (map rr_id (db_removals db))
       \<and> set (map pw_proposal (db_removal_peers db')) \<subseteq> insert (rm_id a) (set (map pw_proposal (db_removal_peers db)))
       \<and> (\<forall>j. j \<noteq> rm_id a \<longrightarrow> load_removal E db' j = load_removal E db j) \<and> db_governance_events db' = db_governance_events db"
    for E and db db' :: "'z consilium_db_scheme" and a
    by (rule insert_removal_frame)
  show "expire_if_due a now = (was_due, a') \<Longrightarrow>
       (if lc_state (rm_life a) = Open \<and> lc_expires_at (rm_life a) \<le> now
        then was_due \<and> evolves removal_step a a' \<and> lc_state (rm_life a') = proposal_state.Expired else \<not> was_due \<and> a' = a)"
    for a a' now was_due
    by (rule removal_expire_due)
qed (simp_all add: persist_removal_reads insert_removal_reads removal_step_origin,
    simp_all add: same_removals_def load_removal_def removal_origin_def cong: option.case_cong)

section \<open>Admissions\<close>

definition admission_origin :: "owner_admission \<Rightarrow> admission_id \<times> user_id \<times> user_id \<times> rstr \<times> nat \<times> int \<times> int \<times> user_id list" where
  "admission_origin r = (ad_id r, ad_candidate r, ad_initiator r, ad_reason r, ad_owner_count r,
     lc_created_at (ad_life r), lc_expires_at (ad_life r), voters (ad_peers r))"

definition admission_clean :: "owner_admission \<Rightarrow> owner_admission" where
  "admission_clean r = snd (admission_drain_events r)"

definition admission_good :: "owner_admission \<Rightarrow> bool" where
  "admission_good r \<longleftrightarrow> admission_inv r \<and> sorted (voters (ad_peers r))"

definition admission_fresh :: "owner_admission \<Rightarrow> bool" where
  "admission_fresh r \<longleftrightarrow> lc_decided_at (ad_life r) = 0 \<and> lc_void_reason (ad_life r) = []
     \<and> (\<forall>p\<in>set (ad_peers r). p_vote p = admission_vote.Pending \<and> p_voted_at p = 0)"

definition same_admissions :: "'z consilium_db_scheme \<Rightarrow> 'z consilium_db_scheme \<Rightarrow> bool" where
  "same_admissions db db' \<longleftrightarrow> db_admissions db' = db_admissions db \<and> db_admission_peers db' = db_admission_peers db"

lemma admission_columns_id [simp]: "ar_id (admission_columns r row) = ar_id row"
  by (simp add: admission_columns_def)

lemma load_admission_Inr:
  "load_admission E db i = Inr r \<longleftrightarrow> (\<exists>row ps. find (\<lambda>w. ar_id w = i) (db_admissions db) = Some row
     \<and> load_peers_of admission_vote_parse (db_admission_peers db) i = Inr ps \<and> rehydrate_admission row ps = Inr r)"
  by (auto simp: load_admission_def rbind_Inr_iff split: option.splits)

lemma rehydrate_admission_Inr:
  "rehydrate_admission row ps = Inr r \<longleftrightarrow> ar_state row = proposal_state_as_str (admission_state r)
     \<and> r = admission_rehydrate (ar_id row) (ar_candidate row) (ar_initiator row) (ar_reason row) (admission_state r) (ar_owner_count row) ps
       (ar_created_at row) (ar_expires_at row)
       (stored_ts (ar_decided_at row)) (ar_void_reason row) (ar_version row)"
proof
  assume "rehydrate_admission row ps = Inr r"
  then show "ar_state row = proposal_state_as_str (admission_state r)
     \<and> r = admission_rehydrate (ar_id row) (ar_candidate row) (ar_initiator row) (ar_reason row) (admission_state r) (ar_owner_count row) ps
       (ar_created_at row) (ar_expires_at row)
       (stored_ts (ar_decided_at row)) (ar_void_reason row) (ar_version row)"
    by (auto simp: rehydrate_admission_def rbind_Inr_iff state_codec.parse_Inr_iff
        admission_rehydrate_def admission_state_def lc_rehydrate_def)
next
  assume "ar_state row = proposal_state_as_str (admission_state r)
     \<and> r = admission_rehydrate (ar_id row) (ar_candidate row) (ar_initiator row) (ar_reason row) (admission_state r) (ar_owner_count row) ps
       (ar_created_at row) (ar_expires_at row)
       (stored_ts (ar_decided_at row)) (ar_void_reason row) (ar_version row)"
  then show "rehydrate_admission row ps = Inr r"
    by (simp add: rehydrate_admission_def state_codec.parse_as_str)
qed

lemma update_admission_Inr:
  assumes "update_admission E db r = Inr db'"
  shows "db' = db\<lparr>db_admissions := map (\<lambda>w. if ar_id w = ad_id r then admission_columns r w else w) (db_admissions db)\<rparr>"
proof (cases "find (\<lambda>w. ar_id w = ad_id r) (db_admissions db)")
  case None
  then have "map (\<lambda>w. if ar_id w = ad_id r then admission_columns r w else w) (db_admissions db) = db_admissions db"
    by (intro map_idI) (auto simp: find_None_iff_all)
  with None assms show ?thesis by (simp add: update_admission_def)
qed (use assms in \<open>auto simp: update_admission_def rbind_Inr_iff\<close>)

lemma persist_admission_Inr:
  assumes "persist_admission E db r actor au now = Inr (db', r')"
  obtains peers where "save_peers E admission_vote_as_str (\<lambda>p. optional_ts (p_voted_at p)) (ad_id r) (ad_peers r) (db_admission_peers db) = Inr peers"
    "r' = admission_clean r"
    "db' = db\<lparr>db_admissions := map (\<lambda>w. if ar_id w = ad_id r then admission_columns r w else w) (db_admissions db),
        db_admission_peers := peers, db_governance_events := db_governance_events db
          @ event_rows (Subject_Admission (ad_id r)) (lc_version (ad_life r)) (lc_pending (ad_life r)) actor au now\<rparr>"
proof -
  obtain db1 peers where u: "update_admission E db r = Inr db1"
    and p: "save_peers E admission_vote_as_str (\<lambda>p. optional_ts (p_voted_at p)) (ad_id r) (ad_peers r) (db_admission_peers db1) = Inr peers"
    and "db' = insert_events (db1\<lparr>db_admission_peers := peers\<rparr>) (Subject_Admission (ad_id r)) (lc_version (ad_life r)) (lc_pending (ad_life r)) actor au now"
    "r' = admission_clean r"
    using assms by (auto simp: persist_admission_def rbind_Inr_iff admission_drain_events_def admission_clean_def)
  then show thesis using update_admission_Inr [OF u] by (intro that [of peers]) (simp_all add: insert_events_eq)
qed

lemma insert_admission_Inr:
  assumes "insert_admission E db r = Inr db'"
  shows "db' = db\<lparr>db_admissions := db_admissions db @ [admission_row_of r],
             db_admission_peers := db_admission_peers db @ new_peers (ad_id r) (ad_peers r)\<rparr>
    \<and> \<not> list_ex (\<lambda>w. ar_id w = ad_id r) (db_admissions db)"
  using assms by (auto simp: insert_admission_def rbind_Inr_iff check_row_Inr admission_checks_def admission_row_of_def)

lemma admission_step_origin: "admission_step r op = Inr r' \<Longrightarrow> admission_origin r' = admission_origin r"
proof -
  assume st: "admission_step r op = Inr r'"
  have "ad_id r' = ad_id r" "ad_candidate r' = ad_candidate r" "ad_reason r' = ad_reason r" "ad_owner_count r' = ad_owner_count r"
    using st by (cases op; auto simp: admission_op_defs result_simps Let_def split: if_splits option.splits)+
  then show ?thesis
    using admission_step_frame [OF st] life_step_frame [OF admission_life.step_life [OF st]] by (simp add: admission_origin_def)
qed

lemma admission_clean_simps [simp]:
  "ad_life (admission_clean r) = (ad_life r)\<lparr>lc_pending := []\<rparr>" "ad_id (admission_clean r) = ad_id r"
  "ad_peers (admission_clean r) = ad_peers r" "ad_candidate (admission_clean r) = ad_candidate r"
  "ad_reason (admission_clean r) = ad_reason r" "ad_owner_count (admission_clean r) = ad_owner_count r"
  "ad_initiator (admission_clean r) = ad_initiator r"
  by (simp_all add: admission_clean_def admission_drain_events_def)

lemma admission_rehydrate_clean:
  "admission_rehydrate (ad_id r) (ad_candidate r) (ad_initiator r) (ad_reason r) (admission_state r) (ad_owner_count r) (ad_peers r)
     (lc_created_at (ad_life r)) (lc_expires_at (ad_life r))
     (lc_decided_at (ad_life r)) (lc_void_reason (ad_life r)) (lc_version (ad_life r)) = admission_clean r"
  by (simp add: admission_rehydrate_def admission_clean_def admission_drain_events_def admission_state_def lc_rehydrate_def)

lemma rehydrate_admission_columns:
  assumes "ad_id r = ar_id row" "ad_candidate r = ar_candidate row" "ad_initiator r = ar_initiator row" "ad_reason r = ar_reason row"
    "ad_owner_count r = ar_owner_count row" "lc_created_at (ad_life r) = ar_created_at row" "lc_expires_at (ad_life r) = ar_expires_at row"
  shows "rehydrate_admission (admission_columns r row) (ad_peers r) = Inr (admission_clean r)"
  using admission_rehydrate_clean [of r] assms
  by (simp add: rehydrate_admission_def admission_columns_def state_codec.parse_as_str)

lemma load_admission_origin:
  assumes "load_admission E db i = Inr r"
  obtains row where "find (\<lambda>w. ar_id w = i) (db_admissions db) = Some row" "ar_id row = i"
    "ad_id r = ar_id row" "ad_candidate r = ar_candidate row" "ad_initiator r = ar_initiator row" "ad_reason r = ar_reason row"
    "ad_owner_count r = ar_owner_count row" "lc_created_at (ad_life r) = ar_created_at row" "lc_expires_at (ad_life r) = ar_expires_at row"
    "load_peers_of admission_vote_parse (db_admission_peers db) i = Inr (ad_peers r)" "lc_pending (ad_life r) = []"
    "ar_state row = proposal_state_as_str (admission_state r)"
    "ar_version row = lc_version (ad_life r)"
proof -
  obtain row ps where row: "find (\<lambda>w. ar_id w = i) (db_admissions db) = Some row"
    and ps: "load_peers_of admission_vote_parse (db_admission_peers db) i = Inr ps" and r: "rehydrate_admission row ps = Inr r"
    using assms by (auto simp: load_admission_Inr)
  have "r = admission_rehydrate (ar_id row) (ar_candidate row) (ar_initiator row) (ar_reason row) (admission_state r) (ar_owner_count row) ps
       (ar_created_at row) (ar_expires_at row)
       (stored_ts (ar_decided_at row)) (ar_void_reason row) (ar_version row)"
    "ar_state row = proposal_state_as_str (admission_state r)"
    using r unfolding rehydrate_admission_Inr by blast+
  then show thesis
    using row ps find_Some_in [OF row]
    by (intro that [of row]) (simp_all add: admission_rehydrate_def lc_rehydrate_def,
        (metis lifecycle.select_convs owner_admission.select_convs)+)
qed

lemma persist_admission_reads:
  assumes "load_admission E db (ad_id r) = Inr r0" and "admission_origin r0 = admission_origin r" and "admission_good r"
    and "persist_admission E db r actor au now = Inr (db', r')"
  shows "load_admission E db' (ad_id r) = Inr (admission_clean r)"
proof -
  obtain peers where p: "save_peers E admission_vote_as_str (\<lambda>p. optional_ts (p_voted_at p)) (ad_id r) (ad_peers r) (db_admission_peers db) = Inr peers"
    and db': "db' = db\<lparr>db_admissions := map (\<lambda>w. if ar_id w = ad_id r then admission_columns r w else w) (db_admissions db),
        db_admission_peers := peers, db_governance_events := db_governance_events db
          @ event_rows (Subject_Admission (ad_id r)) (lc_version (ad_life r)) (lc_pending (ad_life r)) actor au now\<rparr>"
    by (rule persist_admission_Inr [OF assms(4)]) (rule that, assumption+)
  obtain row where row: "find (\<lambda>w. ar_id w = ad_id r) (db_admissions db) = Some row" "ar_id row = ad_id r"
    "ad_id r0 = ar_id row" "ad_candidate r0 = ar_candidate row" "ad_initiator r0 = ar_initiator row" "ad_reason r0 = ar_reason row"
    "ad_owner_count r0 = ar_owner_count row" "lc_created_at (ad_life r0) = ar_created_at row" "lc_expires_at (ad_life r0) = ar_expires_at row"
    and ps: "load_peers_of admission_vote_parse (db_admission_peers db) (ad_id r) = Inr (ad_peers r0)"
    by (rule load_admission_origin [OF assms(1)]) (rule that, assumption+)
  have "load_peers_of admission_vote_parse peers (ad_id r) = Inr (ad_peers r)"
    by (rule load_peers_saved [OF ps _ _ p])
      (use assms(2,3) in \<open>simp_all add: admission_origin_def voters_def admission_good_def admission_inv_def admission_vote_codec.parse_as_str\<close>)
  moreover have "rehydrate_admission (admission_columns r row) (ad_peers r) = Inr (admission_clean r)"
    using rehydrate_admission_columns [of r row] row assms(2) by (simp add: admission_origin_def)
  ultimately show ?thesis
    using row(1) by (simp add: load_admission_Inr db' find_update)
qed

lemma insert_admission_reads:
  assumes "insert_admission E db r = Inr db'" and "admission_good r" and "admission_fresh r"
    and "ad_id r \<notin> set (map pw_proposal (db_admission_peers db))"
  shows "load_admission E db' (ad_id r) = Inr (admission_clean r)"
proof -
  note ins = insert_admission_Inr [OF assms(1)]
  have "load_peers_of admission_vote_parse (db_admission_peers db @ new_peers (ad_id r) (ad_peers r)) (ad_id r) = Inr (ad_peers r)"
    using assms(2-4) by (intro load_new_peers)
      (auto simp: admission_good_def admission_fresh_def voters_def admission_vote_parse_def)
  moreover have "rehydrate_admission (admission_row_of r) (ad_peers r) = Inr (admission_clean r)"
    using assms(3) admission_rehydrate_clean [of r]
    by (simp add: rehydrate_admission_def admission_row_of_def admission_fresh_def state_codec.parse_as_str admission_vote_parse_def stored_ts_def)
  ultimately show ?thesis
    using ins find_append_fresh [of ar_id "ad_id r" "db_admissions db" "admission_row_of r"]
    by (simp add: load_admission_Inr admission_row_of_def)
qed

lemma persist_admission_frame:
  assumes "persist_admission E db a actor au now = Inr (db', a')"
  shows "map ar_id (db_admissions db') = map ar_id (db_admissions db) \<and> map pw_proposal (db_admission_peers db') = map pw_proposal (db_admission_peers db)
       \<and> (\<forall>j. j \<noteq> ad_id a \<longrightarrow> load_admission E db' j = load_admission E db j)
       \<and> db_governance_events db' = db_governance_events db @ event_rows (Subject_Admission (ad_id a)) (lc_version (ad_life a)) (lc_pending (ad_life a)) actor au now"
proof -
  obtain peers where p: "save_peers E admission_vote_as_str (\<lambda>p. optional_ts (p_voted_at p)) (ad_id a) (ad_peers a) (db_admission_peers db) = Inr peers"
    and db': "db' = db\<lparr>db_admissions := map (\<lambda>w. if ar_id w = ad_id a then admission_columns a w else w) (db_admissions db),
        db_admission_peers := peers, db_governance_events := db_governance_events db
          @ event_rows (Subject_Admission (ad_id a)) (lc_version (ad_life a)) (lc_pending (ad_life a)) actor au now\<rparr>"
    by (rule persist_admission_Inr [OF assms]) (rule that, assumption+)
  note keys = save_peers_keys [OF p]
  have "load_peers_of admission_vote_parse peers j = load_peers_of admission_vote_parse (db_admission_peers db) j" if "j \<noteq> ad_id a" for j
    by (rule load_peers_other [OF conjunct2 [OF keys] that])
  then have same: "load_admission E db' j = load_admission E db j" if "j \<noteq> ad_id a" for j
    using that by (simp add: db' load_admission_def find_update cong: option.case_cong)
  have "map ar_id (map (\<lambda>w. if ar_id w = ad_id a then admission_columns a w else w) xs) = map ar_id xs" for xs
    by (induction xs) simp_all
  then show ?thesis using keys same by (simp add: db')
qed

lemma insert_admission_frame:
  assumes "insert_admission E db a = Inr db'"
  shows "map ar_id (db_admissions db') = map ar_id (db_admissions db) @ [ad_id a] \<and> ad_id a \<notin> set (map ar_id (db_admissions db))
       \<and> set (map pw_proposal (db_admission_peers db')) \<subseteq> insert (ad_id a) (set (map pw_proposal (db_admission_peers db)))
       \<and> (\<forall>j. j \<noteq> ad_id a \<longrightarrow> load_admission E db' j = load_admission E db j) \<and> db_governance_events db' = db_governance_events db"
proof -
  note ins = insert_admission_Inr [OF assms]
  have id: "ar_id (admission_row_of a) = ad_id a" by (simp add: admission_row_of_def)
  have "map pw_proposal (new_peers (ad_id a) (ad_peers a)) = map (\<lambda>_. ad_id a) (ad_peers a)"
    by (simp add: new_peers_def)
  then have "set (map pw_proposal (new_peers (ad_id a) (ad_peers a))) \<subseteq> {ad_id a}" by auto
  moreover have "load_admission E db' j = load_admission E db j" if "j \<noteq> ad_id a" for j
    using ins that id by (simp add: load_admission_def find_append_other load_new_peers_other cong: option.case_cong)
  ultimately show ?thesis using ins id by (auto simp: list_ex_iff)
qed

lemma admission_expire_due:
  assumes "expire_admission_if_due r now = (b, r')"
  shows "if lc_state (ad_life r) = Open \<and> lc_expires_at (ad_life r) \<le> now
    then b \<and> evolves admission_step r r' \<and> lc_state (ad_life r') = proposal_state.Expired else \<not> b \<and> r' = r"
proof (cases "lc_state (ad_life r) = Open \<and> lc_expires_at (ad_life r) \<le> now")
  case True
  then obtain r1 where r1: "admission_expire r now = Inr r1"
    by (auto simp: admission_expire_def lc_expire_def lc_require_open_def is_open_def)
  then have "evolves admission_step r r1" using evolves_step [of admission_step r "A_Expire now" r1] by simp
  moreover have "lc_state (ad_life r1) = proposal_state.Expired"
    using r1 by (auto simp: admission_expire_def rbind_Inr_iff dest: lc_expire_state)
  ultimately show ?thesis
    using True assms r1 by (auto simp: expire_admission_if_due_def admission_state_def is_open_def)
qed (use assms in \<open>auto simp: expire_admission_if_due_def admission_state_def is_open_def\<close>)

interpretation admissions: proposal_store ad_life admission_step "load_admission E" "persist_admission E" "insert_admission E"
  expire_admission_if_due admission_origin ad_id admission_clean admission_good admission_fresh
  "\<lambda>db. map ar_id (db_admissions db)" "\<lambda>db. map pw_proposal (db_admission_peers db)" Subject_Admission same_admissions for E
proof unfold_locales
  show "load_admission E db i = Inr a \<Longrightarrow> ad_id a = i \<and> lc_pending (ad_life a) = [] \<and> i \<in> set (map ar_id (db_admissions db))"
    for E and db :: "'z consilium_db_scheme" and i a
    by (erule load_admission_origin) (auto dest: find_Some_in)
  show "admission_step a op = Inr b \<Longrightarrow> admission_good a \<Longrightarrow> admission_good b" for a op b
    using admission_step_inv [of a op b] admission_step_voters [of a op b] by (simp add: admission_good_def)
  show "admission_good (admission_clean a) = admission_good a" for a
    by (simp add: admission_good_def admission_inv_def admission_state_def admission_outcome_def)
  show "persist_admission E db a actor au now = Inr (db', a') \<Longrightarrow>
       map ar_id (db_admissions db') = map ar_id (db_admissions db) \<and> map pw_proposal (db_admission_peers db') = map pw_proposal (db_admission_peers db)
       \<and> (\<forall>j. j \<noteq> ad_id a \<longrightarrow> load_admission E db' j = load_admission E db j)
       \<and> db_governance_events db' = db_governance_events db @ event_rows (Subject_Admission (ad_id a)) (lc_version (ad_life a)) (lc_pending (ad_life a)) actor au now"
    for E and db db' :: "'z consilium_db_scheme" and a a' actor au now
    by (rule persist_admission_frame)
  show "insert_admission E db a = Inr db' \<Longrightarrow>
       map ar_id (db_admissions db') = map ar_id (db_admissions db) @ [ad_id a] \<and> ad_id a \<notin> set (map ar_id (db_admissions db))
       \<and> set (map pw_proposal (db_admission_peers db')) \<subseteq> insert (ad_id a) (set (map pw_proposal (db_admission_peers db)))
       \<and> (\<forall>j. j \<noteq> ad_id a \<longrightarrow> load_admission E db' j = load_admission E db j) \<and> db_governance_events db' = db_governance_events db"
    for E and db db' :: "'z consilium_db_scheme" and a
    by (rule insert_admission_frame)
  show "expire_admission_if_due a now = (was_due, a') \<Longrightarrow>
       (if lc_state (ad_life a) = Open \<and> lc_expires_at (ad_life a) \<le> now
        then was_due \<and> evolves admission_step a a' \<and> lc_state (ad_life a') = proposal_state.Expired else \<not> was_due \<and> a' = a)"
    for a a' now was_due
    by (rule admission_expire_due)
qed (simp_all add: persist_admission_reads insert_admission_reads admission_step_origin,
    simp_all add: same_admissions_def load_admission_def admission_origin_def cong: option.case_cong)

section \<open>User proposals\<close>

definition proposal_origin :: "user_proposal \<Rightarrow> user_proposal_id \<times> user_proposal_kind \<times> user_id \<times> user_id \<times> rstr \<times> nat \<times> nat \<times> int \<times> int \<times> user_id list" where
  "proposal_origin r = (pr_id r, pr_kind r, pr_subject r, pr_initiator r, pr_reason r, pr_owner_count r, pr_threshold r,
     lc_created_at (pr_life r), lc_expires_at (pr_life r), voters (pr_peers r))"

definition proposal_clean :: "user_proposal \<Rightarrow> user_proposal" where
  "proposal_clean r = snd (proposal_drain_events r)"

definition proposal_good :: "user_proposal \<Rightarrow> bool" where
  "proposal_good r \<longleftrightarrow> proposal_inv r \<and> sorted (voters (pr_peers r))
     \<and> (\<forall>p\<in>set (pr_peers r). p_vote p = proposal_vote.Pending \<longrightarrow> p_voted_at p = 0)
     \<and> (up_state r = Open \<longrightarrow> lc_decided_at (pr_life r) = 0)"

definition proposal_fresh :: "user_proposal \<Rightarrow> bool" where
  "proposal_fresh r \<longleftrightarrow> lc_decided_at (pr_life r) = 0 \<and> lc_void_reason (pr_life r) = []
     \<and> (\<forall>p\<in>set (pr_peers r). p_vote p = proposal_vote.Pending \<and> p_voted_at p = 0)"

definition same_proposals :: "'z consilium_db_scheme \<Rightarrow> 'z consilium_db_scheme \<Rightarrow> bool" where
  "same_proposals db db' \<longleftrightarrow> db_proposals db' = db_proposals db \<and> db_proposal_peers db' = db_proposal_peers db"

lemma proposal_columns_id [simp]: "qr_id (proposal_columns r row) = qr_id row"
  by (simp add: proposal_columns_def)

lemma load_proposal_Inr:
  "load_proposal E db i = Inr r \<longleftrightarrow> (\<exists>row ps. find (\<lambda>w. qr_id w = i) (db_proposals db) = Some row
     \<and> load_peers_of proposal_vote_parse (db_proposal_peers db) i = Inr ps \<and> rehydrate_proposal row ps = Inr r)"
  by (auto simp: load_proposal_def rbind_Inr_iff split: option.splits)

lemma rehydrate_proposal_Inr:
  "rehydrate_proposal row ps = Inr r \<longleftrightarrow> qr_kind row = user_proposal_kind_as_str (pr_kind r) \<and> qr_state row = proposal_state_as_str (up_state r)
     \<and> r = proposal_rehydrate (qr_id row) (pr_kind r) (qr_subject row) (qr_initiator row) (qr_reason row) (up_state r) (qr_owner_count row) (qr_threshold row) ps
       (qr_created_at row) (qr_expires_at row)
       (stored_ts (qr_decided_at row)) (qr_void_reason row) (qr_version row)"
proof
  assume "rehydrate_proposal row ps = Inr r"
  then show "qr_kind row = user_proposal_kind_as_str (pr_kind r) \<and> qr_state row = proposal_state_as_str (up_state r)
     \<and> r = proposal_rehydrate (qr_id row) (pr_kind r) (qr_subject row) (qr_initiator row) (qr_reason row) (up_state r) (qr_owner_count row) (qr_threshold row) ps
       (qr_created_at row) (qr_expires_at row)
       (stored_ts (qr_decided_at row)) (qr_void_reason row) (qr_version row)"
    by (auto simp: rehydrate_proposal_def rbind_Inr_iff state_codec.parse_Inr_iff kind_codec.parse_Inr_iff
        proposal_rehydrate_def up_state_def lc_rehydrate_def)
next
  assume "qr_kind row = user_proposal_kind_as_str (pr_kind r) \<and> qr_state row = proposal_state_as_str (up_state r)
     \<and> r = proposal_rehydrate (qr_id row) (pr_kind r) (qr_subject row) (qr_initiator row) (qr_reason row) (up_state r) (qr_owner_count row) (qr_threshold row) ps
       (qr_created_at row) (qr_expires_at row)
       (stored_ts (qr_decided_at row)) (qr_void_reason row) (qr_version row)"
  then show "rehydrate_proposal row ps = Inr r"
    by (simp add: rehydrate_proposal_def state_codec.parse_as_str kind_codec.parse_as_str)
qed

lemma update_proposal_Inr:
  assumes "update_proposal E db r = Inr db'"
  shows "db' = db\<lparr>db_proposals := map (\<lambda>w. if qr_id w = pr_id r then proposal_columns r w else w) (db_proposals db)\<rparr>"
proof (cases "find (\<lambda>w. qr_id w = pr_id r) (db_proposals db)")
  case None
  then have "map (\<lambda>w. if qr_id w = pr_id r then proposal_columns r w else w) (db_proposals db) = db_proposals db"
    by (intro map_idI) (auto simp: find_None_iff_all)
  with None assms show ?thesis by (simp add: update_proposal_def)
qed (use assms in \<open>auto simp: update_proposal_def rbind_Inr_iff\<close>)

lemma persist_proposal_Inr:
  assumes "persist_proposal E db r actor au now = Inr (db', r')"
  obtains peers where "save_peers E proposal_vote_as_str (\<lambda>q. if proposal_vote_is_cast (p_vote q) then Some (p_voted_at q) else None) (pr_id r) (pr_peers r) (db_proposal_peers db) = Inr peers"
    "r' = proposal_clean r"
    "db' = db\<lparr>db_proposals := map (\<lambda>w. if qr_id w = pr_id r then proposal_columns r w else w) (db_proposals db),
        db_proposal_peers := peers, db_governance_events := db_governance_events db
          @ event_rows (Subject_UserProposal (pr_id r)) (lc_version (pr_life r)) (lc_pending (pr_life r)) actor au now\<rparr>"
proof -
  obtain db1 peers where u: "update_proposal E db r = Inr db1"
    and p: "save_peers E proposal_vote_as_str (\<lambda>q. if proposal_vote_is_cast (p_vote q) then Some (p_voted_at q) else None) (pr_id r) (pr_peers r) (db_proposal_peers db1) = Inr peers"
    and "db' = insert_events (db1\<lparr>db_proposal_peers := peers\<rparr>) (Subject_UserProposal (pr_id r)) (lc_version (pr_life r)) (lc_pending (pr_life r)) actor au now"
    "r' = proposal_clean r"
    using assms by (auto simp: persist_proposal_def rbind_Inr_iff proposal_drain_events_def proposal_clean_def)
  then show thesis using update_proposal_Inr [OF u] by (intro that [of peers]) (simp_all add: insert_events_eq)
qed

lemma insert_proposal_Inr:
  assumes "insert_proposal E db r = Inr db'"
  shows "db' = db\<lparr>db_proposals := db_proposals db @ [proposal_row_of r],
             db_proposal_peers := db_proposal_peers db @ new_peers (pr_id r) (pr_peers r)\<rparr>
    \<and> \<not> list_ex (\<lambda>w. qr_id w = pr_id r) (db_proposals db)"
  using assms by (auto simp: insert_proposal_def rbind_Inr_iff check_row_Inr proposal_checks_def proposal_row_of_def)

lemma life_step_open:
  "life_step l l' \<Longrightarrow> lc_state l' = Open \<Longrightarrow> lc_state l = Open \<and> lc_decided_at l' = lc_decided_at l"
  by (induction rule: life_step.induct) (auto simp: life_defs closing_event_def)

lemma proposal_step_origin: "proposal_step r op = Inr r' \<Longrightarrow> proposal_origin r' = proposal_origin r"
proof -
  assume st: "proposal_step r op = Inr r'"
  have "pr_id r' = pr_id r" "pr_kind r' = pr_kind r" "pr_subject r' = pr_subject r" "pr_threshold r' = pr_threshold r" "pr_reason r' = pr_reason r" "pr_owner_count r' = pr_owner_count r"
    using st by (cases op; auto simp: proposal_op_defs result_simps Let_def split: if_splits option.splits)+
  then show ?thesis
    using proposal_step_frame [OF st] life_step_frame [OF proposal_life.step_life [OF st]] by (simp add: proposal_origin_def)
qed

lemma cast_by_times:
  "p \<in> set (cast_by voter v now ps) \<Longrightarrow> p \<in> set ps \<or> p_vote p = v"
  using set_update_first_subset [of "\<lambda>p. p_user_id p = voter" "\<lambda>p. p\<lparr>p_vote := v, p_voted_at := now\<rparr>" ps]
  by (auto simp: cast_by_def)

lemma proposal_step_good:
  assumes "proposal_step a op = Inr b" and "proposal_good a"
  shows "proposal_good b"
proof -
  have "p_voted_at p = 0" if "p \<in> set (pr_peers b)" "p_vote p = proposal_vote.Pending" for p
  proof -
    have "p \<in> set (pr_peers a) \<or> proposal_vote_is_cast (p_vote p)"
    proof (cases op)
      case (P_Vote u v now)
      then have "proposal_vote_is_cast v" "pr_peers b = pr_peers a \<or> pr_peers b = cast_by u v now (pr_peers a)"
        using assms(1) by (auto simp: proposal_op_defs result_simps Let_def split: if_splits option.splits)
      then show ?thesis using that(1) cast_by_times by metis
    qed (use assms(1) that in \<open>auto simp: proposal_op_defs result_simps Let_def split: if_splits\<close>)
    with that have "p \<in> set (pr_peers a)" by (auto simp: proposal_vote_is_cast_def)
    with assms(2) that show ?thesis by (simp add: proposal_good_def)
  qed
  moreover have "lc_decided_at (pr_life b) = 0" if "up_state b = Open"
    using assms that life_step_open [OF proposal_life.step_life [OF assms(1)]] by (simp add: proposal_good_def up_state_def)
  ultimately show ?thesis
    using proposal_step_inv [of a op b] proposal_step_voters [of a op b] assms by (simp add: proposal_good_def)
qed

lemma proposal_clean_simps [simp]:
  "pr_life (proposal_clean r) = (pr_life r)\<lparr>lc_pending := []\<rparr>" "pr_id (proposal_clean r) = pr_id r"
  "pr_peers (proposal_clean r) = pr_peers r" "pr_subject (proposal_clean r) = pr_subject r"
  "pr_reason (proposal_clean r) = pr_reason r" "pr_owner_count (proposal_clean r) = pr_owner_count r"
  "pr_kind (proposal_clean r) = pr_kind r" "pr_threshold (proposal_clean r) = pr_threshold r" "pr_initiator (proposal_clean r) = pr_initiator r"
  by (simp_all add: proposal_clean_def proposal_drain_events_def)

lemma proposal_rehydrate_clean:
  "proposal_rehydrate (pr_id r) (pr_kind r) (pr_subject r) (pr_initiator r) (pr_reason r) (up_state r) (pr_owner_count r) (pr_threshold r) (pr_peers r)
     (lc_created_at (pr_life r)) (lc_expires_at (pr_life r))
     (lc_decided_at (pr_life r)) (lc_void_reason (pr_life r)) (lc_version (pr_life r)) = proposal_clean r"
  by (simp add: proposal_rehydrate_def proposal_clean_def proposal_drain_events_def up_state_def lc_rehydrate_def)

lemma rehydrate_proposal_columns:
  assumes "pr_id r = qr_id row" "pr_subject r = qr_subject row" "pr_initiator r = qr_initiator row" "pr_reason r = qr_reason row"
    "proposal_good r" "qr_kind row = user_proposal_kind_as_str (pr_kind r)" "pr_threshold r = qr_threshold row" "pr_owner_count r = qr_owner_count row" "lc_created_at (pr_life r) = qr_created_at row" "lc_expires_at (pr_life r) = qr_expires_at row"
  shows "rehydrate_proposal (proposal_columns r row) (pr_peers r) = Inr (proposal_clean r)"
  using proposal_rehydrate_clean [of r] assms
  by (cases "up_state r = Open")
    (simp_all add: rehydrate_proposal_def proposal_columns_def state_codec.parse_as_str kind_codec.parse_as_str
      proposal_good_def is_open_def stored_ts_def)

lemma load_proposal_origin:
  assumes "load_proposal E db i = Inr r"
  obtains row where "find (\<lambda>w. qr_id w = i) (db_proposals db) = Some row" "qr_id row = i"
    "pr_id r = qr_id row" "pr_subject r = qr_subject row" "pr_initiator r = qr_initiator row" "pr_reason r = qr_reason row"
    "pr_threshold r = qr_threshold row" "pr_owner_count r = qr_owner_count row" "lc_created_at (pr_life r) = qr_created_at row" "lc_expires_at (pr_life r) = qr_expires_at row"
    "load_peers_of proposal_vote_parse (db_proposal_peers db) i = Inr (pr_peers r)" "lc_pending (pr_life r) = []"
    "qr_state row = proposal_state_as_str (up_state r)" "qr_kind row = user_proposal_kind_as_str (pr_kind r)"
    "qr_version row = lc_version (pr_life r)"
proof -
  obtain row ps where row: "find (\<lambda>w. qr_id w = i) (db_proposals db) = Some row"
    and ps: "load_peers_of proposal_vote_parse (db_proposal_peers db) i = Inr ps" and r: "rehydrate_proposal row ps = Inr r"
    using assms by (auto simp: load_proposal_Inr)
  have "r = proposal_rehydrate (qr_id row) (pr_kind r) (qr_subject row) (qr_initiator row) (qr_reason row) (up_state r) (qr_owner_count row) (qr_threshold row) ps
       (qr_created_at row) (qr_expires_at row)
       (stored_ts (qr_decided_at row)) (qr_void_reason row) (qr_version row)"
    "qr_state row = proposal_state_as_str (up_state r)" "qr_kind row = user_proposal_kind_as_str (pr_kind r)"
    using r unfolding rehydrate_proposal_Inr by blast+
  then show thesis
    using row ps find_Some_in [OF row]
    by (intro that [of row]) (simp_all add: proposal_rehydrate_def lc_rehydrate_def,
        (metis lifecycle.select_convs user_proposal.select_convs)+)
qed

lemma persist_proposal_reads:
  assumes "load_proposal E db (pr_id r) = Inr r0" and "proposal_origin r0 = proposal_origin r" and "proposal_good r"
    and "persist_proposal E db r actor au now = Inr (db', r')"
  shows "load_proposal E db' (pr_id r) = Inr (proposal_clean r)"
proof -
  obtain peers where p: "save_peers E proposal_vote_as_str (\<lambda>q. if proposal_vote_is_cast (p_vote q) then Some (p_voted_at q) else None) (pr_id r) (pr_peers r) (db_proposal_peers db) = Inr peers"
    and db': "db' = db\<lparr>db_proposals := map (\<lambda>w. if qr_id w = pr_id r then proposal_columns r w else w) (db_proposals db),
        db_proposal_peers := peers, db_governance_events := db_governance_events db
          @ event_rows (Subject_UserProposal (pr_id r)) (lc_version (pr_life r)) (lc_pending (pr_life r)) actor au now\<rparr>"
    by (rule persist_proposal_Inr [OF assms(4)]) (rule that, assumption+)
  obtain row where row: "find (\<lambda>w. qr_id w = pr_id r) (db_proposals db) = Some row" "qr_id row = pr_id r"
    "pr_id r0 = qr_id row" "pr_subject r0 = qr_subject row" "pr_initiator r0 = qr_initiator row" "pr_reason r0 = qr_reason row"
    "pr_threshold r0 = qr_threshold row" "qr_kind row = user_proposal_kind_as_str (pr_kind r0)" "pr_owner_count r0 = qr_owner_count row" "lc_created_at (pr_life r0) = qr_created_at row" "lc_expires_at (pr_life r0) = qr_expires_at row"
    and ps: "load_peers_of proposal_vote_parse (db_proposal_peers db) (pr_id r) = Inr (pr_peers r0)"
    by (rule load_proposal_origin [OF assms(1)]) (rule that, assumption+)
  have "load_peers_of proposal_vote_parse peers (pr_id r) = Inr (pr_peers r)"
    by (rule load_peers_saved [OF ps _ _ p])
      (use assms(2,3) in \<open>simp_all add: proposal_origin_def voters_def proposal_good_def proposal_inv_def proposal_vote_codec.parse_as_str
        proposal_vote_is_cast_def stored_ts_def\<close>)
  moreover have "rehydrate_proposal (proposal_columns r row) (pr_peers r) = Inr (proposal_clean r)"
    using rehydrate_proposal_columns [of r row] row assms(2,3) by (simp add: proposal_origin_def)
  ultimately show ?thesis
    using row(1) by (simp add: load_proposal_Inr db' find_update)
qed

lemma insert_proposal_reads:
  assumes "insert_proposal E db r = Inr db'" and "proposal_good r" and "proposal_fresh r"
    and "pr_id r \<notin> set (map pw_proposal (db_proposal_peers db))"
  shows "load_proposal E db' (pr_id r) = Inr (proposal_clean r)"
proof -
  note ins = insert_proposal_Inr [OF assms(1)]
  have "load_peers_of proposal_vote_parse (db_proposal_peers db @ new_peers (pr_id r) (pr_peers r)) (pr_id r) = Inr (pr_peers r)"
    using assms(2-4) by (intro load_new_peers)
      (auto simp: proposal_good_def proposal_fresh_def voters_def proposal_vote_parse_def)
  moreover have "rehydrate_proposal (proposal_row_of r) (pr_peers r) = Inr (proposal_clean r)"
    using assms(3) proposal_rehydrate_clean [of r]
    by (simp add: rehydrate_proposal_def proposal_row_of_def proposal_fresh_def state_codec.parse_as_str kind_codec.parse_as_str proposal_vote_parse_def stored_ts_def)
  ultimately show ?thesis
    using ins find_append_fresh [of qr_id "pr_id r" "db_proposals db" "proposal_row_of r"]
    by (simp add: load_proposal_Inr proposal_row_of_def)
qed

lemma persist_proposal_frame:
  assumes "persist_proposal E db a actor au now = Inr (db', a')"
  shows "map qr_id (db_proposals db') = map qr_id (db_proposals db) \<and> map pw_proposal (db_proposal_peers db') = map pw_proposal (db_proposal_peers db)
       \<and> (\<forall>j. j \<noteq> pr_id a \<longrightarrow> load_proposal E db' j = load_proposal E db j)
       \<and> db_governance_events db' = db_governance_events db @ event_rows (Subject_UserProposal (pr_id a)) (lc_version (pr_life a)) (lc_pending (pr_life a)) actor au now"
proof -
  obtain peers where p: "save_peers E proposal_vote_as_str (\<lambda>q. if proposal_vote_is_cast (p_vote q) then Some (p_voted_at q) else None) (pr_id a) (pr_peers a) (db_proposal_peers db) = Inr peers"
    and db': "db' = db\<lparr>db_proposals := map (\<lambda>w. if qr_id w = pr_id a then proposal_columns a w else w) (db_proposals db),
        db_proposal_peers := peers, db_governance_events := db_governance_events db
          @ event_rows (Subject_UserProposal (pr_id a)) (lc_version (pr_life a)) (lc_pending (pr_life a)) actor au now\<rparr>"
    by (rule persist_proposal_Inr [OF assms]) (rule that, assumption+)
  note keys = save_peers_keys [OF p]
  have "load_peers_of proposal_vote_parse peers j = load_peers_of proposal_vote_parse (db_proposal_peers db) j" if "j \<noteq> pr_id a" for j
    by (rule load_peers_other [OF conjunct2 [OF keys] that])
  then have same: "load_proposal E db' j = load_proposal E db j" if "j \<noteq> pr_id a" for j
    using that by (simp add: db' load_proposal_def find_update cong: option.case_cong)
  have "map qr_id (map (\<lambda>w. if qr_id w = pr_id a then proposal_columns a w else w) xs) = map qr_id xs" for xs
    by (induction xs) simp_all
  then show ?thesis using keys same by (simp add: db')
qed

lemma insert_proposal_frame:
  assumes "insert_proposal E db a = Inr db'"
  shows "map qr_id (db_proposals db') = map qr_id (db_proposals db) @ [pr_id a] \<and> pr_id a \<notin> set (map qr_id (db_proposals db))
       \<and> set (map pw_proposal (db_proposal_peers db')) \<subseteq> insert (pr_id a) (set (map pw_proposal (db_proposal_peers db)))
       \<and> (\<forall>j. j \<noteq> pr_id a \<longrightarrow> load_proposal E db' j = load_proposal E db j) \<and> db_governance_events db' = db_governance_events db"
proof -
  note ins = insert_proposal_Inr [OF assms]
  have id: "qr_id (proposal_row_of a) = pr_id a" by (simp add: proposal_row_of_def)
  have "map pw_proposal (new_peers (pr_id a) (pr_peers a)) = map (\<lambda>_. pr_id a) (pr_peers a)"
    by (simp add: new_peers_def)
  then have "set (map pw_proposal (new_peers (pr_id a) (pr_peers a))) \<subseteq> {pr_id a}" by auto
  moreover have "load_proposal E db' j = load_proposal E db j" if "j \<noteq> pr_id a" for j
    using ins that id by (simp add: load_proposal_def find_append_other load_new_peers_other cong: option.case_cong)
  ultimately show ?thesis using ins id by (auto simp: list_ex_iff)
qed

lemma proposal_expire_due:
  assumes "expire_proposal_if_due r now = (b, r')"
  shows "if lc_state (pr_life r) = Open \<and> lc_expires_at (pr_life r) \<le> now
    then b \<and> evolves proposal_step r r' \<and> lc_state (pr_life r') = proposal_state.Expired else \<not> b \<and> r' = r"
proof (cases "lc_state (pr_life r) = Open \<and> lc_expires_at (pr_life r) \<le> now")
  case True
  then obtain r1 where r1: "proposal_expire r now = Inr r1"
    by (auto simp: proposal_expire_def lc_expire_def lc_require_open_def is_open_def)
  then have "evolves proposal_step r r1" using evolves_step [of proposal_step r "P_Expire now" r1] by simp
  moreover have "lc_state (pr_life r1) = proposal_state.Expired"
    using r1 by (auto simp: proposal_expire_def rbind_Inr_iff dest: lc_expire_state)
  ultimately show ?thesis
    using True assms r1 by (auto simp: expire_proposal_if_due_def up_state_def is_open_def)
qed (use assms in \<open>auto simp: expire_proposal_if_due_def up_state_def is_open_def\<close>)

interpretation proposals: proposal_store pr_life proposal_step "load_proposal E" "persist_proposal E" "insert_proposal E"
  expire_proposal_if_due proposal_origin pr_id proposal_clean proposal_good proposal_fresh
  "\<lambda>db. map qr_id (db_proposals db)" "\<lambda>db. map pw_proposal (db_proposal_peers db)" Subject_UserProposal same_proposals for E
proof unfold_locales
  show "load_proposal E db i = Inr a \<Longrightarrow> pr_id a = i \<and> lc_pending (pr_life a) = [] \<and> i \<in> set (map qr_id (db_proposals db))"
    for E and db :: "'z consilium_db_scheme" and i a
    by (erule load_proposal_origin) (auto dest: find_Some_in)
  show "proposal_step a op = Inr b \<Longrightarrow> proposal_good a \<Longrightarrow> proposal_good b" for a op b
    by (rule proposal_step_good)
  show "proposal_good (proposal_clean a) = proposal_good a" for a
    by (simp add: proposal_good_def proposal_inv_def up_state_def proposal_outcome_def)
  show "persist_proposal E db a actor au now = Inr (db', a') \<Longrightarrow>
       map qr_id (db_proposals db') = map qr_id (db_proposals db) \<and> map pw_proposal (db_proposal_peers db') = map pw_proposal (db_proposal_peers db)
       \<and> (\<forall>j. j \<noteq> pr_id a \<longrightarrow> load_proposal E db' j = load_proposal E db j)
       \<and> db_governance_events db' = db_governance_events db @ event_rows (Subject_UserProposal (pr_id a)) (lc_version (pr_life a)) (lc_pending (pr_life a)) actor au now"
    for E and db db' :: "'z consilium_db_scheme" and a a' actor au now
    by (rule persist_proposal_frame)
  show "insert_proposal E db a = Inr db' \<Longrightarrow>
       map qr_id (db_proposals db') = map qr_id (db_proposals db) @ [pr_id a] \<and> pr_id a \<notin> set (map qr_id (db_proposals db))
       \<and> set (map pw_proposal (db_proposal_peers db')) \<subseteq> insert (pr_id a) (set (map pw_proposal (db_proposal_peers db)))
       \<and> (\<forall>j. j \<noteq> pr_id a \<longrightarrow> load_proposal E db' j = load_proposal E db j) \<and> db_governance_events db' = db_governance_events db"
    for E and db db' :: "'z consilium_db_scheme" and a
    by (rule insert_proposal_frame)
  show "expire_proposal_if_due a now = (was_due, a') \<Longrightarrow>
       (if lc_state (pr_life a) = Open \<and> lc_expires_at (pr_life a) \<le> now
        then was_due \<and> evolves proposal_step a a' \<and> lc_state (pr_life a') = proposal_state.Expired else \<not> was_due \<and> a' = a)"
    for a a' now was_due
    by (rule proposal_expire_due)
qed (simp_all add: persist_proposal_reads insert_proposal_reads proposal_step_origin,
    simp_all add: same_proposals_def load_proposal_def proposal_origin_def cong: option.case_cong)

end
