(* ===== verification/Genesis.thy ===== *)
theory Genesis
  imports Consilium_Store
begin

text \<open>
  \<open>runner/src/genesis.rs\<close> and its store in \<open>runner/src/infrastructure/governance.rs\<close>: the
  one-shot seeding of an empty owner registry from a configured list. The log lines of
  \<open>seed\<close> are left out. The \<open>unreachable!\<close> of the store is an outcome of its own.
\<close>

section \<open>The configured list\<close>

datatype genesis_subject = GS_Id user_id | GS_Mailbox email

definition classify_entry :: "ext \<Rightarrow> rstr \<Rightarrow> rstr + genesis_subject" where
  "classify_entry E item =
     (let item = trim item
      in case uuid_parse E item of
           Some raw \<Rightarrow> Inr (GS_Id (UserId raw))
         | None \<Rightarrow> (case email_parse E item of Inr m \<Rightarrow> Inr (GS_Mailbox m) | Inl _ \<Rightarrow> Inl item))"

definition classify :: "ext \<Rightarrow> rstr list \<Rightarrow> rstr + genesis_subject list" where
  "classify E raw = traverse (classify_entry E) raw"

datatype unseatable_reason = Account_Disabled | Address_Unverified

record unseatable =
  un_named :: rstr
  un_reason :: unseatable_reason

record resolution =
  rs_found :: "user_id list"
  rs_missing_ids :: "user_id list"
  rs_missing_mailboxes :: "email list"
  rs_unseatable :: "unseatable list"

definition resolution_default :: resolution where
  "resolution_default = \<lparr>rs_found = [], rs_missing_ids = [], rs_missing_mailboxes = [], rs_unseatable = []\<rparr>"

datatype genesis_outcome =
    Unconfigured | Malformed rstr | Closed nat | TooFew resolution | Seated resolution

section \<open>Resolving it against the directory\<close>

definition remember :: "user_id list \<Rightarrow> user_id \<Rightarrow> user_id list" where
  "remember ids i = (if i \<in> set ids then ids else ids @ [i])"

definition resolve_id :: "ext \<Rightarrow> 'z identity_db_scheme \<Rightarrow> resolution \<Rightarrow> user_id \<Rightarrow> resolution" where
  "resolve_id E db res i =
     (case find (\<lambda>r. ur_id r = i) (db_users db) of
        None \<Rightarrow> res\<lparr>rs_missing_ids := remember (rs_missing_ids res) i\<rparr>
      | Some r \<Rightarrow>
          if ur_status r = user_status_as_str Active then res\<lparr>rs_found := remember (rs_found res) i\<rparr>
          else res\<lparr>rs_unseatable := rs_unseatable res @ [\<lparr>un_named = uuid_text E (uid_raw i), un_reason = Account_Disabled\<rparr>]\<rparr>)"

text \<open>The scan of the rows answering to one mailbox: who is seatable, and what blocks.\<close>

fun scan_mailbox :: "user_row list \<Rightarrow> user_id list \<times> unseatable_reason option \<Rightarrow> user_id list \<times> unseatable_reason option" where
  "scan_mailbox [] acc = acc"
| "scan_mailbox (r # rows) (seatable, blocked) =
     scan_mailbox rows
       (if \<not> ur_email_verified r
        then (seatable, (case blocked of None \<Rightarrow> Some Address_Unverified | Some b \<Rightarrow> Some b))
        else if ur_status r \<noteq> user_status_as_str Active then (seatable, Some Account_Disabled)
        else (seatable @ [ur_id r], blocked))"

text \<open>None: two verified accounts answer to the address, the branch marked unreachable.\<close>

definition resolve_mailbox :: "ext \<Rightarrow> 'z identity_db_scheme \<Rightarrow> resolution \<Rightarrow> email \<Rightarrow> resolution option" where
  "resolve_mailbox E db res mailbox =
     (let rows = sort_key ur_id (filter (\<lambda>r. map_option (pg_lower E) (ur_email r) = Some (email_as_str mailbox)) (db_users db))
      in case scan_mailbox rows ([], None) of
           ([], Some reason) \<Rightarrow>
             Some (res\<lparr>rs_unseatable := rs_unseatable res @ [\<lparr>un_named = email_as_str mailbox, un_reason = reason\<rparr>]\<rparr>)
         | ([], None) \<Rightarrow> Some (res\<lparr>rs_missing_mailboxes := rs_missing_mailboxes res @ [mailbox]\<rparr>)
         | ([only], _) \<Rightarrow> Some (res\<lparr>rs_found := remember (rs_found res) only\<rparr>)
         | _ \<Rightarrow> None)"

definition resolve_subject :: "ext \<Rightarrow> 'z identity_db_scheme \<Rightarrow> resolution \<Rightarrow> genesis_subject \<Rightarrow> resolution option" where
  "resolve_subject E db res subject =
     (case subject of GS_Id i \<Rightarrow> Some (resolve_id E db res i) | GS_Mailbox m \<Rightarrow> resolve_mailbox E db res m)"

fun resolve_all :: "ext \<Rightarrow> 'z identity_db_scheme \<Rightarrow> genesis_subject list \<Rightarrow> resolution \<Rightarrow> resolution option" where
  "resolve_all E db [] res = Some res"
| "resolve_all E db (s # rest) res =
     (case resolve_subject E db res s of None \<Rightarrow> None | Some res \<Rightarrow> resolve_all E db rest res)"

section \<open>Seating\<close>

fun grant_seats :: "ext \<Rightarrow> int \<Rightarrow> user_id list \<Rightarrow> 'z identity_db_scheme \<Rightarrow> domain_error + 'z identity_db_scheme" where
  "grant_seats E clock [] db = Inr db"
| "grant_seats E clock (i # rest) db = rbind (grant_seat E clock db i) (\<lambda>db. grant_seats E clock rest db)"

text \<open>
  \<open>None\<close> is the panic. Every refusal returns without committing, so the tables stay as they
  were, the revision included.
\<close>

definition seed_owners ::
  "ext \<Rightarrow> int \<Rightarrow> genesis_subject list \<Rightarrow> 'z consilium_db_scheme
     \<Rightarrow> ((domain_error + genesis_outcome) \<times> 'z consilium_db_scheme) option" where
  "seed_owners E clock subjects start =
     (let db = lock_governance start; owners = owner_ids_for_update db in
      if owners \<noteq> [] then Some (Inr (Closed (length owners)), start)
      else case resolve_all E db subjects resolution_default of
        None \<Rightarrow> None
      | Some res \<Rightarrow>
          if length (rs_found res) < MIN_OWNERS then Some (Inr (TooFew res), start)
          else (case grant_seats E clock (rs_found res) db of
                  Inl e \<Rightarrow> Some (Inl e, start)
                | Inr db' \<Rightarrow> Some (Inr (Seated res), db')))"

definition genesis_seed ::
  "ext \<Rightarrow> int \<Rightarrow> rstr list \<Rightarrow> 'z consilium_db_scheme
     \<Rightarrow> ((domain_error + genesis_outcome) \<times> 'z consilium_db_scheme) option" where
  "genesis_seed E clock subjects db =
     (if subjects = [] then Some (Inr Unconfigured, db)
      else case classify E subjects of
        Inl item \<Rightarrow> Some (Inr (Malformed item), db)
      | Inr classified \<Rightarrow> seed_owners E clock classified db)"

end
