(* ===== verification/Consilium_Runs.thy ===== *)
theory Consilium_Runs
  imports Consilium_Stores Genesis Directory_Runs
begin

text \<open>
  Runs of the whole governance plane: the methods of \<open>PgGovernance\<close>, genesis at boot and
  the requests of the directory, in any order, each in its transaction. Here: what each part
  of a transaction leaves alone, and what it does to seats.
\<close>

section \<open>Calls\<close>

datatype gov_call =
    Gov_OpenRemoval int rstr removal_draws user_id user_id rstr int
  | Gov_PeerVote int removal_id user_id vote int audit
  | Gov_CancelRemoval removal_id user_id int
  | Gov_SelfDecision int rstr rstr vote int audit
  | Gov_Resign int user_id int
  | Gov_OpenAdmission admission_id user_id user_id rstr int
  | Gov_AdmissionVote int admission_id user_id admission_vote int audit
  | Gov_CancelAdmission admission_id user_id int
  | Gov_OpenProposal user_proposal_id user_proposal_kind user_id user_id rstr int
  | Gov_ProposalVote int user_proposal_id user_id proposal_vote int audit
  | Gov_CancelProposal user_proposal_id user_id int
  | Gov_Hold int user_id admin_action user_id int
  | Gov_Mail int nat rstr user_id rstr bool rstr rstr json
  | Gov_Seed int "rstr list"
  | Gov_Directory dir_call

text \<open>A panic in the middle of genesis drops its transaction.\<close>

fun consilium_call :: "ext \<Rightarrow> gov_call \<Rightarrow> 'z consilium_db_scheme \<Rightarrow> bool \<times> 'z consilium_db_scheme" where
  "consilium_call E (Gov_OpenRemoval clock base d t i reason now) db = outcome_of (open_removal E clock base d t i reason now db)"
| "consilium_call E (Gov_PeerVote clock i u v now au) db = outcome_of (peer_vote E clock i u v now au db)"
| "consilium_call E (Gov_CancelRemoval i u now) db = outcome_of (cancel_removal E i u now db)"
| "consilium_call E (Gov_SelfDecision clock token code v now au) db = outcome_of (self_decision E clock token code v now au db)"
| "consilium_call E (Gov_Resign clock who now) db = outcome_of (resign E clock who now db)"
| "consilium_call E (Gov_OpenAdmission i c n reason now) db = outcome_of (open_admission E i c n reason now db)"
| "consilium_call E (Gov_AdmissionVote clock i u v now au) db = outcome_of (store_admission_vote E clock i u v now au db)"
| "consilium_call E (Gov_CancelAdmission i u now) db = outcome_of (cancel_admission E i u now db)"
| "consilium_call E (Gov_OpenProposal i k s n reason now) db = outcome_of (open_user_proposal E i k s n reason now db)"
| "consilium_call E (Gov_ProposalVote clock i u v now au) db = outcome_of (user_proposal_vote E clock i u v now au db)"
| "consilium_call E (Gov_CancelProposal i u now) db = outcome_of (cancel_user_proposal E i u now db)"
| "consilium_call E (Gov_Hold clock i a by_user now) db = outcome_of (hold_user E clock i a by_user now db)"
| "consilium_call E (Gov_Mail clock fresh token i r v kind key payload) db =
     outcome_of (enqueue_mail E clock fresh token i r v kind key payload db)"
| "consilium_call E (Gov_Seed clock subjects) db =
     (case genesis_seed E clock subjects db of None \<Rightarrow> (False, db) | Some res \<Rightarrow> outcome_of res)"
| "consilium_call E (Gov_Directory c) db = directory_call E c db"

text \<open>Only what a request or the boot can reach.\<close>

definition reachable_call :: "gov_call \<Rightarrow> bool" where
  "reachable_call c = (case c of Gov_Directory d \<Rightarrow> is_request d | _ \<Rightarrow> True)"

definition run_consilium :: "ext \<Rightarrow> gov_call list \<Rightarrow> 'z consilium_db_scheme \<Rightarrow> 'z consilium_db_scheme" where
  "run_consilium E calls db = foldl (\<lambda>db c. snd (consilium_call E c db)) db calls"

definition empty_consilium :: "(rstr \<times> rstr list \<times> nat) list \<Rightarrow> consilium_db" where
  "empty_consilium meanings =
     \<lparr>db_users = [], db_outbox = [], db_actions = [], db_passwords = [], db_identities = [], db_seat_meanings = meanings,
      db_subscribers = [], db_subscriptions = [], db_inbox = [], db_deliveries = [], db_delivery_serial = 0,
      db_removals = [], db_removal_peers = [], db_admissions = [], db_admission_peers = [], db_proposals = [],
      db_proposal_peers = [], db_tokens = [], db_governance_events = [], db_revision = 0\<rparr>"

lemma run_consilium_Nil [simp]: "run_consilium E [] db = db"
  by (simp add: run_consilium_def)

lemma run_consilium_snoc: "run_consilium E (cs @ [c]) db = snd (consilium_call E c (run_consilium E cs db))"
  by (simp add: run_consilium_def)

lemma run_consilium_keeps:
  assumes "P db" and "\<And>c db. c \<in> set calls \<Longrightarrow> P db \<Longrightarrow> P (snd (consilium_call E c db))"
  shows "P (run_consilium E calls db)"
  using assms(2)
proof (induction calls rule: rev_induct)
  case (snoc c cs)
  then show ?case by (simp add: run_consilium_snoc)
qed (simp add: assms(1))

section \<open>What the parts leave alone\<close>

text \<open>The directory's side changed, or the consilium's side, but not the other.\<close>

definition consilium_same :: "'z consilium_db_scheme \<Rightarrow> 'z consilium_db_scheme \<Rightarrow> bool" where
  "consilium_same db db' \<longleftrightarrow> same_removals db db' \<and> same_admissions db db' \<and> same_proposals db db'
     \<and> db_tokens db' = db_tokens db \<and> db_governance_events db' = db_governance_events db"

lemmas same_defs = consilium_same_def same_removals_def same_admissions_def same_proposals_def

lemma consilium_same_refl [simp]: "consilium_same db db"
  by (simp add: same_defs)

lemma consilium_same_trans: "consilium_same a b \<Longrightarrow> consilium_same b c \<Longrightarrow> consilium_same a c"
  by (simp add: same_defs)

lemma save_user_tables:
  assumes "save_user E clock db u = Inr (db', u')"
  obtains us os where "db' = db\<lparr>db_users := us, db_outbox := os\<rparr>"
proof -
  obtain db1 where up: "update_row E db u = Inr db1" and dr: "drain_outbox E clock db1 u = Inr (db', u')"
    using assms by (auto simp: save_user_def rbind_Inr_iff)
  obtain us where "db1 = db\<lparr>db_users := us\<rparr>" using update_row_Inr [OF up] by blast
  moreover obtain ps where "db' = db1\<lparr>db_outbox := db_outbox db1 @ drained_rows u clock ps\<rparr>" using drain_Inr [OF dr] by blast
  ultimately show thesis using that [of "db_outbox db1 @ drained_rows u clock ps" us] by simp
qed

lemma save_user_same: "save_user E clock db u = Inr (db', u') \<Longrightarrow> consilium_same db db'"
  by (erule save_user_tables) (simp add: same_defs)

lemma record_action_same [simp]: "consilium_same db (record_action db i a now)"
  by (simp add: record_action_def same_defs)

lemma set_seat_same: "set_seat E clock seat db i = Inr db' \<Longrightarrow> consilium_same db db'"
  by (auto simp: set_seat_def rbind_Inr_iff dest: save_user_same)

lemma lock_simps [simp]:
  "db_users (lock_governance db) = db_users db" "others_only db (lock_governance db)"
  "consilium_same db (lock_governance db)" "same_removals db (lock_governance db)"
  "same_admissions db (lock_governance db)" "same_proposals db (lock_governance db)"
  by (simp_all add: lock_governance_def others_only_def same_defs)

lemma mail_tables:
  "upsert_subscriber E clock fresh token db i m v = Inr (db1, s) \<Longrightarrow> consilium_same db db1 \<and> others_only db db1"
  "enqueue_governance_mail E clock db sid r kind key payload = Inr (db2, q) \<Longrightarrow> consilium_same db db2 \<and> others_only db db2"
  by (auto simp: upsert_subscriber_def Let_def same_defs others_only_def enqueue_governance_mail_def queue_delivery_def
      rbind_Inr_iff split: if_splits option.splits)

lemma token_tables:
  "insert_token E db i token code at = Inr db' \<Longrightarrow> same_removals db db' \<and> same_admissions db db' \<and> same_proposals db db'
     \<and> db_governance_events db' = db_governance_events db \<and> others_only db db'"
  "update_token E db i f = Inr db' \<Longrightarrow> same_removals db db' \<and> same_admissions db db' \<and> same_proposals db db'
     \<and> db_governance_events db' = db_governance_events db \<and> others_only db db'"
  by (auto simp: insert_token_def update_token_def Let_def same_defs others_only_def rbind_Inr_iff split: option.splits)

lemma persist_tables:
  "persist_removal E db r actor au now = Inr (db', r') \<Longrightarrow>
     same_admissions db db' \<and> same_proposals db db' \<and> db_tokens db' = db_tokens db \<and> others_only db db'"
  "persist_admission E db a actor au now = Inr (db', a') \<Longrightarrow>
     same_removals db db' \<and> same_proposals db db' \<and> db_tokens db' = db_tokens db \<and> others_only db db'"
  "persist_proposal E db p actor au now = Inr (db', p') \<Longrightarrow>
     same_removals db db' \<and> same_admissions db db' \<and> db_tokens db' = db_tokens db \<and> others_only db db'"
    apply (erule persist_removal_Inr, simp add: same_defs others_only_def)
   apply (erule persist_admission_Inr, simp add: same_defs others_only_def)
  apply (erule persist_proposal_Inr, simp add: same_defs others_only_def)
  done

lemma insert_tables:
  "insert_removal E db r = Inr db' \<Longrightarrow> same_admissions db db' \<and> same_proposals db db' \<and> db_tokens db' = db_tokens db
     \<and> db_governance_events db' = db_governance_events db \<and> others_only db db'"
  "insert_admission E db a = Inr db' \<Longrightarrow> same_removals db db' \<and> same_proposals db db' \<and> db_tokens db' = db_tokens db
     \<and> db_governance_events db' = db_governance_events db \<and> others_only db db'"
  "insert_proposal E db p = Inr db' \<Longrightarrow> same_removals db db' \<and> same_admissions db db' \<and> db_tokens db' = db_tokens db
     \<and> db_governance_events db' = db_governance_events db \<and> others_only db db'"
  using insert_removal_Inr [of E db r db'] insert_admission_Inr [of E db a db'] insert_proposal_Inr [of E db p db']
  by (simp_all add: same_defs others_only_def)

lemma others_only_trans: "others_only a b \<Longrightarrow> others_only b c \<Longrightarrow> others_only a c"
  by (simp add: others_only_def)

section \<open>What a transaction does to seats\<close>

lemma save_at:
  assumes "load_for_update E db i = Inr u0" and "advances u0 u" and "save_user E clock db u = Inr (db', u')"
    and "users_apart E db"
  obtains r where "r \<in> set (db_users db)" "ur_id r = i" "into_domain E r = Inr u0"
    "\<And>P j. (\<exists>w\<in>set (db_users db'). ur_id w = j \<and> P w) \<longleftrightarrow>
       (if j = i then P (set_columns u r) else \<exists>w\<in>set (db_users db). ur_id w = j \<and> P w)"
    "\<And>P. (\<exists>w\<in>set (db_users db). ur_id w = i \<and> P w) \<longleftrightarrow> P r"
proof -
  obtain db1 where up: "update_row E db u = Inr db1" and dr: "drain_outbox E clock db1 u = Inr (db', u')"
    using assms(3) by (auto simp: save_user_def rbind_Inr_iff)
  obtain r ps where r: "r \<in> set (db_users db)" "ur_id r = i" "into_domain E r = Inr u0"
    and users: "db_users db' = map (\<lambda>w. if ur_id w = i then set_columns u w else w) (db_users db)"
    by (rule save_effect [OF assms(1,2) up others_only_actions(4) dr]) (rule that, assumption+)
  have one: "w = r" if "w \<in> set (db_users db)" "ur_id w = i" for w
    using assms(4) r that by (auto simp: users_apart_def distinct_map inj_on_def)
  have mine: "(\<exists>w\<in>set (db_users db'). ur_id w = j \<and> P w) \<longleftrightarrow> (\<exists>w\<in>set (db_users db). ur_id w = j \<and> P (if ur_id w = i then set_columns u w else w))" for P j
  proof -
    define f where "f = (\<lambda>w. if ur_id w = i then set_columns u w else w)"
    have "ur_id (f w) = ur_id w" for w by (simp add: f_def)
    then have "(\<exists>w\<in>set (map f (db_users db)). ur_id w = j \<and> P w) \<longleftrightarrow> (\<exists>w\<in>set (db_users db). ur_id w = j \<and> P (f w))"
      by auto
    then show ?thesis by (simp only: users f_def)
  qed
  show thesis
  proof (rule that [OF r])
    fix P j
    show "(\<exists>w\<in>set (db_users db'). ur_id w = j \<and> P w) \<longleftrightarrow>
       (if j = i then P (set_columns u r) else \<exists>w\<in>set (db_users db). ur_id w = j \<and> P w)"
    proof (cases "j = i")
      case True
      have "(\<exists>w\<in>set (db_users db). ur_id w = i \<and> Q w) \<longleftrightarrow> Q r" for Q using r(1,2) one by blast
      then show ?thesis unfolding mine using True r(2) by simp
    next
      case False
      then show ?thesis unfolding mine by (simp cong: conj_cong)
    qed
    show "(\<exists>w\<in>set (db_users db). ur_id w = i \<and> P w) \<longleftrightarrow> P r" using r one by blast
  qed
qed

lemma save_writes:
  assumes "load_for_update E db i = Inr u0" and "save_user E clock db u = Inr (db', u')" and "advances u0 u"
  shows "identity_writes E (\<lambda>_ _. True) db db'"
  using anything.save_user_writes [OF assms(1,2,3)] by simp

lemma columns_seat [simp]: "ur_role (set_columns u r) = role_as_str (us_role u)"
  by (simp add: set_columns_def)

lemma columns_verdict: "ur_suspended_by (set_columns u r) = Some (lit ''governance'') \<longleftrightarrow> us_suspension u = Some Governance"
  by (cases "us_suspension u") (simp_all add: set_columns_def suspension_governance)

lemma set_seat_moves:
  assumes "set_seat E clock seat db i = Inr db'" and "users_apart E db"
  shows "seat_at s db' j = (if j = i then s = seat else seat_at s db j)" and "verdict_at db' j = verdict_at db j"
    and "identity_writes E (\<lambda>_ _. True) db db'" and "\<exists>s. seat_at s db i"
proof -
  obtain u u' where u: "load_for_update E db i = Inr u" "save_user E clock db (user_set_role u seat) = Inr (db', u')"
    using assms(1) by (auto simp: set_seat_def rbind_Inr_iff)
  obtain r where r: "into_domain E r = Inr u"
    and at: "\<And>P j. (\<exists>w\<in>set (db_users db'). ur_id w = j \<and> P w) \<longleftrightarrow>
       (if j = i then P (set_columns (user_set_role u seat) r) else \<exists>w\<in>set (db_users db). ur_id w = j \<and> P w)"
    and at0: "\<And>P. (\<exists>w\<in>set (db_users db). ur_id w = i \<and> P w) \<longleftrightarrow> P r"
    by (rule save_at [OF u(1) command_advances(4) u(2) assms(2)]) (rule that, assumption+)
  have us: "us_role (user_set_role u seat) = seat" "us_suspension (user_set_role u seat) = us_suspension u"
    by (auto simp: user_op_defs split: if_splits)
  show "seat_at s db' j = (if j = i then s = seat else seat_at s db j)"
    by (auto simp: seat_at_def at us role_codec.as_str_eq_iff)
  show "verdict_at db' j = verdict_at db j"
    using into_domain_verdict [OF r] at0 [of "\<lambda>w. ur_suspended_by w = Some (lit ''governance'')"]
    by (cases "j = i") (simp_all add: verdict_at_def at columns_verdict us)
  show "identity_writes E (\<lambda>_ _. True) db db'" by (rule save_writes [OF u command_advances(4)])
  show "\<exists>s. seat_at s db i"
    using into_domain_Inr(5) [OF r] at0 [of "\<lambda>w. ur_role w = role_as_str (us_role u)"] by (auto simp: seat_at_def)
qed

text \<open>The roster as a set, and as the code counts it.\<close>

definition owner_set :: "'z identity_db_scheme \<Rightarrow> user_id set" where
  "owner_set db = {i. seat_at Owner db i}"

lemma owner_ids_set: "set (owner_ids_for_update db) = owner_set db"
  by (auto simp: owner_ids_for_update_def owner_set_def seat_at_def role_as_str_def)

lemma owner_ids_distinct: "users_apart E db \<Longrightarrow> distinct (owner_ids_for_update db)"
  by (simp add: owner_ids_for_update_def users_apart_def distinct_map inj_on_def)

lemma owner_ids_length: "users_apart E db \<Longrightarrow> length (owner_ids_for_update db) = card (owner_set db)"
  using distinct_card [OF owner_ids_distinct, of E db] by (simp add: owner_ids_set)

lemma owner_ids_sorted: "sorted (owner_ids_for_update db)"
  by (simp add: owner_ids_for_update_def)

lemma owner_set_finite [simp]: "finite (owner_set db)"
  by (metis owner_ids_set finite_set)

lemma owner_ids_lock [simp]: "owner_ids_for_update (lock_governance db) = owner_ids_for_update db"
  by (simp add: owner_ids_for_update_def)

text \<open>How a transaction may move seats. The record says what happened to whom.\<close>

definition stays :: "'z identity_db_scheme \<Rightarrow> 'z identity_db_scheme \<Rightarrow> bool" where
  "stays db db' \<longleftrightarrow> (\<forall>s i. seat_at s db' i = seat_at s db i) \<and> (\<forall>i. verdict_at db' i = verdict_at db i)"

lemma stays_others: "others_only db db' \<Longrightarrow> stays db db'"
  by (simp add: stays_def seat_at_def verdict_at_def others_only_def)

lemma stays_refl [simp]: "stays db db"
  by (simp add: stays_def)

lemma stays_trans: "stays a b \<Longrightarrow> stays b c \<Longrightarrow> stays a c"
  by (simp add: stays_def)

lemma apart_others: "others_only db db' \<Longrightarrow> users_apart E db' = users_apart E db"
  by (simp add: users_apart_def others_only_def)

section \<open>The directory's operations and the consilium's tables\<close>

abbreviation rest :: "'z identity_db_scheme \<Rightarrow> 'z" where
  "rest \<equiv> identity_db.more"

lemma rest_same: "rest db' = rest db \<Longrightarrow> consilium_same db db'"
  for db db' :: "'z consilium_db_scheme"
  by (cases db; cases db') (simp add: same_defs)

lemma rest_save: "save_user E clock db u = Inr (db', u') \<Longrightarrow> rest db' = rest db"
  by (erule save_user_tables) simp

lemma rest_record [simp]: "rest (record_action db i a now) = rest db"
  by (simp add: record_action_def)

lemma rest_update: "update_row E db u = Inr db' \<Longrightarrow> rest db' = rest db"
  by (drule update_row_Inr) simp

lemma rest_insert: "insert_user E db u = Inr db' \<Longrightarrow> rest db' = rest db"
  by (auto simp: insert_user_def split: option.splits)

lemma rest_drain: "drain_outbox E clock db u = Inr (db', u') \<Longrightarrow> rest db' = rest db"
  by (auto dest: drain_Inr)

lemma rest_link: "link_identity E db p s i = Inr db' \<Longrightarrow> rest db' = rest db"
  by (auto simp: link_identity_def split: if_splits)

lemma rest_linkable: "linkable E db identity now = Inr (found, db') \<Longrightarrow> rest db' = rest db"
  by (auto simp: linkable_def rbind_Inr_iff Let_def split: if_splits option.splits list.splits dest!: rest_update)

lemmas rest_parts = rest_save rest_update rest_insert rest_drain rest_link rest_linkable

lemma rest_transact: "(\<And>out db'. tx db = Inr (out, db') \<Longrightarrow> rest db' = rest db) \<Longrightarrow> rest (snd (transact tx db)) = rest db"
  by (rule transact_keeps [where P = "\<lambda>d. rest d = rest db"]) auto

lemma rest_mutate: "rest (snd (mutate E clock i command db)) = rest db"
  "rest (snd (mutate_audited E clock i a now command detail db)) = rest db"
  unfolding mutate_def mutate_audited_def
  by (rule rest_transact, auto simp: rbind_Inr_iff dest!: rest_save)+

lemma rest_lapse: "rest (snd (lapse_loop E clock now due lapsed db)) = rest db"
proof (induction E clock now due lapsed db rule: lapse_loop.induct)
  case (2 E clock now i due lapsed db)
  then show ?case
    by (auto simp: Let_def split: sum.splits prod.splits dest!: rest_save)
qed simp

lemma rest_resolve: "rest (snd (resolve_identity E clock fresh identity now db)) = rest db"
  unfolding resolve_identity_def
proof (rule rest_transact)
  fix out db'
  let ?linked = "linked_account db (pi_provider identity)"
  assume run: "(case ?linked of
       Some i \<Rightarrow> rbind (load_for_update E db i) (\<lambda>u.
         if \<not> (pi_email_proven identity \<and> pi_email identity \<noteq> us_email u \<and> verified_holder E db (pi_email identity) \<noteq> None)
         then let u = change_email u (pi_email identity) (pi_email_proven identity) in
              rbind (update_row E db u) (\<lambda>db. Inr (Inr u, db))
         else Inr (Inr u, db))
     | None \<Rightarrow> rbind (linkable E db identity now) (\<lambda>(found, db).
         rbind (case found of
                  Some u \<Rightarrow> Inr (u, db)
                | None \<Rightarrow> rbind (auth_subject_parse (uuid_text E (uid_raw fresh))) (\<lambda>subject.
                    let u = user_provision fresh subject (pi_email identity) (pi_email_proven identity)
                              (free_username db (pi_email identity)) in
                    rbind (insert_user E db u) (\<lambda>db. Inr (u, db)))) (\<lambda>(u, db).
         rbind (case pi_provider identity of
                  None \<Rightarrow> Inr db
                | Some (p, subject) \<Rightarrow> link_identity E db p subject (us_id u)) (\<lambda>db.
         rbind (drain_outbox E clock db u) (\<lambda>(db, u). Inr (Inr u, db)))))) = Inr (out, db')"
  show "rest db' = rest db"
  proof (cases ?linked)
    case (Some i)
    with run show ?thesis by (auto simp: rbind_Inr_iff Let_def split: if_splits dest!: rest_update)
  next
    case None
    with run obtain found db1 u db2 db3 u' where parts: "linkable E db identity now = Inr (found, db1)"
      "(case found of Some u \<Rightarrow> Inr (u, db1) | None \<Rightarrow> rbind (auth_subject_parse (uuid_text E (uid_raw fresh))) (\<lambda>subject.
          let u = user_provision fresh subject (pi_email identity) (pi_email_proven identity) (free_username db1 (pi_email identity))
          in rbind (insert_user E db1 u) (\<lambda>db. Inr (u, db)))) = Inr (u, db2)"
      "(case pi_provider identity of None \<Rightarrow> Inr db2 | Some (p, subject) \<Rightarrow> link_identity E db2 p subject (us_id u)) = Inr db3"
      "drain_outbox E clock db3 u = Inr (db', u')"
      by (auto simp: rbind_Inr_iff)
    have "rest db2 = rest db1"
      using parts(2) by (auto simp: rbind_Inr_iff Let_def split: option.splits dest!: rest_insert)
    moreover have "rest db3 = rest db2" using parts(3) by (auto split: option.splits dest!: rest_link)
    ultimately show ?thesis using rest_linkable [OF parts(1)] rest_drain [OF parts(4)] by simp
  qed
qed

lemma rest_directory: "rest (snd (directory_call E c db)) = rest db"
proof (cases c)
  case (Call_SetUsername clock i h)
  then show ?thesis using rest_mutate(1) [of E clock i "\<lambda>u. Inr (set_username u h)" db]
    by (simp add: store_set_username_def Let_def split_beta)
next
  case (Call_Hold ratifying clock i a by_user now)
  show ?thesis
    unfolding Call_Hold directory_call.simps snd_outcome_of store_hold_user_def
    by (rule rest_transact) (auto simp: rbind_Inr_iff Let_def dest!: rest_save)
next
  case (Call_Reinstate clock i a now)
  show ?thesis
    unfolding Call_Reinstate directory_call.simps snd_outcome_of reinstate_outside_governance_def
    by (rule rest_transact) (auto simp: rbind_Inr_iff split: if_splits option.splits dest!: rest_save)
next
  case (Call_RaiseKyc clock i n a now)
  show ?thesis
    unfolding Call_RaiseKyc directory_call.simps snd_outcome_of raise_kyc_level_to_def
    by (rule rest_transact) (auto simp: rbind_Inr_iff Let_def split: if_splits option.splits dest!: rest_save)
next
  case (Call_SetRoleOutside clock i seat a now)
  show ?thesis
    unfolding Call_SetRoleOutside directory_call.simps snd_outcome_of set_role_outside_ownership_def
    by (rule rest_transact) (auto simp: rbind_Inr_iff Let_def split: if_splits option.splits dest!: rest_save)
qed (simp_all add: rest_resolve rest_mutate rest_lapse store_update_profile_def store_revoke_tokens_def
    lapse_due_holds_def store_set_kyc_level_def store_disable_user_def store_enable_user_def store_set_role_def)

lemma directory_call_same: "consilium_same db (snd (directory_call E c db))"
  by (rule rest_same, rule rest_directory)

lemma hold_same: "consilium_same db (snd (store_hold_user ratifying E clock i a by_user now db))"
  unfolding store_hold_user_def
  by (rule rest_same, rule rest_transact) (auto simp: rbind_Inr_iff Let_def dest!: rest_save)

section \<open>Settling\<close>

lemma executed_life [simp]: "lc_state (lc_close l s ev now) = s" "lc_state (lc_close_void l reason now) = Void"
  by (simp_all add: life_defs)

lemma settle_cases:
  assumes "settle E clock db r now = Inr (db', r')"
  obtains (kept) "db' = db" "evolves removal_step r r'"
  | (taken) "evolves removal_step r r'" "set_seat E clock Investor db (rm_target r) = Inr db'"
      "lc_state (rm_life r) = Open" "lc_state (rm_life r') = proposal_state.Executed"
      "rm_peers r' = rm_peers r" "rm_decision r' = rm_decision r" "rm_initiator r \<in> set (owner_ids_for_update db)"
      "2 < length (owner_ids_for_update db)" "removal_outcome_among r (owner_ids_for_update db) = Passes"
proof (cases "\<not> is_open (removal_state r) \<or> removal_outcome r \<noteq> Passes")
  case True
  then show thesis using assms kept by (auto simp: settle_def)
next
  case False
  then obtain r1 st where ex: "removal_execute r (owner_ids_for_update db) now = Inr (r1, st)"
    and fin: "(if st = proposal_state.Executed then rbind (take_seat E clock db (rm_target r)) (\<lambda>db. Inr (db, r1))
      else Inr (db, r1)) = Inr (db', r')"
    using assms by (auto simp: settle_def rbind_Inr_iff removal_execute_def removal_state_def is_open_def Let_def split: if_splits)
  have ev: "evolves removal_step r r1"
    using evolves_step [of removal_step r "R_Execute (owner_ids_for_update db) now" r1] ex by simp
  show thesis
  proof (cases "st = proposal_state.Executed")
    case False
    then show thesis using fin ev kept by simp
  next
    case True
    have op: "lc_state (rm_life r) = Open" using \<open>\<not> (\<not> is_open _ \<or> _)\<close> by (simp add: is_open_def removal_state_def)
    have "rm_initiator r \<in> set (owner_ids_for_update db) \<and> 2 < length (owner_ids_for_update db)
        \<and> removal_outcome_among r (owner_ids_for_update db) = Passes \<and> lc_state (rm_life r1) = proposal_state.Executed
        \<and> rm_peers r1 = rm_peers r \<and> rm_decision r1 = rm_decision r"
      using ex True op by (auto simp: removal_execute_def removal_state_def result_simps Let_def MIN_OWNERS_def split: if_splits)
    moreover have "r' = r1" "set_seat E clock Investor db (rm_target r) = Inr db'"
      using fin True by (auto simp: rbind_Inr_iff take_seat_def)
    ultimately show thesis using taken ev op by blast
  qed
qed

lemma settle_admission_cases:
  assumes "settle_admission E clock db a now = Inr (db', a')"
  obtains (kept) "db' = db" "evolves admission_step a a'"
  | (granted) "evolves admission_step a a'" "set_seat E clock Owner db (ad_candidate a) = Inr db'"
      "lc_state (ad_life a) = Open" "lc_state (ad_life a') = proposal_state.Executed" "ad_peers a' = ad_peers a"
      "ad_initiator a \<in> set (owner_ids_for_update db)" "ad_candidate a \<notin> set (owner_ids_for_update db)"
      "admission_outcome_among a (owner_ids_for_update db) = Passes"
proof (cases "\<not> is_open (admission_state a) \<or> admission_outcome a \<noteq> Passes")
  case True
  then show thesis using assms kept by (auto simp: settle_admission_def)
next
  case False
  then have op: "lc_state (ad_life a) = Open" by (simp add: is_open_def admission_state_def)
  show thesis
  proof (cases "admission_outcome_among a (owner_ids_for_update db) = Passes")
    case among: False
    then have "admission_void a lost_seats now = Inr a'" "db' = db"
      using assms False by (auto simp: settle_admission_def rbind_Inr_iff)
    then show thesis using kept evolves_step [of admission_step a "A_Void lost_seats now" a'] by simp
  next
    case among: True
    then obtain a1 st where ex: "admission_execute a (owner_ids_for_update db) now = Inr (a1, st)"
      and fin: "(if st = proposal_state.Executed then rbind (grant_seat E clock db (ad_candidate a1)) (\<lambda>db. Inr (db, a1))
        else Inr (db, a1)) = Inr (db', a')"
      using assms False by (auto simp: settle_admission_def rbind_Inr_iff)
    have ev: "evolves admission_step a a1"
      using evolves_step [of admission_step a "A_Execute (owner_ids_for_update db) now" a1] ex by simp
    show thesis
    proof (cases "st = proposal_state.Executed")
      case False
      then show thesis using fin ev kept by simp
    next
      case True
      have "ad_initiator a \<in> set (owner_ids_for_update db) \<and> ad_candidate a \<notin> set (owner_ids_for_update db)
          \<and> lc_state (ad_life a1) = proposal_state.Executed \<and> ad_peers a1 = ad_peers a \<and> ad_candidate a1 = ad_candidate a"
        using ex True op by (auto simp: admission_execute_def admission_state_def result_simps Let_def split: if_splits)
      moreover have "a' = a1" "set_seat E clock Owner db (ad_candidate a1) = Inr db'"
        using fin True by (auto simp: rbind_Inr_iff grant_seat_def)
      ultimately show thesis using granted ev op among by simp
    qed
  qed
qed

lemma settle_proposal_cases:
  assumes "settle_proposal E clock db p now = Inr (db', p')"
  obtains (kept) "db' = db" "evolves proposal_step p p'"
  | (applied) u db1 u1 act where "evolves proposal_step p p'" "load_for_update E db (pr_subject p) = Inr u" "inapplicable u (pr_kind p) = None"
      "save_user E clock db (fst (apply_effect (pr_kind p) u now)) = Inr (db1, u1)" "db' = record_action db1 (pr_subject p) act now"
      "lc_state (pr_life p) = Open" "lc_state (pr_life p') = proposal_state.Executed" "pr_peers p' = pr_peers p"
      "pr_initiator p \<in> set (owner_ids_for_update db)" "proposal_outcome_among p (owner_ids_for_update db) = Passes"
      "act = with_proposal (with_reason (action_system (snd (apply_effect (pr_kind p) u now))) (pr_reason p)) (pr_id p)"
proof (cases "\<not> is_open (up_state p) \<or> proposal_outcome p \<noteq> Passes")
  case True
  then show thesis using assms kept by (auto simp: settle_proposal_def)
next
  case False
  then have op: "lc_state (pr_life p) = Open" by (simp add: is_open_def up_state_def)
  have voids: thesis if "proposal_void p reason now = Inr p'" "db' = db" for reason
    using kept that evolves_step [of proposal_step p "P_Void reason now" p'] by simp
  let ?own = "owner_ids_for_update db"
  show thesis
  proof (cases "proposal_outcome_among p ?own = Passes")
    case among: False
    then have "proposal_void p lost_seats now = Inr p'" "db' = db"
      using assms False by (auto simp: settle_proposal_def rbind_Inr_iff)
    then show thesis by (rule voids)
  next
    case among: True
    obtain u where u: "load_for_update E db (pr_subject p) = Inr u"
      using assms False among by (auto simp: settle_proposal_def rbind_Inr_iff)
    show thesis
    proof (cases "inapplicable u (pr_kind p)")
      case (Some blocked)
      then have "proposal_void p blocked now = Inr p'" "db' = db"
        using assms False among u by (auto simp: settle_proposal_def rbind_Inr_iff)
      then show thesis by (rule voids)
    next
      case None
      then obtain p1 st where ex: "proposal_execute p ?own now = Inr (p1, st)"
        and fin: "(if st \<noteq> proposal_state.Executed then Inr (db, p1)
          else let (subject, action) = apply_effect (pr_kind p1) u now in
            rbind (save_user E clock db subject) (\<lambda>(db, subject). Inr (record_action db (pr_subject p1)
              (with_proposal (with_reason (action_system action) (pr_reason p1)) (pr_id p1)) now, p1))) = Inr (db', p')"
        using assms False among u by (auto simp: settle_proposal_def rbind_Inr_iff)
      have ev: "evolves proposal_step p p1"
        using evolves_step [of proposal_step p "P_Execute ?own now" p1] ex by simp
      have same: "pr_kind p1 = pr_kind p" "pr_subject p1 = pr_subject p" "pr_reason p1 = pr_reason p" "pr_id p1 = pr_id p" "pr_peers p1 = pr_peers p"
        using ex by (auto simp: proposal_execute_def rbind_Inr_iff Let_def split: if_splits)
      show thesis
      proof (cases "st = proposal_state.Executed")
        case False
        then show thesis using fin ev kept by simp
      next
        case True
        have "pr_initiator p \<in> set ?own \<and> lc_state (pr_life p1) = proposal_state.Executed"
          using ex True op by (auto simp: proposal_execute_def up_state_def result_simps Let_def split: if_splits)
        moreover obtain db1 u1 where "save_user E clock db (fst (apply_effect (pr_kind p) u now)) = Inr (db1, u1)" "p' = p1"
          "db' = record_action db1 (pr_subject p) (with_proposal (with_reason (action_system (snd (apply_effect (pr_kind p) u now))) (pr_reason p)) (pr_id p)) now"
          using fin True by (auto simp: rbind_Inr_iff Let_def same split_beta)
        ultimately show thesis using applied [of u db1 u1] ev u None op among same by blast
      qed
    qed
  qed
qed

end
