(* ===== verification/Consilium_Safety.thy ===== *)
theory Consilium_Safety
  imports Consilium_Runs
begin

text \<open>
  The governance plane as a whole: what every reachable database satisfies, and what a single
  call may do to seats and verdicts. Each call is shown to be one of a few moves, with the
  executed proposal that stands behind it.
\<close>

section \<open>Calls of one kind\<close>

text \<open>
  What a call about proposals of one kind keeps: accounts and outbox are only written as the
  directory writes them, the other two kinds of proposals are untouched, and the log only
  grows by events of its own kind.
\<close>

definition logs_of :: "(governance_subject \<Rightarrow> bool) \<Rightarrow> 'z consilium_db_scheme \<Rightarrow> 'z consilium_db_scheme \<Rightarrow> bool" where
  "logs_of K db db' \<longleftrightarrow> (\<exists>rows. db_governance_events db' = db_governance_events db @ rows \<and> (\<forall>g\<in>set rows. K (gv_subject g)))"

definition about_removal :: "governance_subject \<Rightarrow> bool" where "about_removal g \<longleftrightarrow> (\<exists>i. g = Subject_Removal i)"
definition about_admission :: "governance_subject \<Rightarrow> bool" where "about_admission g \<longleftrightarrow> (\<exists>i. g = Subject_Admission i)"
definition about_proposal :: "governance_subject \<Rightarrow> bool" where "about_proposal g \<longleftrightarrow> (\<exists>i. g = Subject_UserProposal i)"

lemmas about_defs = about_removal_def about_admission_def about_proposal_def

definition removal_only :: "ext \<Rightarrow> 'z consilium_db_scheme \<Rightarrow> 'z consilium_db_scheme \<Rightarrow> bool" where
  "removal_only E db db' \<longleftrightarrow> identity_writes E (\<lambda>_ _. True) db db' \<and> same_admissions db db' \<and> same_proposals db db'
     \<and> logs_of about_removal db db'"

definition admission_only :: "ext \<Rightarrow> 'z consilium_db_scheme \<Rightarrow> 'z consilium_db_scheme \<Rightarrow> bool" where
  "admission_only E db db' \<longleftrightarrow> identity_writes E (\<lambda>_ _. True) db db' \<and> same_removals db db' \<and> same_proposals db db'
     \<and> logs_of about_admission db db'"

definition proposal_only :: "ext \<Rightarrow> 'z consilium_db_scheme \<Rightarrow> 'z consilium_db_scheme \<Rightarrow> bool" where
  "proposal_only E db db' \<longleftrightarrow> identity_writes E (\<lambda>_ _. True) db db' \<and> same_removals db db' \<and> same_admissions db db'
     \<and> logs_of about_proposal db db'"

lemmas only_defs = removal_only_def admission_only_def proposal_only_def

lemma logs_of_refl [simp]: "logs_of K db db"
  by (simp add: logs_of_def)

lemma logs_of_same: "db_governance_events db' = db_governance_events db \<Longrightarrow> logs_of K db db'"
  by (simp add: logs_of_def)

lemma logs_of_trans: "logs_of K a b \<Longrightarrow> logs_of K b c \<Longrightarrow> logs_of K a c"
  unfolding logs_of_def by (metis Un_iff append_assoc set_append)

lemma only_refl [simp]: "removal_only E db db" "admission_only E db db" "proposal_only E db db"
  by (simp_all add: only_defs same_defs)

lemma only_trans:
  "removal_only E a b \<Longrightarrow> removal_only E b c \<Longrightarrow> removal_only E a c"
  "admission_only E a b \<Longrightarrow> admission_only E b c \<Longrightarrow> admission_only E a c"
  "proposal_only E a b \<Longrightarrow> proposal_only E b c \<Longrightarrow> proposal_only E a c"
  by (auto simp: only_defs same_defs intro: writes_trans logs_of_trans)

lemma only_same:
  assumes "identity_writes E (\<lambda>_ _. True) db db'" and "consilium_same db db'"
  shows "removal_only E db db'" "admission_only E db db'" "proposal_only E db db'"
  using assms by (simp_all add: only_defs same_defs logs_of_same)

lemma only_others:
  assumes "others_only db db'" and "consilium_same db db'"
  shows "removal_only E db db'" "admission_only E db db'" "proposal_only E db db'"
  using assms by (auto intro: only_same writes_elsewhere)

lemma only_lock: "removal_only E db (lock_governance db)" "admission_only E db (lock_governance db)" "proposal_only E db (lock_governance db)"
  by (rule only_others; simp)+

lemma only_persist:
  "persist_removal E db r actor au now = Inr (db', r') \<Longrightarrow> removal_only E db db'"
  "persist_admission E db a actor au now = Inr (db', a') \<Longrightarrow> admission_only E db db'"
  "persist_proposal E db p actor au now = Inr (db', p') \<Longrightarrow> proposal_only E db db'"
  using persist_tables(1) [of E db r actor au now db' r'] persist_tables(2) [of E db a actor au now db' a']
    persist_tables(3) [of E db p actor au now db' p'] persist_removal_frame [of E db r actor au now db' r']
    persist_admission_frame [of E db a actor au now db' a'] persist_proposal_frame [of E db p actor au now db' p']
  by (auto simp: only_defs writes_elsewhere logs_of_def about_defs dest: event_rows_subject)

lemma only_insert:
  "insert_removal E db r = Inr db' \<Longrightarrow> removal_only E db db'"
  "insert_admission E db a = Inr db' \<Longrightarrow> admission_only E db db'"
  "insert_proposal E db p = Inr db' \<Longrightarrow> proposal_only E db db'"
  using insert_tables(1) [of E db r db'] insert_tables(2) [of E db a db'] insert_tables(3) [of E db p db']
  by (auto simp: only_defs writes_elsewhere logs_of_same)

lemma only_token:
  "insert_token E db i token code at = Inr db' \<Longrightarrow> removal_only E db db'"
  "update_token E db i f = Inr db' \<Longrightarrow> removal_only E db db'"
  using token_tables(1) [of E db i token code at db'] token_tables(2) [of E db i f db']
  by (auto simp: only_defs writes_elsewhere logs_of_same)

lemma only_mail:
  "upsert_subscriber E clock fresh token db i m v = Inr (db', s) \<Longrightarrow> removal_only E db db'"
  "enqueue_governance_mail E clock db sid r kind key payload = Inr (db', q) \<Longrightarrow> removal_only E db db'"
  using mail_tables(1) [of E clock fresh token db i m v db' s] mail_tables(2) [of E clock db sid r kind key payload db' q]
  by (auto intro: only_others)

lemma set_seat_writes: "set_seat E clock seat db i = Inr db' \<Longrightarrow> identity_writes E (\<lambda>_ _. True) db db'"
  by (auto simp: set_seat_def rbind_Inr_iff intro: save_writes command_advances)

lemma apply_effect_advances: "advances u (fst (apply_effect k u now))"
  by (cases k) (simp_all add: apply_effect_def command_advances governance_command_advances)

lemma only_settle:
  "settle E clock db r now = Inr (db', r') \<Longrightarrow> removal_only E db db' \<and> evolves removal_step r r' \<and> consilium_same db db'"
  "settle_admission E clock db a now = Inr (db', a') \<Longrightarrow> admission_only E db db' \<and> evolves admission_step a a' \<and> consilium_same db db'"
  "settle_proposal E clock db p now = Inr (db', p') \<Longrightarrow> proposal_only E db db' \<and> evolves proposal_step p p' \<and> consilium_same db db'"
    apply (erule settle_cases; simp add: only_same set_seat_same set_seat_writes)
   apply (erule settle_admission_cases; simp add: only_same set_seat_same set_seat_writes)
  apply (erule settle_proposal_cases)
   apply simp
  apply (frule save_user_same, drule (1) save_writes [OF _ _ apply_effect_advances],
      metis consilium_same_trans only_same(3) others_only_record record_action_same writes_elsewhere writes_trans)
  done

section \<open>The invariant\<close>

definition gov_ok :: "ext \<Rightarrow> 'z consilium_db_scheme \<Rightarrow> bool" where
  "gov_ok E db \<longleftrightarrow> outbox_sound db \<and> users_apart E db
     \<and> removals.stored_ok E db \<and> admissions.stored_ok E db \<and> proposals.stored_ok E db"

lemma log_elsewhere:
  assumes "logs_of K db db'" and "\<not> K s"
  shows "filter (\<lambda>g. gv_subject g = s) (db_governance_events db') = filter (\<lambda>g. gv_subject g = s) (db_governance_events db)"
  using assms by (auto simp: logs_of_def filter_empty_conv)

lemma ok_unmoved:
  "same_removals db db' \<Longrightarrow> logs_of K db db' \<Longrightarrow> (\<And>i. \<not> K (Subject_Removal i)) \<Longrightarrow> removals.stored_ok E db \<Longrightarrow> removals.stored_ok E db'"
  "same_admissions db db' \<Longrightarrow> logs_of K db db' \<Longrightarrow> (\<And>i. \<not> K (Subject_Admission i)) \<Longrightarrow> admissions.stored_ok E db \<Longrightarrow> admissions.stored_ok E db'"
  "same_proposals db db' \<Longrightarrow> logs_of K db db' \<Longrightarrow> (\<And>i. \<not> K (Subject_UserProposal i)) \<Longrightarrow> proposals.stored_ok E db \<Longrightarrow> proposals.stored_ok E db'"
    apply (rule removals.ok_elsewhere; assumption?) apply (simp add: removals.log_of_def log_elsewhere)
   apply (rule admissions.ok_elsewhere; assumption?) apply (simp add: admissions.log_of_def log_elsewhere)
  apply (rule proposals.ok_elsewhere; assumption?) apply (simp add: proposals.log_of_def log_elsewhere)
  done

lemma gov_ok_moves:
  "gov_ok E db \<Longrightarrow> removal_only E db db' \<Longrightarrow> removals.stored_ok E db' \<Longrightarrow> gov_ok E db'"
  "gov_ok E db \<Longrightarrow> admission_only E db db' \<Longrightarrow> admissions.stored_ok E db' \<Longrightarrow> gov_ok E db'"
  "gov_ok E db \<Longrightarrow> proposal_only E db db' \<Longrightarrow> proposals.stored_ok E db' \<Longrightarrow> gov_ok E db'"
    using writes_keep [of E "\<lambda>_ _. True" db db'] ok_unmoved [of db db' about_removal E]
      ok_unmoved [of db db' about_admission E] ok_unmoved [of db db' about_proposal E]
    unfolding gov_ok_def only_defs by (simp_all add: about_defs)

lemma gov_ok_same:
  assumes "gov_ok E db" and "identity_writes E (\<lambda>_ _. True) db db'" and "consilium_same db db'"
  shows "gov_ok E db'"
proof (rule gov_ok_moves(1) [OF assms(1)])
  show "removal_only E db db'" by (rule only_same(1) [OF assms(2,3)])
  show "removals.stored_ok E db'"
    by (rule ok_unmoved(1) [where K = "\<lambda>_. False" and db = db])
      (use assms(1,3) in \<open>simp_all add: gov_ok_def consilium_same_def logs_of_same\<close>)
qed

lemma gov_ok_lock [simp]: "gov_ok E db \<Longrightarrow> gov_ok E (lock_governance db)"
  by (rule gov_ok_same) (auto intro: writes_elsewhere)

lemma empty_gov_ok: "gov_ok E (empty_consilium meanings)"
  by (simp add: gov_ok_def empty_consilium_def outbox_sound_def outbox_ordered_def outbox_tells_def users_apart_def of_user_def
      removals.stored_ok_def admissions.stored_ok_def proposals.stored_ok_def
      removals.log_of_def admissions.log_of_def proposals.log_of_def)

section \<open>Every call keeps it\<close>

lemma snd_then_read [simp]: "snd (then_read read absent res) = snd res"
  by (simp add: then_read_def)

lemma removal_decision_ok:
  assumes "gov_ok E db"
    and act: "\<And>db a db1 a1. act db a = Inr (db1, a1) \<Longrightarrow> removal_only E db db1 \<and> evolves removal_step a a1 \<and> consilium_same db db1"
  shows "gov_ok E (snd (decide (\<lambda>db. load_removal E db i) expire_if_due (persist_removal E) expired act actor au now db))"
proof (rule gov_ok_moves(1) [OF assms(1)])
  show "removal_only E db (snd (decide (\<lambda>db. load_removal E db i) expire_if_due (persist_removal E) expired act actor au now db))"
    by (rule decide_keeps [where P = "removal_only E db"])
      (use act in \<open>blast intro: only_refl only_trans(1) only_lock only_persist\<close>)+
  show "removals.stored_ok E (snd (decide (\<lambda>db. load_removal E db i) expire_if_due (persist_removal E) expired act actor au now db))"
    by (rule removals.decide_ok)
      (use assms in \<open>auto simp: gov_ok_def consilium_same_def dest!: act\<close>)
qed

lemma admission_decision_ok:
  assumes "gov_ok E db"
    and act: "\<And>db a db1 a1. act db a = Inr (db1, a1) \<Longrightarrow> admission_only E db db1 \<and> evolves admission_step a a1 \<and> consilium_same db db1"
  shows "gov_ok E (snd (decide (\<lambda>db. load_admission E db i) expire_admission_if_due (persist_admission E) expired act actor au now db))"
proof (rule gov_ok_moves(2) [OF assms(1)])
  show "admission_only E db (snd (decide (\<lambda>db. load_admission E db i) expire_admission_if_due (persist_admission E) expired act actor au now db))"
    by (rule decide_keeps [where P = "admission_only E db"])
      (use act in \<open>blast intro: only_refl only_trans(2) only_lock only_persist\<close>)+
  show "admissions.stored_ok E (snd (decide (\<lambda>db. load_admission E db i) expire_admission_if_due (persist_admission E) expired act actor au now db))"
    by (rule admissions.decide_ok)
      (use assms in \<open>auto simp: gov_ok_def consilium_same_def dest!: act\<close>)
qed

lemma proposal_decision_ok:
  assumes "gov_ok E db"
    and act: "\<And>db a db1 a1. act db a = Inr (db1, a1) \<Longrightarrow> proposal_only E db db1 \<and> evolves proposal_step a a1 \<and> consilium_same db db1"
  shows "gov_ok E (snd (decide (\<lambda>db. load_proposal E db i) expire_proposal_if_due (persist_proposal E) expired act actor au now db))"
proof (rule gov_ok_moves(3) [OF assms(1)])
  show "proposal_only E db (snd (decide (\<lambda>db. load_proposal E db i) expire_proposal_if_due (persist_proposal E) expired act actor au now db))"
    by (rule decide_keeps [where P = "proposal_only E db"])
      (use act in \<open>blast intro: only_refl only_trans(3) only_lock only_persist\<close>)+
  show "proposals.stored_ok E (snd (decide (\<lambda>db. load_proposal E db i) expire_proposal_if_due (persist_proposal E) expired act actor au now db))"
    by (rule proposals.decide_ok)
      (use assms in \<open>auto simp: gov_ok_def consilium_same_def dest!: act\<close>)
qed

lemma act_steps:
  "rbind (removal_peer_vote r u v now) (\<lambda>r. settle E clock db r now) = Inr (db1, r1) \<Longrightarrow>
     removal_only E db db1 \<and> evolves removal_step r r1 \<and> consilium_same db db1"
  "rbind (removal_cancel r u now) (\<lambda>r. Inr (db, r)) = Inr (db1, r1) \<Longrightarrow>
     removal_only E db db1 \<and> evolves removal_step r r1 \<and> consilium_same db db1"
  "rbind (admission_vote_by a u av now) (\<lambda>a. settle_admission E clock db a now) = Inr (db1, a1) \<Longrightarrow>
     admission_only E db db1 \<and> evolves admission_step a a1 \<and> consilium_same db db1"
  "rbind (admission_cancel a u now) (\<lambda>a. Inr (db, a)) = Inr (db1, a1) \<Longrightarrow>
     admission_only E db db1 \<and> evolves admission_step a a1 \<and> consilium_same db db1"
  "rbind (proposal_vote_by p u pv now) (\<lambda>p. settle_proposal E clock db p now) = Inr (db1, p1) \<Longrightarrow>
     proposal_only E db db1 \<and> evolves proposal_step p p1 \<and> consilium_same db db1"
  "rbind (proposal_cancel p u now) (\<lambda>p. Inr (db, p)) = Inr (db1, p1) \<Longrightarrow>
     proposal_only E db db1 \<and> evolves proposal_step p p1 \<and> consilium_same db db1"
  using evolves_step [of removal_step r "R_PeerVote u v now"] evolves_step [of removal_step r "R_Cancel u now"]
    evolves_step [of admission_step a "A_Vote u av now"] evolves_step [of admission_step a "A_Cancel u now"]
    evolves_step [of proposal_step p "P_Vote u pv now"] evolves_step [of proposal_step p "P_Cancel u now"]
  by (auto simp: rbind_Inr_iff dest!: only_settle intro: evolves_trans)

lemma decisions_ok:
  assumes "gov_ok E db"
  shows "gov_ok E (snd (peer_vote E clock ri u v now au db))" "gov_ok E (snd (cancel_removal E ri u now db))"
    "gov_ok E (snd (store_admission_vote E clock ai u av now au db))" "gov_ok E (snd (cancel_admission E ai u now db))"
    "gov_ok E (snd (user_proposal_vote E clock pi u pv now au db))" "gov_ok E (snd (cancel_user_proposal E pi u now db))"
  unfolding peer_vote_def cancel_removal_def store_admission_vote_def cancel_admission_def user_proposal_vote_def
    cancel_user_proposal_def snd_then_read
  by (rule removal_decision_ok admission_decision_ok proposal_decision_ok, rule assms, erule act_steps)+

lemma voters_filter [simp]:
  "voters (map peer_pending xs) = xs" "voters (map admission_peer_pending xs) = xs" "voters (map proposal_peer_pending xs) = xs"
  by (simp_all add: voters_def peer_pending_def admission_peer_pending_def proposal_peer_pending_def comp_def)

lemma opened_good:
  "removal_open rid t i reason owners now ttl = Inr r \<Longrightarrow> distinct owners \<Longrightarrow> sorted owners \<Longrightarrow> removal_good r \<and> removal_fresh r"
  "admission_open aid c i reason owners now ttl = Inr a \<Longrightarrow> distinct owners \<Longrightarrow> sorted owners \<Longrightarrow> admission_good a \<and> admission_fresh a"
  "proposal_open pid k s i reason owners now ttl = Inr p \<Longrightarrow> distinct owners \<Longrightarrow> sorted owners \<Longrightarrow> proposal_good p \<and> proposal_fresh p"
  using removal_open_inv [of rid t i reason owners now ttl r] admission_open_inv [of aid c i reason owners now ttl a]
    proposal_open_inv [of pid k s i reason owners now ttl p]
  by (auto simp: removal_good_def removal_fresh_def admission_good_def admission_fresh_def proposal_good_def proposal_fresh_def
      removal_open_def admission_open_def proposal_open_def result_simps Let_def sorted_wrt_filter
      lc_opened_def life_defs peer_pending_def admission_peer_pending_def proposal_peer_pending_def split: if_splits)

lemma open_admission_ok:
  assumes "gov_ok E db"
  shows "gov_ok E (snd (open_admission E fresh c n reason now db))"
  unfolding open_admission_def snd_then_read
proof (rule transact_keeps [where P = "gov_ok E", OF assms])
  fix out db'
  let ?db = "lock_governance db"
  let ?stale = "map_option ar_id (find (\<lambda>a. ar_candidate a = c \<and> ar_state a = lit ''open'' \<and> ar_expires_at a \<le> now) (db_admissions ?db))"
  assume "(let db = ?db; stale = map_option ar_id (find (\<lambda>a. ar_candidate a = c \<and> ar_state a = lit ''open'' \<and> ar_expires_at a \<le> now) (db_admissions db))
     in rbind (close_stale stale (load_admission E) expire_admission_if_due (persist_admission E) now db) (\<lambda>db.
         rbind (admission_open fresh c n reason (owner_ids_for_update db) now REMOVAL_TTL_SECS) (\<lambda>a.
         rbind (insert_admission E db a) (\<lambda>db.
         rbind (persist_admission E db a (Some n) audit_default now) (\<lambda>(db, a). Inr (Inr (), db)))))) = Inr (out, db')"
  then obtain db1 a db2 a' where st: "close_stale ?stale (load_admission E) expire_admission_if_due (persist_admission E) now ?db = Inr db1"
    and op: "admission_open fresh c n reason (owner_ids_for_update db1) now REMOVAL_TTL_SECS = Inr a"
    and ins: "insert_admission E db1 a = Inr db2" and per: "persist_admission E db2 a (Some n) audit_default now = Inr (db', a')"
    by (auto simp: rbind_Inr_iff Let_def)
  have closed: "admission_only E ?db db1"
    by (rule close_stale_keeps [OF _ st]) (auto intro: only_trans(2) only_persist)
  have g1: "gov_ok E db1"
    by (rule gov_ok_moves(2) [OF gov_ok_lock [OF assms] closed admissions.close_stale_ok [OF _ st]])
      (use gov_ok_lock [OF assms] in \<open>simp add: gov_ok_def\<close>)
  have good: "admission_good a" "admission_fresh a"
    using opened_good(2) [OF op] owner_ids_distinct [of E db1] owner_ids_sorted g1 by (auto simp: gov_ok_def)
  have "admissions.stored_ok E db'"
    by (rule admissions.insert_persist(1) [OF _ ins good admission_open_fields(6) [OF op] _ refl refl good(1) refl per])
      (use g1 in \<open>simp_all add: gov_ok_def same_admissions_def\<close>)
  moreover have "admission_only E db1 db'" using ins per by (blast intro: only_trans(2) only_insert only_persist)
  ultimately show "gov_ok E db'" using g1 gov_ok_moves(2) by blast
qed

lemma open_user_proposal_ok:
  assumes "gov_ok E db"
  shows "gov_ok E (snd (open_user_proposal E fresh k s n reason now db))"
  unfolding open_user_proposal_def snd_then_read
proof (rule transact_keeps [where P = "gov_ok E", OF assms])
  fix out db'
  let ?db = "lock_governance db"
  let ?stale = "map_option qr_id (find (\<lambda>q. qr_subject q = s \<and> qr_kind q = user_proposal_kind_as_str k
       \<and> qr_state q = lit ''open'' \<and> qr_expires_at q \<le> now) (db_proposals ?db))"
  assume "(let db = ?db; stale = map_option qr_id (find (\<lambda>q. qr_subject q = s \<and> qr_kind q = user_proposal_kind_as_str k
         \<and> qr_state q = lit ''open'' \<and> qr_expires_at q \<le> now) (db_proposals db))
     in rbind (close_stale stale (load_proposal E) expire_proposal_if_due (persist_proposal E) now db) (\<lambda>db.
         rbind (proposal_open fresh k s n reason (owner_ids_for_update db) now REMOVAL_TTL_SECS) (\<lambda>p.
         rbind (insert_proposal E db p) (\<lambda>db.
         rbind (persist_proposal E db p (Some n) audit_default now) (\<lambda>(db, p). Inr (Inr (), db)))))) = Inr (out, db')"
  then obtain db1 p db2 p' where st: "close_stale ?stale (load_proposal E) expire_proposal_if_due (persist_proposal E) now ?db = Inr db1"
    and op: "proposal_open fresh k s n reason (owner_ids_for_update db1) now REMOVAL_TTL_SECS = Inr p"
    and ins: "insert_proposal E db1 p = Inr db2" and per: "persist_proposal E db2 p (Some n) audit_default now = Inr (db', p')"
    by (auto simp: rbind_Inr_iff Let_def)
  have closed: "proposal_only E ?db db1"
    by (rule close_stale_keeps [OF _ st]) (auto intro: only_trans(3) only_persist)
  have g1: "gov_ok E db1"
    by (rule gov_ok_moves(3) [OF gov_ok_lock [OF assms] closed proposals.close_stale_ok [OF _ st]])
      (use gov_ok_lock [OF assms] in \<open>simp add: gov_ok_def\<close>)
  have good: "proposal_good p" "proposal_fresh p"
    using opened_good(3) [OF op] owner_ids_distinct [of E db1] owner_ids_sorted g1 by (auto simp: gov_ok_def)
  have "proposals.stored_ok E db'"
    by (rule proposals.insert_persist(1) [OF _ ins good proposal_open_fields(6) [OF op] _ refl refl good(1) refl per])
      (use g1 in \<open>simp_all add: gov_ok_def same_proposals_def\<close>)
  moreover have "proposal_only E db1 db'" using ins per by (blast intro: only_trans(3) only_insert only_persist)
  ultimately show "gov_ok E db'" using g1 gov_ok_moves(3) by blast
qed

lemma transact_committed: "transact tx db = (Inr x, db') \<Longrightarrow> tx db = Inr (Inr x, db')"
  by (simp add: transact_def split: sum.splits)

text \<open>The parts of opening a removal, in the order they are written.\<close>

lemma removal_tx_parts:
  assumes "removal_tx E clock base d t n reason now db = (Inr (), db')"
  obtains db1 r db2 db3 tu nu db4 sub db5 q r' where
    "close_stale (map_option rr_id (find (\<lambda>r. rr_target r = t \<and> rr_state r = lit ''open'' \<and> rr_expires_at r \<le> now)
       (db_removals (lock_governance db)))) (load_removal E) expire_if_due (persist_removal E) now (lock_governance db) = Inr db1"
    "removal_open (rd_id d) t n reason (owner_ids_for_update db1) now REMOVAL_TTL_SECS = Inr r"
    "insert_removal E db1 r = Inr db2"
    "insert_token E db2 (rm_id r) (rd_token d) (secret_code (rd_code_bytes d)) (lc_expires_at (rm_life r)) = Inr db3"
    "load_for_update E db3 t = Inr tu" "load_for_update E db3 n = Inr nu"
    "upsert_subscriber E clock (rd_subscriber d) (rd_unsubscribe_token d) db3 t (email_as_str (us_email tu)) (us_email_verified tu) = Inr (db4, sub)"
    "enqueue_governance_mail E clock db4 (sb_id sub) (email_as_str (us_email tu)) INVITE_MAIL_KIND
       (INVITE_DEDUPE_PREFIX @ lit '':'' @ uuid_text E (rid_raw (rm_id r)))
       (invite_payload base nu r (rd_token d) (secret_code (rd_code_bytes d))) = Inr (db5, q)"
    "persist_removal E db5 (removal_mark_target_notified r) (Some n) audit_default now = Inr (db', r')"
proof -
  note run = transact_committed [OF assms [unfolded removal_tx_def], unfolded Let_def]
  show thesis
    using run unfolding rbind_Inr_iff split_paired_Ex prod.case
    by (elim exE conjE) (rule that, assumption+, simp)
qed

lemma removal_tx_refused: "fst (removal_tx E clock base d t n reason now db) = Inl e \<Longrightarrow> snd (removal_tx E clock base d t n reason now db) = db"
  unfolding removal_tx_def
  apply (rule transact_refused, simp)
  subgoal premises prems for out db'
    using prems(2) unfolding Let_def rbind_Inr_iff split_paired_Ex prod.case by (elim exE conjE) auto
  done

lemma open_removal_ok:
  assumes "gov_ok E db"
  shows "gov_ok E (snd (open_removal E clock base d t n reason now db))"
proof (cases "removal_tx E clock base d t n reason now db")
  case (Pair out db')
  have snd: "snd (open_removal E clock base d t n reason now db) = db'"
    by (simp add: open_removal_def Pair)
  show ?thesis
  proof (cases out)
    case (Inl e)
    then show ?thesis using assms Pair snd removal_tx_refused [of E clock base d t n reason now db e] by simp
  next
    case (Inr u)
    with Pair have "removal_tx E clock base d t n reason now db = (Inr (), db')" by simp
    then show ?thesis
    proof (cases rule: removal_tx_parts)
      case (1 db1 r db2 db3 tu nu db4 sub db5 q r')
      note st = 1(1) and op = 1(2) and ins = 1(3) and tok = 1(4) and sub = 1(7) and mail = 1(8) and per = 1(9)
      have closed: "removal_only E (lock_governance db) db1"
        by (rule close_stale_keeps [OF _ st]) (auto intro: only_trans(1) only_persist)
      have g1: "gov_ok E db1"
        by (rule gov_ok_moves(1) [OF gov_ok_lock [OF assms] closed removals.close_stale_ok [OF _ st]])
          (use gov_ok_lock [OF assms] in \<open>simp add: gov_ok_def\<close>)
      have good: "removal_good r" "removal_fresh r"
        using opened_good(1) [OF op] owner_ids_distinct [of E db1] owner_ids_sorted g1 by (auto simp: gov_ok_def)
      have same: "same_removals db2 db5" "db_governance_events db5 = db_governance_events db2"
        using token_tables(1) [OF tok] mail_tables(1) [OF sub] mail_tables(2) [OF mail] by (simp_all add: same_defs)
      have marked: "removal_origin (removal_mark_target_notified r) = removal_origin r"
        "removal_good (removal_mark_target_notified r)" "rm_life (removal_mark_target_notified r) = rm_life r"
        using good(1) by (simp_all add: removal_mark_target_notified_def removal_origin_def removal_good_def removal_inv_def
            removal_state_def removal_outcome_def)
      have "removals.stored_ok E db'"
        by (rule removals.insert_persist(1) [OF _ ins good removal_open_fields(7) [OF op] same marked per])
          (use g1 in \<open>simp add: gov_ok_def\<close>)
      moreover have "removal_only E db1 db'"
        by (rule only_trans(1) [OF only_insert(1) [OF ins] only_trans(1) [OF only_token(1) [OF tok] only_trans(1)
              [OF only_mail(1) [OF sub] only_trans(1) [OF only_mail(2) [OF mail] only_persist(1) [OF per]]]]])
      ultimately show ?thesis using g1 gov_ok_moves(1) snd by blast
    qed
  qed
qed

text \<open>The ways an answer from a mailbox can end.\<close>

lemma tokens_lock [simp]: "db_tokens (lock_governance db) = db_tokens db"
  by (simp add: lock_governance_def)

lemma answer_tx_cases:
  assumes res: "answer_tx E clock token code v now au db = (out, db')"
  obtains (unchanged) "db' = db" "\<forall>ans. out = Inr ans \<longrightarrow> ans = Answered Unusable"
  | (lapsed) k r r' db1 r1 where "find (\<lambda>k. tk_token_hash k = digest E token) (db_tokens db) = Some k"
      "load_removal E (lock_governance db) (tk_removal_id k) = Inr r" "lc_state (rm_life r) = Open" "lc_expires_at (rm_life r) \<le> now"
      "evolves removal_step r r'" "persist_removal E (lock_governance db) r' None audit_default now = Inr (db1, r1)"
      "out = Inr (Answered Unusable)" "db' = db1"
  | (guessed) k db1 where "find (\<lambda>k. tk_token_hash k = digest E token) (db_tokens db) = Some k" "tk_burned_at k = None"
      "update_token E (lock_governance db) (tk_removal_id k) (\<lambda>w. w\<lparr>tk_attempts := tk_attempts w + 1\<rparr>) = Inr db1"
      "db' = db1 \<and> (out = Inr (Accepted (tk_removal_id k)) \<or> tk_attempts k + 1 < MAX_CODE_ATTEMPTS)
       \<or> MAX_CODE_ATTEMPTS \<le> tk_attempts k + 1 \<and>
         update_token E db1 (tk_removal_id k) (\<lambda>w. w\<lparr>tk_burned_at := Some now\<rparr>) = Inr (db')"
  | (accepted) k r r1 db1 db2 r2 db3 r3 db4 where "find (\<lambda>k. tk_token_hash k = digest E token) (db_tokens db) = Some k"
      "tk_burned_at k = None" "load_removal E (lock_governance db) (tk_removal_id k) = Inr r" "lc_state (rm_life r) = Open" "now < lc_expires_at (rm_life r)"
      "update_token E (lock_governance db) (tk_removal_id k) (\<lambda>w. w\<lparr>tk_attempts := tk_attempts w + 1\<rparr>) = Inr db1"
      "digest E code = tk_code_hash k" "removal_target_decision r v now = Inr r1" "settle E clock db1 r1 now = Inr (db2, r2)"
      "persist_removal E db2 r2 (Some (rm_target r)) au now = Inr (db3, r3)"
      "update_token E db3 (tk_removal_id k) (\<lambda>w. w\<lparr>tk_used_at := Some now\<rparr>) = Inr db4"
      "out = Inr (Accepted (tk_removal_id k))" "db' = db4"
proof (cases "find (\<lambda>k. tk_token_hash k = digest E token) (db_tokens db)")
  case None
  then show thesis using unchanged res by (auto simp: answer_tx_def transact_def lock_governance_def)
next
  case (Some k)
  note def = answer_tx_def transact_def Let_def tokens_lock Some
  show thesis
  proof (cases "tk_burned_at k \<noteq> None \<or> tk_expires_at k \<le> now")
    case True
    then show thesis using unchanged res by (auto simp: def)
  next
    case live: False
    show thesis
    proof (cases "load_removal E (lock_governance db) (tk_removal_id k)")
      case (Inl e)
      then show thesis using unchanged res live by (auto simp: def)
    next
      case (Inr r)
      obtain b r' where d: "(if tk_used_at k = None then expire_if_due r now else (False, r)) = (b, r')" by fastforce
      show thesis
      proof (cases b)
        case True
        then have "expire_if_due r now = (True, r')" using d by (simp split: if_splits)
        note due = removal_expire_due [OF this]
        show thesis
        proof (cases "persist_removal E (lock_governance db) r' None audit_default now")
          case (Inl e)
          then show thesis using unchanged res live \<open>load_removal _ _ _ = _\<close> d True by (auto simp: def)
        next
          case p: (Inr x)
          obtain db1 r1 where x: "x = (db1, r1)" by fastforce
          show thesis
            by (rule lapsed [OF Some Inr]) (use res due p x live Inr d True in \<open>simp_all add: def split: if_splits\<close>)
        qed
      next
        case False
        then have r': "r' = r" "tk_used_at k = None \<Longrightarrow> lc_state (rm_life r) = Open \<Longrightarrow> now < lc_expires_at (rm_life r)"
          using d removal_expire_due [of r now b r'] by (auto split: if_splits)
        show thesis
        proof (cases "tk_used_at k = None \<and> \<not> is_open (removal_state r)")
          case True
          then show thesis using unchanged res live Inr d False r' by (auto simp: def)
        next
          case op: False
          have op': "(tk_used_at k = None \<and> \<not> is_open (removal_state r)) = False" using op by simp
          note facts = live Inr d False r'(1)
          note def = def op'
          let ?up = "update_token E (lock_governance db) (tk_removal_id k) (\<lambda>w. w\<lparr>tk_attempts := tk_attempts w + 1\<rparr>)"
          show thesis
          proof (cases ?up)
            case (Inl e)
            then show thesis using unchanged res facts by (auto simp: def)
          next
            case up: (Inr db1)
            show thesis
            proof (cases "digest E code = tk_code_hash k")
              case False
              show thesis
              proof (cases "MAX_CODE_ATTEMPTS \<le> tk_attempts k + 1")
                case True
                show thesis
                proof (cases "update_token E db1 (tk_removal_id k) (\<lambda>w. w\<lparr>tk_burned_at := Some now\<rparr>)")
                  case (Inl e)
                  then show thesis using unchanged res False True up facts by (auto simp: def)
                next
                  case (Inr db2)
                  then show thesis using guessed [OF Some _ up] res False True up facts by (auto simp: def)
                qed
              next
                case small: False
                then show thesis using guessed [OF Some _ up] res False up facts by (auto simp: def)
              qed
            next
              case code: True
              show thesis
              proof (cases "tk_used_at k = None")
                case False
                then show thesis
                  using unchanged guessed [OF Some _ up] res code up facts by (cases "rm_decision r = v") (auto simp: def)
              next
                case fresh: True
                let ?fin = "rbind (removal_target_decision r v now) (\<lambda>r'. rbind (settle E clock db1 r' now) (\<lambda>(db, r').
                  rbind (persist_removal E db r' (Some (rm_target r)) au now) (\<lambda>(db, r').
                  rbind (update_token E db (tk_removal_id k) (\<lambda>w. w\<lparr>tk_used_at := Some now\<rparr>)) (\<lambda>db.
                  Inr (Inr (Accepted (tk_removal_id k)) :: domain_error + answer, db)))))"
                have now_open: "is_open (removal_state r)" using op fresh by simp
                have fin: "transact (\<lambda>_. ?fin) db = (out, db')"
                  using res code fresh up facts now_open by (simp add: answer_tx_def Let_def transact_def Some)
                show thesis
                proof (cases ?fin)
                  case (Inl e)
                  then have "transact (\<lambda>_. ?fin) db = (Inl e, db)" by (simp only: transact_def sum.case)
                  then have "out = Inl e" "db' = db" using fin by simp_all
                  then show thesis using unchanged by simp
                next
                  case e: (Inr x)
                  then have "transact (\<lambda>_. ?fin) db = x" by (simp only: transact_def sum.case split_beta prod.collapse)
                  then have "?fin = Inr (out, db')" using fin e by simp
                  then obtain r1 db2 r2 db3 r3 db4 where "removal_target_decision r v now = Inr r1" "settle E clock db1 r1 now = Inr (db2, r2)"
                    "persist_removal E db2 r2 (Some (rm_target r)) au now = Inr (db3, r3)"
                    "update_token E db3 (tk_removal_id k) (\<lambda>w. w\<lparr>tk_used_at := Some now\<rparr>) = Inr db4"
                    "out = Inr (Accepted (tk_removal_id k))" "db' = db4"
                    unfolding rbind_Inr_iff split_paired_Ex prod.case by (elim exE conjE) auto
                  then show thesis
                    using accepted [OF Some _ Inr _ _ up code] live now_open fresh r' by (simp add: is_open_def removal_state_def)
                qed
              qed
            qed
          qed
        qed
      qed
    qed
  qed
qed


lemma gov_ok_token: "update_token E db i f = Inr db' \<Longrightarrow> gov_ok E db \<Longrightarrow> gov_ok E db'"
proof -
  assume up: "update_token E db i f = Inr db'" and ok: "gov_ok E db"
  have "removals.stored_ok E db'"
    by (rule removals.ok_elsewhere [where db = db])
      (use token_tables(2) [OF up] ok in \<open>simp_all add: gov_ok_def removals.log_of_def\<close>)
  then show "gov_ok E db'" using gov_ok_moves(1) [OF ok only_token(2) [OF up]] by simp
qed

lemma gov_ok_persist:
  assumes "gov_ok E db" and "load_removal E db i = Inr r0" and "evolves removal_step r0 r" and "persist_removal E db r actor au now = Inr (db', r')"
  shows "gov_ok E db'"
  using gov_ok_moves(1) [OF assms(1) only_persist(1) [OF assms(4)]] removals.persist_evolves(1) [OF _ assms(2,3,4)] assms(1)
  by (simp add: gov_ok_def)

lemma gov_ok_set_seat: "set_seat E clock seat db i = Inr db' \<Longrightarrow> gov_ok E db \<Longrightarrow> gov_ok E db'"
  by (rule gov_ok_same) (auto intro: set_seat_writes set_seat_same)

lemma load_removal_same: "same_removals db db' \<Longrightarrow> load_removal E db' i = load_removal E db i"
  using removals.load_same by blast

lemma self_decision_ok:
  assumes "gov_ok E db"
  shows "gov_ok E (snd (self_decision E clock token code v now au db))"
proof -
  obtain out db' where res: "answer_tx E clock token code v now au db = (out, db')" by fastforce
  have "gov_ok E db'"
    using res
  proof (cases rule: answer_tx_cases)
    case unchanged
    with assms show ?thesis by simp
  next
    case (lapsed k r r' db1 r1)
    then show ?thesis using gov_ok_persist [OF gov_ok_lock [OF assms]] by simp
  next
    case (guessed k db1)
    then show ?thesis using gov_ok_token assms gov_ok_lock by metis
  next
    case (accepted k r r1 db1 db2 r2 db3 r3 db4)
    have g1: "gov_ok E db1" using accepted(6) assms by (auto intro: gov_ok_token)
    note st = only_settle(1) [OF accepted(9)]
    have g2: "gov_ok E db2" using g1 st by (auto intro: gov_ok_same simp: removal_only_def)
    have "load_removal E db2 (tk_removal_id k) = Inr r"
      using accepted(3) token_tables(2) [OF accepted(6)] st load_removal_same by (metis consilium_same_def)
    moreover have "evolves removal_step r r2"
      using st accepted(8) evolves_step [of removal_step r "R_TargetDecision v now" r1] by (auto intro: evolves_trans)
    ultimately have "gov_ok E db3" using gov_ok_persist g2 accepted(10) by blast
    then show ?thesis using gov_ok_token accepted(11,13) by metis
  qed
  then show ?thesis by (simp add: self_decision_def res)
qed

text \<open>Leaving, in parts.\<close>

lemma resign_cases:
  assumes "resign E clock who now db = (out, db')"
  obtains (refused) "db' = db"
  | (left) db1 where "who \<in> set (owner_ids_for_update db)" "2 < length (owner_ids_for_update db)"
      "db1 = lock_governance db \<or> (\<exists>i r r' r1. load_removal E (lock_governance db) i = Inr r \<and> removal_void r (lit ''the target resigned the seat'') now = Inr r'
         \<and> persist_removal E (lock_governance db) r' (Some who) audit_default now = Inr (db1, r1))"
      "set_seat E clock Investor db1 who = Inr db'"
proof -
  let ?db = "lock_governance db"
  define moot where "moot = find (\<lambda>r. rr_target r = who \<and> rr_state r = lit ''open'') (db_removals ?db)"
  define tx where "tx = (if who \<notin> set (owner_ids_for_update ?db) then Inl (Forbidden (lit ''you do not hold an owner seat''))
     else rbind (check_floor (length (owner_ids_for_update ?db))) (\<lambda>_.
       rbind (case moot of None \<Rightarrow> Inr ?db
              | Some row \<Rightarrow> rbind (load_removal E ?db (rr_id row)) (\<lambda>moot.
                  rbind (removal_void moot (lit ''the target resigned the seat'') now) (\<lambda>moot.
                  rbind (persist_removal E ?db moot (Some who) audit_default now) (\<lambda>(db, moot). Inr db)))) (\<lambda>db.
       rbind (take_seat E clock db who) (\<lambda>db. Inr (Inr () :: domain_error + unit, db)))))"
  have run: "(case tx of Inl e \<Rightarrow> (Inl e, db) | Inr (out, db') \<Rightarrow> (out, db')) = (out, db')"
    using assms unfolding resign_def transact_def Let_def tx_def moot_def .
  show thesis
  proof (cases tx)
    case (Inl e)
    with run show thesis using refused by simp
  next
    case (Inr x)
    with run have "tx = Inr (out, db')" by (simp add: split_beta)
    then obtain db1 where seat: "who \<in> set (owner_ids_for_update db)" "check_floor (length (owner_ids_for_update db)) = Inr ()"
      and step: "(case moot of None \<Rightarrow> Inr ?db
              | Some row \<Rightarrow> rbind (load_removal E ?db (rr_id row)) (\<lambda>moot.
                  rbind (removal_void moot (lit ''the target resigned the seat'') now) (\<lambda>moot.
                  rbind (persist_removal E ?db moot (Some who) audit_default now) (\<lambda>(db, moot). Inr db)))) = Inr db1"
      and "take_seat E clock db1 who = Inr db'"
      by (auto simp: tx_def rbind_Inr_iff split: if_splits)
    show thesis
    proof (rule left [OF seat(1), of db1])
      show "2 < length (owner_ids_for_update db)"
        using seat(2) by (auto simp: check_floor_def MIN_OWNERS_def split: if_splits)
      show "db1 = ?db \<or> (\<exists>i r r' r1. load_removal E ?db i = Inr r \<and> removal_void r (lit ''the target resigned the seat'') now = Inr r'
         \<and> persist_removal E ?db r' (Some who) audit_default now = Inr (db1, r1))"
        using step by (auto simp: rbind_Inr_iff split: option.splits)
      show "set_seat E clock Investor db1 who = Inr db'" using \<open>take_seat E clock db1 who = Inr db'\<close> by (simp add: take_seat_def)
    qed
  qed
qed

lemma resign_ok:
  assumes "gov_ok E db"
  shows "gov_ok E (snd (resign E clock who now db))"
proof -
  obtain out db' where "resign E clock who now db = (out, db')" by fastforce
  then show ?thesis
  proof (cases rule: resign_cases)
    case refused
    with assms show ?thesis using \<open>resign _ _ _ _ _ = _\<close> by simp
  next
    case (left db1)
    have "gov_ok E db1"
      using left(3) gov_ok_lock [OF assms] evolves_step [of removal_step _ "R_Void (lit ''the target resigned the seat'') now"]
      by (auto intro: gov_ok_persist)
    then show ?thesis using left(4) \<open>resign _ _ _ _ _ = _\<close> gov_ok_set_seat by simp
  qed
qed

lemma grant_seats_ok: "grant_seats E clock ids db = Inr db' \<Longrightarrow> gov_ok E db \<Longrightarrow> gov_ok E db'"
  by (induction E clock ids db rule: grant_seats.induct) (auto simp: rbind_Inr_iff grant_seat_def dest: gov_ok_set_seat)

lemma seed_cases:
  assumes "genesis_seed E clock subjects db = Some (out, db')"
  obtains (refused) "db' = db"
  | (seated) ids where "owner_ids_for_update db = []" "2 \<le> length ids" "grant_seats E clock ids (lock_governance db) = Inr db'"
  using assms
  by (auto simp: genesis_seed_def seed_owners_def Let_def MIN_OWNERS_def not_less split: if_splits sum.splits option.splits
      intro: refused seated)

lemma seed_ok:
  assumes "gov_ok E db" and "genesis_seed E clock subjects db = Some (out, db')"
  shows "gov_ok E db'"
  using assms(2)
  by (rule seed_cases) (use assms(1) grant_seats_ok gov_ok_lock in blast)+

lemma gov_ok_others: "gov_ok E db \<Longrightarrow> others_only db db' \<Longrightarrow> consilium_same db db' \<Longrightarrow> gov_ok E db'"
  by (rule gov_ok_same) (auto intro: writes_elsewhere)

lemma mail_ok:
  assumes "gov_ok E db"
  shows "gov_ok E (snd (enqueue_mail E clock fresh token i r v kind key payload db))"
  using assms
  by (auto simp: enqueue_mail_def split: sum.splits dest!: mail_tables intro: gov_ok_others)

text \<open>Every call, in any order.\<close>

lemma call_ok:
  assumes "gov_ok E db"
  shows "gov_ok E (snd (consilium_call E c db))"
proof (cases c)
  case (Gov_Hold clock i a u now)
  have "gov_ok E (snd (store_hold_user ratifying E clock i a u now db))"
    by (rule gov_ok_same [OF assms anything.hold_writes hold_same])
  with Gov_Hold show ?thesis by (simp add: hold_user_def)
next
  case (Gov_Seed clock subjects)
  then show ?thesis using assms by (auto split: option.splits intro: seed_ok)
next
  case (Gov_Directory d)
  have "gov_ok E (snd (directory_call E d db))" by (rule gov_ok_same [OF assms call_writes directory_call_same])
  with Gov_Directory show ?thesis by simp
qed (simp_all add: assms decisions_ok open_removal_ok open_admission_ok open_user_proposal_ok self_decision_ok resign_ok mail_ok)

lemma run_gov_ok: "gov_ok E db \<Longrightarrow> gov_ok E (run_consilium E calls db)"
  by (rule run_consilium_keeps [where P = "gov_ok E"]) (simp_all add: call_ok)

end
