(* ===== verification/Consilium_Moves.thy ===== *)
theory Consilium_Moves
  imports Consilium_Safety
begin

text \<open>
  What one call of the governance plane may do to seats and to the owners' verdicts: nothing,
  or one of a few moves, each with its reason on record in the tables it leaves behind.
\<close>

section \<open>Moves\<close>

definition reseated :: "role \<Rightarrow> user_id \<Rightarrow> 'z identity_db_scheme \<Rightarrow> 'z identity_db_scheme \<Rightarrow> bool" where
  "reseated seat i db db' \<longleftrightarrow> (\<forall>s j. seat_at s db' j = (if j = i then s = seat else seat_at s db j))
     \<and> (\<forall>j. verdict_at db' j = verdict_at db j)"

definition judged :: "user_proposal_kind \<Rightarrow> user_id \<Rightarrow> 'z identity_db_scheme \<Rightarrow> 'z identity_db_scheme \<Rightarrow> bool" where
  "judged kind i db db' \<longleftrightarrow> (case kind of
     Suspension \<Rightarrow> (\<forall>s j. seat_at s db' j = seat_at s db j) \<and> (\<forall>j. verdict_at db' j = (j = i \<or> verdict_at db j))
   | Reinstatement \<Rightarrow> (\<forall>s j. seat_at s db' j = seat_at s db j) \<and> (\<forall>j. verdict_at db' j = (j \<noteq> i \<and> verdict_at db j)) \<and> verdict_at db i
   | AdminAdmission \<Rightarrow> reseated Admin i db db' \<and> \<not> seat_at Owner db i)"

inductive moves :: "ext \<Rightarrow> gov_call \<Rightarrow> 'z consilium_db_scheme \<Rightarrow> 'z consilium_db_scheme \<Rightarrow> bool" for E c db db' where
  still: "stays db db' \<Longrightarrow> moves E c db db'"
| removed: "load_removal E db i = Inr r0 \<Longrightarrow> lc_state (rm_life r0) = Open \<Longrightarrow>
     load_removal E db' i = Inr r \<Longrightarrow> lc_state (rm_life r) = proposal_state.Executed \<Longrightarrow> removal_origin r = removal_origin r0 \<Longrightarrow>
     removal_outcome_among r (owner_ids_for_update db) = Passes \<Longrightarrow> rm_initiator r \<in> owner_set db \<Longrightarrow> 2 < card (owner_set db) \<Longrightarrow>
     reseated Investor (rm_target r) db db' \<Longrightarrow> moves E c db db'"
| admitted: "load_admission E db k = Inr a0 \<Longrightarrow> lc_state (ad_life a0) = Open \<Longrightarrow>
     load_admission E db' k = Inr a \<Longrightarrow> lc_state (ad_life a) = proposal_state.Executed \<Longrightarrow> admission_origin a = admission_origin a0 \<Longrightarrow>
     admission_outcome_among a (owner_ids_for_update db) = Passes \<Longrightarrow> ad_initiator a \<in> owner_set db \<Longrightarrow>
     ad_candidate a \<notin> owner_set db \<Longrightarrow> reseated Owner (ad_candidate a) db db' \<Longrightarrow> moves E c db db'"
| decided: "load_proposal E db q = Inr p0 \<Longrightarrow> lc_state (pr_life p0) = Open \<Longrightarrow>
     load_proposal E db' q = Inr p \<Longrightarrow> lc_state (pr_life p) = proposal_state.Executed \<Longrightarrow> proposal_origin p = proposal_origin p0 \<Longrightarrow>
     proposal_outcome_among p (owner_ids_for_update db) = Passes \<Longrightarrow> pr_initiator p \<in> owner_set db \<Longrightarrow>
     judged (pr_kind p) (pr_subject p) db db' \<Longrightarrow> moves E c db db'"
| left: "c = Gov_Resign clock who now \<Longrightarrow> who \<in> owner_set db \<Longrightarrow> 2 < card (owner_set db) \<Longrightarrow>
     reseated Investor who db db' \<Longrightarrow> moves E c db db'"
| founded: "c = Gov_Seed clock subjects \<Longrightarrow> owner_set db = {} \<Longrightarrow> 2 \<le> card (owner_set db') \<Longrightarrow>
     (\<And>j. verdict_at db' j = verdict_at db j) \<Longrightarrow> (\<And>s j. s \<noteq> Owner \<Longrightarrow> seat_at s db' j \<Longrightarrow> seat_at s db j) \<Longrightarrow> moves E c db db'"
| administered: "(\<exists>d. c = Gov_Directory d) \<or> (\<exists>clock i a u now. c = Gov_Hold clock i a u now) \<Longrightarrow> same_standing db db' \<Longrightarrow> moves E c db db'"

inductive_cases movesE: "moves E c db db'"

text \<open>Composing parts that leave seats alone with the one that does not.\<close>

lemma reseated_stays:
  "stays a b \<Longrightarrow> reseated seat i b c \<Longrightarrow> reseated seat i a c"
  "reseated seat i a b \<Longrightarrow> stays b c \<Longrightarrow> reseated seat i a c"
  by (simp_all add: stays_def reseated_def)

lemma judged_stays:
  "stays a b \<Longrightarrow> judged k i b c \<Longrightarrow> judged k i a c"
  "judged k i a b \<Longrightarrow> stays b c \<Longrightarrow> judged k i a c"
  by (auto simp: stays_def judged_def reseated_def split: user_proposal_kind.splits)

lemma owners_stay: "stays a b \<Longrightarrow> owner_set b = owner_set a"
  by (simp add: stays_def owner_set_def)

lemma set_seat_reseated: "set_seat E clock seat db i = Inr db' \<Longrightarrow> users_apart E db \<Longrightarrow> reseated seat i db db'"
  by (simp add: reseated_def set_seat_moves)

lemma stays_lock [simp]: "stays db (lock_governance db)" "owner_set (lock_governance db) = owner_set db"
  by (rule stays_others, simp, rule owners_stay, rule stays_others, simp)

lemma stays_persist:
  "persist_removal E db r actor au now = Inr (db', r') \<Longrightarrow> stays db db'"
  "persist_admission E db a actor au now = Inr (db', a') \<Longrightarrow> stays db db'"
  "persist_proposal E db p actor au now = Inr (db', p') \<Longrightarrow> stays db db'"
  using persist_tables(1) [of E db r actor au now db' r'] persist_tables(2) [of E db a actor au now db' a']
    persist_tables(3) [of E db p actor au now db' p'] stays_others by blast+

lemma stays_insert:
  "insert_removal E db r = Inr db' \<Longrightarrow> stays db db'"
  "insert_admission E db a = Inr db' \<Longrightarrow> stays db db'"
  "insert_proposal E db p = Inr db' \<Longrightarrow> stays db db'"
  using insert_tables(1) [of E db r db'] insert_tables(2) [of E db a db'] insert_tables(3) [of E db p db'] stays_others by blast+

lemma stays_token:
  "insert_token E db i token code at = Inr db' \<Longrightarrow> stays db db'"
  "update_token E db i f = Inr db' \<Longrightarrow> stays db db'"
  using token_tables(1) [of E db i token code at db'] token_tables(2) [of E db i f db'] stays_others by blast+

lemma stays_mail:
  fixes db :: "'z consilium_db_scheme"
  shows "upsert_subscriber E clock fresh token db i m v = Inr (db1, s) \<Longrightarrow> stays db db1"
    and "enqueue_governance_mail E clock db sid r kind key payload = Inr (db2, q) \<Longrightarrow> stays db db2"
  using mail_tables(1) [of E clock fresh token db i m v db1 s] mail_tables(2) [of E clock db sid r kind key payload db2 q]
    stays_others by blast+

lemma stays_close_stale:
  assumes "close_stale stale load due persist now db = Inr db'"
    and "\<And>db a actor au db' a'. persist db a actor au now = Inr (db', a') \<Longrightarrow> stays db db'"
  shows "stays db db'"
  by (rule close_stale_keeps [OF _ assms(1)]) (auto intro: stays_trans assms(2))

text \<open>The effect of a decision about a person's standing.\<close>

lemma effect_judged:
  assumes u: "load_for_update E db i = Inr u" and free: "inapplicable u k = None" and apart: "users_apart E db"
    and save: "save_user E clock db (fst (apply_effect k u now)) = Inr (db', u')"
  shows "judged k i db db'"
proof -
  obtain r where r: "into_domain E r = Inr u"
    and at: "\<And>P j. (\<exists>w\<in>set (db_users db'). ur_id w = j \<and> P w) \<longleftrightarrow>
       (if j = i then P (set_columns (fst (apply_effect k u now)) r) else \<exists>w\<in>set (db_users db). ur_id w = j \<and> P w)"
    and at0: "\<And>P. (\<exists>w\<in>set (db_users db). ur_id w = i \<and> P w) \<longleftrightarrow> P r"
    by (rule save_at [OF u apply_effect_advances save apart]) (rule that, assumption+)
  have seat: "seat_at s db' j = (if j = i then us_role (fst (apply_effect k u now)) = s else seat_at s db j)" for s j
    by (auto simp: seat_at_def at role_codec.as_str_eq_iff)
  have seat0: "seat_at s db i \<longleftrightarrow> us_role u = s" for s
    using at0 [of "\<lambda>w. ur_role w = role_as_str s"] into_domain_Inr(5) [OF r]
    by (auto simp: seat_at_def role_codec.as_str_eq_iff)
  have verdict: "verdict_at db' j = (if j = i then us_suspension (fst (apply_effect k u now)) = Some Governance else verdict_at db j)" for j
    by (simp add: verdict_at_def at columns_verdict)
  have verdict0: "verdict_at db i \<longleftrightarrow> us_suspension u = Some Governance"
    using at0 [of "\<lambda>w. ur_suspended_by w = Some (lit ''governance'')"] into_domain_verdict [OF r] by (simp add: verdict_at_def)
  have kept: "us_role (user_suspend u) = us_role u" "us_role (user_enable u now) = us_role u"
    "us_suspension (user_suspend u) = Some Governance" "us_suspension (user_enable u now) = None"
    "us_role (user_set_role u Admin) = Admin" "us_suspension (user_set_role u Admin) = us_suspension u"
    by (auto simp: user_op_defs Let_def split: option.splits suspension.splits if_splits)
  show ?thesis
    using seat0 verdict0 free
    by (cases k) (auto simp: judged_def reseated_def seat verdict apply_effect_def kept inapplicable_def
        is_reversible_by_one_admin_def split: option.splits if_splits suspension.splits role.splits)
qed

lemma same_refl [simp]: "same_removals db db" "same_admissions db db" "same_proposals db db"
  by (simp_all add: same_defs)

section \<open>Decisions\<close>

lemma settled_removal:
  assumes "settle E clock db r now = Inr (db1, r1)" and "gov_ok E db"
  shows "stays db db1 \<or> lc_state (rm_life r1) = proposal_state.Executed \<and> removal_outcome_among r1 (owner_ids_for_update db) = Passes
    \<and> rm_initiator r1 \<in> owner_set db \<and> 2 < card (owner_set db) \<and> reseated Investor (rm_target r1) db db1"
  using assms(1)
proof (cases rule: settle_cases)
  case taken
  have "removal_origin r1 = removal_origin r" by (rule removals.evolves_origin [OF taken(1)])
  then show ?thesis
    using taken assms(2) owner_ids_length [of E db] set_seat_reseated [OF taken(2)]
    by (auto simp: removal_origin_def removal_outcome_among_def owner_ids_set gov_ok_def)
qed simp

lemma settled_admission:
  assumes "settle_admission E clock db a now = Inr (db1, a1)" and "gov_ok E db"
  shows "stays db db1 \<or> lc_state (ad_life a1) = proposal_state.Executed \<and> admission_outcome_among a1 (owner_ids_for_update db) = Passes
    \<and> ad_initiator a1 \<in> owner_set db \<and> ad_candidate a1 \<notin> owner_set db \<and> reseated Owner (ad_candidate a1) db db1"
  using assms(1)
proof (cases rule: settle_admission_cases)
  case granted
  have "admission_origin a1 = admission_origin a" by (rule admissions.evolves_origin [OF granted(1)])
  then show ?thesis
    using granted assms(2) set_seat_reseated [OF granted(2)]
    by (auto simp: admission_origin_def admission_outcome_among_def owner_ids_set gov_ok_def)
qed simp

lemma settled_proposal:
  assumes "settle_proposal E clock db p now = Inr (db1, p1)" and "gov_ok E db"
  shows "stays db db1 \<or> lc_state (pr_life p1) = proposal_state.Executed \<and> proposal_outcome_among p1 (owner_ids_for_update db) = Passes
    \<and> pr_initiator p1 \<in> owner_set db \<and> judged (pr_kind p1) (pr_subject p1) db db1"
  using assms(1)
proof (cases rule: settle_proposal_cases)
  case (applied u db2 u2 act)
  have "proposal_origin p1 = proposal_origin p" by (rule proposals.evolves_origin [OF applied(1)])
  moreover have "judged (pr_kind p) (pr_subject p) db db1"
    using judged_stays(2) [OF effect_judged [OF applied(2,3) _ applied(4)]] assms(2) applied(5)
    by (simp add: gov_ok_def stays_others)
  ultimately show ?thesis
    using applied by (auto simp: proposal_origin_def proposal_outcome_among_def owner_ids_set)
qed simp

text \<open>What a removal's decision leaves behind, through to the end of its transaction.\<close>

lemma owner_ids_stays: "stays a b \<Longrightarrow> users_apart E a \<Longrightarrow> users_apart E b \<Longrightarrow> owner_ids_for_update b = owner_ids_for_update a"
  by (rule sorted_distinct_set_unique) (auto simp: owner_ids_sorted owner_ids_distinct owner_ids_set owners_stay)

lemma removal_acted:
  assumes ok: "gov_ok E db" "gov_ok E db0" and pre: "stays db db0" "same_removals db db0"
    and load: "load_removal E db i = Inr r0" "lc_state (rm_life r0) = Open"
    and act: "evolves removal_step r0 r1" "consilium_same db0 db1"
      "stays db0 db1 \<or> lc_state (rm_life r1) = proposal_state.Executed \<and> removal_outcome_among r1 (owner_ids_for_update db0) = Passes
        \<and> rm_initiator r1 \<in> owner_set db0 \<and> 2 < card (owner_set db0) \<and> reseated Investor (rm_target r1) db0 db1"
    and per: "persist_removal E db1 r1 actor au now = Inr (db2, r2)" and post: "stays db2 db'" "same_removals db2 db'"
  shows "moves E c db db'"
proof (cases "stays db0 db1")
  case True
  then have "stays db db'" using pre post stays_persist(1) [OF per] by (meson stays_trans)
  then show ?thesis by (rule still)
next
  case False
  with act(3) have ex: "lc_state (rm_life r1) = proposal_state.Executed" "removal_outcome_among r1 (owner_ids_for_update db0) = Passes"
    "rm_initiator r1 \<in> owner_set db0" "2 < card (owner_set db0)" "reseated Investor (rm_target r1) db0 db1" by auto
  have st: "removals.stored_ok E db1"
    by (rule removals.ok_elsewhere [where db = db0]) (use act(2) ok in \<open>simp_all add: gov_ok_def consilium_same_def removals.log_of_def\<close>)
  have "load_removal E db1 i = Inr r0" using load(1) pre(2) act(2) load_removal_same by (metis consilium_same_def)
  then have "load_removal E db2 i = Inr (removal_clean r1)" by (rule removals.persist_evolves(2) [OF st _ act(1) per])
  then have fin: "load_removal E db' i = Inr (removal_clean r1)" using post(2) load_removal_same by metis
  have own: "owner_ids_for_update db0 = owner_ids_for_update db" "owner_set db0 = owner_set db"
    using owner_ids_stays [OF pre(1)] ok owners_stay [OF pre(1)] by (auto simp: gov_ok_def)
  have seats: "reseated Investor (rm_target r1) db db'"
    using ex(5) pre(1) post(1) stays_persist(1) [OF per] by (meson reseated_stays stays_trans)
  have clean: "removal_origin (removal_clean r1) = removal_origin r0"
    using removals.evolves_origin [OF act(1)] by (simp add: removal_origin_def)
  show ?thesis
    by (rule removed [OF load fin _ clean])
      (use ex own seats in \<open>simp_all add: removal_clean_def removal_drain_events_def removal_outcome_among_def\<close>)
qed

lemma admission_acted:
  assumes ok: "gov_ok E db" "gov_ok E db0" and pre: "stays db db0" "same_admissions db db0"
    and load: "load_admission E db i = Inr a0" "lc_state (ad_life a0) = Open"
    and act: "evolves admission_step a0 a1" "consilium_same db0 db1"
      "stays db0 db1 \<or> lc_state (ad_life a1) = proposal_state.Executed \<and> admission_outcome_among a1 (owner_ids_for_update db0) = Passes
        \<and> ad_initiator a1 \<in> owner_set db0 \<and> ad_candidate a1 \<notin> owner_set db0 \<and> reseated Owner (ad_candidate a1) db0 db1"
    and per: "persist_admission E db1 a1 actor au now = Inr (db', a2)"
  shows "moves E c db db'"
proof (cases "stays db0 db1")
  case True
  then have "stays db db'" using pre stays_persist(2) [OF per] by (meson stays_trans)
  then show ?thesis by (rule still)
next
  case False
  with act(3) have ex: "lc_state (ad_life a1) = proposal_state.Executed" "admission_outcome_among a1 (owner_ids_for_update db0) = Passes"
    "ad_initiator a1 \<in> owner_set db0" "ad_candidate a1 \<notin> owner_set db0" "reseated Owner (ad_candidate a1) db0 db1" by auto
  have st: "admissions.stored_ok E db1"
    by (rule admissions.ok_elsewhere [where db = db0]) (use act(2) ok in \<open>simp_all add: gov_ok_def consilium_same_def admissions.log_of_def\<close>)
  have "load_admission E db1 i = Inr a0" using load(1) pre(2) act(2) admissions.load_same by (metis consilium_same_def)
  then have fin: "load_admission E db' i = Inr (admission_clean a1)" by (rule admissions.persist_evolves(2) [OF st _ act(1) per])
  have own: "owner_ids_for_update db0 = owner_ids_for_update db" "owner_set db0 = owner_set db"
    using owner_ids_stays [OF pre(1)] ok owners_stay [OF pre(1)] by (auto simp: gov_ok_def)
  have seats: "reseated Owner (ad_candidate a1) db db'"
    using ex(5) pre(1) stays_persist(2) [OF per] by (meson reseated_stays)
  have clean: "admission_origin (admission_clean a1) = admission_origin a0"
    using admissions.evolves_origin [OF act(1)] by (simp add: admission_origin_def)
  show ?thesis
    by (rule admitted [OF load fin _ clean])
      (use ex own seats in \<open>simp_all add: admission_clean_def admission_drain_events_def admission_outcome_among_def\<close>)
qed

lemma proposal_acted:
  assumes ok: "gov_ok E db" "gov_ok E db0" and pre: "stays db db0" "same_proposals db db0"
    and load: "load_proposal E db i = Inr p0" "lc_state (pr_life p0) = Open"
    and act: "evolves proposal_step p0 p1" "consilium_same db0 db1"
      "stays db0 db1 \<or> lc_state (pr_life p1) = proposal_state.Executed \<and> proposal_outcome_among p1 (owner_ids_for_update db0) = Passes
        \<and> pr_initiator p1 \<in> owner_set db0 \<and> judged (pr_kind p1) (pr_subject p1) db0 db1"
    and per: "persist_proposal E db1 p1 actor au now = Inr (db', p2)"
  shows "moves E c db db'"
proof (cases "stays db0 db1")
  case True
  then have "stays db db'" using pre stays_persist(3) [OF per] by (meson stays_trans)
  then show ?thesis by (rule still)
next
  case False
  with act(3) have ex: "lc_state (pr_life p1) = proposal_state.Executed" "proposal_outcome_among p1 (owner_ids_for_update db0) = Passes"
    "pr_initiator p1 \<in> owner_set db0" "judged (pr_kind p1) (pr_subject p1) db0 db1" by auto
  have st: "proposals.stored_ok E db1"
    by (rule proposals.ok_elsewhere [where db = db0]) (use act(2) ok in \<open>simp_all add: gov_ok_def consilium_same_def proposals.log_of_def\<close>)
  have "load_proposal E db1 i = Inr p0" using load(1) pre(2) act(2) proposals.load_same by (metis consilium_same_def)
  then have fin: "load_proposal E db' i = Inr (proposal_clean p1)" by (rule proposals.persist_evolves(2) [OF st _ act(1) per])
  have own: "owner_ids_for_update db0 = owner_ids_for_update db" "owner_set db0 = owner_set db"
    using owner_ids_stays [OF pre(1)] ok owners_stay [OF pre(1)] by (auto simp: gov_ok_def)
  have seats: "judged (pr_kind p1) (pr_subject p1) db db'"
    using ex(4) pre(1) stays_persist(3) [OF per] by (meson judged_stays)
  have clean: "proposal_origin (proposal_clean p1) = proposal_origin p0"
    using proposals.evolves_origin [OF act(1)] by (simp add: proposal_origin_def)
  show ?thesis
    by (rule decided [OF load fin _ clean])
      (use ex own seats in \<open>simp_all add: proposal_clean_def proposal_drain_events_def proposal_outcome_among_def\<close>)
qed

section \<open>Every call is one of the moves\<close>

lemma act_open:
  "removal_peer_vote r u v now = Inr r1 \<Longrightarrow> lc_state (rm_life r) = Open"
  "admission_vote_by a u av now = Inr a1 \<Longrightarrow> lc_state (ad_life a) = Open"
  "proposal_vote_by p u pv now = Inr p1 \<Longrightarrow> lc_state (pr_life p) = Open"
  "removal_target_decision r v now = Inr r1 \<Longrightarrow> lc_state (rm_life r) = Open"
  by (auto simp: removal_peer_vote_def admission_vote_by_def proposal_vote_by_def removal_target_decision_def result_simps)

lemma loads_lock:
  "load_removal E (lock_governance db) i = load_removal E db i"
  "load_admission E (lock_governance db) k = load_admission E db k"
  "load_proposal E (lock_governance db) q = load_proposal E db q"
  using removals.load_same [OF lock_simps(4)] admissions.load_same [OF lock_simps(5)] proposals.load_same [OF lock_simps(6)]
  by blast+

lemma removal_decision_moves:
  assumes ok: "gov_ok E db"
    and act: "\<And>x db1 x1. act (lock_governance db) x = Inr (db1, x1) \<Longrightarrow>
      evolves removal_step x x1 \<and> consilium_same (lock_governance db) db1
      \<and> (stays (lock_governance db) db1 \<or> lc_state (rm_life x) = Open \<and> lc_state (rm_life x1) = proposal_state.Executed
        \<and> removal_outcome_among x1 (owner_ids_for_update (lock_governance db)) = Passes \<and> rm_initiator x1 \<in> owner_set (lock_governance db)
        \<and> 2 < card (owner_set (lock_governance db)) \<and> reseated Investor (rm_target x1) (lock_governance db) db1)"
  shows "moves E c db (snd (decide (\<lambda>db. load_removal E db i) expire_if_due (persist_removal E) expired act actor au now db))"
proof (cases rule: removals.decide_cases [of E i expired act actor au now db])
  case (lapsed a a' db1 a1)
  then have "stays db db1" using stays_persist stays_lock(1) by (meson stays_trans)
  with lapsed show ?thesis by (simp add: still)
next
  case (acted a db1 a1 db2 a2)
  note parts = act [OF acted(3)]
  have "moves E c db db2"
  proof (cases "stays (lock_governance db) db1")
    case True
    then have "stays db db2" using stays_persist acted(4) stays_lock(1) by (meson stays_trans)
    then show ?thesis by (rule still)
  next
    case False
    show ?thesis
      by (rule removal_acted [OF ok gov_ok_lock [OF ok] stays_lock(1) _ _ _ _ _ _ acted(4) stays_refl _])
        (use parts False acted(1) in \<open>auto simp: loads_lock\<close>)
  qed
  with acted show ?thesis by simp
qed (simp add: still)

lemma admission_decision_moves:
  assumes ok: "gov_ok E db"
    and act: "\<And>x db1 x1. act (lock_governance db) x = Inr (db1, x1) \<Longrightarrow>
      evolves admission_step x x1 \<and> consilium_same (lock_governance db) db1
      \<and> (stays (lock_governance db) db1 \<or> lc_state (ad_life x) = Open \<and> lc_state (ad_life x1) = proposal_state.Executed
        \<and> admission_outcome_among x1 (owner_ids_for_update (lock_governance db)) = Passes \<and> ad_initiator x1 \<in> owner_set (lock_governance db)
        \<and> ad_candidate x1 \<notin> owner_set (lock_governance db) \<and> reseated Owner (ad_candidate x1) (lock_governance db) db1)"
  shows "moves E c db (snd (decide (\<lambda>db. load_admission E db i) expire_admission_if_due (persist_admission E) expired act actor au now db))"
proof (cases rule: admissions.decide_cases [of E i expired act actor au now db])
  case (lapsed a a' db1 a1)
  then have "stays db db1" using stays_persist stays_lock(1) by (meson stays_trans)
  with lapsed show ?thesis by (simp add: still)
next
  case (acted a db1 a1 db2 a2)
  note parts = act [OF acted(3)]
  have "moves E c db db2"
  proof (cases "stays (lock_governance db) db1")
    case True
    then have "stays db db2" using stays_persist acted(4) stays_lock(1) by (meson stays_trans)
    then show ?thesis by (rule still)
  next
    case False
    show ?thesis
      by (rule admission_acted [OF ok gov_ok_lock [OF ok] stays_lock(1) _ _ _ _ _ _ acted(4)])
        (use parts False acted(1) in \<open>auto simp: loads_lock\<close>)
  qed
  with acted show ?thesis by simp
qed (simp add: still)

lemma proposal_decision_moves:
  assumes ok: "gov_ok E db"
    and act: "\<And>x db1 x1. act (lock_governance db) x = Inr (db1, x1) \<Longrightarrow>
      evolves proposal_step x x1 \<and> consilium_same (lock_governance db) db1
      \<and> (stays (lock_governance db) db1 \<or> lc_state (pr_life x) = Open \<and> lc_state (pr_life x1) = proposal_state.Executed
        \<and> proposal_outcome_among x1 (owner_ids_for_update (lock_governance db)) = Passes \<and> pr_initiator x1 \<in> owner_set (lock_governance db)
        \<and> judged (pr_kind x1) (pr_subject x1) (lock_governance db) db1)"
  shows "moves E c db (snd (decide (\<lambda>db. load_proposal E db i) expire_proposal_if_due (persist_proposal E) expired act actor au now db))"
proof (cases rule: proposals.decide_cases [of E i expired act actor au now db])
  case (lapsed a a' db1 a1)
  then have "stays db db1" using stays_persist stays_lock(1) by (meson stays_trans)
  with lapsed show ?thesis by (simp add: still)
next
  case (acted a db1 a1 db2 a2)
  note parts = act [OF acted(3)]
  have "moves E c db db2"
  proof (cases "stays (lock_governance db) db1")
    case True
    then have "stays db db2" using stays_persist acted(4) stays_lock(1) by (meson stays_trans)
    then show ?thesis by (rule still)
  next
    case False
    show ?thesis
      by (rule proposal_acted [OF ok gov_ok_lock [OF ok] stays_lock(1) _ _ _ _ _ _ acted(4)])
        (use parts False acted(1) in \<open>auto simp: loads_lock\<close>)
  qed
  with acted show ?thesis by simp
qed (simp add: still)

lemma decision_moves:
  assumes "gov_ok E db"
  shows "moves E c db (snd (peer_vote E clock ri u v now au db))" "moves E c db (snd (cancel_removal E ri u now db))"
    "moves E c db (snd (store_admission_vote E clock ai u av now au db))" "moves E c db (snd (cancel_admission E ai u now db))"
    "moves E c db (snd (user_proposal_vote E clock pi u pv now au db))" "moves E c db (snd (cancel_user_proposal E pi u now db))"
proof -
  note ok = gov_ok_lock [OF assms]
  show "moves E c db (snd (peer_vote E clock ri u v now au db))"
    unfolding peer_vote_def snd_then_read
  proof (rule removal_decision_moves [OF assms])
    fix x db1 x1 assume act: "rbind (removal_peer_vote x u v now) (\<lambda>r. settle E clock (lock_governance db) r now) = Inr (db1, x1)"
    then obtain r where "removal_peer_vote x u v now = Inr r" "settle E clock (lock_governance db) r now = Inr (db1, x1)"
      by (auto simp: rbind_Inr_iff)
    then show "evolves removal_step x x1 \<and> consilium_same (lock_governance db) db1
      \<and> (stays (lock_governance db) db1 \<or> lc_state (rm_life x) = Open \<and> lc_state (rm_life x1) = proposal_state.Executed
        \<and> removal_outcome_among x1 (owner_ids_for_update (lock_governance db)) = Passes \<and> rm_initiator x1 \<in> owner_set (lock_governance db)
        \<and> 2 < card (owner_set (lock_governance db)) \<and> reseated Investor (rm_target x1) (lock_governance db) db1)"
      using act_steps(1) [OF act] act_open(1) settled_removal [OF _ ok] by blast
  qed
  show "moves E c db (snd (store_admission_vote E clock ai u av now au db))"
    unfolding store_admission_vote_def snd_then_read
  proof (rule admission_decision_moves [OF assms])
    fix x db1 x1 assume act: "rbind (admission_vote_by x u av now) (\<lambda>a. settle_admission E clock (lock_governance db) a now) = Inr (db1, x1)"
    then obtain a where "admission_vote_by x u av now = Inr a" "settle_admission E clock (lock_governance db) a now = Inr (db1, x1)"
      by (auto simp: rbind_Inr_iff)
    then show "evolves admission_step x x1 \<and> consilium_same (lock_governance db) db1
      \<and> (stays (lock_governance db) db1 \<or> lc_state (ad_life x) = Open \<and> lc_state (ad_life x1) = proposal_state.Executed
        \<and> admission_outcome_among x1 (owner_ids_for_update (lock_governance db)) = Passes \<and> ad_initiator x1 \<in> owner_set (lock_governance db)
        \<and> ad_candidate x1 \<notin> owner_set (lock_governance db) \<and> reseated Owner (ad_candidate x1) (lock_governance db) db1)"
      using act_steps(3) [OF act] act_open(2) settled_admission [OF _ ok] by blast
  qed
  show "moves E c db (snd (user_proposal_vote E clock pi u pv now au db))"
    unfolding user_proposal_vote_def snd_then_read
  proof (rule proposal_decision_moves [OF assms])
    fix x db1 x1 assume act: "rbind (proposal_vote_by x u pv now) (\<lambda>p. settle_proposal E clock (lock_governance db) p now) = Inr (db1, x1)"
    then obtain p where "proposal_vote_by x u pv now = Inr p" "settle_proposal E clock (lock_governance db) p now = Inr (db1, x1)"
      by (auto simp: rbind_Inr_iff)
    then show "evolves proposal_step x x1 \<and> consilium_same (lock_governance db) db1
      \<and> (stays (lock_governance db) db1 \<or> lc_state (pr_life x) = Open \<and> lc_state (pr_life x1) = proposal_state.Executed
        \<and> proposal_outcome_among x1 (owner_ids_for_update (lock_governance db)) = Passes \<and> pr_initiator x1 \<in> owner_set (lock_governance db)
        \<and> judged (pr_kind x1) (pr_subject x1) (lock_governance db) db1)"
      using act_steps(5) [OF act] act_open(3) settled_proposal [OF _ ok] by blast
  qed
  show "moves E c db (snd (cancel_removal E ri u now db))" "moves E c db (snd (cancel_admission E ai u now db))"
    "moves E c db (snd (cancel_user_proposal E pi u now db))"
    unfolding cancel_removal_def cancel_admission_def cancel_user_proposal_def snd_then_read
      apply (rule removal_decision_moves [OF assms], frule act_steps(2), fastforce simp: rbind_Inr_iff)
     apply (rule admission_decision_moves [OF assms], frule act_steps(4), fastforce simp: rbind_Inr_iff)
    apply (rule proposal_decision_moves [OF assms], frule act_steps(6), fastforce simp: rbind_Inr_iff)
    done
qed

text \<open>Opening a proposal moves nobody.\<close>

lemma open_removal_stays: "stays db (snd (open_removal E clock base d t n reason now db))"
proof (cases "removal_tx E clock base d t n reason now db")
  case (Pair out db')
  show ?thesis
  proof (cases out)
    case (Inl e)
    then show ?thesis using Pair removal_tx_refused [of E clock base d t n reason now db e] by (simp add: open_removal_def)
  next
    case (Inr u)
    with Pair have "removal_tx E clock base d t n reason now db = (Inr (), db')" by simp
    then have "stays db db'"
    proof (cases rule: removal_tx_parts)
      case (1 db1 r db2 db3 tu nu db4 sub db5 q r')
      have "stays (lock_governance db) db1" by (rule stays_close_stale [OF 1(1) stays_persist(1)])
      then show ?thesis
        using stays_lock(1) stays_insert(1) [OF 1(3)] stays_token(1) [OF 1(4)] stays_mail(1) [OF 1(7)] stays_mail(2) [OF 1(8)]
          stays_persist(1) [OF 1(9)] by (meson stays_trans)
    qed
    then show ?thesis by (simp add: open_removal_def Pair)
  qed
qed

lemma open_admission_stays: "stays db (snd (open_admission E fresh c n reason now db))"
  unfolding open_admission_def snd_then_read
  apply (rule transact_keeps [where P = "stays db"], simp)
  subgoal premises prems for out db'
    using prems unfolding Let_def rbind_Inr_iff split_paired_Ex prod.case
    by (elim exE conjE, hypsubst?)
      (drule stays_close_stale [OF _ stays_persist(2)], assumption, drule stays_insert(2), drule stays_persist(2),
        simp, meson stays_lock(1) stays_trans)
  done

lemma open_user_proposal_stays: "stays db (snd (open_user_proposal E fresh k s n reason now db))"
  unfolding open_user_proposal_def snd_then_read
  apply (rule transact_keeps [where P = "stays db"], simp)
  subgoal premises prems for out db'
    using prems unfolding Let_def rbind_Inr_iff split_paired_Ex prod.case
    by (elim exE conjE, hypsubst?)
      (drule stays_close_stale [OF _ stays_persist(3)], assumption, drule stays_insert(3), drule stays_persist(3),
        simp, meson stays_lock(1) stays_trans)
  done

lemma self_decision_moves:
  assumes ok: "gov_ok E db"
  shows "moves E c db (snd (self_decision E clock token code v now au db))"
proof -
  obtain out db' where res: "answer_tx E clock token code v now au db = (out, db')" by fastforce
  have "moves E c db db'"
    using res
  proof (cases rule: answer_tx_cases)
    case unchanged
    then show ?thesis by (simp add: still)
  next
    case (lapsed k r r' db1 r1)
    then have "stays db db'" using stays_persist(1) stays_lock(1) by (metis stays_trans)
    then show ?thesis by (rule still)
  next
    case (guessed k db1)
    then have "stays db db'" using stays_token(2) stays_lock(1) by (metis stays_trans)
    then show ?thesis by (rule still)
  next
    case (accepted k r r1 db1 db2 r2 db3 r3 db4)
    have pre: "stays db db1" "same_removals db db1" "gov_ok E db1"
      using stays_token(2) [OF accepted(6)] stays_lock(1) token_tables(2) [OF accepted(6)] gov_ok_token [OF accepted(6) gov_ok_lock [OF ok]]
      by (auto simp: same_defs lock_governance_def intro: stays_trans)
    have post: "stays db3 db'" "same_removals db3 db'"
      using stays_token(2) [OF accepted(11)] token_tables(2) [OF accepted(11)] accepted(13) by simp_all
    have ev: "evolves removal_step r r2"
      using only_settle(1) [OF accepted(9)] accepted(8) evolves_step [of removal_step r "R_TargetDecision v now" r1]
      by (auto intro: evolves_trans)
    show ?thesis
      by (rule removal_acted [OF ok pre(3,1,2) _ accepted(4) ev _ settled_removal [OF accepted(9) pre(3)] accepted(10) post])
        (use accepted(3) only_settle(1) [OF accepted(9)] in \<open>simp_all add: loads_lock\<close>)
  qed
  then show ?thesis by (simp add: self_decision_def res)
qed

lemma resign_moves:
  assumes ok: "gov_ok E db"
  shows "moves E (Gov_Resign clock who now) db (snd (resign E clock who now db))"
proof -
  obtain out db' where res: "resign E clock who now db = (out, db')" by fastforce
  then show ?thesis
  proof (cases rule: resign_cases)
    case refused
    with res show ?thesis by (simp add: still)
  next
    case (left db1)
    have "stays db db1" using left(3) stays_persist(1) stays_lock(1) stays_trans by metis
    moreover have "gov_ok E db1"
      using left(3) gov_ok_lock [OF ok] evolves_step [of removal_step _ "R_Void (lit ''the target resigned the seat'') now"]
      by (auto intro: gov_ok_persist)
    ultimately have "reseated Investor who db db'"
      using set_seat_reseated [OF left(4)] reseated_stays(1) by (auto simp: gov_ok_def)
    then show ?thesis
      using moves.left [OF refl, of who db db' E clock now] left(1,2) owner_ids_length [of E db] ok res
      by (simp add: owner_ids_set gov_ok_def)
  qed
qed

lemma grant_seats_seats:
  assumes "grant_seats E clock ids db = Inr db'" and "gov_ok E db"
  shows "seat_at s db' j = (if j \<in> set ids then s = Owner else seat_at s db j)" and "verdict_at db' j = verdict_at db j"
  using assms
proof (induction E clock ids db arbitrary: db' rule: grant_seats.induct)
  case (2 E clock i ids db)
  { case 1
    then obtain db1 where db1: "set_seat E clock Owner db i = Inr db1" "grant_seats E clock ids db1 = Inr db'"
      by (auto simp: rbind_Inr_iff grant_seat_def)
    then show ?case
      using "2.IH"(1) [of db1 db'] gov_ok_set_seat [OF db1(1) 1(2)] set_seat_reseated [OF db1(1)] 1(2)
      by (auto simp: grant_seat_def reseated_def gov_ok_def) }
  { case 2
    then obtain db1 where db1: "set_seat E clock Owner db i = Inr db1" "grant_seats E clock ids db1 = Inr db'"
      by (auto simp: rbind_Inr_iff grant_seat_def)
    then show ?case
      using "2.IH"(2) [of db1 db'] gov_ok_set_seat [OF db1(1) 2(2)] set_seat_reseated [OF db1(1)] 2(2)
      by (auto simp: grant_seat_def reseated_def gov_ok_def) }
qed simp_all

section \<open>Genesis\<close>

lemma scan_mailbox_seatable:
  "fst (scan_mailbox rows (s, b)) =
     s @ map ur_id (filter (\<lambda>r. ur_email_verified r \<and> ur_status r = user_status_as_str Active) rows)"
  by (induction rows arbitrary: s b) auto

lemma one_holder:
  assumes "users_apart E db" and "r \<in> set (db_users db)" and "s \<in> set (db_users db)" and "ur_email_verified r" and "ur_email_verified s"
    and "map_option (pg_lower E) (ur_email r) = Some m" and "map_option (pg_lower E) (ur_email s) = Some m"
  shows "r = s"
proof -
  have "clash E r s" using assms(4-7) by (auto simp: clash_def)
  then have "ur_id r = ur_id s" using assms(1-3) by (auto simp: users_apart_def)
  then show ?thesis using assms(1-3) by (auto simp: users_apart_def distinct_map inj_on_def)
qed

lemma at_most_one: "(\<And>x y. x \<in> set xs \<Longrightarrow> y \<in> set xs \<Longrightarrow> x = y) \<Longrightarrow> distinct xs \<Longrightarrow> xs = [] \<or> (\<exists>x. xs = [x])"
  by (cases xs) (auto, metis distinct_length_2_or_more list.exhaust list.set_intros)

lemma resolve_mailbox_total:
  assumes "users_apart E db"
  obtains res' where "resolve_mailbox E db res m = Some res'" "distinct (rs_found res) \<longrightarrow> distinct (rs_found res')"
proof -
  define rows where "rows = sort_key ur_id (filter (\<lambda>r. map_option (pg_lower E) (ur_email r) = Some (email_as_str m)) (db_users db))"
  obtain ids b where scan: "scan_mailbox rows ([], None) = (ids, b)" by fastforce
  let ?hits = "filter (\<lambda>r. ur_email_verified r \<and> ur_status r = user_status_as_str Active) rows"
  have ids: "ids = map ur_id ?hits" using scan_mailbox_seatable [of rows "[]" None] scan by simp
  have "distinct (db_users db)" using assms by (auto simp: users_apart_def distinct_map)
  then have "?hits = [] \<or> (\<exists>r. ?hits = [r])"
    by (intro at_most_one) (auto simp: rows_def intro: one_holder [OF assms])
  then have "ids = [] \<or> (\<exists>i. ids = [i])" using ids by auto
  then show thesis
    using that unfolding resolve_mailbox_def Let_def rows_def [symmetric] scan
    by (cases b) (auto simp: remember_def)
qed

lemma resolve_all_total:
  assumes "users_apart E db"
  shows "\<exists>res'. resolve_all E db subjects res = Some res' \<and> (distinct (rs_found res) \<longrightarrow> distinct (rs_found res'))"
proof (induction subjects arbitrary: res)
  case (Cons s rest)
  have "\<exists>res1. resolve_subject E db res s = Some res1 \<and> (distinct (rs_found res) \<longrightarrow> distinct (rs_found res1))"
  proof (cases s)
    case (GS_Id i)
    then show ?thesis by (auto simp: resolve_subject_def resolve_id_def remember_def split: option.splits)
  next
    case (GS_Mailbox m)
    then show ?thesis using resolve_mailbox_total [OF assms, of res m] by (auto simp: resolve_subject_def)
  qed
  then obtain res1 where res1: "resolve_subject E db res s = Some res1" "distinct (rs_found res) \<longrightarrow> distinct (rs_found res1)" by blast
  then show ?case using Cons.IH [of res1] by auto
qed simp

lemma seed_seats:
  assumes "genesis_seed E clock subjects db = Some (out, db')" and "gov_ok E db" and "db' \<noteq> db"
  obtains ids where "owner_ids_for_update db = []" "2 \<le> length ids" "distinct ids" "grant_seats E clock ids (lock_governance db) = Inr db'"
proof -
  have apart: "users_apart E (lock_governance db)" using gov_ok_lock [OF assms(2)] by (simp add: gov_ok_def)
  show thesis
    using assms(1,3) resolve_all_total [OF apart, of _ resolution_default]
    by (auto simp: genesis_seed_def seed_owners_def Let_def MIN_OWNERS_def not_less resolution_default_def
        split: if_splits sum.splits option.splits) (metis option.inject that)
qed

lemma seed_moves:
  assumes ok: "gov_ok E db" and run: "genesis_seed E clock subjects db = Some (out, db')"
  shows "moves E (Gov_Seed clock subjects) db db'"
proof (cases "db' = db")
  case False
  then obtain ids where ids: "owner_ids_for_update db = []" "2 \<le> length ids" "distinct ids"
    "grant_seats E clock ids (lock_governance db) = Inr db'"
    using seed_seats [OF run ok] by blast
  note seats = grant_seats_seats [OF ids(4) gov_ok_lock [OF ok]]
  have old: "seat_at s (lock_governance db) j = seat_at s db j" "verdict_at (lock_governance db) j = verdict_at db j" for s j
    using stays_lock(1) [of db] by (simp_all add: stays_def)
  have none: "owner_set db = {}" using owner_ids_set [of db] ids(1) by simp
  then have "owner_set db' = set ids" using seats(1) [of Owner] old by (auto simp: owner_set_def)
  then have "2 \<le> card (owner_set db')" using ids(2,3) by (simp add: distinct_card)
  then show ?thesis by (rule founded [OF refl none]) (use seats old in \<open>auto split: if_splits\<close>)
qed (simp add: still)

lemma call_moves:
  assumes ok: "gov_ok E db" and "reachable_call c"
  shows "moves E c db (snd (consilium_call E c db))"
proof (cases c)
  case (Gov_Resign clock who now)
  then show ?thesis using resign_moves [OF ok] by simp
next
  case (Gov_Seed clock subjects)
  then show ?thesis using seed_moves [OF ok] by (auto simp: still split: option.splits)
next
  case (Gov_Hold clock i a u now)
  have "same_standing db (snd (store_hold_user ratifying E clock i a u now db))"
    by (rule writes_standing [OF owners_decide.hold_writes]) (use ok in \<open>simp add: gov_ok_def\<close>)
  then show ?thesis using Gov_Hold by (auto simp: hold_user_def intro: administered)
next
  case (Gov_Directory d)
  have "same_standing db (snd (directory_call E d db))"
    by (rule writes_standing [OF owners_decide.request_writes])
      (use assms Gov_Directory in \<open>simp_all add: gov_ok_def reachable_call_def\<close>)
  then show ?thesis using Gov_Directory by (auto intro: administered)
next
  case (Gov_Mail clock fresh token i r v kind key payload)
  have "stays db (snd (enqueue_mail E clock fresh token i r v kind key payload db))"
    by (auto simp: enqueue_mail_def split: sum.splits dest!: mail_tables intro: stays_others others_only_trans)
  then show ?thesis using Gov_Mail by (simp add: still)
qed (simp_all add: decision_moves ok self_decision_moves open_removal_stays open_admission_stays open_user_proposal_stays still)

end
