(* ===== verification/Consilium_Guarantees.thy ===== *)
theory Consilium_Guarantees
  imports Consilium_Moves
begin

text \<open>
  What the governance plane promises, from an empty database on and whatever requests come:
  the owner floor, seats and verdicts on record, an audit log without gaps, overdue proposals
  that no longer bind, and a genesis that cannot panic.
\<close>

section \<open>Reachable databases\<close>

lemma reachable_ok: "gov_ok E (run_consilium E calls (empty_consilium meanings))"
  by (rule run_gov_ok [OF empty_gov_ok])

lemma step_moves:
  "reachable_call c \<Longrightarrow> moves E c (run_consilium E calls (empty_consilium meanings))
     (snd (consilium_call E c (run_consilium E calls (empty_consilium meanings))))"
  by (rule call_moves [OF reachable_ok])

lemma owners_iff: "i \<in> owner_set db \<longleftrightarrow> seat_at Owner db i"
  by (simp add: owner_set_def)

lemma reseated_owners:
  "reseated Investor i db db' \<Longrightarrow> owner_set db' = owner_set db - {i}"
  "reseated Owner i db db' \<Longrightarrow> owner_set db' = insert i (owner_set db)"
  "reseated Admin i db db' \<Longrightarrow> \<not> seat_at Owner db i \<Longrightarrow> owner_set db' = owner_set db"
  by (auto simp: reseated_def owner_set_def split: if_splits)

lemma judged_owners: "judged k i db db' \<Longrightarrow> owner_set db' = owner_set db"
  by (cases k) (auto simp: judged_def reseated_owners(3), auto simp: owner_set_def)

lemma card_taken: "2 < card (owner_set db) \<Longrightarrow> 2 \<le> card (owner_set db - {i})"
  by (cases "i \<in> owner_set db") simp_all

text \<open>The floor, and whom a move leaves seated.\<close>

lemma moves_floor:
  assumes "moves E c db db'" and "owner_set db = {} \<or> 2 \<le> card (owner_set db)"
  shows "(owner_set db = {} \<and> owner_set db' = {}) \<or> 2 \<le> card (owner_set db')"
  using assms(1)
proof (cases rule: moves.cases)
  case still
  then show ?thesis using owners_stay assms(2) by auto
next
  case (removed i r0 r)
  then show ?thesis by (simp add: reseated_owners card_taken)
next
  case (admitted k a0 a)
  then have "2 \<le> card (owner_set db)" using assms(2) by auto
  then show ?thesis using admitted(9) by (simp add: reseated_owners card_insert_if)
next
  case (decided q p0 p)
  from judged_owners [OF decided(8)] assms(2) show ?thesis by auto
next
  case (left clock who now)
  then show ?thesis using card_taken [OF left(3), of who] by (simp add: reseated_owners del: card_Diff_insert)
next
  case (founded clock subjects)
  then show ?thesis by simp
next
  case administered
  then have "owner_set db' = owner_set db" by (auto simp: same_standing_def owner_set_def)
  with assms(2) show ?thesis by auto
qed

text \<open>C15. The owner floor: whatever requests reach the governance plane, in any order, the fund
  has no owner yet or at least two, and once it has owners it never falls back below two:
  neither removals, resignations nor anything else can leave one owner alone.
\<close>

theorem owner_floor:
  fixes E :: ext and meanings :: "(rstr \<times> rstr list \<times> nat) list"
  assumes "list_all reachable_call calls" and "list_all reachable_call calls'"
  defines "db \<equiv> run_consilium E calls (empty_consilium meanings)"
  shows "owner_set db = {} \<or> 2 \<le> card (owner_set db) \<and> 2 \<le> card (owner_set (run_consilium E calls' db))"
proof -
  have floor: "owner_set (run_consilium E cs db0) = {} \<and> owner_set db0 = {} \<or> 2 \<le> card (owner_set (run_consilium E cs db0))"
    if "gov_ok E db0" "owner_set db0 = {} \<or> 2 \<le> card (owner_set db0)" "list_all reachable_call cs"
    for cs and db0 :: consilium_db
    using that(3)
  proof (induction cs rule: rev_induct)
    case Nil
    then show ?case using that(2) by simp
  next
    case (snoc c cs)
    have "moves E c (run_consilium E cs db0) (snd (consilium_call E c (run_consilium E cs db0)))"
      using snoc.prems by (intro call_moves run_gov_ok that(1)) simp
    from moves_floor [OF this] show ?case using snoc by (auto simp: run_consilium_snoc)
  qed
  have "owner_set (empty_consilium meanings) = {}" by (simp add: owner_set_def seat_at_def empty_consilium_def)
  then have now: "owner_set db = {} \<or> 2 \<le> card (owner_set db)"
    using floor [OF empty_gov_ok _ assms(1)] by (auto simp: db_def)
  have "gov_ok E db" unfolding db_def by (rule reachable_ok)
  from floor [OF this now assms(2)] now show ?thesis by auto
qed

text \<open>C16. Seats change on record. When a request makes somebody lose an owner's seat, either they
  resigned it themselves, or in that request a removal of them went from open to executed:
  opened by a sitting owner other than them, and carried by their own consent or by the vote
  of a third sitting owner. When somebody gains one, an admission of them went from open to
  executed, opened by a sitting owner and admitted by another one, or the fund had no owner
  and genesis seated them.
\<close>

theorem seats_on_record:
  fixes E :: ext and meanings :: "(rstr \<times> rstr list \<times> nat) list" and calls :: "gov_call list"
  assumes "reachable_call c"
  defines "db \<equiv> run_consilium E calls (empty_consilium meanings)"
  defines "db' \<equiv> snd (consilium_call E c db)"
  shows "(seat_at Owner db i \<and> \<not> seat_at Owner db' i \<longrightarrow>
      (\<exists>clock now. c = Gov_Resign clock i now)
      \<or> (\<exists>k r0 r. load_removal E db k = Inr r0 \<and> removal_state r0 = Open \<and> load_removal E db' k = Inr r
           \<and> removal_state r = proposal_state.Executed \<and> rm_target r = i \<and> rm_initiator r \<in> owner_set db - {i}
           \<and> (rm_decision r = Remove
               \<or> (\<exists>p\<in>set (rm_peers r). p_vote p = Remove \<and> p_user_id p \<in> owner_set db - {i, rm_initiator r}))))
    \<and> (\<not> seat_at Owner db i \<and> seat_at Owner db' i \<longrightarrow>
      (\<exists>clock subjects. c = Gov_Seed clock subjects \<and> owner_set db = {})
      \<or> (\<exists>k a0 a. load_admission E db k = Inr a0 \<and> admission_state a0 = Open \<and> load_admission E db' k = Inr a
           \<and> admission_state a = proposal_state.Executed \<and> ad_candidate a = i \<and> ad_initiator a \<in> owner_set db - {i}
           \<and> (\<exists>p\<in>set (ad_peers a). p_vote p = Admit \<and> p_user_id p \<in> owner_set db - {i, ad_initiator a})))"
  (is "(?lost \<longrightarrow> ?own \<or> ?carried) \<and> (?gained \<longrightarrow> ?seed \<or> ?agreed)")
proof -
  have ok: "gov_ok E db" unfolding db_def by (rule reachable_ok)
  have ok': "gov_ok E db'" unfolding db'_def by (rule call_ok [OF ok])
  have "moves E c db db'" unfolding db'_def by (rule call_moves [OF ok assms(1)])
  then show ?thesis
  proof (cases rule: moves.cases)
    case (removed k r0 r)
    have "k \<in> set (map rr_id (db_removals db'))" using removals.load_Inr [OF removed(3)] by blast
    then have good: "removal_inv r" using ok' removed(3) by (auto simp: gov_ok_def removals.stored_ok_def removal_good_def)
    have "rm_decision r = Remove \<or> (\<exists>p\<in>set (rm_peers r). p_vote p = Remove \<and> p_user_id p \<in> owner_set db)"
      using removed(6) by (auto simp: removal_outcome_among_def removal_rule_Passes owner_ids_set filter_empty_conv)
    then have consent: "rm_decision r = Remove
        \<or> (\<exists>p\<in>set (rm_peers r). p_vote p = Remove \<and> p_user_id p \<in> owner_set db - {rm_target r, rm_initiator r})"
      using good in_voters unfolding removal_inv_def by fastforce
    have "rm_initiator r \<in> owner_set db - {rm_target r}" using removed(7) good by (auto simp: removal_inv_def)
    then have "?carried" if "rm_target r = i"
      using removed(1-4) consent that unfolding removal_state_def by blast
    moreover have "?lost \<Longrightarrow> rm_target r = i" "\<not> ?gained" using removed(9) by (auto simp: reseated_def split: if_splits)
    ultimately show ?thesis by blast
  next
    case (admitted k a0 a)
    have "k \<in> set (map ar_id (db_admissions db'))" using admissions.load_Inr [OF admitted(3)] by blast
    then have good: "admission_inv a" using ok' admitted(3) by (auto simp: gov_ok_def admissions.stored_ok_def admission_good_def)
    have "\<exists>p\<in>set (ad_peers a). p_vote p = Admit \<and> p_user_id p \<in> owner_set db"
      using admitted(6) by (auto simp: admission_outcome_among_def unanimity_Passes owner_ids_set filter_empty_conv)
    then have consent: "\<exists>p\<in>set (ad_peers a). p_vote p = Admit \<and> p_user_id p \<in> owner_set db - {ad_candidate a, ad_initiator a}"
      using good in_voters unfolding admission_inv_def by fastforce
    have "ad_initiator a \<in> owner_set db - {ad_candidate a}" using admitted(7) good by (auto simp: admission_inv_def)
    then have "?agreed" if "ad_candidate a = i"
      using admitted(1-4) consent that unfolding admission_state_def by blast
    moreover have "?gained \<Longrightarrow> ad_candidate a = i" "\<not> ?lost" using admitted(9) by (auto simp: reseated_def split: if_splits)
    ultimately show ?thesis by blast
  next
    case (left clock who now)
    then show ?thesis by (auto simp: reseated_def)
  next
    case (decided q p0 p)
    have "seat_at Owner db' i = seat_at Owner db i" using judged_owners [OF decided(8)] by (simp add: owners_iff [symmetric])
    then show ?thesis by simp
  next
    case (founded clock subjects)
    then show ?thesis by (auto simp: owner_set_def)
  next
    case administered
    then show ?thesis by (simp add: same_standing_def)
  next
    case still
    then show ?thesis by (simp add: stays_def)
  qed
qed

section \<open>Verdicts on record\<close>

text \<open>A proposal of this kind about this person went from open to executed, with a majority
  of the sitting owners who could vote on it, opened by a sitting owner who is somebody else.\<close>

definition decided_now :: "ext \<Rightarrow> user_proposal_kind \<Rightarrow> user_id \<Rightarrow> 'z consilium_db_scheme \<Rightarrow> 'z consilium_db_scheme \<Rightarrow> bool" where
  "decided_now E kind i db db' \<longleftrightarrow>
     (\<exists>k p0 p. load_proposal E db k = Inr p0 \<and> up_state p0 = Open \<and> load_proposal E db' k = Inr p
        \<and> up_state p = proposal_state.Executed \<and> pr_kind p = kind \<and> pr_subject p = i
        \<and> pr_initiator p \<in> owner_set db - {i} \<and> pr_initiator p \<notin> set (voters (pr_peers p))
        \<and> length (filter (\<lambda>q. p_user_id q \<in> owner_set db) (pr_peers p))
            < 2 * length (filter (\<lambda>q. p_vote q = proposal_vote.For \<and> p_user_id q \<in> owner_set db) (pr_peers p)))"

lemma count_for_filter:
  "count_list (map (\<lambda>q. proposal_vote_ballot (p_vote q)) qs) ballot.For = length (filter (\<lambda>q. p_vote q = proposal_vote.For) qs)"
  by (induction qs) auto

lemma moves_decided:
  assumes "moves E c db db'" and "gov_ok E db'"
    and "verdict_at db' i \<noteq> verdict_at db i \<or> seat_at Admin db' i \<and> \<not> seat_at Admin db i"
  obtains k where "decided_now E k i db db'" "judged k i db db'"
  using assms(1)
proof (cases rule: moves.cases)
  case (decided q p0 p)
  have "q \<in> set (map qr_id (db_proposals db'))" using proposals.load_Inr [OF decided(3)] by blast
  then have good: "proposal_inv p" using assms(2) decided(3) by (auto simp: gov_ok_def proposals.stored_ok_def proposal_good_def)
  have subject: "pr_subject p = i"
    using decided(8) assms(3) by (cases "pr_kind p") (auto simp: judged_def reseated_def split: if_splits)
  have "length (filter (\<lambda>q. p_user_id q \<in> owner_set db) (pr_peers p))
      < 2 * length (filter (\<lambda>q. p_vote q = proposal_vote.For \<and> p_user_id q \<in> owner_set db) (pr_peers p))"
    using decided(6) unfolding proposal_outcome_among_def majority_Passes count_for_filter owner_ids_set
    by (simp add: conj_commute)
  then have "decided_now E (pr_kind p) i db db'"
    unfolding decided_now_def using decided(1-4,7) subject good by (auto simp: up_state_def proposal_inv_def intro!: exI)
  then show thesis using that decided(8) subject by simp
next
  case (founded clock subjects)
  then show thesis using assms(3) by auto
qed (use assms(3) in \<open>auto simp: stays_def same_standing_def reseated_def split: if_splits\<close>)

text \<open>C17. Verdicts change on record. Somebody's account comes to stand suspended by the owners, stops
  standing so, or is made an admin only in a request in which a proposal of that kind about them
  goes from open to executed: opened by a sitting owner who is neither them nor a voter, and
  carried by a strict majority of the electorate that still sits.
\<close>

theorem verdicts_on_record:
  fixes E :: ext and meanings :: "(rstr \<times> rstr list \<times> nat) list" and calls :: "gov_call list"
  assumes "reachable_call c"
  defines "db \<equiv> run_consilium E calls (empty_consilium meanings)"
  defines "db' \<equiv> snd (consilium_call E c db)"
  shows "(\<not> verdict_at db i \<and> verdict_at db' i \<longrightarrow> decided_now E Suspension i db db')
    \<and> (verdict_at db i \<and> \<not> verdict_at db' i \<longrightarrow> decided_now E Reinstatement i db db')
    \<and> (\<not> seat_at Admin db i \<and> seat_at Admin db' i \<longrightarrow> decided_now E AdminAdmission i db db')"
proof -
  have ok: "gov_ok E db" unfolding db_def by (rule reachable_ok)
  have ok': "gov_ok E db'" unfolding db'_def by (rule call_ok [OF ok])
  have m: "moves E c db db'" unfolding db'_def by (rule call_moves [OF ok assms(1)])
  have "decided_now E k i db db'"
    if "(k = Suspension \<and> \<not> verdict_at db i \<and> verdict_at db' i) \<or> (k = Reinstatement \<and> verdict_at db i \<and> \<not> verdict_at db' i)
      \<or> (k = AdminAdmission \<and> \<not> seat_at Admin db i \<and> seat_at Admin db' i)" for k
  proof -
    from that obtain k' where "decided_now E k' i db db'" "judged k' i db db'" using moves_decided [OF m ok'] by metis
    moreover have "k' = k" using that calculation(2) by (cases k') (auto simp: judged_def reseated_def)
    ultimately show ?thesis by simp
  qed
  then show ?thesis by blast
qed

section \<open>Overdue proposals\<close>

lemma overdue_removal:
  assumes "load_removal E db k = Inr x" and "lc_state (rm_life x) = Open" and "lc_expires_at (rm_life x) \<le> now"
  shows "\<not> is_ok (fst (decide (\<lambda>db. load_removal E db k) expire_if_due (persist_removal E) expired act actor au now db))
    \<and> others_only db (snd (decide (\<lambda>db. load_removal E db k) expire_if_due (persist_removal E) expired act actor au now db))"
proof (cases rule: removals.decide_cases [of E k expired act actor au now db])
  case (lapsed a a' db1 a1)
  then have "others_only db db1" using persist_tables(1) lock_simps(2) others_only_trans by metis
  with lapsed show ?thesis by simp
qed (use assms in \<open>simp_all add: loads_lock\<close>)

lemma overdue_admission:
  assumes "load_admission E db k = Inr x" and "lc_state (ad_life x) = Open" and "lc_expires_at (ad_life x) \<le> now"
  shows "\<not> is_ok (fst (decide (\<lambda>db. load_admission E db k) expire_admission_if_due (persist_admission E) expired act actor au now db))
    \<and> others_only db (snd (decide (\<lambda>db. load_admission E db k) expire_admission_if_due (persist_admission E) expired act actor au now db))"
proof (cases rule: admissions.decide_cases [of E k expired act actor au now db])
  case (lapsed a a' db1 a1)
  then have "others_only db db1" using persist_tables(2) lock_simps(2) others_only_trans by metis
  with lapsed show ?thesis by simp
qed (use assms in \<open>simp_all add: loads_lock\<close>)

lemma overdue_proposal:
  assumes "load_proposal E db k = Inr x" and "lc_state (pr_life x) = Open" and "lc_expires_at (pr_life x) \<le> now"
  shows "\<not> is_ok (fst (decide (\<lambda>db. load_proposal E db k) expire_proposal_if_due (persist_proposal E) expired act actor au now db))
    \<and> others_only db (snd (decide (\<lambda>db. load_proposal E db k) expire_proposal_if_due (persist_proposal E) expired act actor au now db))"
proof (cases rule: proposals.decide_cases [of E k expired act actor au now db])
  case (lapsed a a' db1 a1)
  then have "others_only db db1" using persist_tables(3) lock_simps(2) others_only_trans by metis
  with lapsed show ?thesis by simp
qed (use assms in \<open>simp_all add: loads_lock\<close>)

lemma then_read_refused: "\<not> is_ok (fst res) \<Longrightarrow> \<not> is_ok (fst (then_read read absent res))"
  by (cases "fst res") (simp_all add: then_read_def)

text \<open>C19. An overdue proposal binds nobody: a vote on an open removal, admission or user proposal
  at or after its deadline is answered with an error and leaves every account, and every event
  for the money plane, as they were, whatever the votes already cast.
\<close>

theorem overdue_never_binds:
  "(load_removal E db k = Inr r \<and> removal_state r = Open \<and> lc_expires_at (rm_life r) \<le> now \<longrightarrow>
      \<not> is_ok (fst (peer_vote E clock k u v now au db)) \<and> others_only db (snd (peer_vote E clock k u v now au db)))
   \<and> (load_admission E db m = Inr a \<and> admission_state a = Open \<and> lc_expires_at (ad_life a) \<le> now \<longrightarrow>
      \<not> is_ok (fst (store_admission_vote E clock m u av now au db)) \<and> others_only db (snd (store_admission_vote E clock m u av now au db)))
   \<and> (load_proposal E db q = Inr p \<and> up_state p = Open \<and> lc_expires_at (pr_life p) \<le> now \<longrightarrow>
      \<not> is_ok (fst (user_proposal_vote E clock q u pv now au db)) \<and> others_only db (snd (user_proposal_vote E clock q u pv now au db)))"
  unfolding peer_vote_def store_admission_vote_def user_proposal_vote_def removal_state_def admission_state_def up_state_def snd_then_read
  by (intro conjI impI then_read_refused; elim conjE) (simp_all add: overdue_removal overdue_admission overdue_proposal)

section \<open>Stored proposals\<close>

text \<open>C21. What is stored reads back: in every reachable database each removal, admission and user
  proposal loads without error as a well-formed aggregate (distinct voters, none of them the
  initiator or the person concerned, no open proposal already lost, none executed without a
  vote for it), and no peer row is left without its proposal.
\<close>

theorem stored_proposals_wellformed:
  fixes E :: ext and meanings :: "(rstr \<times> rstr list \<times> nat) list" and calls :: "gov_call list"
  defines "db \<equiv> run_consilium E calls (empty_consilium meanings)"
  shows "(\<forall>w\<in>set (db_removals db). \<exists>r. load_removal E db (rr_id w) = Inr r \<and> removal_inv r)
    \<and> (\<forall>w\<in>set (db_admissions db). \<exists>a. load_admission E db (ar_id w) = Inr a \<and> admission_inv a)
    \<and> (\<forall>w\<in>set (db_proposals db). \<exists>p. load_proposal E db (qr_id w) = Inr p \<and> proposal_inv p)
    \<and> pw_proposal ` set (db_removal_peers db) \<subseteq> rr_id ` set (db_removals db)
    \<and> pw_proposal ` set (db_admission_peers db) \<subseteq> ar_id ` set (db_admissions db)
    \<and> pw_proposal ` set (db_proposal_peers db) \<subseteq> qr_id ` set (db_proposals db)"
proof -
  have "gov_ok E db" unfolding db_def by (rule reachable_ok)
  then have ok: "removals.stored_ok E db" "admissions.stored_ok E db" "proposals.stored_ok E db" by (simp_all add: gov_ok_def)
  from ok(1) have 1: "\<forall>w\<in>set (db_removals db). \<exists>r. load_removal E db (rr_id w) = Inr r \<and> removal_inv r"
    "pw_proposal ` set (db_removal_peers db) \<subseteq> rr_id ` set (db_removals db)"
    by (fastforce simp: removals.stored_ok_def removal_good_def, simp add: removals.stored_ok_def)
  from ok(2) have 2: "\<forall>w\<in>set (db_admissions db). \<exists>a. load_admission E db (ar_id w) = Inr a \<and> admission_inv a"
    "pw_proposal ` set (db_admission_peers db) \<subseteq> ar_id ` set (db_admissions db)"
    by (fastforce simp: admissions.stored_ok_def admission_good_def, simp add: admissions.stored_ok_def)
  from ok(3) have 3: "\<forall>w\<in>set (db_proposals db). \<exists>p. load_proposal E db (qr_id w) = Inr p \<and> proposal_inv p"
    "pw_proposal ` set (db_proposal_peers db) \<subseteq> qr_id ` set (db_proposals db)"
    by (fastforce simp: proposals.stored_ok_def proposal_good_def, simp add: proposals.stored_ok_def)
  from 1 2 3 show ?thesis by blast
qed

definition audited :: "'z consilium_db_scheme \<Rightarrow> governance_subject \<Rightarrow> lifecycle \<Rightarrow> bool" where
  "audited db s l \<longleftrightarrow> (let rows = filter (\<lambda>g. gv_subject g = s) (db_governance_events db) in
     map gv_version rows = [1..<Suc (lc_version l)]
     \<and> length (filter (\<lambda>g. closing_kind (gv_kind g)) rows) = (if lc_state l = Open then 0 else 1))"

lemma logged_audited: "logged (filter (\<lambda>g. gv_subject g = s) (db_governance_events db)) l \<Longrightarrow> audited db s l"
proof -
  let ?rows = "filter (\<lambda>g. gv_subject g = s) (db_governance_events db)"
  assume log: "logged ?rows l"
  then have "length (filter closing_kind (map gv_kind ?rows)) = (if lc_state l = Open then 0 else 1)"
    by (auto simp: logged_def closing_event_def split: proposal_state.splits)
  moreover have "length (filter closing_kind (map gv_kind xs)) = length (filter (\<lambda>g. closing_kind (gv_kind g)) xs)" for xs
    by (induction xs) simp_all
  ultimately show ?thesis using log by (simp add: audited_def logged_def Let_def)
qed

text \<open>C20. The audit log has no gaps: in every reachable database the events logged for a proposal
  carry the versions 1, 2, 3 up to the version it has now, in that order, and exactly one of
  them closes it when it is closed, none while it is open.
\<close>

theorem audit_log_complete:
  fixes E :: ext and meanings :: "(rstr \<times> rstr list \<times> nat) list" and calls :: "gov_call list"
  defines "db \<equiv> run_consilium E calls (empty_consilium meanings)"
  shows "(\<forall>w\<in>set (db_removals db). \<exists>r. load_removal E db (rr_id w) = Inr r \<and> audited db (Subject_Removal (rr_id w)) (rm_life r))
    \<and> (\<forall>w\<in>set (db_admissions db). \<exists>a. load_admission E db (ar_id w) = Inr a \<and> audited db (Subject_Admission (ar_id w)) (ad_life a))
    \<and> (\<forall>w\<in>set (db_proposals db). \<exists>p. load_proposal E db (qr_id w) = Inr p \<and> audited db (Subject_UserProposal (qr_id w)) (pr_life p))"
proof -
  have "gov_ok E db" unfolding db_def by (rule reachable_ok)
  then show ?thesis
    by (fastforce simp: gov_ok_def removals.stored_ok_def admissions.stored_ok_def proposals.stored_ok_def
        removals.log_of_def admissions.log_of_def proposals.log_of_def intro: logged_audited)
qed

section \<open>Genesis\<close>

text \<open>C22. Genesis cannot panic: on every reachable database the branch the code marks unreachable
  (two verified accounts behind one address) is never taken, and once the fund has an owner it
  changes nothing, whatever list it is given.
\<close>

theorem genesis_total:
  fixes E :: ext and meanings :: "(rstr \<times> rstr list \<times> nat) list" and calls :: "gov_call list"
  defines "db \<equiv> run_consilium E calls (empty_consilium meanings)"
  shows "\<exists>out db'. genesis_seed E clock subjects db = Some (out, db') \<and> (owner_set db \<noteq> {} \<longrightarrow> db' = db)"
proof -
  have ok: "gov_ok E db" unfolding db_def by (rule reachable_ok)
  have "users_apart E (lock_governance db)" using gov_ok_lock [OF ok] by (simp add: gov_ok_def)
  note res = resolve_all_total [OF this, of _ resolution_default]
  obtain out db' where run: "genesis_seed E clock subjects db = Some (out, db')"
  proof (cases "genesis_seed E clock subjects db")
    case None
    then show thesis using res by (auto simp: genesis_seed_def seed_owners_def Let_def split: if_splits sum.splits option.splits) (metis option.distinct(1))
  qed auto
  moreover have "db' = db" if "owner_set db \<noteq> {}"
    using run by (rule seed_cases) (use that owner_ids_set [of db] in auto)
  ultimately show ?thesis by blast
qed

end
