(* ===== verification/Notification_Service.thy ===== *)
theory Notification_Service
  imports Mail_Runs Access_Gate "HOL-Library.AList" "HOL-Library.Product_Lexorder" "HOL-Library.Multiset"
begin

text \<open>
  \<open>runner/src/notification.rs\<close>: the rate limiter and the handlers of the notification
  service, over the stores and the access gate. A handler is a sequence of store calls,
  each its own unit of work, so its state is threaded through whether it ends in an answer
  or in a status. The service's clock is the argument \<open>now\<close>, the database's is \<open>clock\<close>.
\<close>

section \<open>The rate limiter\<close>

record rate_limiter =
  rl_window_secs :: nat
  rl_max :: nat
  rl_hits :: "(rstr \<times> nat \<times> nat) list"

definition rate_limiter_new :: "nat \<Rightarrow> nat \<Rightarrow> rate_limiter" where
  "rate_limiter_new window most = \<lparr>rl_window_secs = max window 1, rl_max = most, rl_hits = []\<rparr>"

definition u32_add :: "nat \<Rightarrow> nat \<Rightarrow> nat" where
  "u32_add a b = (a + b) mod 4294967296"

definition limiter_hit :: "nat \<Rightarrow> rate_limiter \<Rightarrow> rstr \<Rightarrow> bool \<Rightarrow> bool \<times> rate_limiter" where
  "limiter_hit now l key spend =
     (let bucket = now div rl_window_secs l;
          hits = (if length (rl_hits l) > 10000 then filter (\<lambda>h. fst (snd h) = bucket) (rl_hits l) else rl_hits l);
          found = (case map_of hits key of None \<Rightarrow> (bucket, 0) | Some e \<Rightarrow> e);
          current = (if fst found \<noteq> bucket then (bucket, 0) else found);
          spent = (if spend then (fst current, u32_add (snd current) 1) else current)
      in (snd spent < u32_add (rl_max l) (if spend then 1 else 0), l\<lparr>rl_hits := AList.update key spent hits\<rparr>))"

definition limiter_check :: "nat \<Rightarrow> rate_limiter \<Rightarrow> rstr \<Rightarrow> bool \<times> rate_limiter" where
  "limiter_check now l key = limiter_hit now l key True"

definition limiter_peek :: "nat \<Rightarrow> rate_limiter \<Rightarrow> rstr \<Rightarrow> bool \<times> rate_limiter" where
  "limiter_peek now l key = limiter_hit now l key False"

definition limiter_record :: "nat \<Rightarrow> rate_limiter \<Rightarrow> rstr \<Rightarrow> rate_limiter" where
  "limiter_record now l key = snd (limiter_hit now l key True)"

section \<open>Reading the inbox\<close>

definition inbox_key :: "inbox_row \<Rightarrow> int \<times> nat" where
  "inbox_key n = (ib_created_at n, ib_id n)"

definition newest_first :: "inbox_row list \<Rightarrow> inbox_row list" where
  "newest_first ns = rev (sort_key inbox_key ns)"

text \<open>A cursor that names no row compares with NULL, which no row passes.\<close>

definition past_cursor :: "'z notify_db_scheme \<Rightarrow> nat option \<Rightarrow> inbox_row \<Rightarrow> bool" where
  "past_cursor db cursor n = (case cursor of
     None \<Rightarrow> True
   | Some c \<Rightarrow> (case find (\<lambda>x. ib_id x = c) (db_inbox db) of
        None \<Rightarrow> False
      | Some x \<Rightarrow> inbox_key n < (ib_created_at x, c)))"

definition wanted :: "nat \<Rightarrow> bool \<Rightarrow> rstr option \<Rightarrow> inbox_row \<Rightarrow> bool" where
  "wanted sid unread_only topic n \<longleftrightarrow> ib_subscriber_id n = sid \<and> (unread_only \<longrightarrow> ib_read_at n = None)
     \<and> (case topic of None \<Rightarrow> True | Some t \<Rightarrow> ib_topic n = t)"

definition list_inbox ::
  "'z notify_db_scheme \<Rightarrow> nat \<Rightarrow> nat option \<Rightarrow> nat \<Rightarrow> bool \<Rightarrow> rstr option \<Rightarrow> inbox_row list" where
  "list_inbox db sid cursor limit unread_only topic =
     take limit (filter (\<lambda>n. wanted sid unread_only topic n \<and> past_cursor db cursor n) (newest_first (db_inbox db)))"

definition subscriptions :: "'z notify_db_scheme \<Rightarrow> nat \<Rightarrow> subscription_row list" where
  "subscriptions db sid = filter (\<lambda>c. sc_subscriber_id c = sid) (db_subscriptions db)"

section \<open>Requests and answers\<close>

record emit_request =
  eq_user_id :: rstr
  eq_topic :: rstr
  eq_kind :: rstr
  eq_title :: rstr
  eq_body :: rstr
  eq_link :: rstr
  eq_dedupe_key :: rstr
  eq_occurred_at :: int

record emit_response =
  es_notification_id :: rstr
  es_delivered :: bool
  es_channels :: "rstr list"

record notification_msg =
  nm_id :: rstr
  nm_topic :: rstr
  nm_kind :: rstr
  nm_title :: rstr
  nm_body :: rstr
  nm_link :: rstr
  nm_occurred_at :: int
  nm_created_at :: int
  nm_read_at :: int

record inbox_page =
  pg_notifications :: "notification_msg list"
  pg_next_cursor :: rstr
  pg_unread_count :: nat

record topic_subscription =
  ts_topic :: rstr
  ts_label :: rstr
  ts_subscribed :: bool
  ts_email_enabled :: bool

record notification_settings =
  ns_in_app_enabled :: bool
  ns_email_enabled :: bool
  ns_email :: rstr
  ns_email_verified :: bool
  ns_topics :: "topic_subscription list"

definition CONFIRM_THROTTLE_SECS :: int where "CONFIRM_THROTTLE_SECS = 24 * 60 * 60"
definition DEFAULT_PAGE :: nat where "DEFAULT_PAGE = 20"
definition MAX_PAGE :: nat where "MAX_PAGE = 100"

definition page_limit :: "nat \<Rightarrow> nat" where
  "page_limit n = (if n = 0 then DEFAULT_PAGE else min n MAX_PAGE)"

definition invalid :: "string \<Rightarrow> status" where
  "invalid msg = Status InvalidArgument (lit msg)"

section \<open>Who calls\<close>

definition svc_then :: "('e + 'a) \<times> 'db \<Rightarrow> ('a \<Rightarrow> 'db \<Rightarrow> ('e + 'b) \<times> 'db) \<Rightarrow> ('e + 'b) \<times> 'db" where
  "svc_then r f = (case r of (Inl e, db) \<Rightarrow> (Inl e, db) | (Inr x, db) \<Rightarrow> f x db)"

definition require_service :: "claims option \<Rightarrow> status + unit" where
  "require_service presented = (case presented of
     None \<Rightarrow> Inl (Status Unauthenticated (lit ''missing claims''))
   | Some c \<Rightarrow> ensure (\<not> is_access c) (Status PermissionDenied (lit ''service token required'')))"

definition notification_caller ::
  "ext \<Rightarrow> int \<Rightarrow> nat \<Rightarrow> rstr \<Rightarrow> claims option \<Rightarrow> 'z notify_db_scheme \<Rightarrow> (status + subscriber_row) \<times> 'z notify_db_scheme" where
  "notification_caller E clock fresh token presented db =
     (case rbind (caller_gate E (authz_record_of db) presented) (\<lambda>g.
           rbind (case gt_id g of None \<Rightarrow> Inl (Status Unauthenticated (lit ''caller is not a user'')) | Some i \<Rightarrow> Inr i) (\<lambda>i.
           rbind (map_err domain_to_status (find_by_id E db i)) (\<lambda>found.
           rbind (case found of None \<Rightarrow> Inl (Status NotFoundCode (lit ''user not found'')) | Some u \<Rightarrow> Inr u) (\<lambda>u.
           map_err domain_to_status
             (upsert_subscriber E clock fresh token db i (email_as_str (us_email u)) (us_email_verified u)))))) of
        Inl e \<Rightarrow> (Inl e, db)
      | Inr (db', s) \<Rightarrow> (Inr s, db'))"

definition settings_snapshot :: "'z notify_db_scheme \<Rightarrow> subscriber_row \<Rightarrow> notification_settings" where
  "settings_snapshot db s =
     (let held = subscriptions db (sb_id s)
      in \<lparr>ns_in_app_enabled = sb_in_app_enabled s, ns_email_enabled = sb_email_enabled s, ns_email = sb_email s,
          ns_email_verified = sb_email_verified s,
          ns_topics = map (\<lambda>t. let row = find (\<lambda>c. sc_topic c = tp_key t) held
             in \<lparr>ts_topic = tp_key t, ts_label = tp_label t, ts_subscribed = (row \<noteq> None),
                 ts_email_enabled = (case row of None \<Rightarrow> True | Some c \<Rightarrow> sc_email_enabled c)\<rparr>) TOPICS\<rparr>)"

section \<open>Handlers\<close>

definition emit_checked :: "ext \<Rightarrow> emit_request \<Rightarrow> status + user_id" where
  "emit_checked E req =
     (case uuid_parse E (eq_user_id req) of
        None \<Rightarrow> Inl (invalid ''user_id must be a UUID'')
      | Some i \<Rightarrow>
          rbind (ensure (topic_of (eq_topic req) \<noteq> None) (invalid ''unknown topic'')) (\<lambda>_.
          rbind (ensure (eq_title req \<noteq> [] \<and> length (eq_title req) \<le> 200) (invalid ''title must be 1-200 characters'')) (\<lambda>_.
          rbind (ensure (length (eq_body req) \<le> 2000) (invalid ''body must be at most 2000 characters'')) (\<lambda>_.
          rbind (ensure (length (eq_link req) \<le> 512) (invalid ''link must be at most 512 characters'')) (\<lambda>_.
          rbind (ensure (eq_dedupe_key req \<noteq> [] \<and> length (eq_dedupe_key req) \<le> 128) (invalid ''dedupe_key must be 1-128 characters'')) (\<lambda>_.
          rbind (ensure (eq_kind req \<noteq> [] \<and> length (eq_kind req) \<le> 64) (invalid ''kind must be 1-64 characters'')) (\<lambda>_.
          Inr (UserId i))))))))"

definition handle_emit ::
  "ext \<Rightarrow> int \<Rightarrow> int \<Rightarrow> nat \<Rightarrow> claims option \<Rightarrow> emit_request \<Rightarrow> 'z notify_db_scheme \<Rightarrow> (status + emit_response) \<times> 'z notify_db_scheme" where
  "handle_emit E now clock fresh presented req db =
     (case rbind (require_service presented) (\<lambda>_. emit_checked E req) of
        Inl e \<Rightarrow> (Inl e, db)
      | Inr i \<Rightarrow>
          (let occurred_at = (if eq_occurred_at req > 0 then eq_occurred_at req else now);
               (out, db') = emit_notification E clock fresh i (eq_topic req) (eq_kind req) (eq_title req) (eq_body req)
                 (eq_link req) (eq_dedupe_key req) occurred_at db
           in (rbind (map_err domain_to_status out) (\<lambda>o'.
                 let channels = (if eo_in_app o' then [lit ''in_app''] else []) @ (if eo_email o' then [lit ''email''] else [])
                 in Inr \<lparr>es_notification_id = (case eo_notification_id o' of None \<Rightarrow> [] | Some n \<Rightarrow> uuid_text E n),
                         es_delivered = (channels \<noteq> []), es_channels = channels\<rparr>), db')))"

definition topic_filter :: "rstr \<Rightarrow> status + rstr option" where
  "topic_filter t = (if t = [] then Inr None else if topic_of t \<noteq> None then Inr (Some t) else Inl (invalid ''unknown topic''))"

definition parse_cursor :: "ext \<Rightarrow> rstr \<Rightarrow> status + nat option" where
  "parse_cursor E raw = (if raw = [] then Inr None else case uuid_parse E raw of
     None \<Rightarrow> Inl (invalid ''cursor must be a notification id'') | Some c \<Rightarrow> Inr (Some c))"

definition notification_message :: "ext \<Rightarrow> inbox_row \<Rightarrow> notification_msg" where
  "notification_message E n =
     \<lparr>nm_id = uuid_text E (ib_id n), nm_topic = ib_topic n, nm_kind = ib_kind n, nm_title = ib_title n, nm_body = ib_body n,
      nm_link = ib_link n, nm_occurred_at = ib_occurred_at n, nm_created_at = ib_created_at n,
      nm_read_at = (case ib_read_at n of None \<Rightarrow> 0 | Some t \<Rightarrow> t)\<rparr>"

text \<open>One row more than the page tells whether another follows.\<close>

definition page_of ::
  "'z notify_db_scheme \<Rightarrow> nat \<Rightarrow> nat option \<Rightarrow> nat \<Rightarrow> bool \<Rightarrow> rstr option \<Rightarrow> inbox_row list \<times> nat option" where
  "page_of db sid cursor limit unread_only topic =
     (let rows = list_inbox db sid cursor (limit + 1) unread_only topic
      in if length rows > limit
         then (let kept = take limit rows in (kept, if kept = [] then None else Some (ib_id (last kept))))
         else (rows, None))"

definition handle_list ::
  "ext \<Rightarrow> int \<Rightarrow> nat \<Rightarrow> rstr \<Rightarrow> claims option \<Rightarrow> nat \<Rightarrow> rstr \<Rightarrow> bool \<Rightarrow> rstr \<Rightarrow> 'z notify_db_scheme
     \<Rightarrow> (status + inbox_page) \<times> 'z notify_db_scheme" where
  "handle_list E clock fresh token presented limit cursor unread_only topic db =
     svc_then (notification_caller E clock fresh token presented db) (\<lambda>s db.
       (if \<not> sb_in_app_enabled s then Inr \<lparr>pg_notifications = [], pg_next_cursor = [], pg_unread_count = 0\<rparr>
        else rbind (parse_cursor E cursor) (\<lambda>c.
             rbind (topic_filter topic) (\<lambda>t.
             let (rows, next_row) = page_of db (sb_id s) c (page_limit limit) unread_only t
             in Inr \<lparr>pg_notifications = map (notification_message E) rows,
                     pg_next_cursor = (case next_row of None \<Rightarrow> [] | Some n \<Rightarrow> uuid_text E n),
                     pg_unread_count = as_u32 (unread_count db (sb_id s))\<rparr>)), db))"

definition handle_unread_count ::
  "ext \<Rightarrow> int \<Rightarrow> nat \<Rightarrow> rstr \<Rightarrow> claims option \<Rightarrow> 'z notify_db_scheme \<Rightarrow> (status + nat) \<times> 'z notify_db_scheme" where
  "handle_unread_count E clock fresh token presented db =
     svc_then (notification_caller E clock fresh token presented db) (\<lambda>s db.
       (Inr (if sb_in_app_enabled s then as_u32 (unread_count db (sb_id s)) else 0), db))"

definition handle_mark_read ::
  "ext \<Rightarrow> int \<Rightarrow> nat \<Rightarrow> rstr \<Rightarrow> claims option \<Rightarrow> rstr list \<Rightarrow> bool \<Rightarrow> 'z notify_db_scheme
     \<Rightarrow> (status + nat \<times> nat) \<times> 'z notify_db_scheme" where
  "handle_mark_read E clock fresh token presented raw_ids all db =
     svc_then (notification_caller E clock fresh token presented db) (\<lambda>s db.
       case rbind (traverse (\<lambda>raw. case uuid_parse E raw of None \<Rightarrow> Inl (invalid ''notification id must be a UUID'') | Some n \<Rightarrow> Inr n) raw_ids) (\<lambda>ids.
            rbind (ensure (all \<or> ids \<noteq> []) (invalid ''provide notification ids or set all'')) (\<lambda>_. Inr ids)) of
         Inl e \<Rightarrow> (Inl e, db)
       | Inr ids \<Rightarrow>
           (let (marked, db') = mark_read clock db (sb_id s) ids all
            in (Inr (as_u32 marked, as_u32 (unread_count db' (sb_id s))), db')))"

definition handle_settings ::
  "ext \<Rightarrow> int \<Rightarrow> nat \<Rightarrow> rstr \<Rightarrow> claims option \<Rightarrow> 'z notify_db_scheme \<Rightarrow> (status + notification_settings) \<times> 'z notify_db_scheme" where
  "handle_settings E clock fresh token presented db =
     svc_then (notification_caller E clock fresh token presented db) (\<lambda>s db. (Inr (settings_snapshot db s), db))"

datatype channel = InApp | EmailChannel | UnknownChannel

definition handle_set_channel ::
  "ext \<Rightarrow> int \<Rightarrow> nat \<Rightarrow> rstr \<Rightarrow> claims option \<Rightarrow> channel \<Rightarrow> bool \<Rightarrow> 'z notify_db_scheme
     \<Rightarrow> (status + notification_settings) \<times> 'z notify_db_scheme" where
  "handle_set_channel E clock fresh token presented ch enabled db =
     svc_then (notification_caller E clock fresh token presented db) (\<lambda>s db.
       case ch of
         UnknownChannel \<Rightarrow> (Inl (invalid ''channel must be in-app or email''), db)
       | _ \<Rightarrow>
           svc_then (notification_caller E clock fresh token presented
               (set_channel_enabled db (sb_id s) (if ch = InApp then Some enabled else None) (if ch = EmailChannel then Some enabled else None)))
             (\<lambda>s db. (Inr (settings_snapshot db s), db)))"

definition handle_set_topic ::
  "ext \<Rightarrow> int \<Rightarrow> nat \<Rightarrow> rstr \<Rightarrow> claims option \<Rightarrow> rstr \<Rightarrow> bool \<Rightarrow> bool \<Rightarrow> 'z notify_db_scheme
     \<Rightarrow> (status + notification_settings) \<times> 'z notify_db_scheme" where
  "handle_set_topic E clock fresh token presented topic subscribed email_on db =
     svc_then (notification_caller E clock fresh token presented db) (\<lambda>s db.
       case rbind (ensure (topic_of topic \<noteq> None) (invalid ''unknown topic'')) (\<lambda>_.
            map_err domain_to_status (set_topic_subscription E db (sb_id s) topic subscribed email_on)) of
         Inl e \<Rightarrow> (Inl e, db)
       | Inr db' \<Rightarrow> (Inr (settings_snapshot db' s), db'))"

text \<open>The limiter is process memory beside the database; the answer never tells which case it was.\<close>

definition handle_subscribe_anonymous ::
  "ext \<Rightarrow> nat \<Rightarrow> int \<Rightarrow> nat \<Rightarrow> rstr \<Rightarrow> rstr \<Rightarrow> claims option \<Rightarrow> rstr \<Rightarrow> rstr \<Rightarrow> rstr \<Rightarrow> rate_limiter \<times> 'z notify_db_scheme
     \<Rightarrow> (status + bool) \<times> (rate_limiter \<times> 'z notify_db_scheme)" where
  "handle_subscribe_anonymous E now clock fresh ct ut presented mail topic client_ip st =
     (case st of (l, db) \<Rightarrow>
      case rbind (require_service presented) (\<lambda>_.
           rbind (ensure (topic_of topic \<noteq> None) (invalid ''unknown topic'')) (\<lambda>_.
           map_err (\<lambda>_. invalid ''email is not a valid address'') (email_parse E mail))) of
        Inl e \<Rightarrow> (Inl e, st)
      | Inr parsed \<Rightarrow>
          (let bucket = (if client_ip = [] then lit ''anonymous'' else client_ip);
               (within, l') = limiter_check now l bucket
           in if \<not> within then (Inl (Status ResourceExhausted (lit ''too many subscription attempts'')), (l', db))
              else (let (out, db') = subscribe_anonymous E clock fresh ct ut (email_as_str parsed) topic CONFIRM_THROTTLE_SECS db
                    in (rbind (map_err domain_to_status out) (\<lambda>_. Inr True), (l', db')))))"

definition handle_confirm :: "int \<Rightarrow> claims option \<Rightarrow> rstr \<Rightarrow> 'z notify_db_scheme \<Rightarrow> (status + bool) \<times> 'z notify_db_scheme" where
  "handle_confirm clock presented token db =
     (case rbind (require_service presented) (\<lambda>_. ensure (token \<noteq> []) (invalid ''token is required'')) of
        Inl e \<Rightarrow> (Inl e, db)
      | Inr _ \<Rightarrow> (let (confirmed, db') = confirm_subscription clock db token in (Inr confirmed, db')))"

definition handle_unsubscribe :: "claims option \<Rightarrow> rstr \<Rightarrow> rstr \<Rightarrow> 'z notify_db_scheme \<Rightarrow> (status + bool) \<times> 'z notify_db_scheme" where
  "handle_unsubscribe presented token topic db =
     (case rbind (require_service presented) (\<lambda>_.
           rbind (ensure (token \<noteq> []) (invalid ''token is required'')) (\<lambda>_. topic_filter topic)) of
        Inl e \<Rightarrow> (Inl e, db)
      | Inr t \<Rightarrow> (let (done', db') = unsubscribe db token t in (Inr done', db')))"

section \<open>Reading the whole inbox page by page\<close>

text \<open>A reader that follows the cursors for at most so many requests: what it gathered once a page
  has no cursor, None when the requests ran out before that.\<close>

fun read_pages ::
  "'z notify_db_scheme \<Rightarrow> nat \<Rightarrow> nat \<Rightarrow> bool \<Rightarrow> rstr option \<Rightarrow> nat \<Rightarrow> nat option \<Rightarrow> inbox_row list option" where
  "read_pages db sid limit unread_only topic 0 cursor = None"
| "read_pages db sid limit unread_only topic (Suc k) cursor =
     (case page_of db sid cursor limit unread_only topic of
        (rows, None) \<Rightarrow> Some rows
      | (rows, Some c) \<Rightarrow> map_option ((@) rows) (read_pages db sid limit unread_only topic k (Some c)))"

definition newer :: "inbox_row \<Rightarrow> inbox_row \<Rightarrow> bool" where
  "newer a b \<longleftrightarrow> inbox_key b < inbox_key a"

lemma newest_first_sorted:
  assumes "distinct (map ib_id ns)" shows "sorted_wrt newer (newest_first ns)"
proof -
  have "distinct (map inbox_key ns)"
    using assms by (auto simp: distinct_map inj_on_def inbox_key_def)
  then have "distinct (map inbox_key (sort_key inbox_key ns))"
    by (simp add: distinct_map)
  then have "sorted_wrt (<) (map inbox_key (sort_key inbox_key ns))"
    by (simp only: strict_sorted_iff sorted_sort_key simp_thms)
  then show ?thesis
    by (simp add: newest_first_def sorted_wrt_rev sorted_wrt_map newer_def)
qed

lemma set_newest_first [simp]: "set (newest_first ns) = set ns"
  by (simp add: newest_first_def)

lemma filter_split:
  "filter P xs = A @ y # B \<Longrightarrow> \<exists>p q. xs = p @ y # q \<and> filter P p = A \<and> filter P q = B"
proof (induction A arbitrary: xs)
  case Nil
  then show ?case by (metis append_Nil filter_eq_Cons_iff filter_empty_conv)
next
  case (Cons a A)
  then obtain us vs where "xs = us @ a # vs" "\<forall>u\<in>set us. \<not> P u" "P a" "A @ y # B = filter P vs"
    by (auto simp: filter_eq_Cons_iff)
  with Cons.IH [of vs] obtain p q where "vs = p @ y # q" "filter P p = A" "filter P q = B" by auto
  then show ?case
    using \<open>xs = us @ a # vs\<close> \<open>\<forall>u\<in>set us. \<not> P u\<close> \<open>P a\<close>
    by (intro exI [of _ "us @ a # p"] exI [of _ q]) simp
qed

lemma rows_past:
  assumes dist: "distinct (map ib_id (db_inbox db))" and at: "newest_first (db_inbox db) = p @ y # q"
  shows "filter (\<lambda>n. W n \<and> past_cursor db (Some (ib_id y)) n) (newest_first (db_inbox db)) = filter W q"
proof -
  have "y \<in> set (newest_first (db_inbox db))" by (simp add: at del: set_newest_first)
  then have "find (\<lambda>x. ib_id x = ib_id y) (db_inbox db) = Some y"
    by (intro find_eq_Some_distinct dist) simp
  then have past: "past_cursor db (Some (ib_id y)) n \<longleftrightarrow> newer y n" for n
    by (simp add: past_cursor_def newer_def inbox_key_def [of y])
  have sorted: "sorted_wrt newer (p @ y # q)"
    using newest_first_sorted [OF dist] by (simp add: at)
  then have "\<forall>n\<in>set q. newer y n" "\<forall>n\<in>set p. newer n y" by (auto simp: sorted_wrt_append)
  moreover have "\<not> newer y y" "newer n y \<Longrightarrow> \<not> newer y n" for n by (auto simp: newer_def)
  ultimately show ?thesis
    by (auto simp: at past filter_empty_conv intro!: filter_cong)
qed

lemma pages_from:
  assumes dist: "distinct (map ib_id (db_inbox db))" and limit: "0 < limit"
    and rows: "filter (\<lambda>n. wanted sid u t n \<and> past_cursor db cursor n) (newest_first (db_inbox db)) = filter (wanted sid u t) rest"
    and tail: "\<exists>p. newest_first (db_inbox db) = p @ rest"
    and fuel: "length (filter (wanted sid u t) rest) < k"
  shows "read_pages db sid limit u t k cursor = Some (filter (wanted sid u t) rest)"
  using rows tail fuel
proof (induction k arbitrary: cursor rest)
  case (Suc k)
  let ?F = "filter (wanted sid u t) rest"
  have listed: "list_inbox db sid cursor (limit + 1) u t = take (limit + 1) ?F"
    using Suc.prems(1) by (simp add: list_inbox_def)
  show ?case
  proof (cases "length ?F > limit")
    case False
    then have "page_of db sid cursor limit u t = (?F, None)"
      using listed by (simp add: page_of_def Let_def)
    then show ?thesis by simp
  next
    case True
    define A where "A = take (limit - 1) ?F"
    define y where "y = ?F ! (limit - 1)"
    define B where "B = drop limit ?F"
    have "take (Suc (limit - 1)) ?F = A @ [y]" unfolding A_def y_def
      using True by (intro take_Suc_conv_app_nth) simp
    then have kept: "take limit ?F = A @ [y]" using limit by simp
    have F: "?F = A @ y # B"
      using append_take_drop_id [of limit ?F] unfolding kept B_def [symmetric] by simp
    obtain p q where pq: "rest = p @ y # q" "filter (wanted sid u t) p = A" "filter (wanted sid u t) q = B"
      using filter_split [OF F] by (elim exE conjE)
    have page: "page_of db sid cursor limit u t = (A @ [y], Some (ib_id y))"
    proof -
      have long: "limit < length (take (limit + 1) ?F)" using True by simp
      have "take limit (take (limit + 1) ?F) = A @ [y]" using kept by (simp only: take_take) simp
      then show ?thesis unfolding page_of_def Let_def listed if_P [OF long] by simp
    qed
    obtain p0 where p0: "newest_first (db_inbox db) = p0 @ rest" using Suc.prems(2) by blast
    have "read_pages db sid limit u t k (Some (ib_id y)) = Some (filter (wanted sid u t) q)"
    proof (rule Suc.IH)
      show "filter (\<lambda>n. wanted sid u t n \<and> past_cursor db (Some (ib_id y)) n) (newest_first (db_inbox db)) = filter (wanted sid u t) q"
        by (rule rows_past [OF dist]) (simp add: p0 pq(1))
      show "\<exists>p. newest_first (db_inbox db) = p @ q"
        using p0 pq(1) by (intro exI [of _ "p0 @ p @ [y]"]) simp
      show "length (filter (wanted sid u t) q) < k"
        using Suc.prems(3) unfolding F pq(3) by simp
    qed
    then show ?thesis using page by (simp add: F pq(3))
  qed
qed simp

text \<open>C38. Paging loses nothing and repeats nothing: following the cursors of an inbox reached by any
  run, with pages of any positive size and any filter, comes to a page without a cursor within
  one request more than there are wanted entries, and has then gathered exactly these, newest
  first.\<close>

theorem paging_exact:
  assumes "no_mail db0" and "db = run_mail E terms cfg ops db0" and "0 < limit"
    and "length (filter (wanted sid u t) (db_inbox db)) < k"
  shows "read_pages db sid limit u t k None = Some (filter (wanted sid u t) (newest_first (db_inbox db)))"
proof -
  have "mail_ok (times_lost ops) db" unfolding assms(2) by (rule run_from_nothing [OF assms(1)])
  then have dist: "distinct (map ib_id (db_inbox db))" by (simp add: mail_ok_def keys_once_def)
  have "mset (filter (wanted sid u t) (newest_first (db_inbox db))) = mset (filter (wanted sid u t) (db_inbox db))"
    by (simp only: newest_first_def mset_filter mset_rev mset_sort)
  then have "length (filter (wanted sid u t) (newest_first (db_inbox db))) < k"
    using assms(4) mset_eq_length by metis
  then show ?thesis
    by (intro pages_from [OF dist assms(3)]) (simp_all add: past_cursor_def)
qed

section \<open>The budget of the rate limiter\<close>

definition spent_in :: "nat \<Rightarrow> rate_limiter \<Rightarrow> rstr \<Rightarrow> nat" where
  "spent_in bucket l key = (case map_of (rl_hits l) key of Some e \<Rightarrow> if fst e = bucket then snd e else 0 | None \<Rightarrow> 0)"

text \<open>Requests of a time, a key, and whether they spend; the answers in order.\<close>

fun limiter_run :: "rate_limiter \<Rightarrow> (nat \<times> rstr \<times> bool) list \<Rightarrow> bool list" where
  "limiter_run l [] = []"
| "limiter_run l ((now, key, spend) # reqs) =
     (let (ok, l') = limiter_hit now l key spend in ok # limiter_run l' reqs)"

lemma map_of_filter_snd:
  "distinct (map fst xs) \<Longrightarrow> map_of (filter (\<lambda>h. Q (snd h)) xs) k = (case map_of xs k of Some e \<Rightarrow> if Q e then Some e else None | None \<Rightarrow> None)"
proof (induction xs)
  case (Cons x xs)
  then have "fst x = k \<Longrightarrow> map_of xs k = None" by (auto simp: map_of_eq_None_iff)
  with Cons show ?case by (auto split: option.splits)
qed simp

lemma hit_effect:
  assumes "now div rl_window_secs l = b" and "distinct (map fst (rl_hits l))"
    and "spent_in b l key + 1 < 4294967296" and "rl_max l + 1 < 4294967296"
    and hit: "limiter_hit now l key spend = (ok, l')"
  shows "(ok \<longleftrightarrow> spent_in b l key < rl_max l) \<and> spent_in b l' k = spent_in b l k + (if k = key \<and> spend then 1 else 0)
    \<and> rl_window_secs l' = rl_window_secs l \<and> rl_max l' = rl_max l \<and> distinct (map fst (rl_hits l'))"
proof -
  define hits where "hits = (if length (rl_hits l) > 10000 then filter (\<lambda>h. fst (snd h) = b) (rl_hits l) else rl_hits l)"
  have count: "(case map_of hits k of Some e \<Rightarrow> if fst e = b then snd e else 0 | None \<Rightarrow> 0) = spent_in b l k" for k
    using map_of_filter_snd [OF assms(2), of "\<lambda>e. fst e = b" k]
    by (auto simp: hits_def spent_in_def split: option.splits)
  have dist: "distinct (map fst hits)"
    using assms(2) by (simp add: hits_def distinct_map_filter)
  let ?cur = "if fst (case map_of hits key of None \<Rightarrow> (b, 0) | Some e \<Rightarrow> e) \<noteq> b then (b, 0)
      else (case map_of hits key of None \<Rightarrow> (b, 0) | Some e \<Rightarrow> e)"
  have cur: "?cur = (b, spent_in b l key)"
    using count [of key] by (auto split: option.splits if_splits)
  have run: "ok = ((if spend then u32_add (spent_in b l key) 1 else spent_in b l key) < u32_add (rl_max l) (if spend then 1 else 0))"
    "l' = l\<lparr>rl_hits := AList.update key (if spend then (b, u32_add (spent_in b l key) 1) else (b, spent_in b l key)) hits\<rparr>"
    using hit unfolding limiter_hit_def Let_def assms(1) hits_def [symmetric] cur by auto
  show ?thesis
    using assms(3,4) count [of k] run
    by (auto simp: u32_add_def spent_in_def update_conv' dist distinct_update)
qed

text \<open>In the other windows a call can only forget.\<close>

lemma hit_elsewhere:
  assumes "now div rl_window_secs l \<noteq> b" and "distinct (map fst (rl_hits l))"
    and hit: "limiter_hit now l key spend = (ok, l')"
  shows "spent_in b l' k \<le> spent_in b l k"
proof -
  define c where "c = now div rl_window_secs l"
  define hits where "hits = (if length (rl_hits l) > 10000 then filter (\<lambda>h. fst (snd h) = c) (rl_hits l) else rl_hits l)"
  have kept: "map_of hits k = Some e \<Longrightarrow> map_of (rl_hits l) k = Some e" for e
    using map_of_filter_snd [OF assms(2), of "\<lambda>e. fst e = c" k] by (auto simp: hits_def split: option.splits if_splits)
  define found where "found = (case map_of hits key of None \<Rightarrow> (c, 0) | Some e \<Rightarrow> e)"
  define entry where "entry = (if fst found \<noteq> c then (c, 0) else found)"
  have "fst entry = c" by (simp add: entry_def)
  moreover have "l' = l\<lparr>rl_hits := AList.update key (if spend then (fst entry, u32_add (snd entry) 1) else entry) hits\<rparr>"
    using hit unfolding limiter_hit_def Let_def c_def [symmetric] hits_def [symmetric] found_def [symmetric] entry_def [symmetric]
    by simp
  ultimately obtain n where "l' = l\<lparr>rl_hits := AList.update key (c, n) hits\<rparr>"
    by (cases entry; cases spend) auto
  then show ?thesis
    using kept assms(1) by (auto simp: spent_in_def update_conv' c_def split: option.splits)
qed

text \<open>A limiter at a time: no key is past its budget in any window, and none of a later window spent.\<close>

definition limiter_ok :: "nat \<Rightarrow> rate_limiter \<Rightarrow> bool" where
  "limiter_ok now l \<longleftrightarrow> distinct (map fst (rl_hits l)) \<and> rl_max l + 1 < 4294967296
     \<and> (\<forall>b k. spent_in b l k \<le> rl_max l \<and> (now div rl_window_secs l < b \<longrightarrow> spent_in b l k = 0))"

lemma limiter_ok_later: "limiter_ok now l \<Longrightarrow> now \<le> now' \<Longrightarrow> limiter_ok now' l"
  unfolding limiter_ok_def by (meson div_le_mono order_le_less_trans)

text \<open>A call that does not spend, or that its key still has room for.\<close>

lemma hit_ok:
  assumes ok: "limiter_ok now l" and hit: "limiter_hit now l key spend = (okay, l')"
    and room: "spend \<Longrightarrow> spent_in (now div rl_window_secs l) l key < rl_max l"
  shows "limiter_ok now l' \<and> rl_window_secs l' = rl_window_secs l \<and> rl_max l' = rl_max l
    \<and> (okay \<longleftrightarrow> spent_in (now div rl_window_secs l) l key < rl_max l)
    \<and> (\<forall>k. spent_in (now div rl_window_secs l) l' k = spent_in (now div rl_window_secs l) l k + (if k = key \<and> spend then 1 else 0))
    \<and> (\<forall>b k. b \<noteq> now div rl_window_secs l \<longrightarrow> spent_in b l' k \<le> spent_in b l k)"
proof -
  let ?c = "now div rl_window_secs l"
  have pre: "distinct (map fst (rl_hits l))" "rl_max l + 1 < 4294967296" "spent_in b l k \<le> rl_max l" for b k
    using ok by (simp_all add: limiter_ok_def)
  then have "spent_in ?c l key + 1 < 4294967296" using pre(3) [of ?c key] by linarith
  note eff = hit_effect [OF refl pre(1) this pre(2) hit]
  have away: "spent_in b l' k \<le> spent_in b l k" if "b \<noteq> ?c" for b k
    using that by (intro hit_elsewhere [OF _ pre(1) hit]) simp
  have "spent_in b l' k \<le> rl_max l \<and> (?c < b \<longrightarrow> spent_in b l' k = 0)" for b k
  proof (cases "b = ?c")
    case True
    then show ?thesis using eff [of k] pre(3) [of ?c k] room by auto
  next
    case False
    then show ?thesis using away [OF False, of k] ok pre(3) [of b k] unfolding limiter_ok_def by fastforce
  qed
  then have "limiter_ok now l'" using eff pre(2) by (simp add: limiter_ok_def)
  then show ?thesis using eff away by blast
qed

text \<open>The limiter grants each key its budget per window and no more: of the calls in one window,
  in any order and mixed with other keys and with peeks, a key's first checks are accepted
  until its budget is spent, and none after.\<close>

theorem rate_limit_exact:
  assumes "\<forall>(now, k, spend)\<in>set reqs. now div rl_window_secs l = b" and "distinct (map fst (rl_hits l))"
    and "rl_max l + 1 < 4294967296" and "\<forall>k. spent_in b l k + length reqs < 4294967296"
  shows "length (filter (\<lambda>(req, ok). fst (snd req) = key \<and> snd (snd req) \<and> ok) (zip reqs (limiter_run l reqs)))
    = min (length (filter (\<lambda>req. fst (snd req) = key \<and> snd (snd req)) reqs)) (rl_max l - spent_in b l key)"
  using assms
proof (induction reqs arbitrary: l)
  case (Cons req reqs)
  obtain now k spend where req: "req = (now, k, spend)" by (cases req)
  obtain ok l' where hit: "limiter_hit now l k spend = (ok, l')" by fastforce
  have "spent_in b l k + 1 < 4294967296" using Cons.prems(4) [rule_format, of k] by simp
  note eff = hit_effect [OF _ Cons.prems(2) this Cons.prems(3) hit]
  have now: "now div rl_window_secs l = b" using Cons.prems(1) req by simp
  have grow: "spent_in b l' j + length reqs < 4294967296" for j
    using eff [OF now, of j] Cons.prems(4) [rule_format, of j] by (auto split: if_splits)
  have "\<forall>(now, k, spend)\<in>set reqs. now div rl_window_secs l' = b"
    using Cons.prems(1) eff [OF now] by auto
  then have "length (filter (\<lambda>(req, ok). fst (snd req) = key \<and> snd (snd req) \<and> ok) (zip reqs (limiter_run l' reqs)))
    = min (length (filter (\<lambda>req. fst (snd req) = key \<and> snd (snd req)) reqs)) (rl_max l' - spent_in b l' key)"
    using Cons.prems(3) eff [OF now] grow by (intro Cons.IH) auto
  then show ?case
    using eff [OF now, of key] hit by (auto simp: req)
qed simp

text \<open>Within one window nothing is ever dropped: a spray of unique keys grows the map by one entry each.\<close>

lemma spray_grows:
  assumes "now div rl_window_secs l = b" and "\<forall>h\<in>set (rl_hits l). fst (snd h) = b"
    and "distinct (map fst (rl_hits l) @ keys)"
  shows "length (rl_hits (foldl (\<lambda>l k. snd (limiter_check now l k)) l keys)) = length (rl_hits l) + length keys"
  using assms
proof (induction keys arbitrary: l)
  case (Cons k keys)
  have keep: "filter (\<lambda>h. fst (snd h) = b) (rl_hits l) = rl_hits l" using Cons.prems(2) by simp
  have none: "map_of (rl_hits l) k = None" using Cons.prems(3) by (auto simp: map_of_eq_None_iff)
  have new: "AList.update k v xs = xs @ [(k, v)]" if "map_of xs k = None" for v xs
    using that by (induction xs) (auto split: if_splits)
  have hits: "rl_hits (snd (limiter_check now l k)) = rl_hits l @ [(k, b, u32_add 0 1)]"
    using none by (simp add: limiter_check_def limiter_hit_def Let_def Cons.prems(1) keep new)
  have window: "rl_window_secs (snd (limiter_check now l k)) = rl_window_secs l"
    by (simp add: limiter_check_def limiter_hit_def Let_def)
  show ?case
    using Cons.IH [of "snd (limiter_check now l k)"] Cons.prems hits window by auto
qed simp

definition unread_of_one :: "nat option \<Rightarrow> inbox_row list option" where
  "unread_of_one cursor = read_pages (run_mail ascii_ext (\<lambda>_. True) sample_mailer
     [M_Record 100 1 n (show_nat n) (UserId 5) (lit ''ada@example.com'') True (lit ''account:verification'') (lit ''kyc'')
        (lit ''t'') [] (show_nat n) 1. n \<leftarrow> [1, 2, 3]] empty_mail) 1 2 True None 4 cursor"

theorem paging_exact_witness:
  "map_option (map ib_id) (unread_of_one None) = Some [3, 2, 1]"
proof -
  have "unread_of_one None = Some (filter (wanted 1 True None) (newest_first (db_inbox (run_mail ascii_ext (\<lambda>_. True) sample_mailer
     [M_Record 100 1 n (show_nat n) (UserId 5) (lit ''ada@example.com'') True (lit ''account:verification'') (lit ''kyc'')
        (lit ''t'') [] (show_nat n) 1. n \<leftarrow> [1, 2, 3]] empty_mail))))"
    unfolding unread_of_one_def
    by (rule paging_exact [OF empty_mail_empty refl]) (simp, code_simp)
  moreover have "map ib_id (filter (wanted 1 True None) (newest_first (db_inbox (run_mail ascii_ext (\<lambda>_. True) sample_mailer
     [M_Record 100 1 n (show_nat n) (UserId 5) (lit ''ada@example.com'') True (lit ''account:verification'') (lit ''kyc'')
        (lit ''t'') [] (show_nat n) 1. n \<leftarrow> [1, 2, 3]] empty_mail)))) = [3, 2, 1]" by code_simp
  ultimately show ?thesis by simp
qed

definition sample_requests :: "(nat \<times> rstr \<times> bool) list" where
  "sample_requests = [(60, lit ''a'', True), (61, lit ''b'', True), (62, lit ''a'', True), (63, lit ''a'', True)]"

theorem rate_limit_exact_witness:
  "length (filter (\<lambda>(req, ok). fst (snd req) = lit ''a'' \<and> snd (snd req) \<and> ok)
     (zip sample_requests (limiter_run (rate_limiter_new 60 2) sample_requests))) = 2"
  by (subst rate_limit_exact [where b = 1])
    (simp_all add: rate_limiter_new_def spent_in_def sample_requests_def)

end
