(* ===== verification/Governance_Service.thy ===== *)
theory Governance_Service
  imports Consilium_Guarantees Notification_Service
begin

text \<open>
  \<open>runner/src/governance.rs\<close>, the first two of its three faces: \<open>Governance\<close>, the signed-in
  surface of the consilia behind the permission to grant seats, with its live feed, and
  \<open>RemovalApproval\<close>, what the person to be removed reaches from their mailbox. A handler
  threads the process's emergency latch, the database and the revisions announced to the
  live feed. The service's clock is \<open>now\<close>, the database's is \<open>clock\<close>; what the store
  draws is an argument of the handler. A message of the wire is a record of its fields, an
  enumeration on the wire its number.
\<close>

section \<open>State and requests\<close>

record 'd governance_state =
  gs_gate :: break_glass
  gs_db :: 'd
  gs_feed :: "nat list"

record call_info =
  ci_claims :: "claims option"
  ci_remote_ip :: "rstr option"
  ci_user_agent :: "rstr option"

definition DEFAULT_REMOVAL_PAGE :: nat where "DEFAULT_REMOVAL_PAGE = 25"
definition MAX_REMOVAL_PAGE :: nat where "MAX_REMOVAL_PAGE = 200"

definition INVITATION_MISSING :: rstr where "INVITATION_MISSING = lit ''invitation not found''"

definition removal_page_limit :: "nat \<Rightarrow> nat" where
  "removal_page_limit n = (if n = 0 then DEFAULT_REMOVAL_PAGE else min n MAX_REMOVAL_PAGE)"

definition audit_of :: "call_info \<Rightarrow> audit" where
  "audit_of c = \<lparr>au_client_ip = (case ci_remote_ip c of None \<Rightarrow> [] | Some ip \<Rightarrow> ip),
                 au_user_agent = (case ci_user_agent c of None \<Rightarrow> [] | Some ua \<Rightarrow> ua)\<rparr>"

section \<open>Identifiers and enumerations of the wire\<close>

definition parse_user_id :: "ext \<Rightarrow> rstr \<Rightarrow> rstr \<Rightarrow> status + user_id" where
  "parse_user_id E raw field = (case uuid_parse E raw of
     None \<Rightarrow> Inl (Status InvalidArgument (field @ lit '' is not a valid UUID'')) | Some i \<Rightarrow> Inr (UserId i))"

definition parse_removal_id :: "ext \<Rightarrow> rstr \<Rightarrow> status + removal_id" where
  "parse_removal_id E raw = (case uuid_parse E raw of
     None \<Rightarrow> Inl (invalid ''removal_id is not a valid UUID'') | Some i \<Rightarrow> Inr (RemovalId i))"

definition parse_admission_id :: "ext \<Rightarrow> rstr \<Rightarrow> status + admission_id" where
  "parse_admission_id E raw = (case uuid_parse E raw of
     None \<Rightarrow> Inl (invalid ''admission_id is not a valid UUID'') | Some i \<Rightarrow> Inr (AdmissionId i))"

definition parse_proposal_id :: "ext \<Rightarrow> rstr \<Rightarrow> status + user_proposal_id" where
  "parse_proposal_id E raw = (case uuid_parse E raw of
     None \<Rightarrow> Inl (invalid ''proposal_id is not a valid UUID'') | Some i \<Rightarrow> Inr (UserProposalId i))"

definition vote_from_proto :: "int \<Rightarrow> status + vote" where
  "vote_from_proto raw =
     (if raw = 2 then Inr Remove else if raw = 3 then Inr Keep else Inl (invalid ''vote must be REMOVE or KEEP''))"

definition vote_to_proto :: "vote \<Rightarrow> int" where
  "vote_to_proto v = (case v of vote.Pending \<Rightarrow> 1 | Remove \<Rightarrow> 2 | Keep \<Rightarrow> 3)"

definition admission_vote_from_proto :: "int \<Rightarrow> status + admission_vote" where
  "admission_vote_from_proto raw =
     (if raw = 2 then Inr Admit else if raw = 3 then Inr Reject else Inl (invalid ''vote must be ADMIT or REJECT''))"

definition admission_vote_to_proto :: "admission_vote \<Rightarrow> int" where
  "admission_vote_to_proto v = (case v of admission_vote.Pending \<Rightarrow> 1 | Admit \<Rightarrow> 2 | Reject \<Rightarrow> 3)"

definition proposal_vote_from_proto :: "int \<Rightarrow> status + proposal_vote" where
  "proposal_vote_from_proto raw =
     (if raw = 2 then Inr For else if raw = 3 then Inr Against else Inl (invalid ''vote must be FOR or AGAINST''))"

definition proposal_vote_to_proto :: "proposal_vote \<Rightarrow> int" where
  "proposal_vote_to_proto v = (case v of proposal_vote.Pending \<Rightarrow> 1 | For \<Rightarrow> 2 | Against \<Rightarrow> 3)"

text \<open>The six states have three enumerations with the same numbers.\<close>

definition state_to_proto :: "proposal_state \<Rightarrow> int" where
  "state_to_proto s = (case s of Open \<Rightarrow> 1 | proposal_state.Executed \<Rightarrow> 2 | proposal_state.Rejected \<Rightarrow> 3
     | proposal_state.Expired \<Rightarrow> 4 | proposal_state.Cancelled \<Rightarrow> 5 | Void \<Rightarrow> 6)"

definition admission_state_to_proto :: "proposal_state \<Rightarrow> int" where
  "admission_state_to_proto s = (case s of Open \<Rightarrow> 1 | proposal_state.Executed \<Rightarrow> 2 | proposal_state.Rejected \<Rightarrow> 3
     | proposal_state.Expired \<Rightarrow> 4 | proposal_state.Cancelled \<Rightarrow> 5 | Void \<Rightarrow> 6)"

definition proposal_state_to_proto :: "proposal_state \<Rightarrow> int" where
  "proposal_state_to_proto s = (case s of Open \<Rightarrow> 1 | proposal_state.Executed \<Rightarrow> 2 | proposal_state.Rejected \<Rightarrow> 3
     | proposal_state.Expired \<Rightarrow> 4 | proposal_state.Cancelled \<Rightarrow> 5 | Void \<Rightarrow> 6)"

definition proposal_kind_from_proto :: "int \<Rightarrow> status + user_proposal_kind option" where
  "proposal_kind_from_proto raw =
     (if raw = 0 then Inr None else if raw = 1 then Inr (Some Suspension) else if raw = 2 then Inr (Some Reinstatement)
      else if raw = 3 then Inr (Some AdminAdmission) else Inl (invalid ''unknown user proposal kind''))"

definition proposal_kind_to_proto :: "user_proposal_kind \<Rightarrow> int" where
  "proposal_kind_to_proto k = (case k of Suspension \<Rightarrow> 1 | Reinstatement \<Rightarrow> 2 | AdminAdmission \<Rightarrow> 3)"

section \<open>Messages\<close>

record owner_msg =
  om_user_id :: rstr
  om_email :: rstr
  om_display_name :: rstr
  om_owner_since :: int

record owner_list =
  ol_items :: "owner_msg list"
  ol_below_payout_floor :: bool

record peer_msg =
  pm_user_id :: rstr
  pm_email :: rstr
  pm_vote :: int
  pm_voted_at :: int

record user_proposal_msg =
  um_id :: rstr
  um_kind :: int
  um_state :: int
  um_subject_user_id :: rstr
  um_subject_email :: rstr
  um_initiator_user_id :: rstr
  um_initiator_email :: rstr
  um_reason :: rstr
  um_peers :: "peer_msg list"
  um_owner_count :: nat
  um_threshold :: nat
  um_created_at :: int
  um_expires_at :: int
  um_decided_at :: int
  um_void_reason :: rstr
  um_version :: nat

record owner_admission_msg =
  am_id :: rstr
  am_state :: int
  am_candidate_user_id :: rstr
  am_candidate_email :: rstr
  am_initiator_user_id :: rstr
  am_initiator_email :: rstr
  am_reason :: rstr
  am_peers :: "peer_msg list"
  am_owner_count :: nat
  am_created_at :: int
  am_expires_at :: int
  am_decided_at :: int
  am_void_reason :: rstr
  am_version :: nat

record owner_removal_msg =
  vm_id :: rstr
  vm_state :: int
  vm_target_user_id :: rstr
  vm_target_email :: rstr
  vm_initiator_user_id :: rstr
  vm_initiator_email :: rstr
  vm_reason :: rstr
  vm_peers :: "peer_msg list"
  vm_target_decision :: int
  vm_target_decided_at :: int
  vm_target_notified :: bool
  vm_owner_count :: nat
  vm_created_at :: int
  vm_expires_at :: int
  vm_decided_at :: int
  vm_void_reason :: rstr
  vm_version :: nat

record removal_invitation_msg =
  im_removal_id :: rstr
  im_state :: int
  im_initiator_email :: rstr
  im_target_email :: rstr
  im_reason :: rstr
  im_created_at :: int
  im_expires_at :: int
  im_decision :: int
  im_attempts_remaining :: nat

definition user_text :: "ext \<Rightarrow> user_id \<Rightarrow> rstr" where
  "user_text E i = uuid_text E (uid_raw i)"

definition peers_to_proto :: "ext \<Rightarrow> ('v \<Rightarrow> int) \<Rightarrow> 'v peer list \<Rightarrow> rstr list \<Rightarrow> peer_msg list" where
  "peers_to_proto E to_proto peers emails =
     map (\<lambda>(p, mail). \<lparr>pm_user_id = user_text E (p_user_id p), pm_email = mail, pm_vote = to_proto (p_vote p),
                       pm_voted_at = p_voted_at p\<rparr>) (zip peers emails)"

definition proposal_to_proto :: "ext \<Rightarrow> user_proposal_record \<Rightarrow> user_proposal_msg" where
  "proposal_to_proto E record =
     (let p = cr_proposal record
      in \<lparr>um_id = uuid_text E (pid_raw (pr_id p)), um_kind = proposal_kind_to_proto (pr_kind p),
          um_state = proposal_state_to_proto (cr_state record),
          um_subject_user_id = user_text E (pr_subject p), um_subject_email = cr_subject_email record,
          um_initiator_user_id = user_text E (pr_initiator p), um_initiator_email = cr_initiator_email record,
          um_reason = pr_reason p,
          um_peers = peers_to_proto E proposal_vote_to_proto (pr_peers p) (cr_peer_emails record),
          um_owner_count = pr_owner_count p, um_threshold = pr_threshold p,
          um_created_at = lc_created_at (pr_life p), um_expires_at = lc_expires_at (pr_life p),
          um_decided_at = lc_decided_at (pr_life p), um_void_reason = lc_void_reason (pr_life p),
          um_version = lc_version (pr_life p)\<rparr>)"

definition admission_to_proto :: "ext \<Rightarrow> admission_record \<Rightarrow> owner_admission_msg" where
  "admission_to_proto E record =
     (let a = cr_proposal record
      in \<lparr>am_id = uuid_text E (aid_raw (ad_id a)), am_state = admission_state_to_proto (cr_state record),
          am_candidate_user_id = user_text E (ad_candidate a), am_candidate_email = cr_subject_email record,
          am_initiator_user_id = user_text E (ad_initiator a), am_initiator_email = cr_initiator_email record,
          am_reason = ad_reason a,
          am_peers = peers_to_proto E admission_vote_to_proto (ad_peers a) (cr_peer_emails record),
          am_owner_count = ad_owner_count a,
          am_created_at = lc_created_at (ad_life a), am_expires_at = lc_expires_at (ad_life a),
          am_decided_at = lc_decided_at (ad_life a), am_void_reason = lc_void_reason (ad_life a),
          am_version = lc_version (ad_life a)\<rparr>)"

definition removal_to_proto :: "ext \<Rightarrow> removal_record \<Rightarrow> owner_removal_msg" where
  "removal_to_proto E record =
     (let r = cr_proposal record
      in \<lparr>vm_id = uuid_text E (rid_raw (rm_id r)), vm_state = state_to_proto (cr_state record),
          vm_target_user_id = user_text E (rm_target r), vm_target_email = cr_subject_email record,
          vm_initiator_user_id = user_text E (rm_initiator r), vm_initiator_email = cr_initiator_email record,
          vm_reason = rm_reason r,
          vm_peers = peers_to_proto E vote_to_proto (rm_peers r) (cr_peer_emails record),
          vm_target_decision = vote_to_proto (rm_decision r), vm_target_decided_at = rm_decided_as_target_at r,
          vm_target_notified = rm_target_notified r, vm_owner_count = rm_owner_count r,
          vm_created_at = lc_created_at (rm_life r), vm_expires_at = lc_expires_at (rm_life r),
          vm_decided_at = lc_decided_at (rm_life r), vm_void_reason = lc_void_reason (rm_life r),
          vm_version = lc_version (rm_life r)\<rparr>)"

definition invitation_to_proto :: "ext \<Rightarrow> invitation_record \<Rightarrow> removal_invitation_msg" where
  "invitation_to_proto E x =
     \<lparr>im_removal_id = uuid_text E (rid_raw (ir_removal_id x)), im_state = state_to_proto (ir_state x),
      im_initiator_email = ir_initiator_email x, im_target_email = ir_target_email x, im_reason = ir_reason x,
      im_created_at = ir_created_at x, im_expires_at = ir_expires_at x, im_decision = vote_to_proto (ir_decision x),
      im_attempts_remaining = ir_attempts_remaining x\<rparr>"


section \<open>Who acts\<close>

definition require_owner ::
  "ext \<Rightarrow> call_info \<Rightarrow> 'z consilium_db_scheme governance_state \<Rightarrow> (status + unit) \<times> 'z consilium_db_scheme governance_state" where
  "require_owner E c st =
     (let (out, bg) = require_permission E (authz_record_of (gs_db st)) (Inr (owner_count (gs_db st))) (gs_gate st) (ci_claims c)
                        (roles_perm_str roles_perm.Grant)
      in (out, st\<lparr>gs_gate := bg\<rparr>))"

definition acting_owner ::
  "ext \<Rightarrow> call_info \<Rightarrow> 'z consilium_db_scheme governance_state \<Rightarrow> (status + user) \<times> 'z consilium_db_scheme governance_state" where
  "acting_owner E c st =
     svc_then (require_owner E c st) (\<lambda>_ st.
       (rbind (caller_gate E (authz_record_of (gs_db st)) (ci_claims c)) (\<lambda>g.
        rbind (case gt_id g of None \<Rightarrow> Inl (Status Unauthenticated (lit ''subject is not a user id'')) | Some i \<Rightarrow> Inr i) (\<lambda>i.
        rbind (map_err domain_to_status (find_by_id E (gs_db st) i)) (\<lambda>found. case found of
          None \<Rightarrow> Inl (Status NotFoundCode (lit ''user'')) | Some u \<Rightarrow> Inr u))), st))"

definition announce :: "'z consilium_db_scheme governance_state \<Rightarrow> 'z consilium_db_scheme governance_state" where
  "announce st = st\<lparr>gs_feed := gs_feed st @ [revision (gs_db st)]\<rparr>"

text \<open>One call of the store; an answer is announced, then rendered.\<close>

definition carry ::
  "('z consilium_db_scheme \<Rightarrow> (domain_error + 'r) \<times> 'z consilium_db_scheme) \<Rightarrow> ('r \<Rightarrow> 'm)
     \<Rightarrow> 'z consilium_db_scheme governance_state \<Rightarrow> (status + 'm) \<times> 'z consilium_db_scheme governance_state" where
  "carry work shown st =
     (let (out, db) = work (gs_db st); st = st\<lparr>gs_db := db\<rparr>
      in case out of Inl e \<Rightarrow> (Inl (domain_to_status e), st) | Inr r \<Rightarrow> (Inr (shown r), announce st))"

text \<open>The arguments are read before the store is called; a bad one refuses the call.\<close>

definition with_arg :: "status + 'a \<Rightarrow> ('a \<Rightarrow> 's \<Rightarrow> (status + 'm) \<times> 's) \<Rightarrow> 's \<Rightarrow> (status + 'm) \<times> 's" where
  "with_arg parsed f st = (case parsed of Inl e \<Rightarrow> (Inl e, st) | Inr x \<Rightarrow> f x st)"

section \<open>Owners\<close>

definition owner_roster :: "ext \<Rightarrow> (user_id \<Rightarrow> int) \<Rightarrow> 'z identity_db_scheme \<Rightarrow> owner_list" where
  "owner_roster E created db =
     (let owners = list_owners created db
      in \<lparr>ol_items = map (\<lambda>w. \<lparr>om_user_id = user_text E (ow_id w),
             om_email = (case ow_email w of None \<Rightarrow> [] | Some m \<Rightarrow> m),
             om_display_name = (case ow_display_name w of None \<Rightarrow> [] | Some n \<Rightarrow> n),
             om_owner_since = ow_owner_since w\<rparr>) owners,
          ol_below_payout_floor = (length owners < PAYOUT_MIN_OWNERS)\<rparr>)"

definition handle_list_owners ::
  "ext \<Rightarrow> (user_id \<Rightarrow> int) \<Rightarrow> call_info \<Rightarrow> 'z consilium_db_scheme governance_state
     \<Rightarrow> (status + owner_list) \<times> 'z consilium_db_scheme governance_state" where
  "handle_list_owners E created c st =
     svc_then (require_owner E c st) (\<lambda>_ st. (Inr (owner_roster E created (gs_db st)), st))"

definition handle_resign_ownership ::
  "ext \<Rightarrow> int \<Rightarrow> int \<Rightarrow> (user_id \<Rightarrow> int) \<Rightarrow> call_info \<Rightarrow> rstr \<Rightarrow> 'z consilium_db_scheme governance_state
     \<Rightarrow> (status + owner_list) \<times> 'z consilium_db_scheme governance_state" where
  "handle_resign_ownership E now clock created c confirm_email st =
     svc_then (acting_owner E c st) (\<lambda>caller.
       with_arg (map_err (\<lambda>_. invalid ''confirm_email must be your own address'') (email_parse E confirm_email)) (\<lambda>confirm.
       with_arg (ensure (confirm = us_email caller) (invalid ''confirm_email must be your own address'')) (\<lambda>_ st.
       svc_then (carry (resign E clock (us_id caller) now) id st) (\<lambda>_ st.
         (Inr (owner_roster E created (gs_db st)), st)))))"

section \<open>Removals\<close>

definition handle_open_owner_removal ::
  "ext \<Rightarrow> int \<Rightarrow> int \<Rightarrow> rstr \<Rightarrow> removal_draws \<Rightarrow> call_info \<Rightarrow> rstr \<Rightarrow> rstr \<Rightarrow> 'z consilium_db_scheme governance_state
     \<Rightarrow> (status + owner_removal_msg) \<times> 'z consilium_db_scheme governance_state" where
  "handle_open_owner_removal E now clock base d c target_user_id reason st =
     svc_then (acting_owner E c st) (\<lambda>caller.
       with_arg (parse_user_id E target_user_id (lit ''target_user_id'')) (\<lambda>target.
       carry (open_removal E clock base d target (us_id caller) reason now) (removal_to_proto E)))"

definition handle_cancel_owner_removal ::
  "ext \<Rightarrow> int \<Rightarrow> call_info \<Rightarrow> rstr \<Rightarrow> 'z consilium_db_scheme governance_state
     \<Rightarrow> (status + owner_removal_msg) \<times> 'z consilium_db_scheme governance_state" where
  "handle_cancel_owner_removal E now c raw st =
     svc_then (acting_owner E c st) (\<lambda>caller.
       with_arg (parse_removal_id E raw) (\<lambda>i. carry (cancel_removal E i (us_id caller) now) (removal_to_proto E)))"

definition handle_submit_peer_vote ::
  "ext \<Rightarrow> int \<Rightarrow> int \<Rightarrow> call_info \<Rightarrow> rstr \<Rightarrow> int \<Rightarrow> 'z consilium_db_scheme governance_state
     \<Rightarrow> (status + owner_removal_msg) \<times> 'z consilium_db_scheme governance_state" where
  "handle_submit_peer_vote E now clock c raw raw_vote st =
     svc_then (acting_owner E c st) (\<lambda>caller.
       with_arg (parse_removal_id E raw) (\<lambda>i.
       with_arg (vote_from_proto raw_vote) (\<lambda>v.
       carry (peer_vote E clock i (us_id caller) v now (audit_of c)) (removal_to_proto E))))"

definition handle_get_owner_removal ::
  "ext \<Rightarrow> int \<Rightarrow> call_info \<Rightarrow> rstr \<Rightarrow> 'z consilium_db_scheme governance_state
     \<Rightarrow> (status + owner_removal_msg) \<times> 'z consilium_db_scheme governance_state" where
  "handle_get_owner_removal E now c raw st =
     svc_then (require_owner E c st) (\<lambda>_. with_arg (parse_removal_id E raw) (\<lambda>i st.
       (rbind (map_err domain_to_status (find_removal E (gs_db st) i now)) (\<lambda>found. case found of
          None \<Rightarrow> Inl (Status NotFoundCode (lit ''owner removal not found'')) | Some x \<Rightarrow> Inr (removal_to_proto E x)), st)))"

definition handle_list_owner_removals ::
  "ext \<Rightarrow> int \<Rightarrow> call_info \<Rightarrow> nat \<Rightarrow> 'z consilium_db_scheme governance_state
     \<Rightarrow> (status + owner_removal_msg list) \<times> 'z consilium_db_scheme governance_state" where
  "handle_list_owner_removals E now c limit st =
     svc_then (require_owner E c st) (\<lambda>_ st.
       (rbind (map_err domain_to_status (list_removals E (gs_db st) (int (removal_page_limit limit)) now)) (\<lambda>xs.
        Inr (map (removal_to_proto E) xs)), st))"

section \<open>Admissions\<close>

definition handle_open_owner_admission ::
  "ext \<Rightarrow> int \<Rightarrow> admission_id \<Rightarrow> call_info \<Rightarrow> rstr \<Rightarrow> rstr \<Rightarrow> 'z consilium_db_scheme governance_state
     \<Rightarrow> (status + owner_admission_msg) \<times> 'z consilium_db_scheme governance_state" where
  "handle_open_owner_admission E now fresh c candidate_user_id reason st =
     svc_then (acting_owner E c st) (\<lambda>caller.
       with_arg (parse_user_id E candidate_user_id (lit ''candidate_user_id'')) (\<lambda>candidate.
       carry (open_admission E fresh candidate (us_id caller) reason now) (admission_to_proto E)))"

definition handle_cancel_owner_admission ::
  "ext \<Rightarrow> int \<Rightarrow> call_info \<Rightarrow> rstr \<Rightarrow> 'z consilium_db_scheme governance_state
     \<Rightarrow> (status + owner_admission_msg) \<times> 'z consilium_db_scheme governance_state" where
  "handle_cancel_owner_admission E now c raw st =
     svc_then (acting_owner E c st) (\<lambda>caller.
       with_arg (parse_admission_id E raw) (\<lambda>i. carry (cancel_admission E i (us_id caller) now) (admission_to_proto E)))"

definition handle_submit_admission_vote ::
  "ext \<Rightarrow> int \<Rightarrow> int \<Rightarrow> call_info \<Rightarrow> rstr \<Rightarrow> int \<Rightarrow> 'z consilium_db_scheme governance_state
     \<Rightarrow> (status + owner_admission_msg) \<times> 'z consilium_db_scheme governance_state" where
  "handle_submit_admission_vote E now clock c raw raw_vote st =
     svc_then (acting_owner E c st) (\<lambda>caller.
       with_arg (parse_admission_id E raw) (\<lambda>i.
       with_arg (admission_vote_from_proto raw_vote) (\<lambda>v.
       carry (store_admission_vote E clock i (us_id caller) v now (audit_of c)) (admission_to_proto E))))"

definition handle_get_owner_admission ::
  "ext \<Rightarrow> int \<Rightarrow> call_info \<Rightarrow> rstr \<Rightarrow> 'z consilium_db_scheme governance_state
     \<Rightarrow> (status + owner_admission_msg) \<times> 'z consilium_db_scheme governance_state" where
  "handle_get_owner_admission E now c raw st =
     svc_then (require_owner E c st) (\<lambda>_. with_arg (parse_admission_id E raw) (\<lambda>i st.
       (rbind (map_err domain_to_status (find_admission E (gs_db st) i now)) (\<lambda>found. case found of
          None \<Rightarrow> Inl (Status NotFoundCode (lit ''owner admission not found'')) | Some x \<Rightarrow> Inr (admission_to_proto E x)), st)))"

definition handle_list_owner_admissions ::
  "ext \<Rightarrow> int \<Rightarrow> call_info \<Rightarrow> nat \<Rightarrow> 'z consilium_db_scheme governance_state
     \<Rightarrow> (status + owner_admission_msg list) \<times> 'z consilium_db_scheme governance_state" where
  "handle_list_owner_admissions E now c limit st =
     svc_then (require_owner E c st) (\<lambda>_ st.
       (rbind (map_err domain_to_status (list_admissions E (gs_db st) (int (removal_page_limit limit)) now)) (\<lambda>xs.
        Inr (map (admission_to_proto E) xs)), st))"

section \<open>User proposals\<close>

definition open_proposal_call ::
  "ext \<Rightarrow> int \<Rightarrow> user_proposal_id \<Rightarrow> user_proposal_kind \<Rightarrow> rstr \<Rightarrow> rstr \<Rightarrow> user_id \<Rightarrow> 'z consilium_db_scheme governance_state
     \<Rightarrow> (status + user_proposal_msg) \<times> 'z consilium_db_scheme governance_state" where
  "open_proposal_call E now fresh kind raw reason initiator =
     with_arg (parse_user_id E raw (lit ''user_id'')) (\<lambda>subject.
       carry (open_user_proposal E fresh kind subject initiator reason now) (proposal_to_proto E))"

definition handle_open_user_suspension ::
  "ext \<Rightarrow> int \<Rightarrow> user_proposal_id \<Rightarrow> call_info \<Rightarrow> rstr \<Rightarrow> rstr \<Rightarrow> 'z consilium_db_scheme governance_state
     \<Rightarrow> (status + user_proposal_msg) \<times> 'z consilium_db_scheme governance_state" where
  "handle_open_user_suspension E now fresh c raw reason st =
     svc_then (acting_owner E c st) (\<lambda>caller. open_proposal_call E now fresh Suspension raw reason (us_id caller))"

definition handle_open_user_reinstatement ::
  "ext \<Rightarrow> int \<Rightarrow> user_proposal_id \<Rightarrow> call_info \<Rightarrow> rstr \<Rightarrow> rstr \<Rightarrow> 'z consilium_db_scheme governance_state
     \<Rightarrow> (status + user_proposal_msg) \<times> 'z consilium_db_scheme governance_state" where
  "handle_open_user_reinstatement E now fresh c raw reason st =
     svc_then (acting_owner E c st) (\<lambda>caller. open_proposal_call E now fresh Reinstatement raw reason (us_id caller))"

definition handle_open_admin_admission ::
  "ext \<Rightarrow> int \<Rightarrow> user_proposal_id \<Rightarrow> call_info \<Rightarrow> rstr \<Rightarrow> rstr \<Rightarrow> 'z consilium_db_scheme governance_state
     \<Rightarrow> (status + user_proposal_msg) \<times> 'z consilium_db_scheme governance_state" where
  "handle_open_admin_admission E now fresh c raw reason st =
     svc_then (acting_owner E c st) (\<lambda>caller. open_proposal_call E now fresh AdminAdmission raw reason (us_id caller))"

definition handle_cancel_user_proposal ::
  "ext \<Rightarrow> int \<Rightarrow> call_info \<Rightarrow> rstr \<Rightarrow> 'z consilium_db_scheme governance_state
     \<Rightarrow> (status + user_proposal_msg) \<times> 'z consilium_db_scheme governance_state" where
  "handle_cancel_user_proposal E now c raw st =
     svc_then (acting_owner E c st) (\<lambda>caller.
       with_arg (parse_proposal_id E raw) (\<lambda>i. carry (cancel_user_proposal E i (us_id caller) now) (proposal_to_proto E)))"

definition handle_submit_user_proposal_vote ::
  "ext \<Rightarrow> int \<Rightarrow> int \<Rightarrow> call_info \<Rightarrow> rstr \<Rightarrow> int \<Rightarrow> 'z consilium_db_scheme governance_state
     \<Rightarrow> (status + user_proposal_msg) \<times> 'z consilium_db_scheme governance_state" where
  "handle_submit_user_proposal_vote E now clock c raw raw_vote st =
     svc_then (acting_owner E c st) (\<lambda>caller.
       with_arg (parse_proposal_id E raw) (\<lambda>i.
       with_arg (proposal_vote_from_proto raw_vote) (\<lambda>v.
       carry (user_proposal_vote E clock i (us_id caller) v now (audit_of c)) (proposal_to_proto E))))"

definition handle_get_user_proposal ::
  "ext \<Rightarrow> int \<Rightarrow> call_info \<Rightarrow> rstr \<Rightarrow> 'z consilium_db_scheme governance_state
     \<Rightarrow> (status + user_proposal_msg) \<times> 'z consilium_db_scheme governance_state" where
  "handle_get_user_proposal E now c raw st =
     svc_then (require_owner E c st) (\<lambda>_. with_arg (parse_proposal_id E raw) (\<lambda>i st.
       (rbind (map_err domain_to_status (find_user_proposal E (gs_db st) i now)) (\<lambda>found. case found of
          None \<Rightarrow> Inl (Status NotFoundCode (lit ''user proposal not found'')) | Some x \<Rightarrow> Inr (proposal_to_proto E x)), st)))"

definition handle_list_user_proposals ::
  "ext \<Rightarrow> int \<Rightarrow> call_info \<Rightarrow> int \<Rightarrow> nat \<Rightarrow> 'z consilium_db_scheme governance_state
     \<Rightarrow> (status + user_proposal_msg list) \<times> 'z consilium_db_scheme governance_state" where
  "handle_list_user_proposals E now c raw_kind limit st =
     svc_then (require_owner E c st) (\<lambda>_. with_arg (proposal_kind_from_proto raw_kind) (\<lambda>kind st.
       (rbind (map_err domain_to_status (list_user_proposals E (gs_db st) kind (int (removal_page_limit limit)) now)) (\<lambda>xs.
        Inr (map (proposal_to_proto E) xs)), st)))"


section \<open>The answer from a mailbox\<close>

text \<open>
  \<open>RemovalApproval\<close> stands outside the sign-in: the emailed token is the credential. Every
  token that cannot be used gets one answer.
\<close>

definition handle_get_invitation ::
  "ext \<Rightarrow> int \<Rightarrow> rstr \<Rightarrow> 'z consilium_db_scheme governance_state \<Rightarrow> status + removal_invitation_msg" where
  "handle_get_invitation E now token st =
     rbind (if token = [] then Inr None else map_err domain_to_status (invitation E (gs_db st) token now)) (\<lambda>found.
     case found of None \<Rightarrow> Inl (Status NotFoundCode INVITATION_MISSING) | Some x \<Rightarrow> Inr (invitation_to_proto E x))"

definition forwarded_audit :: "call_info \<Rightarrow> rstr \<Rightarrow> rstr \<Rightarrow> audit" where
  "forwarded_audit c client_ip user_agent =
     (let transport = audit_of c
      in \<lparr>au_client_ip = (if client_ip = [] then au_client_ip transport else client_ip),
          au_user_agent = (if user_agent = [] then au_user_agent transport else user_agent)\<rparr>)"

definition incorrect_code :: "nat \<Rightarrow> status" where
  "incorrect_code n =
     Status InvalidArgument (lit ''incorrect code '' @ [8212] @ lit '' '' @ show_nat n @ lit '' attempts remain'')"

definition handle_submit_self_decision ::
  "ext \<Rightarrow> int \<Rightarrow> int \<Rightarrow> call_info \<Rightarrow> rstr \<Rightarrow> rstr \<Rightarrow> int \<Rightarrow> rstr \<Rightarrow> rstr \<Rightarrow> 'z consilium_db_scheme governance_state
     \<Rightarrow> (status + removal_invitation_msg) \<times> 'z consilium_db_scheme governance_state" where
  "handle_submit_self_decision E now clock c token code raw_vote client_ip user_agent =
     with_arg (vote_from_proto raw_vote) (\<lambda>v st.
       let (out, db) = self_decision E clock token code v now (forwarded_audit c client_ip user_agent) (gs_db st);
           st = st\<lparr>gs_db := db\<rparr>
       in case out of
            Inl e \<Rightarrow> (Inl (domain_to_status e), st)
          | Inr Unusable \<Rightarrow> (Inl (Status NotFoundCode INVITATION_MISSING), st)
          | Inr (WrongCode n) \<Rightarrow> (Inl (incorrect_code n), st)
          | Inr (Decided x) \<Rightarrow> (Inr (invitation_to_proto E x), announce st))"

section \<open>The live feed\<close>

text \<open>
  One subscriber's loop. An event is what the select of one round saw, with the clock of that
  round and whether the subscriber still takes frames; a round may end the stream, be skipped,
  or send one frame.
\<close>

record governance_tick =
  tick_revision :: nat
  tick_at :: int
  tick_heartbeat :: bool

definition tick :: "int \<Rightarrow> nat \<Rightarrow> bool \<Rightarrow> governance_tick" where
  "tick now r heartbeat = \<lparr>tick_revision = r, tick_at = now, tick_heartbeat = heartbeat\<rparr>"

datatype feed_event = Polled "domain_error + nat" | Received nat | Lagged | Closed | Beat

datatype feed_round = Ends | Skips | Sends nat bool

definition feed_round_of :: "nat \<Rightarrow> feed_event \<Rightarrow> feed_round" where
  "feed_round_of latest ev =
     (let fresh = (\<lambda>r. if r \<le> latest then Skips else Sends (max latest r) False)
      in case ev of
           Polled polled \<Rightarrow> (case polled of Inl _ \<Rightarrow> Skips | Inr r \<Rightarrow> fresh r)
         | Received r \<Rightarrow> fresh r
         | Lagged \<Rightarrow> Skips
         | Closed \<Rightarrow> Ends
         | Beat \<Rightarrow> Sends latest True)"

fun feed_loop :: "nat \<Rightarrow> (feed_event \<times> int \<times> bool) list \<Rightarrow> governance_tick list" where
  "feed_loop latest [] = []"
| "feed_loop latest ((ev, now, listening) # evs) =
     (case feed_round_of latest ev of
        Ends \<Rightarrow> []
      | Skips \<Rightarrow> feed_loop latest evs
      | Sends r heartbeat \<Rightarrow> if listening then tick now r heartbeat # feed_loop r evs else [])"

definition feed_stream :: "domain_error + nat \<Rightarrow> int \<Rightarrow> bool \<Rightarrow> (feed_event \<times> int \<times> bool) list \<Rightarrow> governance_tick list" where
  "feed_stream first now listening evs =
     (let r = (case first of Inl _ \<Rightarrow> 0 | Inr r \<Rightarrow> r)
      in if listening then tick now r False # feed_loop r evs else [])"

definition handle_watch_governance ::
  "ext \<Rightarrow> int \<Rightarrow> call_info \<Rightarrow> bool \<Rightarrow> (feed_event \<times> int \<times> bool) list \<Rightarrow> 'z consilium_db_scheme governance_state
     \<Rightarrow> (status + governance_tick list) \<times> 'z consilium_db_scheme governance_state" where
  "handle_watch_governance E now c listening evs st =
     svc_then (require_owner E c st) (\<lambda>_ st. (Inr (feed_stream (Inr (revision (gs_db st))) now listening evs), st))"

lemma feed_round_cases:
  "feed_round_of latest ev = Sends r h \<Longrightarrow> latest \<le> r \<and> (\<not> h \<longrightarrow> latest < r)"
  "feed_round_of latest (Polled (Inr n)) = Skips \<longleftrightarrow> n \<le> latest"
  "feed_round_of latest (Polled (Inr n)) = Sends r h \<longleftrightarrow> latest < n \<and> r = n \<and> \<not> h"
  "feed_round_of latest (Polled (Inr n)) \<noteq> Ends"
  "feed_round_of latest ev = Ends \<Longrightarrow> ev = Closed"
  by (auto simp: feed_round_of_def Let_def split: feed_event.splits sum.splits if_splits)

definition follows :: "governance_tick \<Rightarrow> governance_tick \<Rightarrow> bool" where
  "follows a b \<longleftrightarrow> tick_revision a \<le> tick_revision b \<and> (\<not> tick_heartbeat b \<longrightarrow> tick_revision a < tick_revision b)"

lemma follows_tick: "follows (tick now r h) b \<longleftrightarrow> r \<le> tick_revision b \<and> (\<not> tick_heartbeat b \<longrightarrow> r < tick_revision b)"
  by (simp add: follows_def tick_def)

lemma follows_weaken: "follows (tick now r h) x \<Longrightarrow> latest \<le> r \<Longrightarrow> follows (tick now' latest h') x"
  by (auto simp: follows_tick)

lemma feed_loop_from: "x \<in> set (feed_loop latest evs) \<Longrightarrow> follows (tick now latest h) x"
proof (induction evs arbitrary: latest h)
  case (Cons e evs)
  obtain ev at listening where e: "e = (ev, at, listening)" by (cases e)
  show ?case
  proof (cases "feed_round_of latest ev")
    case (Sends r h')
    from feed_round_cases(1) [OF this] have step: "latest \<le> r \<and> (\<not> h' \<longrightarrow> latest < r)" .
    from Cons.prems Sends e have "x = tick at r h' \<or> x \<in> set (feed_loop r evs)" by (auto split: if_splits)
    then show ?thesis
    proof
      assume "x = tick at r h'"
      with step show ?thesis by (simp add: follows_def tick_def)
    next
      assume "x \<in> set (feed_loop r evs)"
      from follows_weaken [OF Cons.IH [OF this]] step show ?thesis by blast
    qed
  qed (use Cons e in auto)
qed simp

lemma feed_loop_sorted: "sorted_wrt follows (feed_loop latest evs)"
proof (induction evs arbitrary: latest)
  case (Cons e evs)
  then show ?case by (cases e) (auto split: feed_round.split intro: feed_loop_from)
qed simp

lemma feed_loop_reaches:
  assumes "\<forall>e\<in>set evs. snd (snd e)" and "Closed \<notin> fst ` set evs" and "Polled (Inr n) \<in> fst ` set evs" and "latest < n"
  shows "\<exists>x\<in>set (feed_loop latest evs). n \<le> tick_revision x"
  using assms
proof (induction evs arbitrary: latest)
  case (Cons e evs)
  obtain ev at where e: "e = (ev, at, True)" using Cons.prems(1) by (cases e) auto
  show ?case
  proof (cases "ev = Polled (Inr n)")
    case True
    then have "feed_round_of latest ev = Sends n False" using Cons.prems(4) by (simp add: feed_round_of_def)
    then show ?thesis by (simp add: e tick_def)
  next
    case False
    with Cons.prems e have rest: "\<forall>e\<in>set evs. snd (snd e)" "Closed \<notin> fst ` set evs" "Polled (Inr n) \<in> fst ` set evs"
      and open_: "ev \<noteq> Closed" by auto
    note IH = Cons.IH [OF rest]
    show ?thesis
    proof (cases "feed_round_of latest ev")
      case Ends
      then show ?thesis using feed_round_cases(5) open_ by blast
    next
      case Skips
      then show ?thesis using IH [OF Cons.prems(4)] by (simp add: e)
    next
      case (Sends r h)
      then show ?thesis using IH [of r] by (cases "r < n") (auto simp: e tick_def)
    qed
  qed
qed simp

text \<open>C4. What a subscriber of the live feed sees never goes back: revisions never decrease, a frame
  that is no heartbeat always brings a higher one, and as long as they listen and the channel
  stays open they see at least every revision that a poll of the database returns, whatever
  broadcasts were lost, lagging or out of order.
\<close>

theorem feed_never_backwards:
  assumes "feed_stream first now True evs = frames"
  shows "sorted_wrt follows frames \<and>
    ((\<forall>e\<in>set evs. snd (snd e)) \<and> Closed \<notin> fst ` set evs \<and> Polled (Inr r) \<in> fst ` set evs
       \<longrightarrow> (\<exists>x\<in>set frames. r \<le> tick_revision x))"
proof -
  let ?r = "case first of Inl _ \<Rightarrow> 0 | Inr r \<Rightarrow> r"
  have frames: "frames = tick now ?r False # feed_loop ?r evs" using assms by (simp add: feed_stream_def Let_def)
  have "sorted_wrt follows frames"
    unfolding frames using feed_loop_sorted [of ?r evs] feed_loop_from [of _ ?r evs] by auto
  moreover have "\<exists>x\<in>set frames. r \<le> tick_revision x"
    if "\<forall>e\<in>set evs. snd (snd e)" "Closed \<notin> fst ` set evs" "Polled (Inr r) \<in> fst ` set evs"
    using feed_loop_reaches [OF that, of ?r] unfolding frames by (cases "?r < r") (auto simp: tick_def)
  ultimately show ?thesis by blast
qed

theorem feed_never_backwards_witness:
  "sorted_wrt follows (feed_stream (Inr 3) 0 True [(Received 5, 1, True), (Polled (Inr 4), 2, True), (Beat, 3, True)])
   \<and> (\<exists>x\<in>set (feed_stream (Inr 3) 0 True [(Received 5, 1, True), (Polled (Inr 4), 2, True), (Beat, 3, True)]). 4 \<le> tick_revision x)"
  using feed_never_backwards [OF refl, of "Inr 3" 0 "[(Received 5, 1, True), (Polled (Inr 4), 2, True), (Beat, 3, True)]" 4] by simp

section \<open>Requests\<close>

datatype governance_request =
    Req_ListOwners
  | Req_ResignOwnership rstr
  | Req_OpenRemoval rstr removal_draws rstr rstr
  | Req_CancelRemoval rstr
  | Req_PeerVote rstr int
  | Req_GetRemoval rstr
  | Req_ListRemovals nat
  | Req_OpenAdmission admission_id rstr rstr
  | Req_CancelAdmission rstr
  | Req_AdmissionVote rstr int
  | Req_GetAdmission rstr
  | Req_ListAdmissions nat
  | Req_OpenProposal user_proposal_kind user_proposal_id rstr rstr
  | Req_CancelProposal rstr
  | Req_ProposalVote rstr int
  | Req_GetProposal rstr
  | Req_ListProposals int nat
  | Req_Watch
  | Req_SelfDecision rstr rstr int rstr rstr

definition after :: "(status + 'm) \<times> 's \<Rightarrow> bool \<times> 's" where
  "after r = (is_ok (fst r), snd r)"

text \<open>One request and the state it leaves, at the times \<open>now\<close> (service) and \<open>clock\<close> (database).\<close>

fun serve_governance ::
  "ext \<Rightarrow> (user_id \<Rightarrow> int) \<Rightarrow> int \<Rightarrow> int \<Rightarrow> call_info \<Rightarrow> governance_request
     \<Rightarrow> 'z consilium_db_scheme governance_state \<Rightarrow> bool \<times> 'z consilium_db_scheme governance_state" where
  "serve_governance E created now clock c Req_ListOwners st = after (handle_list_owners E created c st)"
| "serve_governance E created now clock c (Req_ResignOwnership m) st = after (handle_resign_ownership E now clock created c m st)"
| "serve_governance E created now clock c (Req_OpenRemoval base d t reason) st =
     after (handle_open_owner_removal E now clock base d c t reason st)"
| "serve_governance E created now clock c (Req_CancelRemoval i) st = after (handle_cancel_owner_removal E now c i st)"
| "serve_governance E created now clock c (Req_PeerVote i v) st = after (handle_submit_peer_vote E now clock c i v st)"
| "serve_governance E created now clock c (Req_GetRemoval i) st = after (handle_get_owner_removal E now c i st)"
| "serve_governance E created now clock c (Req_ListRemovals n) st = after (handle_list_owner_removals E now c n st)"
| "serve_governance E created now clock c (Req_OpenAdmission fresh u reason) st =
     after (handle_open_owner_admission E now fresh c u reason st)"
| "serve_governance E created now clock c (Req_CancelAdmission i) st = after (handle_cancel_owner_admission E now c i st)"
| "serve_governance E created now clock c (Req_AdmissionVote i v) st = after (handle_submit_admission_vote E now clock c i v st)"
| "serve_governance E created now clock c (Req_GetAdmission i) st = after (handle_get_owner_admission E now c i st)"
| "serve_governance E created now clock c (Req_ListAdmissions n) st = after (handle_list_owner_admissions E now c n st)"
| "serve_governance E created now clock c (Req_OpenProposal k fresh u reason) st =
     after (case k of Suspension \<Rightarrow> handle_open_user_suspension E now fresh c u reason st
       | Reinstatement \<Rightarrow> handle_open_user_reinstatement E now fresh c u reason st
       | AdminAdmission \<Rightarrow> handle_open_admin_admission E now fresh c u reason st)"
| "serve_governance E created now clock c (Req_CancelProposal i) st = after (handle_cancel_user_proposal E now c i st)"
| "serve_governance E created now clock c (Req_ProposalVote i v) st = after (handle_submit_user_proposal_vote E now clock c i v st)"
| "serve_governance E created now clock c (Req_GetProposal i) st = after (handle_get_user_proposal E now c i st)"
| "serve_governance E created now clock c (Req_ListProposals k n) st = after (handle_list_user_proposals E now c k n st)"
| "serve_governance E created now clock c Req_Watch st = after (handle_watch_governance E now c True [] st)"
| "serve_governance E created now clock c (Req_SelfDecision token code v ip ua) st =
     after (handle_submit_self_decision E now clock c token code v ip ua st)"

section \<open>A handler acts as its caller\<close>

definition gov_actor :: "gov_call \<Rightarrow> user_id option" where
  "gov_actor c = (case c of
     Gov_OpenRemoval _ _ _ _ i _ _ \<Rightarrow> Some i | Gov_PeerVote _ _ u _ _ _ \<Rightarrow> Some u | Gov_CancelRemoval _ u _ \<Rightarrow> Some u
   | Gov_Resign _ u _ \<Rightarrow> Some u | Gov_OpenAdmission _ _ n _ _ \<Rightarrow> Some n | Gov_AdmissionVote _ _ u _ _ _ \<Rightarrow> Some u
   | Gov_CancelAdmission _ u _ \<Rightarrow> Some u | Gov_OpenProposal _ _ _ n _ _ \<Rightarrow> Some n | Gov_ProposalVote _ _ u _ _ _ \<Rightarrow> Some u
   | Gov_CancelProposal _ u _ \<Rightarrow> Some u | _ \<Rightarrow> None)"

definition seated_caller :: "ext \<Rightarrow> call_info \<Rightarrow> 'z consilium_db_scheme governance_state \<Rightarrow> user_id \<Rightarrow> bool" where
  "seated_caller E c st i \<longleftrightarrow> (\<exists>cl r. ci_claims c = Some cl \<and> is_access cl \<and> uuid_parse E (cl_sub cl) = Some (uid_raw i)
     \<and> authz_record_of (gs_db st) i = Inr (Some r) \<and> az_status r = Active \<and> az_token_version r \<le> cl_token_version cl
     \<and> (az_role r = Owner \<or> \<not> bg_sealed (gs_gate st) \<and> owner_count (gs_db st) = 0 \<and> cl_sub cl \<in> set (bg_elevates (gs_gate st))))"

lemma require_owner_state:
  "gs_db (snd (require_owner E c st)) = gs_db st" "gs_feed (snd (require_owner E c st)) = gs_feed st"
  by (simp_all add: require_owner_def split: prod.splits)

lemma acting_owner_state:
  "gs_db (snd (acting_owner E c st)) = gs_db st" "gs_feed (snd (acting_owner E c st)) = gs_feed st"
  using require_owner_state [of E c st]
  by (cases "require_owner E c st"; cases "fst (require_owner E c st)"; simp add: acting_owner_def svc_then_def)+

lemma may_grant_seats: "role_may r (roles_perm_str roles_perm.Grant) \<longleftrightarrow> r = Owner"
  by (cases r; hypsubst; code_simp)

lemma find_by_id_row: "find_by_id E db i = Inr (Some u) \<Longrightarrow> us_id u = i \<and> find (\<lambda>w. ur_id w = i) (db_users db) \<noteq> None"
  by (auto simp: find_by_id_def rbind_Inr_iff split: option.splits dest!: find_Some_in into_domain_Inr(1))

lemma authz_record_None: "authz_record_of db i = Inr None \<Longrightarrow> find (\<lambda>w. ur_id w = i) (db_users db) = None"
  by (auto simp: authz_record_of_def result_simps split: option.splits)

lemma acting_owner_Inr:
  assumes "fst (acting_owner E c st) = Inr u"
  obtains g where "fst (require_owner E c st) = Inr ()" "caller_gate E (authz_record_of (gs_db st)) (ci_claims c) = Inr g"
    "gt_id g = Some (us_id u)" "find (\<lambda>w. ur_id w = us_id u) (db_users (gs_db st)) \<noteq> None"
  using assms require_owner_state(1) [of E c st]
  by (auto simp: acting_owner_def svc_then_def result_simps split: prod.splits sum.splits option.splits dest!: find_by_id_row)

lemma acting_owner_seated:
  assumes "fst (acting_owner E c st) = Inr u"
  shows "seated_caller E c st (us_id u)"
proof -
  obtain g where pass: "fst (require_owner E c st) = Inr ()"
    and g: "caller_gate E (authz_record_of (gs_db st)) (ci_claims c) = Inr g" "gt_id g = Some (us_id u)"
    and row: "find (\<lambda>w. ur_id w = us_id u) (db_users (gs_db st)) \<noteq> None"
    using acting_owner_Inr [OF assms] .
  from g obtain cl where cl: "ci_claims c = Some cl" "is_access cl" "gt_sub g = cl_sub cl"
    "uuid_parse E (cl_sub cl) = Some (uid_raw (us_id u))" "authz_record_of (gs_db st) (us_id u) = Inr (gt_record g)"
    "case gt_record g of None \<Rightarrow> True | Some r \<Rightarrow> az_status r \<noteq> Disabled \<and> az_token_version r \<le> cl_token_version cl"
    unfolding caller_gate_Inr by (auto simp: map_option_case split: option.splits)
  obtain r where r: "gt_record g = Some r"
    using cl(5) row authz_record_None [of "gs_db st" "us_id u"] by (cases "gt_record g") auto
  then have standing: "az_status r = Active" "az_token_version r \<le> cl_token_version cl"
    using cl(6) by (cases "az_status r"; simp)+
  from pass obtain s where "fst (caller_role E (authz_record_of (gs_db st)) (Inr (owner_count (gs_db st))) (gs_gate st) (ci_claims c)) = Inr s"
    and may: "role_may (er_role s) (roles_perm_str roles_perm.Grant)"
    by (auto simp: require_owner_def require_permission_def result_simps split: prod.splits)
  then have "opens_emergency (gs_gate st) (Inr (owner_count (gs_db st))) (cl_sub cl) \<or> az_role r = Owner"
    unfolding caller_role_Inr using g(1) r cl(3) may_grant_seats
    by (auto simp: effective_persisted_def split: if_splits)
  then show ?thesis
    unfolding seated_caller_def opens_emergency_def using cl r standing by auto
qed

lemma carry_state:
  "gs_db (snd (carry work shown st)) = snd (work (gs_db st))"
  "gs_feed (snd (carry work shown st)) = gs_feed st
   \<or> is_ok (fst (carry work shown st)) \<and> gs_feed (snd (carry work shown st)) = gs_feed st @ [revision (snd (work (gs_db st)))]"
  by (auto simp: carry_def announce_def revision_def Let_def split: prod.split sum.split)

text \<open>What one request may leave behind.\<close>

definition served_as ::
  "ext \<Rightarrow> (gov_call \<Rightarrow> bool) \<Rightarrow> 'z consilium_db_scheme governance_state \<Rightarrow> 'z consilium_db_scheme governance_state \<Rightarrow> bool" where
  "served_as E allowed st st' \<longleftrightarrow>
     (gs_db st' = gs_db st \<or> (\<exists>call. reachable_call call \<and> allowed call \<and> gs_db st' = snd (consilium_call E call (gs_db st))))
   \<and> (gs_feed st' = gs_feed st \<or> gs_feed st' = gs_feed st @ [revision (gs_db st')])"

lemma served_still: "gs_db st' = gs_db st \<Longrightarrow> gs_feed st' = gs_feed st \<Longrightarrow> served_as E allowed st st'"
  by (simp add: served_as_def)

lemma served_carry:
  assumes "snd (work (gs_db st1)) = snd (consilium_call E call (gs_db st1))" and "reachable_call call" and "allowed call"
    and "gs_db st1 = gs_db st" and "gs_feed st1 = gs_feed st"
  shows "served_as E allowed st (snd (carry work shown st1))"
  using carry_state [of work shown st1] assms by (auto simp: served_as_def revision_def)

lemma served_with_arg:
  assumes "\<And>x. parsed = Inr x \<Longrightarrow> served_as E allowed st (snd (f x st1))" and "gs_db st1 = gs_db st" and "gs_feed st1 = gs_feed st"
  shows "served_as E allowed st (snd (with_arg parsed f st1))"
  using assms by (auto simp: with_arg_def intro: served_still split: sum.split)

lemma served_owner:
  assumes "\<And>u st1. seated_caller E c st (us_id u) \<Longrightarrow> gs_db st1 = gs_db st \<Longrightarrow> gs_feed st1 = gs_feed st
      \<Longrightarrow> served_as E allowed st (snd (f u st1))"
  shows "served_as E allowed st (snd (svc_then (acting_owner E c st) f))"
  using assms acting_owner_state [of E c st] acting_owner_seated [of E c st]
  by (cases "acting_owner E c st"; cases "fst (acting_owner E c st)") (auto simp: svc_then_def intro: served_still)

lemma served_reader:
  assumes "\<And>x st1. gs_db (snd (f x st1)) = gs_db st1 \<and> gs_feed (snd (f x st1)) = gs_feed st1"
  shows "served_as E allowed st (snd (svc_then (require_owner E c st) f))"
  using assms require_owner_state [of E c st]
  by (cases "require_owner E c st"; cases "fst (require_owner E c st)") (auto simp: svc_then_def intro: served_still)

lemma served_act1:
  assumes "\<And>u x. seated_caller E c st (us_id u) \<Longrightarrow>
      \<exists>call. (\<forall>db. snd (work u x db) = snd (consilium_call E call db)) \<and> reachable_call call \<and> allowed call"
  shows "served_as E allowed st (snd (svc_then (acting_owner E c st) (\<lambda>u. with_arg parsed (\<lambda>x. carry (work u x) shown))))"
  using assms by (intro served_owner served_with_arg) (metis served_carry)+

lemma served_act2:
  assumes "\<And>u x y. seated_caller E c st (us_id u) \<Longrightarrow>
      \<exists>call. (\<forall>db. snd (work u x y db) = snd (consilium_call E call db)) \<and> reachable_call call \<and> allowed call"
  shows "served_as E allowed st (snd (svc_then (acting_owner E c st)
      (\<lambda>u. with_arg p (\<lambda>x. with_arg q (\<lambda>y. carry (work u x y) shown)))))"
  using assms by (intro served_owner served_with_arg) (metis served_carry)+

lemma with_arg_reader: "gs_db (snd (with_arg parsed (\<lambda>x st. (f x st, st)) st)) = gs_db st \<and>
    gs_feed (snd (with_arg parsed (\<lambda>x st. (f x st, st)) st)) = gs_feed st"
  by (auto simp: with_arg_def split: sum.split)

lemma snd_then_read': "snd (then_read r a p) = snd p"
  by (simp add: then_read_def)

text \<open>The call a request stands for.\<close>

definition request_allows ::
  "ext \<Rightarrow> int \<Rightarrow> int \<Rightarrow> call_info \<Rightarrow> governance_request \<Rightarrow> 'z consilium_db_scheme governance_state \<Rightarrow> gov_call \<Rightarrow> bool" where
  "request_allows E now clock c req st call \<longleftrightarrow>
     (case req of
        Req_SelfDecision token code raw ip ua \<Rightarrow>
          (\<exists>v. vote_from_proto raw = Inr v \<and> call = Gov_SelfDecision clock token code v now (forwarded_audit c ip ua))
      | _ \<Rightarrow> \<exists>i. gov_actor call = Some i \<and> seated_caller E c st i)"

lemma resign_handler:
  "served_as E allowed st (snd (handle_resign_ownership E now clock created c m st))"
  if "\<And>i. seated_caller E c st i \<Longrightarrow> allowed (Gov_Resign clock i now)"
proof -
  have tail: "served_as E allowed st (snd (svc_then (carry (resign E clock i now) id st1) (\<lambda>_ st. (Inr (owner_roster E created (gs_db st)), st))))"
    if "served_as E allowed st (snd (carry (resign E clock i now) id st1))" for i st1
    using that by (cases "carry (resign E clock i now) id st1"; cases "fst (carry (resign E clock i now) id st1)") (auto simp: svc_then_def)
  show ?thesis
    unfolding handle_resign_ownership_def
    by (intro served_owner served_with_arg tail served_carry [where call = "Gov_Resign clock _ now"] that; (rule TrueI | assumption)?)
      (simp_all add: outcome_of_def reachable_call_def)
qed

lemma request_served:
  "served_as E (request_allows E now clock c req st) st (snd (serve_governance E created now clock c req st))"
proof (cases req)
  case (Req_ResignOwnership m)
  show ?thesis
    unfolding Req_ResignOwnership serve_governance.simps after_def snd_conv
    by (rule resign_handler) (auto simp: request_allows_def gov_actor_def)
next
  case (Req_SelfDecision token code raw ip ua)
  have "served_as E allowed st (snd (handle_submit_self_decision E now clock c token code raw ip ua st))"
    if "\<And>v. vote_from_proto raw = Inr v \<Longrightarrow> allowed (Gov_SelfDecision clock token code v now (forwarded_audit c ip ua))" for allowed
    unfolding handle_submit_self_decision_def
  proof (rule served_with_arg)
    fix v assume v: "vote_from_proto raw = Inr v"
    show "served_as E allowed st (snd (let (out, db) = self_decision E clock token code v now (forwarded_audit c ip ua) (gs_db st);
           st = st\<lparr>gs_db := db\<rparr>
       in case out of
            Inl e \<Rightarrow> (Inl (domain_to_status e), st)
          | Inr Unusable \<Rightarrow> (Inl (Status NotFoundCode INVITATION_MISSING), st)
          | Inr (WrongCode n) \<Rightarrow> (Inl (incorrect_code n), st)
          | Inr (Decided x) \<Rightarrow> (Inr (invitation_to_proto E x), announce st)))"
      unfolding served_as_def using that [OF v]
      by (cases "self_decision E clock token code v now (forwarded_audit c ip ua) (gs_db st)")
        (auto simp: announce_def revision_def reachable_call_def outcome_of_def Let_def split: sum.split self_answer.split
          intro!: exI [of _ "Gov_SelfDecision clock token code v now (forwarded_audit c ip ua)"])
  qed simp_all
  then show ?thesis unfolding Req_SelfDecision serve_governance.simps after_def snd_conv
    by (auto simp: request_allows_def)
next
  case (Req_OpenProposal k fresh raw reason)
  have "served_as E allowed st (snd (svc_then (acting_owner E c st) (\<lambda>u. open_proposal_call E now fresh k raw reason (us_id u))))"
    if "\<And>i s. seated_caller E c st i \<Longrightarrow> allowed (Gov_OpenProposal fresh k s i reason now)" for allowed
    unfolding open_proposal_call_def
    by (rule served_act1, rule exI [of _ "Gov_OpenProposal fresh k _ _ reason now"]) (auto simp: outcome_of_def reachable_call_def intro: that)
  from this [of "request_allows E now clock c req st"] show ?thesis
    by (cases k) (auto simp: Req_OpenProposal after_def handle_open_user_suspension_def handle_open_user_reinstatement_def
      handle_open_admin_admission_def request_allows_def gov_actor_def)
next
  case (Req_OpenRemoval base d t reason)
  show ?thesis
    unfolding Req_OpenRemoval serve_governance.simps after_def snd_conv handle_open_owner_removal_def
    by (rule served_act1, rule exI [of _ "Gov_OpenRemoval clock base d _ _ reason now"])
      (auto simp: outcome_of_def reachable_call_def request_allows_def gov_actor_def)
next
  case (Req_CancelRemoval i)
  show ?thesis
    unfolding Req_CancelRemoval serve_governance.simps after_def snd_conv handle_cancel_owner_removal_def
    by (rule served_act1, rule exI [of _ "Gov_CancelRemoval _ _ now"])
      (auto simp: outcome_of_def reachable_call_def request_allows_def gov_actor_def)
next
  case (Req_PeerVote i v)
  show ?thesis
    unfolding Req_PeerVote serve_governance.simps after_def snd_conv handle_submit_peer_vote_def
    by (rule served_act2, rule exI [of _ "Gov_PeerVote clock _ _ _ now (audit_of c)"])
      (auto simp: outcome_of_def reachable_call_def request_allows_def gov_actor_def)
next
  case (Req_OpenAdmission fresh u reason)
  show ?thesis
    unfolding Req_OpenAdmission serve_governance.simps after_def snd_conv handle_open_owner_admission_def
    by (rule served_act1, rule exI [of _ "Gov_OpenAdmission fresh _ _ reason now"])
      (auto simp: outcome_of_def reachable_call_def request_allows_def gov_actor_def)
next
  case (Req_CancelAdmission i)
  show ?thesis
    unfolding Req_CancelAdmission serve_governance.simps after_def snd_conv handle_cancel_owner_admission_def
    by (rule served_act1, rule exI [of _ "Gov_CancelAdmission _ _ now"])
      (auto simp: outcome_of_def reachable_call_def request_allows_def gov_actor_def)
next
  case (Req_AdmissionVote i v)
  show ?thesis
    unfolding Req_AdmissionVote serve_governance.simps after_def snd_conv handle_submit_admission_vote_def
    by (rule served_act2, rule exI [of _ "Gov_AdmissionVote clock _ _ _ now (audit_of c)"])
      (auto simp: outcome_of_def reachable_call_def request_allows_def gov_actor_def)
next
  case (Req_CancelProposal i)
  show ?thesis
    unfolding Req_CancelProposal serve_governance.simps after_def snd_conv handle_cancel_user_proposal_def
    by (rule served_act1, rule exI [of _ "Gov_CancelProposal _ _ now"])
      (auto simp: outcome_of_def reachable_call_def request_allows_def gov_actor_def)
next
  case (Req_ProposalVote i v)
  show ?thesis
    unfolding Req_ProposalVote serve_governance.simps after_def snd_conv handle_submit_user_proposal_vote_def
    by (rule served_act2, rule exI [of _ "Gov_ProposalVote clock _ _ _ now (audit_of c)"])
      (auto simp: outcome_of_def reachable_call_def request_allows_def gov_actor_def)
qed (simp only: serve_governance.simps after_def snd_conv handle_list_owners_def handle_get_owner_removal_def
    handle_list_owner_removals_def handle_get_owner_admission_def handle_list_owner_admissions_def handle_get_user_proposal_def
    handle_list_user_proposals_def handle_watch_governance_def; rule served_reader; simp add: with_arg_reader)+

text \<open>C1. Nobody acts for anybody else. Serving one request of the governance service leaves the
  database as it was, or as one call of the store leaves it; that call is made in the name of
  the person the access token was issued to, who is on record as active with that token not
  revoked and holds an owner seat, unless the registry has no owner at all and the token's
  subject is listed for emergency access. The one exception is the answer from a mailbox,
  which is the call its token, code and vote spell. What is announced to the live feed is at
  most the revision then committed.
\<close>

theorem nobody_acts_for_another:
  assumes "serve_governance E created now clock c req st = (ok, st')"
  shows "(gs_db st' = gs_db st \<or> (\<exists>call. reachable_call call \<and> gs_db st' = snd (consilium_call E call (gs_db st))
       \<and> (case req of
            Req_SelfDecision token code raw ip ua \<Rightarrow>
              \<exists>v. vote_from_proto raw = Inr v \<and> call = Gov_SelfDecision clock token code v now (forwarded_audit c ip ua)
          | _ \<Rightarrow> \<exists>i. gov_actor call = Some i \<and> seated_caller E c st i)))
     \<and> (gs_feed st' = gs_feed st \<or> gs_feed st' = gs_feed st @ [revision (gs_db st')])"
  using request_served [of E now clock c req st created] unfolding assms snd_conv served_as_def request_allows_def
  by blast

section \<open>What a request asks of the store\<close>

text \<open>The call of the store a signed-in request spells when \<open>u\<close> makes it: ids are UUIDs, votes the
  numbers of the wire; a resignation repeats the caller's own address. None: it spells none.\<close>

definition spelled :: "ext \<Rightarrow> int \<Rightarrow> int \<Rightarrow> call_info \<Rightarrow> governance_request \<Rightarrow> user \<Rightarrow> gov_call option" where
  "spelled E now clock c req u =
     (let yes_no = (\<lambda>raw yes no. if raw = 2 then Some yes else if raw = (3 :: int) then Some no else None) in
      case req of
        Req_ResignOwnership m \<Rightarrow> if email_parse E m = Inr (us_email u) then Some (Gov_Resign clock (us_id u) now) else None
      | Req_OpenRemoval base d target reason \<Rightarrow>
          map_option (\<lambda>t. Gov_OpenRemoval clock base d (UserId t) (us_id u) reason now) (uuid_parse E target)
      | Req_CancelRemoval i \<Rightarrow> map_option (\<lambda>i. Gov_CancelRemoval (RemovalId i) (us_id u) now) (uuid_parse E i)
      | Req_PeerVote i v \<Rightarrow> Option.bind (uuid_parse E i) (\<lambda>i.
          map_option (\<lambda>v. Gov_PeerVote clock (RemovalId i) (us_id u) v now (audit_of c)) (yes_no v Remove Keep))
      | Req_OpenAdmission fresh candidate reason \<Rightarrow>
          map_option (\<lambda>x. Gov_OpenAdmission fresh (UserId x) (us_id u) reason now) (uuid_parse E candidate)
      | Req_CancelAdmission i \<Rightarrow> map_option (\<lambda>i. Gov_CancelAdmission (AdmissionId i) (us_id u) now) (uuid_parse E i)
      | Req_AdmissionVote i v \<Rightarrow> Option.bind (uuid_parse E i) (\<lambda>i.
          if v = 2 then Some (Gov_AdmissionVote clock (AdmissionId i) (us_id u) Admit now (audit_of c))
          else if v = 3 then Some (Gov_AdmissionVote clock (AdmissionId i) (us_id u) Reject now (audit_of c)) else None)
      | Req_OpenProposal kind fresh subject reason \<Rightarrow>
          map_option (\<lambda>x. Gov_OpenProposal fresh kind (UserId x) (us_id u) reason now) (uuid_parse E subject)
      | Req_CancelProposal i \<Rightarrow> map_option (\<lambda>i. Gov_CancelProposal (UserProposalId i) (us_id u) now) (uuid_parse E i)
      | Req_ProposalVote i v \<Rightarrow> Option.bind (uuid_parse E i) (\<lambda>i.
          if v = 2 then Some (Gov_ProposalVote clock (UserProposalId i) (us_id u) For now (audit_of c))
          else if v = 3 then Some (Gov_ProposalVote clock (UserProposalId i) (us_id u) Against now (audit_of c)) else None)
      | _ \<Rightarrow> None)"

definition only_reads :: "governance_request \<Rightarrow> bool" where
  "only_reads req \<longleftrightarrow> (case req of
     Req_ListOwners \<Rightarrow> True | Req_GetRemoval _ \<Rightarrow> True | Req_ListRemovals _ \<Rightarrow> True | Req_GetAdmission _ \<Rightarrow> True
   | Req_ListAdmissions _ \<Rightarrow> True | Req_GetProposal _ \<Rightarrow> True | Req_ListProposals _ _ \<Rightarrow> True | Req_Watch \<Rightarrow> True | _ \<Rightarrow> False)"

text \<open>A step answers well exactly when the spelled call does, and leaves what that call leaves; without
  one it refuses.\<close>

definition does ::
  "ext \<Rightarrow> gov_call option \<Rightarrow> 'z consilium_db_scheme \<Rightarrow> bool \<Rightarrow> 'z consilium_db_scheme \<Rightarrow> bool" where
  "does E sp db ok db' \<longleftrightarrow> (case sp of None \<Rightarrow> \<not> ok \<and> db' = db | Some call \<Rightarrow> consilium_call E call db = (ok, db'))"

lemma does_carry:
  assumes "\<And>db. consilium_call E call db = outcome_of (work db)"
  shows "does E (Some call) (gs_db st) (is_ok (fst (carry work shown st))) (gs_db (snd (carry work shown st)))"
  using assms by (auto simp: does_def carry_def outcome_of_def announce_def Let_def split: prod.split sum.split)

lemma does_with_arg:
  assumes "\<And>e. parsed = Inl e \<Longrightarrow> sp = None"
    and "\<And>x. parsed = Inr x \<Longrightarrow> does E sp (gs_db st) (is_ok (fst (f x st))) (gs_db (snd (f x st)))"
  shows "does E sp (gs_db st) (is_ok (fst (with_arg parsed f st))) (gs_db (snd (with_arg parsed f st)))"
  using assms by (cases parsed) (auto simp: with_arg_def does_def)

definition request_done ::
  "ext \<Rightarrow> int \<Rightarrow> int \<Rightarrow> call_info \<Rightarrow> governance_request \<Rightarrow> 'z consilium_db_scheme governance_state
     \<Rightarrow> (status + 'm) \<times> 'z consilium_db_scheme governance_state \<Rightarrow> bool" where
  "request_done E now clock c req st r \<longleftrightarrow>
     (case fst (acting_owner E c st) of
        Inl _ \<Rightarrow> \<not> is_ok (fst r) \<and> gs_db (snd r) = gs_db st
      | Inr u \<Rightarrow> seated_caller E c st (us_id u) \<and> does E (spelled E now clock c req u) (gs_db st) (is_ok (fst r)) (gs_db (snd r)))"

lemma does_nothing: "does E None db False db"
  by (simp add: does_def)

lemma with_arg_simps: "with_arg (Inl e) f st = (Inl e, st)" "with_arg (Inr x) f st = f x st"
  by (simp_all add: with_arg_def)

lemma done_act:
  assumes "\<And>u st1. does E (spelled E now clock c req u) (gs_db st1) (is_ok (fst (f u st1))) (gs_db (snd (f u st1)))"
  shows "request_done E now clock c req st (svc_then (acting_owner E c st) f)"
proof -
  obtain out st1 where act: "acting_owner E c st = (out, st1)" by fastforce
  then have db: "gs_db st1 = gs_db st" using acting_owner_state(1) [of E c st] by simp
  show ?thesis
  proof (cases out)
    case (Inl e)
    then show ?thesis using db by (simp add: request_done_def svc_then_def act)
  next
    case (Inr u)
    moreover have "seated_caller E c st (us_id u)" using acting_owner_seated [of E c st u] act Inr by simp
    ultimately show ?thesis using assms [of u st1] db by (simp add: request_done_def svc_then_def act)
  qed
qed

lemmas spelling = spelled_def with_arg_simps parse_user_id_def parse_removal_id_def parse_admission_id_def parse_proposal_id_def
  vote_from_proto_def admission_vote_from_proto_def proposal_vote_from_proto_def Let_def

lemma resign_done:
  "request_done E now clock c (Req_ResignOwnership m) st (handle_resign_ownership E now clock created c m st)"
  unfolding handle_resign_ownership_def
proof (rule done_act)
  fix u :: user and st1 :: "'a consilium_db_scheme governance_state"
  let ?read = "\<lambda>st1. svc_then (carry (resign E clock (us_id u) now) id st1) (\<lambda>_ st. (Inr (owner_roster E created (gs_db st)), st))"
  have tail: "is_ok (fst (?read st1)) = is_ok (fst (carry (resign E clock (us_id u) now) id st1))"
    "gs_db (snd (?read st1)) = gs_db (snd (carry (resign E clock (us_id u) now) id st1))" for st1 :: "'a consilium_db_scheme governance_state"
    by (cases "carry (resign E clock (us_id u) now) id st1"; cases "fst (carry (resign E clock (us_id u) now) id st1)"; simp add: svc_then_def)+
  show "does E (spelled E now clock c (Req_ResignOwnership m) u) (gs_db st1)
      (is_ok (fst (with_arg (map_err (\<lambda>_. invalid ''confirm_email must be your own address'') (email_parse E m))
         (\<lambda>confirm. with_arg (ensure (confirm = us_email u) (invalid ''confirm_email must be your own address'')) (\<lambda>_. ?read)) st1)))
      (gs_db (snd (with_arg (map_err (\<lambda>_. invalid ''confirm_email must be your own address'') (email_parse E m))
         (\<lambda>confirm. with_arg (ensure (confirm = us_email u) (invalid ''confirm_email must be your own address'')) (\<lambda>_. ?read)) st1)))"
  proof (cases "email_parse E m = Inr (us_email u)")
    case True
    then show ?thesis
      using does_carry [of E "Gov_Resign clock (us_id u) now" "resign E clock (us_id u) now" st1 id]
      by (simp add: with_arg_def ensure_def tail spelled_def Let_def)
  next
    case False
    then show ?thesis
      by (cases "email_parse E m") (auto simp: with_arg_def ensure_def spelled_def does_def)
  qed
qed

text \<open>The other requests that write.\<close>

lemma acts_done:
  "request_done E now clock c (Req_OpenRemoval base d target reason) st (handle_open_owner_removal E now clock base d c target reason st)"
  "request_done E now clock c (Req_CancelRemoval i) st (handle_cancel_owner_removal E now c i st)"
  "request_done E now clock c (Req_PeerVote i v) st (handle_submit_peer_vote E now clock c i v st)"
  "request_done E now clock c (Req_OpenAdmission fresh candidate reason) st (handle_open_owner_admission E now fresh c candidate reason st)"
  "request_done E now clock c (Req_CancelAdmission i) st (handle_cancel_owner_admission E now c i st)"
  "request_done E now clock c (Req_AdmissionVote i v) st (handle_submit_admission_vote E now clock c i v st)"
  "request_done E now clock c (Req_OpenProposal Suspension pid subject reason) st (handle_open_user_suspension E now pid c subject reason st)"
  "request_done E now clock c (Req_OpenProposal Reinstatement pid subject reason) st (handle_open_user_reinstatement E now pid c subject reason st)"
  "request_done E now clock c (Req_OpenProposal AdminAdmission pid subject reason) st (handle_open_admin_admission E now pid c subject reason st)"
  "request_done E now clock c (Req_CancelProposal i) st (handle_cancel_user_proposal E now c i st)"
  "request_done E now clock c (Req_ProposalVote i v) st (handle_submit_user_proposal_vote E now clock c i v st)"
  unfolding handle_open_owner_removal_def handle_cancel_owner_removal_def handle_submit_peer_vote_def handle_open_owner_admission_def
    handle_cancel_owner_admission_def handle_submit_admission_vote_def handle_open_user_suspension_def handle_open_user_reinstatement_def
    handle_open_admin_admission_def open_proposal_call_def handle_cancel_user_proposal_def handle_submit_user_proposal_vote_def
  by (rule done_act, rule does_with_arg, auto simp: spelling split: option.splits if_splits intro!: does_carry does_nothing)+

lemma reads_only:
  assumes "only_reads req" shows "gs_db (snd (serve_governance E created now clock c req st)) = gs_db st"
proof -
  have read: "gs_db (snd (svc_then (require_owner E c st) f)) = gs_db st" if "\<And>x st1. gs_db (snd (f x st1)) = gs_db st1" for f
    using that require_owner_state(1) [of E c st]
    by (cases "require_owner E c st"; cases "fst (require_owner E c st)") (auto simp: svc_then_def)
  show ?thesis
    using assms
    by (cases req) (simp_all add: only_reads_def after_def handle_list_owners_def handle_get_owner_removal_def
      handle_list_owner_removals_def handle_get_owner_admission_def handle_list_owner_admissions_def handle_get_user_proposal_def
      handle_list_user_proposals_def handle_watch_governance_def read with_arg_reader)
qed

text \<open>C2. A signed-in request does exactly what it spells. A request that only reads leaves the database
  alone. Any other is refused without a trace when the caller is no acting owner or an argument
  spells nothing; else the caller is seated, the database afterwards is what the one call of
  the store spelled by the request's ids, vote and caller leaves, and the answer is good exactly
  when that call's is. An answer from a mailbox is the decision its token, code and vote spell,
  confirmed exactly when the store decided.\<close>

theorem request_does_what_it_spells:
  "case req of
     Req_SelfDecision token code raw ip ua \<Rightarrow>
       if raw = 2 \<or> raw = 3 then
         let answer = self_decision E clock token code (if raw = 2 then Remove else Keep) now (forwarded_audit c ip ua) (gs_db st) in
         gs_db (snd (serve_governance E created now clock c req st)) = snd answer
         \<and> (fst (serve_governance E created now clock c req st) \<longleftrightarrow> (\<exists>x. fst answer = Inr (Decided x)))
       else \<not> fst (serve_governance E created now clock c req st) \<and> gs_db (snd (serve_governance E created now clock c req st)) = gs_db st
   | _ \<Rightarrow>
       if only_reads req then gs_db (snd (serve_governance E created now clock c req st)) = gs_db st
       else (case fst (acting_owner E c st) of
           Inl _ \<Rightarrow> \<not> fst (serve_governance E created now clock c req st) \<and> gs_db (snd (serve_governance E created now clock c req st)) = gs_db st
         | Inr u \<Rightarrow> seated_caller E c st (us_id u) \<and> (case spelled E now clock c req u of
             None \<Rightarrow> \<not> fst (serve_governance E created now clock c req st) \<and> gs_db (snd (serve_governance E created now clock c req st)) = gs_db st
           | Some call \<Rightarrow> consilium_call E call (gs_db st)
               = (fst (serve_governance E created now clock c req st), gs_db (snd (serve_governance E created now clock c req st)))))"
proof -
  show ?thesis
  proof (cases req)
    case (Req_SelfDecision token code raw ip ua)
    then show ?thesis
      by (auto simp: after_def handle_submit_self_decision_def with_arg_def vote_from_proto_def announce_def Let_def
          split: prod.split sum.split self_answer.split)
  next
    case (Req_OpenProposal k pid subject reason)
    show ?thesis
      unfolding Req_OpenProposal governance_request.case only_reads_def if_False serve_governance.simps after_def fst_conv snd_conv
      using acts_done(7-9) [unfolded request_done_def does_def] by (cases k) (simp_all only: user_proposal_kind.case)
  next
    case (Req_ResignOwnership m)
    show ?thesis
      unfolding Req_ResignOwnership governance_request.case only_reads_def if_False serve_governance.simps after_def fst_conv snd_conv
      by (rule resign_done [unfolded request_done_def does_def])
  qed (use acts_done [unfolded request_done_def does_def] reads_only [of req E created now clock c st]
      in \<open>simp_all only: governance_request.case only_reads_def serve_governance.simps after_def fst_conv snd_conv if_True if_False simp_thms\<close>)
qed

section \<open>One answer for every token that cannot be used\<close>

definition unusable_token :: "ext \<Rightarrow> 'z consilium_db_scheme \<Rightarrow> rstr \<Rightarrow> int \<Rightarrow> bool" where
  "unusable_token E db token now =
     (case find (\<lambda>k. tk_token_hash k = digest E token) (db_tokens db) of
        None \<Rightarrow> True
      | Some k \<Rightarrow> tk_burned_at k \<noteq> None \<or> tk_expires_at k \<le> now
          \<or> tk_used_at k = None \<and> (case load_removal E db (tk_removal_id k) of Inl _ \<Rightarrow> False | Inr r \<Rightarrow> removal_state r \<noteq> Open))"

definition spent_token :: "ext \<Rightarrow> 'z consilium_db_scheme \<Rightarrow> rstr \<Rightarrow> bool" where
  "spent_token E db token =
     (case find (\<lambda>k. tk_token_hash k = digest E token) (db_tokens db) of None \<Rightarrow> False | Some k \<Rightarrow> tk_used_at k \<noteq> None)"

lemma unusable_answer:
  assumes "unusable_token E db token now"
  shows "self_decision E clock token code v now au db = (Inr Unusable, db)"
proof -
  have "answer_tx E clock token code v now au db = (Inr (Answered Unusable), db)"
  proof (cases "find (\<lambda>k. tk_token_hash k = digest E token) (db_tokens (lock_governance db))")
    case None
    then show ?thesis by (simp add: answer_tx_def transact_def)
  next
    case (Some k)
    then have found: "find (\<lambda>k. tk_token_hash k = digest E token) (db_tokens db) = Some k" by (simp add: lock_governance_def)
    consider "tk_burned_at k \<noteq> None \<or> tk_expires_at k \<le> now"
      | r where "tk_burned_at k = None" "now < tk_expires_at k" "tk_used_at k = None"
          "load_removal E db (tk_removal_id k) = Inr r" "removal_state r \<noteq> Open"
      using assms not_le by (auto simp: unusable_token_def found split: sum.splits)
    then show ?thesis
    proof cases
      case 1
      then show ?thesis using Some by (auto simp: answer_tx_def transact_def)
    next
      case (2 r)
      then have closed: "\<not> is_open (removal_state r)" by (cases "removal_state r") (auto simp: is_open_def)
      with 2 Some show ?thesis by (simp add: answer_tx_def transact_def expire_if_due_def Let_def loads_lock)
    qed
  qed
  then show ?thesis by (simp add: self_decision_def)
qed

lemma unusable_invitation:
  assumes ok: "gov_ok E db" and "unusable_token E db token now \<or> spent_token E db token"
  shows "invitation E db token now = Inr None"
proof (cases "find (\<lambda>k. tk_token_hash k = digest E token) (db_tokens db)")
  case None
  then show ?thesis by (simp add: invitation_def)
next
  case token: (Some k)
  show ?thesis
  proof (cases "find (\<lambda>r. rr_id r = tk_removal_id k) (db_removals db)")
    case None
    with token show ?thesis by (simp add: invitation_def)
  next
    case (Some w)
    then have "w \<in> set (db_removals db)" "rr_id w = tk_removal_id k" by (auto dest: find_Some_in)
    then obtain r where r: "load_removal E db (tk_removal_id k) = Inr r"
      using ok by (auto simp: gov_ok_def removals.stored_ok_def)
    then obtain st where st: "proposal_state_parse (rr_state w) = Inr st" "removal_state r = st"
      by (auto simp: load_removal_def Some result_simps rehydrate_removal_def removal_state_def removal_rehydrate_def lc_rehydrate_def)
    have closed: "\<not> is_open (effective_state st (rr_expires_at w) now)" if "st \<noteq> Open"
      using that by (cases st) (auto simp: effective_state_def is_open_def)
    show ?thesis
      using assms(2) token Some r st closed
      by (auto simp: invitation_def unusable_token_def spent_token_def split: option.splits)
  qed
qed

text \<open>C3. A token tells nothing to who should not have it. On every reachable database a token that
  names no removal, is burned, expired, or names one already decided gets one and the same
  answer from both mailbox requests, whatever code and vote come with it, and submitting it
  changes nothing; reading a token already spent, or none, gets that answer too.
\<close>

theorem dead_tokens_look_alike:
  fixes st :: "consilium_db governance_state"
  assumes "gs_db st = run_consilium E calls (empty_consilium meanings)"
  shows "(unusable_token E (gs_db st) token now \<and> vote_from_proto raw = Inr v \<longrightarrow>
      handle_submit_self_decision E now clock c token code raw ip ua st = (Inl (Status NotFoundCode INVITATION_MISSING), st))
    \<and> (unusable_token E (gs_db st) token now \<or> spent_token E (gs_db st) token \<or> token = [] \<longrightarrow>
      handle_get_invitation E now token st = Inl (Status NotFoundCode INVITATION_MISSING))"
proof -
  have "handle_submit_self_decision E now clock c token code raw ip ua st = (Inl (Status NotFoundCode INVITATION_MISSING), st)"
    if "unusable_token E (gs_db st) token now" "vote_from_proto raw = Inr v"
    using that by (simp add: handle_submit_self_decision_def with_arg_def unusable_answer)
  moreover have "gov_ok E (gs_db st)" unfolding assms by (rule reachable_ok)
  then have "handle_get_invitation E now token st = Inl (Status NotFoundCode INVITATION_MISSING)"
    if "unusable_token E (gs_db st) token now \<or> spent_token E (gs_db st) token \<or> token = []"
    using that unusable_invitation [of E "gs_db st" token now] by (cases "token = []") (simp_all add: handle_get_invitation_def)
  ultimately show ?thesis by blast
qed

end
