(* ===== verification/Invitation_Guesses.thy ===== *)
theory Invitation_Guesses
  imports Consilium_Guarantees
begin

text \<open>
  The code of a mailed invitation cannot be tried at will: over any run of the governance
  plane the answers of \<open>self_decision\<close> to one token say "wrong code" at most five times.
\<close>

section \<open>The guesses left on a token\<close>

definition tokens_ok :: "token_row list \<Rightarrow> bool" where
  "tokens_ok ts \<longleftrightarrow> distinct (map tk_removal_id ts) \<and> distinct (map tk_token_hash ts) \<and> (\<forall>k\<in>set ts. tk_attempts k \<le> 5)"

definition guesses_left :: "rstr \<Rightarrow> token_row list \<Rightarrow> int" where
  "guesses_left h ts = (case find (\<lambda>k. tk_token_hash k = h) ts of None \<Rightarrow> 5 | Some k \<Rightarrow> 5 - tk_attempts k)"

lemma guesses_left_nonneg: "tokens_ok ts \<Longrightarrow> 0 \<le> guesses_left h ts"
  by (auto simp: guesses_left_def tokens_ok_def dest: find_Some_in split: option.splits)

definition spends :: "rstr \<Rightarrow> nat \<Rightarrow> token_row list \<Rightarrow> token_row list \<Rightarrow> bool" where
  "spends h n ts ts' \<longleftrightarrow> tokens_ok ts' \<and> guesses_left h ts' + int n \<le> guesses_left h ts"

lemma spends_refl [simp]: "spends h 0 ts ts \<longleftrightarrow> tokens_ok ts"
  by (simp add: spends_def)

lemma spends_trans: "spends h m a b \<Longrightarrow> spends h n b c \<Longrightarrow> spends h (m + n) a c"
  by (auto simp: spends_def)

lemma find_map_kept: "(\<And>x. P (f x) = P x) \<Longrightarrow> find P (map f xs) = map_option f (find P xs)"
  by (induction xs) auto

lemma insert_token_spends:
  assumes "insert_token E db i token code at = Inr db'" and "tokens_ok (db_tokens db)"
  shows "spends h 0 (db_tokens db) (db_tokens db')"
proof -
  obtain k where k: "db_tokens db' = db_tokens db @ [k]" "tk_attempts k = 0"
    "\<forall>w\<in>set (db_tokens db). tk_removal_id w \<noteq> tk_removal_id k" "\<forall>w\<in>set (db_tokens db). tk_token_hash w \<noteq> tk_token_hash k"
    using assms(1) by (auto simp: insert_token_def Let_def rbind_Inr_iff check_row_Inr token_checks_def list_ex_iff)
  have "find P (xs @ [k]) = (case find P xs of None \<Rightarrow> if P k then Some k else None | Some x \<Rightarrow> Some x)" for P and xs :: "token_row list"
    by (induction xs) auto
  then show ?thesis
    using assms(2) k by (auto simp: spends_def tokens_ok_def guesses_left_def image_iff split: option.splits)
qed

lemma update_token_spends:
  assumes up: "update_token E db i f = Inr db'" and ok: "tokens_ok (db_tokens db)"
    and f: "\<And>w. tk_removal_id (f w) = tk_removal_id w" "\<And>w. tk_token_hash (f w) = tk_token_hash w"
      "\<And>w. tk_attempts (f w) = tk_attempts w + int n"
    and k: "find (\<lambda>k. tk_token_hash k = h') (db_tokens db) = Some k" "tk_removal_id k = i"
  shows "spends h (if h = h' then n else 0) (db_tokens db) (db_tokens db')"
proof -
  let ?g = "\<lambda>w. if tk_removal_id w = i then f w else w"
  have "k \<in> set (db_tokens db)" using k(1) by (rule find_Some_in [THEN conjunct1])
  then obtain k' where k': "find (\<lambda>w. tk_removal_id w = i) (db_tokens db) = Some k'" using k(2)
    by (cases "find (\<lambda>w. tk_removal_id w = i) (db_tokens db)") (auto simp: find_None_iff)
  have kk: "k' \<in> set (db_tokens db)" "tk_removal_id k' = i" using find_Some_in [OF k'] by auto
  have only: "w = k'" if "w \<in> set (db_tokens db)" "tk_removal_id w = i" for w
    using ok that kk by (auto simp: tokens_ok_def distinct_map inj_on_def)
  have db': "db_tokens db' = map ?g (db_tokens db)" and small: "tk_attempts (f k') \<le> 5"
    using up k' by (auto simp: update_token_def rbind_Inr_iff check_row_Inr token_checks_def)
  have keys: "map tk_removal_id (map ?g ts) = map tk_removal_id ts" "map tk_token_hash (map ?g ts) = map tk_token_hash ts" for ts
    using f(1,2) by (simp_all add: comp_def)
  have "tk_attempts (?g w) \<le> 5" if "w \<in> set (db_tokens db)" for w
    using that only small ok by (auto simp: tokens_ok_def)
  then have "\<forall>w\<in>set (map ?g (db_tokens db)). tk_attempts w \<le> 5" unfolding set_map ball_simps by (rule ballI)
  then have "tokens_ok (db_tokens db')"
    using ok unfolding tokens_ok_def db' keys by blast
  moreover have "find (\<lambda>k. tk_token_hash k = h) (db_tokens db') = map_option ?g (find (\<lambda>k. tk_token_hash k = h) (db_tokens db))"
    unfolding db' by (rule find_map_kept) (simp add: f)
  ultimately show ?thesis
    using k f(3) by (auto simp: spends_def guesses_left_def split: option.splits)
qed

text \<open>Everything else leaves the tokens alone.\<close>

lemma tokens_persist [simp]:
  "persist_removal E db r actor au now = Inr (db', r') \<Longrightarrow> db_tokens db' = db_tokens db"
  "persist_admission E db a actor au now = Inr (db', a') \<Longrightarrow> db_tokens db' = db_tokens db"
  "persist_proposal E db p actor au now = Inr (db', p') \<Longrightarrow> db_tokens db' = db_tokens db"
  using persist_tables(1) [of E db r actor au now db' r'] persist_tables(2) [of E db a actor au now db' a']
    persist_tables(3) [of E db p actor au now db' p'] by blast+

lemma tokens_same: "consilium_same db db' \<Longrightarrow> db_tokens db' = db_tokens db"
  by (simp add: same_defs)

lemma tokens_decide:
  assumes "\<And>db a actor au db' a'. persist db a actor au now = Inr (db', a') \<Longrightarrow> db_tokens db' = db_tokens db"
    and "\<And>db a db' a'. act db a = Inr (db', a') \<Longrightarrow> consilium_same db db'"
  shows "db_tokens (snd (decide load due persist expired act actor au now db)) = db_tokens db"
proof (rule decide_keeps [where P = "\<lambda>d. db_tokens d = db_tokens db"])
  fix d a d' a' assume "db_tokens d = db_tokens db" "act d a = Inr (d', a')"
  then show "db_tokens d' = db_tokens db" using assms(2) tokens_same by metis
next
  fix d a actor au d' a' assume "db_tokens d = db_tokens db" "persist d a actor au now = Inr (d', a')"
  then show "db_tokens d' = db_tokens db" using assms(1) by metis
qed simp_all

lemma tokens_close_stale:
  assumes "close_stale stale load due persist now db = Inr db'"
    and "\<And>db a actor au db' a'. persist db a actor au now = Inr (db', a') \<Longrightarrow> db_tokens db' = db_tokens db"
  shows "db_tokens db' = db_tokens db"
  by (rule close_stale_keeps [OF refl assms(1)]) (use assms(2) in auto)

lemma tokens_votes:
  "db_tokens (snd (peer_vote E clock ri u v now au db)) = db_tokens db"
  "db_tokens (snd (cancel_removal E ri u now db)) = db_tokens db"
  "db_tokens (snd (store_admission_vote E clock ai u av now au db)) = db_tokens db"
  "db_tokens (snd (cancel_admission E ai u now db)) = db_tokens db"
  "db_tokens (snd (user_proposal_vote E clock pi u pv now au db)) = db_tokens db"
  "db_tokens (snd (cancel_user_proposal E pi u now db)) = db_tokens db"
  unfolding peer_vote_def cancel_removal_def store_admission_vote_def cancel_admission_def user_proposal_vote_def
    cancel_user_proposal_def snd_then_read
       apply (rule tokens_decide [OF tokens_persist(1)], assumption, drule act_steps(1), elim conjE, assumption)
      apply (rule tokens_decide [OF tokens_persist(1)], assumption, drule act_steps(2), elim conjE, assumption)
     apply (rule tokens_decide [OF tokens_persist(2)], assumption, drule act_steps(3), elim conjE, assumption)
    apply (rule tokens_decide [OF tokens_persist(2)], assumption, drule act_steps(4), elim conjE, assumption)
   apply (rule tokens_decide [OF tokens_persist(3)], assumption, drule act_steps(5), elim conjE, assumption)
  apply (rule tokens_decide [OF tokens_persist(3)], assumption, drule act_steps(6), elim conjE, assumption)
  done

lemma tokens_opens:
  "db_tokens (snd (open_admission E fresh c n reason now db)) = db_tokens db"
  "db_tokens (snd (open_user_proposal E pfresh k s n reason now db)) = db_tokens db"
  unfolding open_admission_def open_user_proposal_def snd_then_read
   apply (rule transact_keeps [where P = "\<lambda>d. db_tokens d = db_tokens db"], simp)
  subgoal premises prems for out db'
    using prems unfolding Let_def rbind_Inr_iff split_paired_Ex prod.case
    by (elim exE conjE)
      (drule tokens_close_stale [OF _ tokens_persist(2)], assumption, drule insert_tables(2), drule tokens_persist(2), simp)
  apply (rule transact_keeps [where P = "\<lambda>d. db_tokens d = db_tokens db"], simp)
  subgoal premises prems for out db'
    using prems unfolding Let_def rbind_Inr_iff split_paired_Ex prod.case
    by (elim exE conjE)
      (drule tokens_close_stale [OF _ tokens_persist(3)], assumption, drule insert_tables(3), drule tokens_persist(3), simp)
  done

lemma tokens_set_seat: "set_seat E clock seat db i = Inr db' \<Longrightarrow> db_tokens db' = db_tokens db"
  by (drule set_seat_same) (rule tokens_same)

lemma tokens_resign: "db_tokens (snd (resign E clock who now db)) = db_tokens db"
proof -
  obtain out db' where res: "resign E clock who now db = (out, db')" by fastforce
  then show ?thesis
  proof (cases rule: resign_cases)
    case refused
    with res show ?thesis by simp
  next
    case (left db1)
    have "db_tokens db1 = db_tokens db" using left(3) tokens_persist(1) tokens_lock by metis
    then show ?thesis using tokens_set_seat [OF left(4)] res by simp
  qed
qed

lemma tokens_grant: "grant_seats E clock ids db = Inr db' \<Longrightarrow> db_tokens db' = db_tokens db"
  by (induction E clock ids db arbitrary: db' rule: grant_seats.induct)
    (auto simp: rbind_Inr_iff grant_seat_def dest!: tokens_set_seat)

lemma tokens_seed: "genesis_seed E clock subjects db = Some (out, db') \<Longrightarrow> db_tokens db' = db_tokens db"
  by (erule seed_cases) (auto dest: tokens_grant)

lemma tokens_mail: "db_tokens (snd (enqueue_mail E clock fresh token i r v kind key payload db)) = db_tokens db"
  by (auto simp: enqueue_mail_def split: sum.splits dest!: mail_tables tokens_same)

section \<open>Counting wrong answers\<close>

definition wrong_answer :: "ext \<Rightarrow> rstr \<Rightarrow> gov_call \<Rightarrow> 'z consilium_db_scheme \<Rightarrow> nat" where
  "wrong_answer E token c db = (case c of
     Gov_SelfDecision clock token' code v now au \<Rightarrow>
       (if token' = token \<and> (\<exists>n. fst (self_decision E clock token code v now au db) = Inr (WrongCode n)) then 1 else 0)
   | _ \<Rightarrow> 0)"

fun wrong_answers :: "ext \<Rightarrow> rstr \<Rightarrow> gov_call list \<Rightarrow> 'z consilium_db_scheme \<Rightarrow> nat" where
  "wrong_answers E token [] db = 0"
| "wrong_answers E token (c # cs) db = wrong_answer E token c db + wrong_answers E token cs (snd (consilium_call E c db))"

lemma update_token_find:
  assumes "update_token E db i f = Inr db'" and "\<And>w. tk_removal_id (f w) = tk_removal_id w" "\<And>w. tk_token_hash (f w) = tk_token_hash w"
    and "find (\<lambda>k. tk_token_hash k = h) (db_tokens db) = Some k"
  obtains k' where "find (\<lambda>k. tk_token_hash k = h) (db_tokens db') = Some k'" "tk_removal_id k' = tk_removal_id k"
  using assms by (auto simp: update_token_def rbind_Inr_iff find_map_kept split: option.splits)

text \<open>Counting an answer costs one guess, whatever flag is then set on the token.\<close>

lemma counted_then_flagged:
  assumes "tokens_ok (db_tokens db)" and "find (\<lambda>k. tk_token_hash k = h') (db_tokens db) = Some k"
    and "update_token E (lock_governance db) (tk_removal_id k) (\<lambda>w. w\<lparr>tk_attempts := tk_attempts w + 1\<rparr>) = Inr db1"
  shows "spends h (if h = h' then 1 else 0) (db_tokens db) (db_tokens db1)"
    and "db_tokens db2 = db_tokens db1 \<Longrightarrow> update_token E db2 (tk_removal_id k) (\<lambda>w. w\<lparr>tk_burned_at := b\<rparr>) = Inr db3 \<Longrightarrow>
      spends h (if h = h' then 1 else 0) (db_tokens db) (db_tokens db3)"
    and "db_tokens db2 = db_tokens db1 \<Longrightarrow> update_token E db2 (tk_removal_id k) (\<lambda>w. w\<lparr>tk_used_at := b\<rparr>) = Inr db3 \<Longrightarrow>
      spends h (if h = h' then 1 else 0) (db_tokens db) (db_tokens db3)"
proof -
  show one: "spends h (if h = h' then 1 else 0) (db_tokens db) (db_tokens db1)"
    using update_token_spends [OF assms(3), where h = h and h' = h' and n = 1 and k = k] assms(1,2) by simp
  obtain k1 where k1: "find (\<lambda>k. tk_token_hash k = h') (db_tokens db1) = Some k1" "tk_removal_id k1 = tk_removal_id k"
    using update_token_find [OF assms(3), where h = h' and k = k] assms(2) by auto
  have ok1: "tokens_ok (db_tokens db1)" using one by (simp add: spends_def)
  show "spends h (if h = h' then 1 else 0) (db_tokens db) (db_tokens db3)"
    if same: "db_tokens db2 = db_tokens db1" and up: "update_token E db2 (tk_removal_id k) (\<lambda>w. w\<lparr>tk_burned_at := b\<rparr>) = Inr db3"
  proof -
    have "spends h 0 (db_tokens db1) (db_tokens db3)"
      using update_token_spends [OF up, where h = h and h' = h' and n = 0 and k = k1] ok1 k1 same by simp
    from spends_trans [OF one this] show ?thesis by simp
  qed
  show "spends h (if h = h' then 1 else 0) (db_tokens db) (db_tokens db3)"
    if same: "db_tokens db2 = db_tokens db1" and up: "update_token E db2 (tk_removal_id k) (\<lambda>w. w\<lparr>tk_used_at := b\<rparr>) = Inr db3"
  proof -
    have "spends h 0 (db_tokens db1) (db_tokens db3)"
      using update_token_spends [OF up, where h = h and h' = h' and n = 0 and k = k1] ok1 k1 same by simp
    from spends_trans [OF one this] show ?thesis by simp
  qed
qed

lemma spends_less: "spends h n ts ts' \<Longrightarrow> m \<le> n \<Longrightarrow> spends h m ts ts'"
  by (simp add: spends_def)

lemma removal_tx_spends:
  assumes "tokens_ok (db_tokens db)"
  shows "spends h 0 (db_tokens db) (db_tokens (snd (open_removal E clock base d t n reason now db)))"
proof (cases "removal_tx E clock base d t n reason now db")
  case (Pair out db')
  show ?thesis
  proof (cases out)
    case (Inl e)
    then show ?thesis
      using Pair removal_tx_refused [of E clock base d t n reason now db e] assms by (simp add: open_removal_def)
  next
    case (Inr u)
    with Pair have "removal_tx E clock base d t n reason now db = (Inr (), db')" by simp
    then have "spends h 0 (db_tokens db) (db_tokens db')"
    proof (cases rule: removal_tx_parts)
      case (1 db1 r db2 db3 tu nu db4 sub db5 q r')
      have "db_tokens db1 = db_tokens db" using tokens_close_stale [OF 1(1) tokens_persist(1)] by simp
      then have "db_tokens db2 = db_tokens db" using insert_tables(1) [OF 1(3)] by simp
      moreover have "db_tokens db' = db_tokens db3"
        using mail_tables(1) [OF 1(7)] mail_tables(2) [OF 1(8)] tokens_persist(1) [OF 1(9)] by (simp add: same_defs)
      ultimately show ?thesis using insert_token_spends [OF 1(4), of h] assms by simp
    qed
    then show ?thesis by (simp add: open_removal_def Pair)
  qed
qed

lemma self_decision_spends:
  assumes ok: "tokens_ok (db_tokens db)"
  shows "spends h (if h = digest E token \<and> (\<exists>n. fst (self_decision E clock token code v now au db) = Inr (WrongCode n)) then 1 else 0)
    (db_tokens db) (db_tokens (snd (self_decision E clock token code v now au db)))"
proof -
  obtain out db' where res: "answer_tx E clock token code v now au db = (out, db')" by fastforce
  have snd: "snd (self_decision E clock token code v now au db) = db'" by (simp add: self_decision_def res)
  have wrong: "\<exists>n. out = Inr (Answered (WrongCode n))" if "fst (self_decision E clock token code v now au db) = Inr (WrongCode n)" for n
    using that by (cases out) (auto simp: self_decision_def res decided_def rbind_Inr_iff Let_def split: answer.splits option.splits)
  show ?thesis
    using res
  proof (cases rule: answer_tx_cases)
    case unchanged
    then show ?thesis using ok snd wrong by fastforce
  next
    case (lapsed k r r' db1 r1)
    then show ?thesis using ok snd wrong tokens_persist(1) [OF lapsed(6)] by fastforce
  next
    case (guessed k db1)
    have "spends h (if h = digest E token then 1 else 0) (db_tokens db) (db_tokens db')"
      using guessed(4) counted_then_flagged(1) [OF ok guessed(1,3), of h] counted_then_flagged(2) [OF ok guessed(1,3) refl, of _ db' h] by blast
    then show ?thesis using snd by (auto intro: spends_less)
  next
    case (accepted k r r1 db1 db2 r2 db3 r3 db4)
    have "db_tokens db3 = db_tokens db1"
      using tokens_persist(1) [OF accepted(10)] only_settle(1) [OF accepted(9)] tokens_same by metis
    then have "spends h (if h = digest E token then 1 else 0) (db_tokens db) (db_tokens db')"
      using counted_then_flagged(3) [OF ok accepted(1,6) _ accepted(11), of h] accepted(13) by simp
    then show ?thesis using snd by (auto intro: spends_less)
  qed
qed

lemma call_spends:
  assumes "tokens_ok (db_tokens db)"
  shows "spends (digest E token) (wrong_answer E token c db) (db_tokens db) (db_tokens (snd (consilium_call E c db)))"
proof (cases c)
  case (Gov_OpenRemoval clock base d t n reason now)
  then show ?thesis using removal_tx_spends [OF assms] by (simp add: wrong_answer_def)
next
  case (Gov_SelfDecision clock token' code v now au)
  show ?thesis
    unfolding Gov_SelfDecision consilium_call.simps snd_outcome_of
    by (rule spends_less [OF self_decision_spends [OF assms]]) (auto simp: wrong_answer_def)
next
  case (Gov_Hold clock i a u now)
  then show ?thesis using assms by (simp add: wrong_answer_def hold_user_def tokens_same [OF hold_same])
next
  case (Gov_Seed clock subjects)
  then show ?thesis using assms by (auto simp: wrong_answer_def dest: tokens_seed split: option.splits)
next
  case (Gov_Directory d)
  then show ?thesis using assms by (simp add: wrong_answer_def tokens_same [OF directory_call_same])
qed (simp_all add: assms wrong_answer_def tokens_votes tokens_opens tokens_resign tokens_mail)

lemma run_spends:
  "tokens_ok (db_tokens db) \<Longrightarrow> int (wrong_answers E token calls db) \<le> guesses_left (digest E token) (db_tokens db)"
proof (induction calls arbitrary: db)
  case Nil
  then show ?case by (simp add: guesses_left_nonneg)
next
  case (Cons c cs)
  have "tokens_ok (db_tokens (snd (consilium_call E c db)))"
    "guesses_left (digest E token) (db_tokens (snd (consilium_call E c db))) + int (wrong_answer E token c db)
       \<le> guesses_left (digest E token) (db_tokens db)"
    using call_spends [OF Cons.prems, of E token c] by (simp_all add: spends_def)
  with Cons.IH [OF this(1)] show ?case by simp
qed

text \<open>C18. Five guesses and no more: over any run of the governance plane from an empty database,
  whatever else happens in between, the holder of an invitation is told "wrong code" at most
  five times for it, across all removals, retries and repeated mails.
\<close>

theorem guesses_bounded: "wrong_answers E token calls (empty_consilium meanings) \<le> 5"
proof -
  have "tokens_ok (db_tokens (empty_consilium meanings))" by (simp add: tokens_ok_def empty_consilium_def)
  from run_spends [OF this, of E token calls] show ?thesis by (simp add: guesses_left_def empty_consilium_def)
qed

end
