(* ===== verification/Governance_Samples.thy ===== *)
theory Governance_Samples
  imports Invitation_Guesses
begin

text \<open>
  The bridge and the registry over runs of the whole governance plane, and concrete runs: a
  fund is founded, admits a third owner, and removes them again. The guarantees are applied
  to these runs.
\<close>

section \<open>The bridge and the registry\<close>

text \<open>C23. The bridge to the money plane tells the truth whatever the consilium decides: after any
  run of requests, votes, resignations and genesis every account has outbox rows, its sequence
  numbers strictly increase and do not pass the row's version, the last row carries the seat,
  the KYC level and the session version of the account, and replaying the kinds gives frozen
  exactly when it is disabled.
\<close>

theorem bridge_tells_truth_governed:
  fixes E :: ext and meanings :: "(rstr \<times> rstr list \<times> nat) list" and calls :: "gov_call list"
  defines "db \<equiv> run_consilium E calls (empty_consilium meanings)"
  assumes "r \<in> set (db_users db)"
  defines "rows \<equiv> filter (\<lambda>w. ob_user_id w = ur_id r) (db_outbox db)"
  shows "rows \<noteq> [] \<and> sorted_wrt (<) (map ob_sequence rows) \<and> ob_sequence (last rows) \<le> ur_row_version r
    \<and> ob_role (last rows) = ur_role r \<and> ob_kyc_level (last rows) = ur_kyc_level r
    \<and> ob_token_version (last rows) = ur_token_version r
    \<and> outbox_frozen rows = (ur_status r = user_status_as_str Disabled)"
  unfolding rows_def
  by (rule bridge_row [OF _ _ assms(2)]) (use reachable_ok in \<open>auto simp: db_def gov_ok_def\<close>)

text \<open>C24. Accounts stay apart under governance: after any run two different rows share neither id
  nor subject, nor a handle, nor an address that is proven for both.
\<close>

theorem accounts_stay_apart_governed:
  fixes E :: ext and meanings :: "(rstr \<times> rstr list \<times> nat) list" and calls :: "gov_call list"
  defines "db \<equiv> run_consilium E calls (empty_consilium meanings)"
  assumes "r \<in> set (db_users db)" and "s \<in> set (db_users db)" and "r \<noteq> s"
  shows "ur_id r \<noteq> ur_id s \<and> ur_auth_subject r \<noteq> ur_auth_subject s
    \<and> (ur_username r = None \<or> ur_username r \<noteq> ur_username s)
    \<and> \<not> (ur_email_verified r \<and> ur_email_verified s \<and> ur_email r \<noteq> None
         \<and> map_option (pg_lower E) (ur_email r) = map_option (pg_lower E) (ur_email s))"
proof -
  have apart: "users_apart E db" using reachable_ok by (auto simp: db_def gov_ok_def)
  then have "ur_id r \<noteq> ur_id s" using assms(2-4) by (auto simp: users_apart_def distinct_map inj_on_def)
  moreover from this have "\<not> clash E r s" using apart assms(2,3) by (simp add: users_apart_def)
  ultimately show ?thesis by (simp add: clash_def)
qed

section \<open>A fund in use\<close>

definition founding :: "gov_call list" where
  "founding =
     [Gov_Directory (Call_Resolve 10 (UserId 1) (sample_identity ''ada@example.com'' True) 10),
      Gov_Directory (Call_Resolve 20 (UserId 2) (sample_identity ''bob@example.com'' True) 20),
      Gov_Directory (Call_Resolve 30 (UserId 3) (sample_identity ''eve@example.com'' True) 30),
      Gov_Seed 40 [lit ''ada@example.com'', lit ''bob@example.com'']]"

definition admission_vote_sample :: gov_call where
  "admission_vote_sample = Gov_AdmissionVote 60 (AdmissionId 1) (UserId 2) Admit 60 audit_default"

definition admitting :: "gov_call list" where
  "admitting = [Gov_OpenAdmission (AdmissionId 1) (UserId 3) (UserId 1) (lit ''growth'') 50, admission_vote_sample]"

definition sample_draws :: removal_draws where
  "sample_draws = \<lparr>rd_id = RemovalId 1, rd_token = lit ''token'', rd_code_bytes = [1, 2], rd_subscriber = 1,
     rd_unsubscribe_token = lit ''unsubscribe''\<rparr>"

definition removal_opened :: gov_call where
  "removal_opened = Gov_OpenRemoval 70 (lit ''https://fund'') sample_draws (UserId 3) (UserId 1) (lit ''left'') 70"

definition removal_vote_sample :: gov_call where
  "removal_vote_sample = Gov_PeerVote 80 (RemovalId 1) (UserId 2) Remove 80 audit_default"

definition suspension_opened :: gov_call where
  "suspension_opened = Gov_OpenProposal (UserProposalId 1) Suspension (UserId 3) (UserId 1) (lit ''review'') 50"

definition suspension_vote_sample :: gov_call where
  "suspension_vote_sample = Gov_ProposalVote 60 (UserProposalId 1) (UserId 2) proposal_vote.For 60 audit_default"

abbreviation fund :: "gov_call list \<Rightarrow> consilium_db" where
  "fund calls \<equiv> run_consilium ascii_ext calls (empty_consilium sample_meanings)"

lemma sample_seats:
  "owner_ids_for_update (fund founding) = [UserId 1, UserId 2]"
  "owner_ids_for_update (fund (founding @ admitting @ [removal_opened])) = [UserId 1, UserId 2, UserId 3]"
  "owner_ids_for_update (fund (founding @ admitting @ [removal_opened, removal_vote_sample])) = [UserId 1, UserId 2]"
  by code_simp+

lemma sample_verdicts:
  "\<not> verdict_at (fund (founding @ [suspension_opened])) (UserId 3)"
  "verdict_at (snd (consilium_call ascii_ext suspension_vote_sample (fund (founding @ [suspension_opened])))) (UserId 3)"
  by code_simp+

lemma sample_stored:
  "map rr_id (db_removals (fund (founding @ admitting @ [removal_opened, removal_vote_sample]))) = [RemovalId 1]"
  by code_simp

theorem owner_floor_witness:
  "2 \<le> card (owner_set (run_consilium ascii_ext (admitting @ [removal_opened, removal_vote_sample]) (fund founding)))"
proof -
  have "owner_set (fund founding) \<noteq> {}" using owner_ids_set [of "fund founding"] by (force simp: sample_seats)
  with owner_floor [of founding "admitting @ [removal_opened, removal_vote_sample]" ascii_ext sample_meanings]
  show ?thesis by (simp add: founding_def admitting_def reachable_call_def is_request_def admission_vote_sample_def
      removal_opened_def removal_vote_sample_def)
qed

theorem seats_on_record_witness:
  "\<exists>k r. load_removal ascii_ext (fund (founding @ admitting @ [removal_opened, removal_vote_sample])) k = Inr r
     \<and> rm_target r = UserId 3 \<and> removal_state r = proposal_state.Executed"
proof -
  let ?db = "fund (founding @ admitting @ [removal_opened])"
  have after_vote: "fund (founding @ admitting @ [removal_opened, removal_vote_sample]) = snd (consilium_call ascii_ext removal_vote_sample ?db)"
    using run_consilium_snoc [of ascii_ext "founding @ admitting @ [removal_opened]" removal_vote_sample "empty_consilium sample_meanings"] by simp
  have "seat_at Owner ?db (UserId 3)" "\<not> seat_at Owner (snd (consilium_call ascii_ext removal_vote_sample ?db)) (UserId 3)"
    using owner_ids_set [of ?db, unfolded sample_seats(2), symmetric]
      owner_ids_set [of "fund (founding @ admitting @ [removal_opened, removal_vote_sample])", unfolded sample_seats(3), symmetric]
    unfolding after_vote owners_iff [symmetric] by (simp_all flip: after_vote)
  with seats_on_record [where c = removal_vote_sample and calls = "founding @ admitting @ [removal_opened]"
      and E = ascii_ext and meanings = sample_meanings and i = "UserId 3"]
  show ?thesis unfolding after_vote by (auto simp: reachable_call_def removal_vote_sample_def)
qed

theorem verdicts_on_record_witness:
  "decided_now ascii_ext Suspension (UserId 3) (fund (founding @ [suspension_opened]))
     (snd (consilium_call ascii_ext suspension_vote_sample (fund (founding @ [suspension_opened]))))"
  using verdicts_on_record [where c = suspension_vote_sample and i = "UserId 3" and E = ascii_ext
      and calls = "founding @ [suspension_opened]" and meanings = sample_meanings] sample_verdicts
  by (simp add: reachable_call_def suspension_vote_sample_def)

definition overdue_removal :: owner_removal where
  "overdue_removal = projr (load_removal ascii_ext (fund (founding @ admitting @ [removal_opened])) (RemovalId 1))"

theorem overdue_never_binds_witness:
  "\<not> is_ok (fst (peer_vote ascii_ext 0 (RemovalId 1) (UserId 2) Remove (70 + REMOVAL_TTL_SECS) audit_default
      (fund (founding @ admitting @ [removal_opened]))))"
proof -
  have "load_removal ascii_ext (fund (founding @ admitting @ [removal_opened])) (RemovalId 1) = Inr overdue_removal"
    "removal_state overdue_removal = Open" "lc_expires_at (rm_life overdue_removal) \<le> 70 + REMOVAL_TTL_SECS"
    by code_simp+
  then show ?thesis using overdue_never_binds by blast
qed

theorem stored_proposals_wellformed_witness:
  "\<exists>r. load_removal ascii_ext (fund (founding @ admitting @ [removal_opened, removal_vote_sample])) (RemovalId 1) = Inr r \<and> removal_inv r"
  using stored_proposals_wellformed [where E = ascii_ext and meanings = sample_meanings
      and calls = "founding @ admitting @ [removal_opened, removal_vote_sample]"] sample_stored
  by (auto simp: map_eq_Cons_conv)

theorem audit_log_complete_witness:
  "\<exists>r. load_removal ascii_ext (fund (founding @ admitting @ [removal_opened, removal_vote_sample])) (RemovalId 1) = Inr r
     \<and> audited (fund (founding @ admitting @ [removal_opened, removal_vote_sample])) (Subject_Removal (RemovalId 1)) (rm_life r)"
  using audit_log_complete [where E = ascii_ext and meanings = sample_meanings
      and calls = "founding @ admitting @ [removal_opened, removal_vote_sample]"] sample_stored
  by (auto simp: map_eq_Cons_conv)

theorem genesis_total_witness:
  "\<exists>out. genesis_seed ascii_ext 90 [lit ''eve@example.com'', lit ''ada@example.com''] (fund founding) = Some (out, fund founding)"
  using genesis_total [where E = ascii_ext and clock = 90 and subjects = "[lit ''eve@example.com'', lit ''ada@example.com'']"
      and calls = founding and meanings = sample_meanings]
    owner_ids_set [of "fund founding"] by (auto simp: sample_seats)

theorem bridge_tells_truth_governed_witness:
  "\<exists>r\<in>set (db_users (fund founding)). ob_role (last (filter (\<lambda>w. ob_user_id w = ur_id r) (db_outbox (fund founding)))) = ur_role r"
proof -
  have "db_users (fund founding) \<noteq> []" by code_simp
  then obtain r where r: "r \<in> set (db_users (fund founding))" by (cases "db_users (fund founding)") auto
  from bridge_tells_truth_governed [OF r] show ?thesis using r by blast
qed

theorem accounts_stay_apart_governed_witness:
  "\<exists>r s. r \<in> set (db_users (fund founding)) \<and> s \<in> set (db_users (fund founding)) \<and> ur_auth_subject r \<noteq> ur_auth_subject s"
proof -
  have "map ur_id (db_users (fund founding)) = [UserId 1, UserId 2, UserId 3]" by code_simp
  then obtain r s t where users: "db_users (fund founding) = [r, s, t]" and ids: "ur_id r = UserId 1" "ur_id s = UserId 2"
    by (auto simp: map_eq_Cons_conv)
  then have "r \<in> set (db_users (fund founding))" "s \<in> set (db_users (fund founding))" "r \<noteq> s"
    unfolding users using ids by auto
  from accounts_stay_apart_governed [OF this] this show ?thesis by blast
qed

end
