(* ===== verification/Service_Samples.thy ===== *)
theory Service_Samples
  imports Governance_Service Governance_Samples
begin

text \<open>
  Sample requests of the governance service on the fund of \<open>Governance_Samples\<close>, at which the
  properties of \<open>Governance_Service\<close> are applied.
\<close>

definition signed_in :: "string \<Rightarrow> call_info" where
  "signed_in sub = \<lparr>ci_claims = Some (sample_claims sub), ci_remote_ip = Some (lit ''10.0.0.1''), ci_user_agent = None\<rparr>"

definition served_from :: "consilium_db \<Rightarrow> consilium_db governance_state" where
  "served_from db = \<lparr>gs_gate = break_glass_new ascii_ext [], gs_db = db, gs_feed = []\<rparr>"

definition resigning :: "bool \<times> consilium_db governance_state" where
  "resigning = serve_governance ascii_ext (\<lambda>_. 0) 90 90 (signed_in ''3'') (Req_ResignOwnership (lit ''Eve@example.com''))
     (served_from (fund (founding @ admitting)))"

lemma sample_resigning:
  "fst resigning" "owner_ids_for_update (gs_db (snd resigning)) = [UserId 1, UserId 2]"
  "owner_ids_for_update (fund (founding @ admitting)) = [UserId 1, UserId 2, UserId 3]"
  by code_simp+

theorem nobody_acts_for_another_witness:
  "fst resigning \<and> (\<exists>call i. gov_actor call = Some i \<and> gs_db (snd resigning) = snd (consilium_call ascii_ext call (fund (founding @ admitting)))
     \<and> seated_caller ascii_ext (signed_in ''3'') (served_from (fund (founding @ admitting))) i)"
proof -
  have db: "gs_db (served_from d) = d" for d by (simp add: served_from_def)
  have "gs_db (snd resigning) \<noteq> fund (founding @ admitting)"
    using sample_resigning(2,3) by auto
  then show ?thesis
    using nobody_acts_for_another [of ascii_ext "\<lambda>_. 0" 90 90 "signed_in ''3''" "Req_ResignOwnership (lit ''Eve@example.com'')"
        "served_from (fund (founding @ admitting))" "fst resigning" "snd resigning"] sample_resigning(1)
    by (auto simp: resigning_def db)
qed

definition burned :: "consilium_db governance_state" where
  "burned = served_from (fund (founding @ admitting @ [removal_opened, removal_vote_sample]))"

theorem dead_tokens_look_alike_witness:
  "handle_submit_self_decision ascii_ext 90 90 (signed_in ''3'') (lit ''token'') (lit ''12'') 2 [] [] burned
     = (Inl (Status NotFoundCode INVITATION_MISSING), burned)
   \<and> handle_get_invitation ascii_ext 90 (lit ''token'') burned = Inl (Status NotFoundCode INVITATION_MISSING)"
proof -
  have "unusable_token ascii_ext (gs_db burned) (lit ''token'') 90" "vote_from_proto 2 = Inr Remove" by code_simp+
  then show ?thesis
    using dead_tokens_look_alike [of burned ascii_ext "founding @ admitting @ [removal_opened, removal_vote_sample]" sample_meanings
        "lit ''token''" 90 2 Remove 90 "signed_in ''3''" "lit ''12''" "[]" "[]"]
    by (simp add: burned_def served_from_def)
qed

end
