(* ===== verification/Relay_Fields.thy ===== *)
theory Relay_Fields
  imports Notification_Service
begin

text \<open>
  \<open>runner/src/governance.rs\<close>, the rules the mail relay holds a field of the money plane to:
  lengths, invisible characters, links, amounts, the labels of a payment's two ends, fee terms
  and paths; with the predicate of \<open>email/templates.rs\<close> they share with the renderer and the
  few words of it that the inbox repeats. A rule answers with the field as it is kept, or with
  the status that refuses the call. The calendar of the \<open>time\<close> crate is the parameter
  \<open>civil\<close>: day, month and year of a timestamp, none outside its range.
\<close>

section \<open>Slicing strings\<close>

definition strip_suffix :: "rstr \<Rightarrow> rstr \<Rightarrow> rstr option" where
  "strip_suffix s p = (if length p \<le> length s \<and> drop (length s - length p) s = p then Some (take (length s - length p) s) else None)"

fun split_once :: "rstr \<Rightarrow> rstr \<Rightarrow> (rstr \<times> rstr) option" where
  "split_once sep [] = (if sep = [] then Some ([], []) else None)"
| "split_once sep (c # cs) =
     (case strip_prefix (c # cs) sep of
        Some rest \<Rightarrow> Some ([], rest)
      | None \<Rightarrow> map_option (\<lambda>(a, b). (c # a, b)) (split_once sep cs))"

definition rsplit_once :: "rstr \<Rightarrow> rstr \<Rightarrow> (rstr \<times> rstr) option" where
  "rsplit_once sep s = map_option (\<lambda>(a, b). (rev b, rev a)) (split_once (rev sep) (rev s))"

text \<open>\<open>split_at_checked\<close> counts bytes and fails inside a character.\<close>

fun split_at_bytes :: "nat \<Rightarrow> rstr \<Rightarrow> (rstr \<times> rstr) option" where
  "split_at_bytes n [] = (if n = 0 then Some ([], []) else None)"
| "split_at_bytes n (c # cs) =
     (if n = 0 then Some ([], c # cs)
      else if length (utf8_char c) \<le> n
      then map_option (\<lambda>(a, b). (c # a, b)) (split_at_bytes (n - length (utf8_char c)) cs)
      else None)"

definition to_ascii_lowercase :: "rstr \<Rightarrow> rstr" where
  "to_ascii_lowercase = map (\<lambda>c. if is_ascii_uppercase c then c + 32 else c)"

definition is_ascii_graphic :: "int \<Rightarrow> bool" where
  "is_ascii_graphic c \<longleftrightarrow> 33 \<le> c \<and> c \<le> 126"

definition is_ascii_hexdigit :: "int \<Rightarrow> bool" where
  "is_ascii_hexdigit b \<longleftrightarrow> is_ascii_digit b \<or> (97 \<le> b \<and> b \<le> 102) \<or> (65 \<le> b \<and> b \<le> 70)"

section \<open>Lines\<close>

definition breaks_or_hides :: "int \<Rightarrow> bool" where
  "breaks_or_hides c \<longleftrightarrow> is_control c \<or> c = 8232 \<or> c = 8233 \<or> (8203 \<le> c \<and> c \<le> 8207) \<or> (8234 \<le> c \<and> c \<le> 8238)
     \<or> (8288 \<le> c \<and> c \<le> 8292) \<or> (8294 \<le> c \<and> c \<le> 8297) \<or> c = 65279"

definition refused :: "rstr \<Rightarrow> status" where
  "refused msg = Status InvalidArgument msg"

definition bounded :: "rstr \<Rightarrow> nat \<Rightarrow> rstr \<Rightarrow> status + rstr" where
  "bounded value most field =
     rbind (ensure (length value \<le> most) (refused (field @ lit '' must be at most '' @ show_nat most @ lit '' characters''))) (\<lambda>_. Inr value)"

definition line :: "rstr \<Rightarrow> nat \<Rightarrow> rstr \<Rightarrow> status + rstr" where
  "line value max_bytes field =
     rbind (ensure (str_len value \<le> max_bytes) (refused (field @ lit '' must be at most '' @ show_nat max_bytes @ lit '' bytes''))) (\<lambda>_.
     rbind (ensure (\<not> list_ex breaks_or_hides value) (refused (field @ lit '' must not contain control or invisible characters''))) (\<lambda>_.
     Inr value))"

definition address :: "rstr \<Rightarrow> rstr \<Rightarrow> status + rstr" where
  "address value field =
     rbind (line value 320 field) (\<lambda>value.
     rbind (ensure (64 \<in> set value \<and> \<not> list_ex is_whitespace value) (refused (field @ lit '' must be an email address''))) (\<lambda>_.
     Inr value))"

definition without_needles :: "rstr \<Rightarrow> rstr list \<Rightarrow> rstr \<Rightarrow> status + rstr" where
  "without_needles value needles field =
     rbind (ensure (\<not> list_ex (\<lambda>needle. str_contains (to_ascii_lowercase value) needle) needles)
       (refused (field @ lit '' must not contain a link''))) (\<lambda>_. Inr value)"

definition no_link :: "rstr \<Rightarrow> rstr \<Rightarrow> status + rstr" where
  "no_link value field = without_needles value [lit ''://'', lit ''www.'', lit ''http''] field"

definition no_url :: "rstr \<Rightarrow> rstr \<Rightarrow> status + rstr" where
  "no_url value field = without_needles value [lit ''://'', lit ''www.''] field"

definition required_line :: "rstr \<Rightarrow> nat \<Rightarrow> rstr \<Rightarrow> status + rstr" where
  "required_line value max_bytes field =
     rbind (ensure (trim value \<noteq> []) (refused (field @ lit '' is required''))) (\<lambda>_. line value max_bytes field)"

section \<open>Links\<close>

definition check_origin :: "rstr \<Rightarrow> rstr \<Rightarrow> status + unit" where
  "check_origin origin url =
     (let refuse = invalid ''approval_url must be on this platform's public origin'' in
      rbind (ensure (\<not> list_ex (\<lambda>c. is_whitespace c \<or> \<not> is_ascii_graphic c) url)
        (invalid ''approval_url must not contain whitespace or non-printable characters'')) (\<lambda>_.
      rbind (case strip_prefix url origin of
               None \<Rightarrow> Inl refuse
             | Some rest \<Rightarrow> if rest = [] \<or> starts_with rest (lit ''/'') then Inr rest else Inl refuse) (\<lambda>rest.
      ensure (\<not> starts_with rest (lit ''//'')) refuse)))"

definition approval_link :: "rstr \<Rightarrow> rstr \<Rightarrow> status + rstr" where
  "approval_link origin raw =
     rbind (line raw 512 (lit ''approval_url'')) (\<lambda>url. rbind (check_origin origin url) (\<lambda>_. Inr url))"

definition cabinet_path :: "rstr \<Rightarrow> status + rstr" where
  "cabinet_path raw =
     (if raw = [] then Inr []
      else rbind (ensure (str_len raw \<le> 512) (invalid ''link must be at most 512 bytes'')) (\<lambda>_.
           rbind (ensure (\<not> list_ex (\<lambda>c. is_whitespace c \<or> \<not> is_ascii_graphic c) raw)
             (invalid ''link must not contain whitespace or non-printable characters'')) (\<lambda>_.
           rbind (ensure (hd raw = 47 \<and> (tl raw = [] \<or> hd (tl raw) \<notin> {47, 92}))
             (refused (lit ''link must be a cabinet-relative path starting with a single '' @ [39, 47, 39]))) (\<lambda>_. Inr raw))))"

section \<open>Closed words\<close>

definition PAYMENT_TIERS :: "rstr list" where
  "PAYMENT_TIERS = [lit ''internal'', lit ''service'', lit ''external'']"

definition OUTCOMES :: "rstr list" where
  "OUTCOMES = [lit ''APPROVED'', lit ''REJECTED'', lit ''EXPIRED'', lit ''CANCELLED'', lit ''EXECUTED'', lit ''EXECUTION_FAILED'',
     lit ''TOKEN_BURNED'']"

definition consent_ending :: "rstr \<Rightarrow> rstr \<Rightarrow> status + unit" where
  "consent_ending ending reason =
     (if ending = lit ''TOKEN_BURNED'' \<and> reason = lit ''WRONG_CODES''
         \<or> ending = lit ''INVALIDATED'' \<and> (reason = lit ''SESSIONS_REVOKED'' \<or> reason = lit ''EMAIL_CHANGED'') then Inr ()
      else if ending = lit ''TOKEN_BURNED'' \<or> ending = lit ''INVALIDATED''
      then Inl (invalid ''reason must be WRONG_CODES for TOKEN_BURNED, or SESSIONS_REVOKED or EMAIL_CHANGED for INVALIDATED'')
      else Inl (invalid ''outcome must be one of TOKEN_BURNED, INVALIDATED''))"

definition payment_tier :: "rstr \<Rightarrow> status + rstr" where
  "payment_tier value =
     rbind (line value 16 (lit ''tier'')) (\<lambda>tier.
     rbind (ensure (tier \<in> set PAYMENT_TIERS) (invalid ''tier must be one of internal, service, external'')) (\<lambda>_. Inr tier))"

definition INBOX_KEY_PREFIX :: rstr where "INBOX_KEY_PREFIX = lit ''governance:''"

definition inbox_key_room :: "rstr \<Rightarrow> status + unit" where
  "inbox_key_room dedupe_key =
     ensure (length dedupe_key + str_len INBOX_KEY_PREFIX \<le> 128)
       (refused (lit ''dedupe_key must be at most '' @ show_nat (128 - str_len INBOX_KEY_PREFIX) @ lit '' characters for this kind''))"

section \<open>Amounts\<close>

definition digits :: "rstr \<Rightarrow> bool" where
  "digits s \<longleftrightarrow> s \<noteq> [] \<and> list_all is_ascii_digit (str_bytes s)"

definition decimal :: "rstr \<Rightarrow> bool" where
  "decimal value \<longleftrightarrow> str_len value \<le> 40
     \<and> (case split_once (lit ''.'') value of None \<Rightarrow> digits value | Some (whole, frac) \<Rightarrow> digits whole \<and> digits frac)"

definition slug :: "rstr \<Rightarrow> bool" where
  "slug value \<longleftrightarrow> 1 \<le> str_len value \<and> str_len value \<le> 64
     \<and> list_all (\<lambda>b. is_ascii_alphanumeric b \<or> b = 45 \<or> b = 95) (str_bytes value)"

definition free_text :: "rstr \<Rightarrow> bool" where
  "free_text value \<longleftrightarrow> trim value \<noteq> []"

definition money_amount :: "rstr \<Rightarrow> status + rstr" where
  "money_amount value =
     (let refuse = invalid ''amount must be a number followed by a currency code, e.g. `1 200.00 USDT`'' in
      rbind (line value 64 (lit ''amount'')) (\<lambda>value.
      rbind (case rsplit_once (lit '' '') value of None \<Rightarrow> Inl refuse | Some parts \<Rightarrow> Inr parts) (\<lambda>(number, currency).
      let number_ok = number \<noteq> [] \<and> is_ascii_digit (hd number) \<and> length number \<le> 32
            \<and> list_all (\<lambda>c. is_ascii_digit c \<or> c \<in> {32, 160, 8239, 46, 44, 39}) number;
          currency_ok = 2 \<le> str_len currency \<and> str_len currency \<le> 10 \<and> currency \<noteq> [] \<and> is_ascii_uppercase (hd currency)
            \<and> list_all (\<lambda>c. is_ascii_uppercase c \<or> is_ascii_digit c) currency
      in rbind (ensure (number_ok \<and> currency_ok) refuse) (\<lambda>_. Inr value))))"

definition payment_amount :: "rstr \<Rightarrow> status + rstr" where
  "payment_amount value =
     rbind (line value 64 (lit ''amount'')) (\<lambda>value.
     let in_units = (case split_once (lit '' units of '') value of None \<Rightarrow> False
            | Some (units, allocation) \<Rightarrow> decimal units \<and> slug allocation)
     in rbind (ensure (decimal value \<or> in_units) (invalid ''amount must be a decimal or a decimal in units of an allocation'')) (\<lambda>_.
        Inr value))"

section \<open>The two ends of a payment\<close>

definition masked_mailbox :: "rstr \<Rightarrow> bool" where
  "masked_mailbox value =
     (case split_once (lit ''***@'') value of
        None \<Rightarrow> False
      | Some (local_part, domain) \<Rightarrow>
          (let local_ok = (case local_part of
                 [] \<Rightarrow> True | [c] \<Rightarrow> \<not> is_whitespace c \<and> c \<notin> {64, 40, 41} | _ # _ # _ \<Rightarrow> False);
               label = (\<lambda>l. 1 \<le> str_len l \<and> str_len l \<le> 63 \<and> hd l \<noteq> 45 \<and> last l \<noteq> 45
                 \<and> list_all (\<lambda>b. is_ascii_alphanumeric b \<or> b = 45) (str_bytes l));
               labels = split_on (\<lambda>c. c = 46) domain
           in local_ok \<and> str_len domain \<le> 253 \<and> 2 \<le> length labels \<and> list_all label labels))"

definition person :: "ext \<Rightarrow> rstr \<Rightarrow> bool" where
  "person E value =
     (case split_at_bytes 36 value of
        None \<Rightarrow> False
      | Some (i, tail) \<Rightarrow>
          (case (if tail = [] then Some None
                 else map_option Some (Option.bind (strip_prefix tail (lit '' ('')) (\<lambda>t. strip_suffix t (lit '')'')))) of
             None \<Rightarrow> False
           | Some detail \<Rightarrow> uuid_parse E i \<noteq> None \<and> (case detail of None \<Rightarrow> True | Some masked \<Rightarrow> masked_mailbox masked)))"

datatype rail = Evm | Tron | Ton

definition rail_of :: "rstr \<Rightarrow> rail option" where
  "rail_of network =
     (if network = lit ''bep20'' \<or> network = lit ''polygon'' then Some Evm
      else if network = lit ''trc20'' then Some Tron
      else if network = lit ''ton'' then Some Ton
      else None)"

definition BASE58 :: rstr where
  "BASE58 = lit ''123456789ABCDEFGHJKLMNPQRSTUVWXYZabcdefghijkmnopqrstuvwxyz''"

definition all_hex :: "rstr \<Rightarrow> bool" where
  "all_hex s \<longleftrightarrow> list_all is_ascii_hexdigit (str_bytes s)"

definition chain_address :: "rstr \<Rightarrow> rstr \<Rightarrow> bool" where
  "chain_address addr network =
     (case rail_of network of
        None \<Rightarrow> False
      | Some Evm \<Rightarrow> str_len addr = 42 \<and> (case strip_prefix addr (lit ''0x'') of None \<Rightarrow> False | Some h \<Rightarrow> all_hex h)
      | Some Tron \<Rightarrow> str_len addr = 34 \<and> starts_with addr (lit ''T'') \<and> list_all (\<lambda>b. b \<in> set BASE58) (str_bytes addr)
      | Some Ton \<Rightarrow>
          (let friendly = str_len addr = 48 \<and> list_all (\<lambda>b. is_ascii_alphanumeric b \<or> b = 45 \<or> b = 95) (str_bytes addr);
               raw = (case split_once (lit '':'') addr of None \<Rightarrow> False
                  | Some (workchain, hash) \<Rightarrow> (workchain = lit ''0'' \<or> workchain = lit ''-1'') \<and> str_len hash = 64 \<and> all_hex hash)
           in friendly \<or> raw))"

definition service_label :: "rstr \<Rightarrow> bool" where
  "service_label label \<longleftrightarrow> label = lit ''the fee allocation'' \<or> label = lit ''the fund allocation''
     \<or> (case Option.bind (strip_prefix label (lit ''the '')) (\<lambda>rest. strip_suffix rest (lit '' product'')) of
          None \<Rightarrow> False | Some name \<Rightarrow> slug name)"

definition titled_service :: "rstr \<Rightarrow> bool" where
  "titled_service value =
     (case split_once (lit '' ('') value of
        Some (label, title) \<Rightarrow> (case strip_suffix title (lit '')'') of None \<Rightarrow> False | Some t \<Rightarrow> free_text t) \<and> service_label label
      | None \<Rightarrow> service_label value)"

definition NEW_UNITS :: rstr where "NEW_UNITS = lit '' allocation '' @ [8212] @ lit '' new units''"
definition NAV_VALUATION :: rstr where "NAV_VALUATION = lit '' '' @ [8212] @ lit '' NAV valuation''"

definition is_payment_end :: "ext \<Rightarrow> rstr \<Rightarrow> bool" where
  "is_payment_end E value =
     (case Option.bind (strip_prefix value (lit ''the '')) (\<lambda>rest. strip_suffix rest NEW_UNITS) of
        Some name \<Rightarrow> slug name
      | None \<Rightarrow>
      if titled_service value then True else
     (case strip_prefix value (lit ''investor '') of
        Some rest \<Rightarrow> person E rest
      | None \<Rightarrow>
     (case strip_prefix value (lit ''depositor '') of
        Some rest \<Rightarrow> person E rest
      | None \<Rightarrow>
     (case strip_prefix value (lit ''AUM '') of
        Some rest \<Rightarrow> (case strip_suffix rest (lit '' USDT'') of None \<Rightarrow> False | Some n \<Rightarrow> decimal n)
      | None \<Rightarrow>
     (case strip_prefix value (lit ''treasury arrival '') of
        Some rest \<Rightarrow> (case rsplit_once (lit '' on '') rest of None \<Rightarrow> False
          | Some (tx_ref, network) \<Rightarrow> free_text tx_ref \<and> rail_of network \<noteq> None)
      | None \<Rightarrow>
     (case strip_suffix value NAV_VALUATION of
        Some rest \<Rightarrow> slug rest
          \<or> (case Option.bind (strip_suffix rest (lit '')'')) (\<lambda>r. rsplit_once (lit '' ('') r) of None \<Rightarrow> False
              | Some (title, name) \<Rightarrow> free_text title \<and> slug name)
      | None \<Rightarrow>
        (case rsplit_once (lit '' on '') value of None \<Rightarrow> False
          | Some (addr, network) \<Rightarrow> chain_address addr network)))))))"

definition payment_end :: "ext \<Rightarrow> rstr \<Rightarrow> rstr \<Rightarrow> status + rstr" where
  "payment_end E value field =
     rbind (line value 160 field) (\<lambda>value.
     rbind (no_url value field) (\<lambda>value.
     rbind (ensure (is_payment_end E value)
       (refused (field @ lit '' must be a party, chain address or ledger reference as the money plane labels it''))) (\<lambda>_. Inr value)))"

section \<open>Fee terms\<close>

record fee_terms_msg =
  ft_management_bps :: nat
  ft_performance_bps :: nat
  ft_hurdle_bps :: nat
  ft_basis :: rstr
  ft_crystallization :: rstr

definition FEE_BASES :: "rstr list" where "FEE_BASES = [lit ''invested_capital'', lit ''market_value'']"

definition CRYSTALLIZATIONS :: "rstr list" where
  "CRYSTALLIZATIONS = [lit ''monthly'', lit ''quarterly'', lit ''semi_annual'', lit ''annual'']"

definition MAX_BPS :: nat where "MAX_BPS = 10000"

definition checked_bps :: "rstr \<Rightarrow> string \<Rightarrow> nat \<Rightarrow> status + unit" where
  "checked_bps field name bps =
     ensure (bps \<le> MAX_BPS) (refused (field @ lit ''.'' @ lit name @ lit '' must be at most '' @ show_nat MAX_BPS))"

definition fee_terms_json :: "fee_terms_msg \<Rightarrow> rstr \<Rightarrow> status + json" where
  "fee_terms_json terms field =
     rbind (checked_bps field ''management_bps'' (ft_management_bps terms)) (\<lambda>_.
     rbind (checked_bps field ''performance_bps'' (ft_performance_bps terms)) (\<lambda>_.
     rbind (checked_bps field ''hurdle_bps'' (ft_hurdle_bps terms)) (\<lambda>_.
     rbind (line (ft_basis terms) 32 (field @ lit ''.basis'')) (\<lambda>basis.
     rbind (ensure (basis \<in> set FEE_BASES) (refused (field @ lit ''.basis must be one of invested_capital, market_value''))) (\<lambda>_.
     rbind (line (ft_crystallization terms) 32 (field @ lit ''.crystallization'')) (\<lambda>crystallization.
     rbind (ensure (crystallization \<in> set CRYSTALLIZATIONS)
       (refused (field @ lit ''.crystallization must be one of monthly, quarterly, semi_annual, annual''))) (\<lambda>_.
     Inr (JObject [(lit ''management_bps'', JInt (int (ft_management_bps terms))),
                   (lit ''performance_bps'', JInt (int (ft_performance_bps terms))),
                   (lit ''hurdle_bps'', JInt (int (ft_hurdle_bps terms))),
                   (lit ''basis'', JStr basis), (lit ''crystallization'', JStr crystallization)]))))))))"

definition current_fee_terms :: "fee_terms_msg option \<Rightarrow> status + json" where
  "current_fee_terms terms = (case terms of None \<Rightarrow> Inr JNull | Some t \<Rightarrow> fee_terms_json t (lit ''current''))"

section \<open>Words the inbox repeats\<close>

definition pct :: "nat \<Rightarrow> rstr" where
  "pct bps =
     (let whole = bps div 100; frac = bps mod 100
      in if frac = 0 then show_nat whole @ lit ''%''
         else if frac mod 10 = 0 then show_nat whole @ lit ''.'' @ show_nat (frac div 10) @ lit ''%''
         else show_nat whole @ lit ''.'' @ (if frac < 10 then lit ''0'' else []) @ show_nat frac @ lit ''%'')"

definition change :: "rstr option \<Rightarrow> rstr \<Rightarrow> rstr" where
  "change now next_value =
     (case now of
        Some n \<Rightarrow> if n = next_value then next_value else n @ lit '' '' @ [8594] @ lit '' '' @ next_value
      | None \<Rightarrow> lit ''none '' @ [8594] @ lit '' '' @ next_value)"

definition pct_change :: "nat option \<Rightarrow> nat \<Rightarrow> rstr" where
  "pct_change now next_bps = change (map_option pct now) (pct next_bps)"

definition MONTHS :: "rstr list" where
  "MONTHS = [lit ''January'', lit ''February'', lit ''March'', lit ''April'', lit ''May'', lit ''June'', lit ''July'',
     lit ''August'', lit ''September'', lit ''October'', lit ''November'', lit ''December'']"

definition fmt_ts :: "(int \<Rightarrow> (nat \<times> nat \<times> int) option) \<Rightarrow> int \<Rightarrow> rstr" where
  "fmt_ts civil ts =
     (case civil ts of
        None \<Rightarrow> [8212]
      | Some (day, month, year) \<Rightarrow> show_nat day @ lit '' '' @ (MONTHS ! (month - 1)) @ lit '' '' @ show_int year)"

section \<open>What slicing means\<close>

lemma strip_prefix_Some: "strip_prefix s p = Some r \<longleftrightarrow> s = p @ r"
  by (auto simp: strip_prefix_def) (metis append_take_drop_id)

lemma strip_suffix_Some: "strip_suffix s p = Some r \<longleftrightarrow> s = r @ p"
  by (auto simp: strip_suffix_def) (metis append_take_drop_id)

lemma strip_prefix_None: "strip_prefix s p = None \<longleftrightarrow> (\<forall>r. s \<noteq> p @ r)"
  by (metis option.exhaust option.distinct(1) strip_prefix_Some)

lemma strip_suffix_None: "strip_suffix s p = None \<longleftrightarrow> (\<forall>r. s \<noteq> r @ p)"
  by (metis option.exhaust option.distinct(1) strip_suffix_Some)

lemma split_once_Some:
  assumes "sep \<noteq> []"
  shows "split_once sep s = Some (a, b) \<longleftrightarrow> s = a @ sep @ b \<and> (\<forall>a' b'. s = a' @ sep @ b' \<longrightarrow> length a \<le> length a')"
proof (induction s arbitrary: a b)
  case Nil
  then show ?case using assms by simp
next
  case (Cons c cs)
  show ?case
  proof (cases "strip_prefix (c # cs) sep")
    case (Some rest)
    then have here: "c # cs = [] @ sep @ rest" by (simp add: strip_prefix_Some)
    then have "(c # cs = a @ sep @ b \<and> (\<forall>a' b'. c # cs = a' @ sep @ b' \<longrightarrow> length a \<le> length a')) \<longleftrightarrow> a = [] \<and> b = rest"
      by (smt (verit) append_Nil append_same_eq le_zero_eq length_0_conv list.size(3) same_append_eq zero_le)
    then show ?thesis using Some by auto
  next
    case None
    then have nohere: "c # cs \<noteq> sep @ r" for r by (simp add: strip_prefix_None)
    have "split_once sep (c # cs) = Some (a, b) \<longleftrightarrow> (\<exists>a0. a = c # a0 \<and> split_once sep cs = Some (a0, b))"
      using None by auto
    also have "\<dots> \<longleftrightarrow> c # cs = a @ sep @ b \<and> (\<forall>a' b'. c # cs = a' @ sep @ b' \<longrightarrow> length a \<le> length a')" (is "?L \<longleftrightarrow> ?R")
    proof
      assume ?L
      then obtain a0 where a0: "a = c # a0" "cs = a0 @ sep @ b" "\<And>a' b'. cs = a' @ sep @ b' \<Longrightarrow> length a0 \<le> length a'"
        unfolding Cons.IH by blast
      have "length a \<le> length a'" if "c # cs = a' @ sep @ b'" for a' b'
        using that nohere a0(1,3) by (cases a') auto
      then show ?R using a0 by simp
    next
      assume r: ?R
      then obtain a0 where a0: "a = c # a0" using nohere by (cases a) auto
      have "length a0 \<le> length a'" if "cs = a' @ sep @ b'" for a' b'
        using r that a0 by (metis append_Cons length_Cons Suc_le_mono)
      then show ?L unfolding Cons.IH using r a0 by auto
    qed
    finally show ?thesis .
  qed
qed

lemma split_once_hit: "split_once sep (a @ sep @ b) \<noteq> None"
proof (induction a)
  case Nil
  have "strip_prefix (sep @ b) sep = Some b" by (simp add: strip_prefix_Some)
  then show ?case by (cases "sep @ b") auto
next
  case (Cons c a)
  then show ?case by (auto split: option.split)
qed

lemma split_once_None: "sep \<noteq> [] \<Longrightarrow> split_once sep s = None \<longleftrightarrow> (\<forall>a b. s \<noteq> a @ sep @ b)"
  by (metis not_Some_eq prod.exhaust split_once_Some split_once_hit)

lemma rev_nonempty: "s \<noteq> [] \<Longrightarrow> rev s \<noteq> []"
  by simp

lemma rsplit_once_Some:
  assumes "sep \<noteq> []"
  shows "rsplit_once sep s = Some (a, b) \<longleftrightarrow> s = a @ sep @ b \<and> (\<forall>a' b'. s = a' @ sep @ b' \<longrightarrow> length b \<le> length b')"
proof -
  have flip: "rev s = x @ rev sep @ y \<longleftrightarrow> s = rev y @ sep @ rev x" for x y
    by (metis append.assoc rev_append rev_rev_ident)
  have "rsplit_once sep s = Some (a, b) \<longleftrightarrow> split_once (rev sep) (rev s) = Some (rev b, rev a)"
    by (auto simp: rsplit_once_def)
  also have "\<dots> \<longleftrightarrow> s = a @ sep @ b \<and> (\<forall>a' b'. s = a' @ sep @ b' \<longrightarrow> length b \<le> length b')"
    using assms unfolding split_once_Some [OF assms [THEN rev_nonempty]] flip
    by (metis length_rev rev_rev_ident)
  finally show ?thesis .
qed

lemma utf8_first: "128 \<le> c \<Longrightarrow> \<exists>b bs. utf8_char c = b # bs \<and> 128 \<le> b"
  by (auto simp: utf8_char_def intro: add_increasing2)

lemma all_bytes:
  assumes "\<And>b. P b \<Longrightarrow> b < 128"
  shows "list_all P (str_bytes s) \<longleftrightarrow> list_all P s"
proof (induction s)
  case (Cons c s)
  have "list_all P (utf8_char c) \<longleftrightarrow> P c"
  proof (cases "c < 128")
    case False
    then obtain b bs where "utf8_char c = b # bs" "128 \<le> b" using utf8_first [of c] by auto
    moreover have "\<not> P b" "\<not> P c" using assms False calculation(2) by force+
    ultimately show ?thesis by simp
  qed (simp add: utf8_char_def)
  with Cons show ?case by (simp add: str_bytes_def)
qed (simp add: str_bytes_def)

lemma ascii_len: "list_all (\<lambda>c. c < 128) s \<Longrightarrow> str_len s = length s"
  by (induction s) (simp_all add: str_len_def str_bytes_def utf8_char_def)

definition url_host :: "rstr \<Rightarrow> rstr option" where
  "url_host url = map_option (\<lambda>(scheme, rest). takeWhile (\<lambda>c. c \<notin> {47, 63, 35, 92}) rest) (split_once (lit ''://'') url)"

lemma check_origin_iff:
  "check_origin origin url = Inr () \<longleftrightarrow> list_all is_ascii_graphic url
     \<and> (url = origin \<or> (\<exists>path. url = origin @ lit ''/'' @ path \<and> (path = [] \<or> hd path \<noteq> 47)))"
proof -
  have "\<not> is_whitespace c" if "is_ascii_graphic c" for c
    using that by (auto simp: is_ascii_graphic_def is_whitespace_def)
  then have graphic: "list_ex (\<lambda>c. is_whitespace c \<or> \<not> is_ascii_graphic c) s \<longleftrightarrow> \<not> list_all is_ascii_graphic s" for s
    by (auto simp: list_ex_iff list_all_iff)
  have slash: "lit ''/'' = [47]" "lit ''//'' = [47, 47]" by code_simp+
  have double: "starts_with (47 # path) [47, 47] \<longleftrightarrow> path \<noteq> [] \<and> hd path = 47" for path
    by (cases path) (auto simp: starts_with_def)
  have single: "starts_with rest [47] \<longleftrightarrow> (\<exists>path. rest = 47 # path)" for rest
    by (cases rest) (auto simp: starts_with_def)
  have none: "\<not> starts_with [] [47, 47]" by (simp add: starts_with_def)
  show ?thesis
    by (auto simp: check_origin_def Let_def result_simps graphic slash single double none strip_prefix_Some
        split: option.splits if_splits) (auto simp: strip_prefix_None)
qed

lemma takeWhile_stop: "list_all P xs \<Longrightarrow> ys = [] \<or> \<not> P (hd ys) \<Longrightarrow> takeWhile P (xs @ ys) = xs"
  by (induction xs) (cases ys; auto)+

text \<open>An accepted approval link leads home. It is accepted exactly when it is at most 512
  bytes of printable ASCII and is the platform's origin, alone or followed by a path that does
  not begin with two slashes; whatever the origin's scheme, the host part of an accepted link
  is then the origin's host, so no user name, other host or second link can be smuggled in.\<close>

lemma approval_link_iff:
  assumes "split_once (lit ''://'') origin = Some (scheme, host)" and "list_all (\<lambda>c. c \<notin> {47, 63, 35, 92}) host"
  shows "(approval_link origin raw = Inr url \<longleftrightarrow> url = raw \<and> length raw \<le> 512 \<and> list_all is_ascii_graphic raw
       \<and> (raw = origin \<or> (\<exists>path. raw = origin @ lit ''/'' @ path \<and> (path = [] \<or> hd path \<noteq> 47))))
    \<and> (approval_link origin raw = Inr url \<longrightarrow> url_host url = Some host)"
proof -
  have ascii: "str_len raw = length raw" "\<not> list_ex breaks_or_hides raw" if "list_all is_ascii_graphic raw"
    using that by (force intro!: ascii_len simp: list_all_iff is_ascii_graphic_def,
      auto simp: list_all_iff list_ex_iff is_ascii_graphic_def breaks_or_hides_def is_control_def)
  have iff: "approval_link origin raw = Inr url \<longleftrightarrow> url = raw \<and> length raw \<le> 512 \<and> check_origin origin raw = Inr ()"
    using ascii check_origin_iff [of origin raw] by (auto simp: approval_link_def line_def result_simps)
  have origin: "origin = scheme @ lit ''://'' @ host"
    and first: "\<And>a' b'. origin = a' @ lit ''://'' @ b' \<Longrightarrow> length scheme \<le> length a'"
    using assms(1) unfolding split_once_Some [of "lit ''://''" origin scheme host, simplified] by blast+
  have "url_host (origin @ tail) = Some host" if "tail = [] \<or> hd tail = 47" for tail
  proof -
    obtain a b where cut: "split_once (lit ''://'') (origin @ tail) = Some (a, b)"
      using split_once_hit [of "lit ''://''" scheme "host @ tail"] by (auto simp: origin)
    then have ab: "origin @ tail = a @ lit ''://'' @ b" "length a \<le> length scheme"
      by (auto simp: split_once_Some origin)
    have "length (a @ lit ''://'') \<le> length origin" using ab(2) by (simp add: origin)
    then have "origin = (a @ lit ''://'') @ drop (length (a @ lit ''://'')) origin"
      using arg_cong [OF ab(1), of "take (length (a @ lit ''://''))"] append_take_drop_id [of "length (a @ lit ''://'')" origin] by simp
    then have "length scheme \<le> length a" using first by (metis append.assoc)
    then have "length a = length scheme" using ab(2) by simp
    then have "b = host @ tail" using ab(1) by (simp add: origin)
    moreover have "takeWhile (\<lambda>c. c \<notin> {47, 63, 35, 92}) (host @ tail) = host"
      by (rule takeWhile_stop [OF assms(2)]) (use that in auto)
    ultimately show ?thesis by (simp add: url_host_def cut)
  qed
  from this [of "[]"] this [of "lit ''/'' @ _"] have "url_host raw = Some host" if "check_origin origin raw = Inr ()"
    using that unfolding check_origin_iff by (auto simp: lit_def)
  then show ?thesis unfolding iff check_origin_iff by blast
qed

section \<open>What an amount can say\<close>

lemma digits_iff: "digits s \<longleftrightarrow> s \<noteq> [] \<and> list_all is_ascii_digit s"
  unfolding digits_def by (subst all_bytes) (auto simp: is_ascii_digit_def)

lemma slug_chars: "slug s \<Longrightarrow> s \<noteq> [] \<and> list_all (\<lambda>b. is_ascii_alphanumeric b \<or> b = 45 \<or> b = 95) s"
  by (subst (asm) slug_def, subst (asm) all_bytes) (auto simp: str_len_def str_bytes_def ascii_defs)

lemma slug_set: "slug s \<Longrightarrow> c \<in> set s \<Longrightarrow> is_ascii_alphanumeric c \<or> c = 45 \<or> c = 95"
  using slug_chars by (auto simp: list_all_iff)

lemma decimal_cases:
  assumes "decimal s"
  obtains "digits s" | w f where "s = w @ 46 # f" "digits w" "digits f"
  using assms by (auto simp: decimal_def split_once_Some lit_def split: option.splits prod.splits)

lemma decimal_chars: "decimal s \<Longrightarrow> s \<noteq> [] \<and> is_ascii_digit (hd s) \<and> list_all (\<lambda>c. is_ascii_digit c \<or> c = 46) s"
proof (erule decimal_cases)
  show ?thesis if "digits s" using that by (cases s) (auto simp: digits_iff list_all_iff)
  show ?thesis if "s = w @ 46 # f" "digits w" "digits f" for w f
    using that by (cases w) (auto simp: digits_iff list_all_iff)
qed

definition safe_dots :: "rstr \<Rightarrow> bool" where
  "safe_dots s \<longleftrightarrow> (\<forall>a b. s = a @ 46 # b \<longrightarrow> b = [] \<or> \<not> is_ascii_alphabetic (hd b))"

lemma safe_dots_append:
  assumes "\<And>c. c \<in> set u \<Longrightarrow> \<not> is_ascii_alphabetic c" and "46 \<notin> set rest" and "rest = [] \<or> \<not> is_ascii_alphabetic (hd rest)"
  shows "safe_dots (u @ rest)"
  unfolding safe_dots_def
proof (intro allI impI)
  fix a b assume "u @ rest = a @ 46 # b"
  then obtain us where "u = a @ us \<and> us @ rest = 46 # b \<or> u @ us = a \<and> rest = us @ 46 # b"
    by (auto simp: append_eq_append_conv2)
  then show "b = [] \<or> \<not> is_ascii_alphabetic (hd b)"
  proof
    assume "u = a @ us \<and> us @ rest = 46 # b"
    then show ?thesis using assms by (cases us; cases "tl us") auto
  next
    assume "u @ us = a \<and> rest = us @ 46 # b"
    then show ?thesis using assms(2) by simp
  qed
qed

text \<open>C9. An amount is only an amount. What either amount rule accepts starts with a digit, uses no
  character but ASCII letters and digits, the separators of a number, hyphen and underscore, and
  never has a letter after a dot: so it holds no scheme, path or mailbox, and no domain name a
  mail client would turn into a link.\<close>

theorem amounts_are_amounts:
  assumes "payment_amount value = Inr v \<or> money_amount value = Inr v"
  shows "v = value \<and> v \<noteq> [] \<and> is_ascii_digit (hd v) \<and> safe_dots v
    \<and> (\<forall>c\<in>set v. is_ascii_alphanumeric c \<or> c \<in> {32, 160, 8239, 46, 44, 39, 45, 95})"
  using assms
proof
  assume "payment_amount value = Inr v"
  then have v: "v = value" and shape: "decimal v \<or> (\<exists>u a. v = u @ lit '' units of '' @ a \<and> decimal u \<and> slug a)"
    by (auto simp: payment_amount_def line_def result_simps Let_def split_once_Some split: option.splits)
  from shape obtain u rest where u: "decimal u" "v = u @ rest" "rest = [] \<or> (\<exists>a. rest = lit '' units of '' @ a \<and> slug a)"
    by (metis append_Nil2)
  have units: "lit '' units of '' = [32, 117, 110, 105, 116, 115, 32, 111, 102, 32]" by code_simp
  from u(3) have rest: "46 \<notin> set rest" "rest = [] \<or> \<not> is_ascii_alphabetic (hd rest)"
    "\<forall>c\<in>set rest. is_ascii_alphanumeric c \<or> c \<in> {32, 45, 95}"
    by (auto simp: units ascii_defs dest: slug_set)
  have "\<not> is_ascii_alphabetic c" if "c \<in> set u" for c
    using decimal_chars [OF u(1)] that by (auto simp: list_all_iff ascii_defs)
  then have "safe_dots v" unfolding u(2) using rest(1,2) by (rule safe_dots_append)
  then show ?thesis
    using v u(2) decimal_chars [OF u(1)] rest(3) by (fastforce simp: list_all_iff is_ascii_alphanumeric_def)
next
  assume "money_amount value = Inr v"
  then obtain number currency where n: "v = value" "v = number @ 32 # currency" "number \<noteq> []" "is_ascii_digit (hd number)"
    "list_all (\<lambda>c. is_ascii_digit c \<or> c \<in> {32, 160, 8239, 46, 44, 39}) number"
    "list_all (\<lambda>c. is_ascii_uppercase c \<or> is_ascii_digit c) currency"
    by (auto simp: money_amount_def line_def result_simps Let_def rsplit_once_Some lit_def split: option.splits prod.splits)
  have "\<not> is_ascii_alphabetic c" if "c \<in> set number" for c
    using n(5) that by (auto simp: list_all_iff ascii_defs)
  moreover have "46 \<notin> set (32 # currency)" using n(6) by (auto simp: list_all_iff ascii_defs)
  ultimately have "safe_dots v" unfolding n(2) by (rule safe_dots_append) (simp_all add: ascii_defs)
  then show ?thesis using n by (fastforce simp: list_all_iff is_ascii_alphanumeric_def is_ascii_alphabetic_def)
qed

theorem amounts_are_amounts_witness:
  "is_ascii_digit (hd (lit ''12.5 units of fund-a'')) \<and> safe_dots (lit ''1 200.00 USDT'')
   \<and> payment_amount (lit ''1 evil.example'') \<noteq> Inr (lit ''1 evil.example'')"
proof -
  have ok: "payment_amount (lit ''12.5 units of fund-a'') = Inr (lit ''12.5 units of fund-a'')"
    "money_amount (lit ''1 200.00 USDT'') = Inr (lit ''1 200.00 USDT'')"
    "\<not> is_ok (payment_amount (lit ''1 evil.example''))" by code_simp+
  from amounts_are_amounts [OF disjI1 [OF ok(1)]] amounts_are_amounts [OF disjI2 [OF ok(2)]] ok(3)
  show ?thesis by (metis is_ok.simps(1))
qed

end
