(* ===== verification/Relay_Labels.thy ===== *)
theory Relay_Labels
  imports Relay_Fields
begin

text \<open>
  The grammar of a payment's two ends: what \<open>is_payment_end\<close> takes apart by prefixes and
  suffixes, stated as labels and their texts. The two agree on every string, except that a
  valuation whose text begins like another label is refused. The labels are the specification,
  not code of the repository.
\<close>

section \<open>Labels\<close>

datatype service_end = FeeService | FundService | ProductService rstr

datatype payment_label =
    NewUnits rstr
  | ServiceEnd service_end "rstr option"
  | InvestorEnd rstr "rstr option"
  | DepositorEnd rstr "rstr option"
  | AumEnd rstr
  | Arrival rstr rstr
  | Valuation "rstr option" rstr
  | Wallet rstr rstr

fun service_text :: "service_end \<Rightarrow> rstr" where
  "service_text FeeService = lit ''the fee allocation''"
| "service_text FundService = lit ''the fund allocation''"
| "service_text (ProductService name) = lit ''the '' @ name @ lit '' product''"

fun with_note :: "rstr \<Rightarrow> rstr option \<Rightarrow> rstr" where
  "with_note s None = s"
| "with_note s (Some n) = s @ lit '' ('' @ n @ lit '')''"

fun label_text :: "payment_label \<Rightarrow> rstr" where
  "label_text (NewUnits name) = lit ''the '' @ name @ NEW_UNITS"
| "label_text (ServiceEnd s title) = with_note (service_text s) title"
| "label_text (InvestorEnd i masked) = lit ''investor '' @ with_note i masked"
| "label_text (DepositorEnd i masked) = lit ''depositor '' @ with_note i masked"
| "label_text (AumEnd n) = lit ''AUM '' @ n @ lit '' USDT''"
| "label_text (Arrival tx_ref network) = lit ''treasury arrival '' @ tx_ref @ lit '' on '' @ network"
| "label_text (Valuation None name) = name @ NAV_VALUATION"
| "label_text (Valuation (Some title) name) = title @ lit '' ('' @ name @ lit '')'' @ NAV_VALUATION"
| "label_text (Wallet addr network) = addr @ lit '' on '' @ network"

definition person_ok :: "ext \<Rightarrow> rstr \<Rightarrow> rstr option \<Rightarrow> bool" where
  "person_ok E i masked \<longleftrightarrow> str_len i = 36 \<and> uuid_parse E i \<noteq> None
     \<and> (case masked of None \<Rightarrow> True | Some m \<Rightarrow> masked_mailbox m)"

definition begins_otherwise :: "rstr \<Rightarrow> bool" where
  "begins_otherwise v \<longleftrightarrow> list_ex (starts_with v) [lit ''investor '', lit ''depositor '', lit ''AUM '', lit ''treasury arrival '']"

text \<open>A label in the shapes the rule's doc lists, and the labels the rule reads: a valuation must not begin
  like another label.\<close>

fun label_ok :: "ext \<Rightarrow> payment_label \<Rightarrow> bool" where
  "label_ok E (NewUnits name) = slug name"
| "label_ok E (ServiceEnd s title) = ((case s of ProductService name \<Rightarrow> slug name | _ \<Rightarrow> True)
     \<and> (case title of None \<Rightarrow> True | Some t \<Rightarrow> free_text t))"
| "label_ok E (InvestorEnd i masked) = person_ok E i masked"
| "label_ok E (DepositorEnd i masked) = person_ok E i masked"
| "label_ok E (AumEnd n) = decimal n"
| "label_ok E (Arrival tx_ref network) = (free_text tx_ref \<and> rail_of network \<noteq> None)"
| "label_ok E (Valuation title name) = (slug name \<and> (case title of None \<Rightarrow> True | Some t \<Rightarrow> free_text t))"
| "label_ok E (Wallet addr network) = chain_address addr network"

definition label_read :: "ext \<Rightarrow> payment_label \<Rightarrow> bool" where
  "label_read E l \<longleftrightarrow> label_ok E l \<and> (case l of Valuation title name \<Rightarrow> \<not> begins_otherwise (label_text l) | _ \<Rightarrow> True)"

lemma label_read_simps [simp]:
  "label_read E (NewUnits name) = slug name"
  "label_read E (ServiceEnd s title) = ((case s of ProductService name \<Rightarrow> slug name | _ \<Rightarrow> True)
     \<and> (case title of None \<Rightarrow> True | Some t \<Rightarrow> free_text t))"
  "label_read E (InvestorEnd i masked) = person_ok E i masked"
  "label_read E (DepositorEnd i masked) = person_ok E i masked"
  "label_read E (AumEnd n) = decimal n"
  "label_read E (Arrival tx_ref network) = (free_text tx_ref \<and> rail_of network \<noteq> None)"
  "label_read E (Valuation title name) = (slug name \<and> (case title of None \<Rightarrow> True | Some t \<Rightarrow> free_text t)
     \<and> \<not> begins_otherwise (label_text (Valuation title name)))"
  "label_read E (Wallet addr network) = chain_address addr network"
  by (auto simp: label_read_def)

section \<open>Taking labels apart\<close>

lemma str_len_simps [simp]: "str_len [] = 0" "str_len (c # s) = length (utf8_char c) + str_len s"
  by (simp_all add: str_len_def str_bytes_def)

lemma utf8_pos: "0 < length (utf8_char c)"
  by (simp add: utf8_char_def)

lemma split_at_bytes_Some: "split_at_bytes n s = Some (a, b) \<longleftrightarrow> s = a @ b \<and> str_len a = n"
proof (induction n s arbitrary: a b rule: split_at_bytes.induct)
  case (1 n)
  then show ?case by (cases a) auto
next
  case (2 n c cs)
  show ?case
  proof (cases a)
    case Nil
    then show ?thesis by auto
  next
    case (Cons d a')
    then show ?thesis using 2 utf8_pos [of c] by (auto split: if_splits)
  qed
qed

lemma person_iff: "person E v \<longleftrightarrow> (\<exists>i masked. v = with_note i masked \<and> person_ok E i masked)"
proof
  assume "person E v"
  then obtain i tail where cut: "split_at_bytes 36 v = Some (i, tail)"
    by (auto simp: person_def split: option.splits)
  then have v: "v = i @ tail" "str_len i = 36" by (simp_all add: split_at_bytes_Some)
  show "\<exists>i masked. v = with_note i masked \<and> person_ok E i masked"
  proof (cases "tail = []")
    case True
    with \<open>person E v\<close> cut v show ?thesis by (intro exI [of _ i] exI [of _ None]) (auto simp: person_def person_ok_def)
  next
    case False
    with \<open>person E v\<close> cut obtain t m where "strip_prefix tail (lit '' ('') = Some t" "strip_suffix t (lit '')'') = Some m"
      "uuid_parse E i \<noteq> None" "masked_mailbox m"
      by (auto simp: person_def split: option.splits bind_splits)
    with v show ?thesis
      by (intro exI [of _ i] exI [of _ "Some m"]) (auto simp: person_ok_def strip_prefix_Some strip_suffix_Some)
  qed
next
  assume "\<exists>i masked. v = with_note i masked \<and> person_ok E i masked"
  then obtain i masked where im: "v = with_note i masked" "person_ok E i masked" by blast
  show "person E v"
  proof (cases masked)
    case None
    then have "split_at_bytes 36 v = Some (i, [])" using im by (simp add: split_at_bytes_Some person_ok_def)
    with im None show ?thesis by (simp add: person_def person_ok_def)
  next
    case (Some m)
    then have cut: "split_at_bytes 36 v = Some (i, lit '' ('' @ m @ lit '')'')" using im by (simp add: split_at_bytes_Some person_ok_def)
    have "strip_prefix (lit '' ('' @ m @ lit '')'') (lit '' ('') = Some (m @ lit '')'')" "strip_suffix (m @ lit '')'') (lit '')'') = Some m"
      by (simp_all add: strip_prefix_Some strip_suffix_Some)
    with im Some cut show ?thesis by (simp add: person_def person_ok_def)
  qed
qed

lemma rsplit_once_unique:
  assumes "sep \<noteq> []" and "last sep \<notin> set b"
  shows "rsplit_once sep (a @ sep @ b) = Some (a, b)"
  unfolding rsplit_once_Some [OF assms(1)]
proof (intro conjI allI impI refl)
  fix a' b' assume eq: "a @ sep @ b = a' @ sep @ b'"
  show "length b \<le> length b'"
  proof (rule ccontr)
    assume "\<not> length b \<le> length b'"
    moreover have "(a @ sep) @ b = (a' @ sep) @ b'" using eq by simp
    then obtain x where "(a @ sep) @ x = a' @ sep \<and> b = x @ b' \<or> a @ sep = (a' @ sep) @ x \<and> x @ b = b'"
      unfolding append_eq_append_conv2 by blast
    ultimately have x: "b = x @ b'" "x \<noteq> []" "(a @ sep) @ x = a' @ sep" by auto
    then have "last x = last sep" using assms(1) by (metis last_appendR)
    with x(1,2) assms(2) show False by (metis UnCI last_in_set set_append)
  qed
qed

lemma split_once_note:
  assumes "40 \<notin> set a"
  shows "split_once (lit '' ('') (a @ lit '' ('' @ b) = Some (a, b)" and "split_once (lit '' ('') a = None"
proof -
  have sep: "lit '' ('' = [32, 40]" by code_simp
  show "split_once (lit '' ('') a = None" using assms by (auto simp: split_once_None sep)
  have "length a \<le> length a'" if eq: "a @ [32, 40] @ b = a' @ [32, 40] @ b'" for a' b'
  proof (rule ccontr)
    assume "\<not> length a \<le> length a'"
    then obtain x where x: "a = a' @ x" "x \<noteq> []" "x @ [32, 40] @ b = [32, 40] @ b'"
      using eq by (auto simp: append_eq_append_conv2)
    then obtain y where "x = 32 # y" "y @ [32, 40] @ b = 40 # b'" by (cases x) auto
    with x(1) assms show False by (cases y) auto
  qed
  then show "split_once (lit '' ('') (a @ lit '' ('' @ b) = Some (a, b)"
    by (simp only: split_once_Some sep list.distinct simp_thms) blast
qed

section \<open>Labels do not collide\<close>

lemmas label_lits = lit_def NEW_UNITS_def NAV_VALUATION_def

lemma bind_strips:
  "Option.bind (strip_prefix v p) (\<lambda>r. strip_suffix r s) = Some n \<longleftrightarrow> v = p @ n @ s"
  "Option.bind (strip_prefix v p) (\<lambda>r. strip_suffix r s) = None \<longleftrightarrow> (\<forall>n. v \<noteq> p @ n @ s)"
proof -
  show some: "Option.bind (strip_prefix v p) (\<lambda>r. strip_suffix r s) = Some n \<longleftrightarrow> v = p @ n @ s" for n
    by (simp add: bind_eq_Some_conv strip_prefix_Some strip_suffix_Some)
  show "Option.bind (strip_prefix v p) (\<lambda>r. strip_suffix r s) = None \<longleftrightarrow> (\<forall>n. v \<noteq> p @ n @ s)"
    by (metis not_Some_eq some)
qed

lemma slug_free: "slug s \<Longrightarrow> 40 \<notin> set s \<and> 32 \<notin> set s"
  using slug_set [of s 40] slug_set [of s 32] by (auto simp: ascii_defs)

lemma rail_free: "rail_of n \<noteq> None \<Longrightarrow> n \<in> {lit ''bep20'', lit ''polygon'', lit ''trc20'', lit ''ton''}"
  by (auto simp: rail_of_def split: if_splits)

lemma service_text_free:
  assumes "case s of ProductService name \<Rightarrow> slug name | _ \<Rightarrow> True"
  shows "40 \<notin> set (service_text s)" and "service_label (service_text s)"
proof -
  show "40 \<notin> set (service_text s)" using assms by (cases s) (auto simp: lit_def dest: slug_free)
  have bind: "Option.bind (strip_prefix (lit ''the '' @ n @ lit '' product'') (lit ''the '')) (\<lambda>rest. strip_suffix rest (lit '' product'')) = Some n" for n
    by (simp only: bind_strips)
  show "service_label (service_text s)" using assms by (cases s) (simp_all add: service_label_def bind del: Option.bind.simps)
qed

lemma service_label_text: "service_label v \<longleftrightarrow> (\<exists>s. v = service_text s \<and> (case s of ProductService name \<Rightarrow> slug name | _ \<Rightarrow> True))"
proof
  assume "service_label v"
  then show "\<exists>s. v = service_text s \<and> (case s of ProductService name \<Rightarrow> slug name | _ \<Rightarrow> True)"
    unfolding service_label_def
  proof (elim disjE)
    assume "v = lit ''the fee allocation''" then show ?thesis by (intro exI [of _ FeeService]) simp
  next
    assume "v = lit ''the fund allocation''" then show ?thesis by (intro exI [of _ FundService]) simp
  next
    assume *: "case Option.bind (strip_prefix v (lit ''the '')) (\<lambda>rest. strip_suffix rest (lit '' product'')) of None \<Rightarrow> False | Some name \<Rightarrow> slug name"
    then obtain n where "v = lit ''the '' @ n @ lit '' product''" "slug n" by (auto simp only: bind_strips split: option.splits)
    then show ?thesis by (intro exI [of _ "ProductService n"]) simp
  qed
qed (auto intro: service_text_free)

lemma titled_service_iff:
  "titled_service v \<longleftrightarrow> (\<exists>s title. v = with_note (service_text s) title \<and> label_read ascii_ext (ServiceEnd s title))"
proof
  assume t: "titled_service v"
  show "\<exists>s title. v = with_note (service_text s) title \<and> label_read ascii_ext (ServiceEnd s title)"
  proof (cases "split_once (lit '' ('') v")
    case None
    with t obtain s where "v = service_text s" "case s of ProductService name \<Rightarrow> slug name | _ \<Rightarrow> True"
      by (auto simp: titled_service_def service_label_text)
    then show ?thesis by (intro exI [of _ s] exI [of _ None]) simp
  next
    case (Some p)
    with t obtain label title n s where "p = (label, title)" "strip_suffix title (lit '')'') = Some n" "free_text n"
      "label = service_text s" "case s of ProductService name \<Rightarrow> slug name | _ \<Rightarrow> True"
      by (auto simp: titled_service_def service_label_text split: prod.splits option.splits)
    with Some show ?thesis
      by (intro exI [of _ s] exI [of _ "Some n"]) (simp add: split_once_Some strip_suffix_Some)
  qed
next
  assume "\<exists>s title. v = with_note (service_text s) title \<and> label_read ascii_ext (ServiceEnd s title)"
  then obtain s title where s: "v = with_note (service_text s) title" "case s of ProductService name \<Rightarrow> slug name | _ \<Rightarrow> True"
    "case title of None \<Rightarrow> True | Some t \<Rightarrow> free_text t" by auto
  note free = service_text_free [OF s(2)]
  show "titled_service v"
  proof (cases title)
    case None
    with s free show ?thesis by (simp add: titled_service_def split_once_note)
  next
    case (Some t)
    have "strip_suffix (t @ lit '')'') (lit '')'') = Some t" by (simp add: strip_suffix_Some)
    with Some s free show ?thesis by (simp add: titled_service_def split_once_note)
  qed
qed

lemma wallet_address:
  assumes "chain_address a n"
  shows "32 \<notin> set a" and "34 \<le> length a" and "n \<in> {lit ''bep20'', lit ''polygon'', lit ''trc20'', lit ''ton''}"
proof -
  show "n \<in> {lit ''bep20'', lit ''polygon'', lit ''trc20'', lit ''ton''}"
    by (rule rail_free) (use assms in \<open>auto simp: chain_address_def split: option.splits\<close>)
  have hex: "all_hex h \<longleftrightarrow> list_all is_ascii_hexdigit h" for h
    unfolding all_hex_def by (subst all_bytes) (auto simp: is_ascii_hexdigit_def is_ascii_digit_def)
  have base: "list_all (\<lambda>b. b \<in> set BASE58) (str_bytes s) \<longleftrightarrow> list_all (\<lambda>b. b \<in> set BASE58) s" for s
    by (rule all_bytes) (auto simp: BASE58_def lit_def)
  have word: "list_all (\<lambda>b. is_ascii_alphanumeric b \<or> b = 45 \<or> b = 95) (str_bytes s)
      \<longleftrightarrow> list_all (\<lambda>b. is_ascii_alphanumeric b \<or> b = 45 \<or> b = 95) s" for s
    by (rule all_bytes) (auto simp: ascii_defs)
  have ok: "list_all (\<lambda>c. c < 128 \<and> c \<noteq> 32) a \<and> 34 \<le> str_len a"
  proof -
    consider h where "str_len a = 42" "a = lit ''0x'' @ h" "list_all is_ascii_hexdigit h"
      | "str_len a = 34" "list_all (\<lambda>b. b \<in> set BASE58) a"
      | "str_len a = 48" "list_all (\<lambda>b. is_ascii_alphanumeric b \<or> b = 45 \<or> b = 95) a"
      | w h where "a = w @ lit '':'' @ h" "w = lit ''0'' \<or> w = lit ''-1''" "str_len h = 64" "list_all is_ascii_hexdigit h"
      using assms by (auto simp: chain_address_def Let_def hex base word strip_prefix_Some split_once_Some split: option.splits rail.splits prod.splits)
    then show ?thesis
    proof cases
      case 1
      then show ?thesis by (auto simp: lit_def list_all_iff is_ascii_hexdigit_def is_ascii_digit_def)
    next
      case 2
      then show ?thesis by (auto simp: list_all_iff BASE58_def lit_def)
    next
      case 3
      then show ?thesis by (auto simp: list_all_iff ascii_defs)
    next
      case 4
      have "str_len (x @ y) = str_len x + str_len y" for x y by (simp add: str_len_def str_bytes_def)
      with 4 show ?thesis by (auto simp: lit_def list_all_iff is_ascii_hexdigit_def is_ascii_digit_def)
    qed
  qed
  then show "32 \<notin> set a" by (auto simp: list_all_iff)
  from ok have "list_all (\<lambda>c. c < 128) a" by (auto simp: list_all_iff)
  from ascii_len [OF this] ok show "34 \<le> length a" by simp
qed

section \<open>The grammar\<close>

lemma begins_otherwise_None:
  "\<not> begins_otherwise v \<longleftrightarrow> strip_prefix v (lit ''investor '') = None \<and> strip_prefix v (lit ''depositor '') = None
     \<and> strip_prefix v (lit ''AUM '') = None \<and> strip_prefix v (lit ''treasury arrival '') = None"
  by (auto simp: begins_otherwise_def starts_with_def strip_prefix_def)

lemma payment_end_labelled:
  assumes "is_payment_end E v"
  obtains l where "label_read E l" "label_text l = v"
proof (cases "Option.bind (strip_prefix v (lit ''the '')) (\<lambda>rest. strip_suffix rest NEW_UNITS)")
  case (Some name)
  with assms have "slug name" by (simp add: is_payment_end_def)
  moreover from Some have "v = lit ''the '' @ name @ NEW_UNITS" by (simp only: bind_strips)
  ultimately show thesis using that [of "NewUnits name"] by simp
next
  case no_units: None
  show thesis
  proof (cases "titled_service v")
    case True
    then show thesis using that unfolding titled_service_iff by (metis label_read_simps(2) label_text.simps(2))
  next
    case no_service: False
    note step = assms [unfolded is_payment_end_def no_units option.case if_not_P [OF no_service]]
    show thesis
    proof (cases "begins_otherwise v")
      case True
      then consider r where "strip_prefix v (lit ''investor '') = Some r"
        | r where "strip_prefix v (lit ''investor '') = None" "strip_prefix v (lit ''depositor '') = Some r"
        | r where "strip_prefix v (lit ''investor '') = None" "strip_prefix v (lit ''depositor '') = None"
            "strip_prefix v (lit ''AUM '') = Some r"
        | r where "strip_prefix v (lit ''investor '') = None" "strip_prefix v (lit ''depositor '') = None"
            "strip_prefix v (lit ''AUM '') = None" "strip_prefix v (lit ''treasury arrival '') = Some r"
        using begins_otherwise_None [of v] by (metis not_Some_eq)
      then show thesis
      proof cases
        case (1 r)
        with step obtain i m where "r = with_note i m" "person_ok E i m" by (auto simp: person_iff)
        with 1 show thesis using that [of "InvestorEnd i m"] by (simp add: strip_prefix_Some)
      next
        case (2 r)
        with step obtain i m where "r = with_note i m" "person_ok E i m" by (auto simp: person_iff)
        with 2 show thesis using that [of "DepositorEnd i m"] by (simp add: strip_prefix_Some)
      next
        case (3 r)
        with step obtain n where "strip_suffix r (lit '' USDT'') = Some n" "decimal n" by (auto split: option.splits)
        with 3 show thesis using that [of "AumEnd n"] by (simp add: strip_prefix_Some strip_suffix_Some)
      next
        case (4 r)
        with step obtain t n where "rsplit_once (lit '' on '') r = Some (t, n)" "free_text t" "rail_of n \<noteq> None"
          by (auto split: option.splits)
        with 4 show thesis using that [of "Arrival t n"] by (simp add: strip_prefix_Some rsplit_once_Some)
      qed
    next
      case plain: False
      then have none: "strip_prefix v (lit ''investor '') = None" "strip_prefix v (lit ''depositor '') = None"
        "strip_prefix v (lit ''AUM '') = None" "strip_prefix v (lit ''treasury arrival '') = None"
        by (simp_all add: begins_otherwise_None)
      note step = step [unfolded none option.case]
      show thesis
      proof (cases "strip_suffix v NAV_VALUATION")
        case None
        with step obtain a n where "rsplit_once (lit '' on '') v = Some (a, n)" "chain_address a n" by (auto split: option.splits)
        then show thesis using that [of "Wallet a n"] by (simp add: rsplit_once_Some)
      next
        case (Some r)
        then have v: "v = r @ NAV_VALUATION" by (simp add: strip_suffix_Some)
        from step Some consider "slug r"
          | s t n where "strip_suffix r (lit '')'') = Some s" "rsplit_once (lit '' ('') s = Some (t, n)" "free_text t" "slug n"
          by (auto simp: bind_eq_Some_conv split: option.splits)
        then show thesis
        proof cases
          case 1
          with v plain show thesis using that [of "Valuation None r"] by simp
        next
          case (2 s t n)
          then have "v = t @ lit '' ('' @ n @ lit '')'' @ NAV_VALUATION" using v by (simp add: strip_suffix_Some rsplit_once_Some)
          with 2 plain show thesis using that [of "Valuation (Some t) n"] by simp
        qed
      qed
    qed
  qed
qed

lemma last_units: "last (p @ n @ NEW_UNITS) = 115" "last (x @ NAV_VALUATION) = 110" "last (x @ lit '')'') = 41"
  by (simp_all add: label_lits)

lemma not_units: "last v \<noteq> 115 \<Longrightarrow> Option.bind (strip_prefix v (lit ''the '')) (\<lambda>r. strip_suffix r NEW_UNITS) = None"
  by (auto simp only: bind_strips last_units)

lemma wallet_parts:
  assumes "chain_address a n" and "v = a @ lit '' on '' @ n"
  shows "last v \<noteq> 115" and "\<not> begins_otherwise v" and "strip_suffix v NAV_VALUATION = None"
    and "rsplit_once (lit '' on '') v = Some (a, n)"
proof -
  note addr = wallet_address [OF assms(1)]
  show "last v \<noteq> 115" using addr(3) by (auto simp: assms(2) lit_def)
  have differ: "rev v \<noteq> rev (r @ NAV_VALUATION)" for r
    using addr(3) by (auto simp: assms(2) lit_def NAV_VALUATION_def)
  show "strip_suffix v NAV_VALUATION = None" unfolding strip_suffix_None using differ by blast
  show "rsplit_once (lit '' on '') v = Some (a, n)"
    unfolding assms(2) by (rule rsplit_once_unique) (use addr(3) in \<open>auto simp: lit_def\<close>)
  have no_space: "v \<noteq> p @ 32 # r" if "length p < 34" for p r
  proof
    assume "v = p @ 32 # r"
    then have "v ! length p = 32" by simp
    moreover have "v ! length p = a ! length p" "length p < length a" using addr(2) that by (simp_all add: assms(2) nth_append)
    ultimately show False using addr(1) by (metis nth_mem)
  qed
  have "strip_prefix v (lit ''investor '') = None" "strip_prefix v (lit ''depositor '') = None"
    "strip_prefix v (lit ''AUM '') = None" "strip_prefix v (lit ''treasury arrival '') = None"
    using no_space [of "lit ''investor''"] no_space [of "lit ''depositor''"] no_space [of "lit ''AUM''"] no_space [of "lit ''treasury''"]
    by (auto simp: strip_prefix_None lit_def)
  then show "\<not> begins_otherwise v" by (simp add: begins_otherwise_None)
qed

lemma labelled_payment_end:
  assumes ok: "label_read E l"
  shows "is_payment_end E (label_text l)"
proof (cases l)
  case (NewUnits name)
  then have "Option.bind (strip_prefix (label_text l) (lit ''the '')) (\<lambda>r. strip_suffix r NEW_UNITS) = Some name"
    by (simp only: bind_strips label_text.simps)
  then show ?thesis using ok NewUnits by (simp only: is_payment_end_def option.case label_read_simps)
next
  case (ServiceEnd s title)
  have "titled_service (label_text l)" unfolding titled_service_iff using ok ServiceEnd by (auto intro!: exI [of _ s] exI [of _ title])
  moreover have "last (label_text l) \<noteq> 115"
    using ServiceEnd by (cases s; cases title) (simp_all add: lit_def)
  ultimately show ?thesis by (simp add: is_payment_end_def not_units)
next
  case (InvestorEnd i m)
  have "Option.bind (strip_prefix (label_text l) (lit ''the '')) (\<lambda>r. strip_suffix r NEW_UNITS) = None"
    by (simp only: bind_strips InvestorEnd) (simp add: lit_def)
  moreover have "strip_prefix (label_text l) (lit ''investor '') = Some (with_note i m)" by (simp add: InvestorEnd strip_prefix_Some)
  moreover have "person E (with_note i m)" using ok InvestorEnd by (auto simp: person_iff)
  ultimately show ?thesis by (simp add: is_payment_end_def)
next
  case (DepositorEnd i m)
  have "Option.bind (strip_prefix (label_text l) (lit ''the '')) (\<lambda>r. strip_suffix r NEW_UNITS) = None"
    by (simp only: bind_strips DepositorEnd) (simp add: lit_def)
  moreover have "strip_prefix (label_text l) (lit ''investor '') = None" by (simp add: DepositorEnd strip_prefix_None lit_def)
  moreover have "strip_prefix (label_text l) (lit ''depositor '') = Some (with_note i m)" by (simp add: DepositorEnd strip_prefix_Some)
  moreover have "person E (with_note i m)" using ok DepositorEnd by (auto simp: person_iff)
  ultimately show ?thesis by (simp add: is_payment_end_def)
next
  case (AumEnd n)
  have "Option.bind (strip_prefix (label_text l) (lit ''the '')) (\<lambda>r. strip_suffix r NEW_UNITS) = None"
    by (simp only: bind_strips AumEnd) (simp add: lit_def)
  moreover have "strip_prefix (label_text l) (lit ''investor '') = None" "strip_prefix (label_text l) (lit ''depositor '') = None"
    by (simp_all add: AumEnd strip_prefix_None lit_def)
  moreover have "strip_prefix (label_text l) (lit ''AUM '') = Some (n @ lit '' USDT'')" by (simp add: AumEnd strip_prefix_Some)
  moreover have "strip_suffix (n @ lit '' USDT'') (lit '' USDT'') = Some n" by (simp add: strip_suffix_Some)
  ultimately show ?thesis using ok AumEnd by (simp add: is_payment_end_def)
next
  case (Arrival t n)
  have "Option.bind (strip_prefix (label_text l) (lit ''the '')) (\<lambda>r. strip_suffix r NEW_UNITS) = None"
    by (simp only: bind_strips Arrival) (simp add: lit_def)
  moreover have "strip_prefix (label_text l) (lit ''investor '') = None" "strip_prefix (label_text l) (lit ''depositor '') = None"
    "strip_prefix (label_text l) (lit ''AUM '') = None"
    by (simp_all add: Arrival strip_prefix_None lit_def)
  moreover have "strip_prefix (label_text l) (lit ''treasury arrival '') = Some (t @ lit '' on '' @ n)" by (simp add: Arrival strip_prefix_Some)
  moreover have "rsplit_once (lit '' on '') (t @ lit '' on '' @ n) = Some (t, n)"
    by (rule rsplit_once_unique) (use ok Arrival rail_free [of n] in \<open>auto simp: lit_def\<close>)
  ultimately show ?thesis using ok Arrival by (simp add: is_payment_end_def)
next
  case (Valuation title name)
  then have plain: "\<not> begins_otherwise (label_text l)" and name: "slug name" "case title of None \<Rightarrow> True | Some t \<Rightarrow> free_text t"
    using ok by simp_all
  have "last (label_text l) = 110" using Valuation by (cases title) (simp_all add: label_lits)
  then have units: "Option.bind (strip_prefix (label_text l) (lit ''the '')) (\<lambda>r. strip_suffix r NEW_UNITS) = None"
    by (intro not_units) simp
  show ?thesis
  proof (cases title)
    case None
    then have "strip_suffix (label_text l) NAV_VALUATION = Some name" by (simp add: Valuation strip_suffix_Some)
    then show ?thesis using units plain name by (simp add: is_payment_end_def begins_otherwise_None)
  next
    case (Some t)
    then have nav: "strip_suffix (label_text l) NAV_VALUATION = Some (t @ lit '' ('' @ name @ lit '')'')"
      by (simp add: Valuation strip_suffix_Some)
    have "strip_suffix (t @ lit '' ('' @ name @ lit '')'') (lit '')'') = Some (t @ lit '' ('' @ name)" by (simp add: strip_suffix_Some)
    moreover have "rsplit_once (lit '' ('') (t @ lit '' ('' @ name) = Some (t, name)"
      by (rule rsplit_once_unique) (use slug_free [OF name(1)] in \<open>simp_all add: lit_def\<close>)
    ultimately show ?thesis using units plain name Some nav by (simp add: is_payment_end_def begins_otherwise_None)
  qed
next
  case (Wallet a n)
  with ok have a: "chain_address a n" by simp
  note parts = wallet_parts [OF a, of "label_text l"]
  show ?thesis
    using parts Wallet a by (simp add: is_payment_end_def not_units begins_otherwise_None)
qed

text \<open>C8. The two ends of a payment are exactly the labels the money plane builds, save one. A value is
  accepted, and unchanged, precisely when it is a line of at most 160 bytes without a link and
  the text of a label: new units of an allocation, a service with or without its title, an
  investor or depositor by id with an optional masked mailbox, assets under management, an
  arrival by its reference and rail, an address of a rail in that chain's shape, or a valuation
  whose text does not begin like an investor, depositor, AUM or arrival (one that does is
  refused, although the rule's doc lists its shape).\<close>

theorem payment_end_exact:
  "payment_end E v field = Inr w \<longleftrightarrow>
     w = v \<and> str_len v \<le> 160 \<and> \<not> list_ex breaks_or_hides v
     \<and> \<not> str_contains (to_ascii_lowercase v) (lit ''://'') \<and> \<not> str_contains (to_ascii_lowercase v) (lit ''www.'')
     \<and> (\<exists>l. label_ok E l \<and> label_text l = v
          \<and> (case l of Valuation title name \<Rightarrow>
                \<not> list_ex (starts_with v) [lit ''investor '', lit ''depositor '', lit ''AUM '', lit ''treasury arrival '']
              | _ \<Rightarrow> True))"
proof -
  have "is_payment_end E v \<longleftrightarrow> (\<exists>l. label_read E l \<and> label_text l = v)"
    using payment_end_labelled labelled_payment_end by metis
  also have "\<dots> \<longleftrightarrow> (\<exists>l. label_ok E l \<and> label_text l = v
      \<and> (case l of Valuation title name \<Rightarrow>
            \<not> list_ex (starts_with v) [lit ''investor '', lit ''depositor '', lit ''AUM '', lit ''treasury arrival ''] | _ \<Rightarrow> True))"
    unfolding label_read_def begins_otherwise_def
    by (intro arg_cong [where f = Ex] ext) (auto split: payment_label.splits)
  finally show ?thesis
    by (auto simp: payment_end_def line_def no_url_def without_needles_def ensure_def)
qed

end
