(* ===== verification/Mail_Relay.thy ===== *)
theory Mail_Relay
  imports Relay_Labels Governance_Service
begin

text \<open>
  \<open>runner/src/governance.rs\<close>, its third face: \<open>MailRelay\<close>, the one seam through which the money
  plane has this plane send a mail. The request names a person, a kind and the kind's fields;
  the address is read from the identity record, who may be written to is decided by the kind,
  and the accepted mail is queued once per key. Its state is the limiter of the process and the
  database. The clocks a request reads and the identifiers drawn for it are the record
  \<open>relay_env\<close>.
\<close>

section \<open>Requests of the money plane\<close>

record payout_approval =
  pa_consilium_id :: rstr
  pa_initiator_email :: rstr
  pa_network :: rstr
  pa_address :: rstr
  pa_amount :: rstr
  pa_memo :: rstr
  pa_payload_hash :: rstr
  pa_threshold :: nat
  pa_owner_count :: nat
  pa_expires_at :: int
  pa_approval_url :: rstr
  pa_code :: rstr

record payout_outcome =
  po_consilium_id :: rstr
  po_outcome :: rstr
  po_network :: rstr
  po_address :: rstr
  po_amount :: rstr
  po_detail :: rstr
  po_tier :: rstr
  po_source :: rstr
  po_destination :: rstr
  po_reason :: rstr
  po_fund :: rstr
  po_current :: "fee_terms_msg option"
  po_proposed :: "fee_terms_msg option"
  po_mark :: rstr

record payment_approval =
  py_consilium_id :: rstr
  py_payment_id :: rstr
  py_initiator_email :: rstr
  py_tier :: rstr
  py_source :: rstr
  py_destination :: rstr
  py_amount :: rstr
  py_reason :: rstr
  py_payload_hash :: rstr
  py_threshold :: nat
  py_owner_count :: nat
  py_expires_at :: int
  py_approval_url :: rstr
  py_code :: rstr

record payment_consent =
  pc_payment_id :: rstr
  pc_subject_user_id :: rstr
  pc_initiator_email :: rstr
  pc_tier :: rstr
  pc_source :: rstr
  pc_destination :: rstr
  pc_amount :: rstr
  pc_reason :: rstr
  pc_payload_hash :: rstr
  pc_expires_at :: int
  pc_approval_url :: rstr
  pc_code :: rstr

record fee_policy_approval =
  fa_consilium_id :: rstr
  fa_initiator_email :: rstr
  fa_fund :: rstr
  fa_current :: "fee_terms_msg option"
  fa_proposed :: "fee_terms_msg option"
  fa_reason :: rstr
  fa_payload_hash :: rstr
  fa_threshold :: nat
  fa_owner_count :: nat
  fa_expires_at :: int
  fa_approval_url :: rstr
  fa_code :: rstr

record fee_policy_notice =
  fn_subject_user_id :: rstr
  fn_fund :: rstr
  fn_current :: "fee_terms_msg option"
  fn_proposed :: "fee_terms_msg option"
  fn_effective_at :: int
  fn_link :: rstr

record payment_outcome =
  pq_subject_user_id :: rstr
  pq_outcome :: rstr
  pq_reason :: rstr
  pq_tier :: rstr
  pq_source :: rstr
  pq_destination :: rstr
  pq_amount :: rstr
  pq_payment_id :: rstr

record relay_request =
  rq_kind :: int
  rq_user_id :: rstr
  rq_dedupe_key :: rstr
  rq_payout_approval :: "payout_approval option"
  rq_payout_outcome :: "payout_outcome option"
  rq_payment_consent :: "payment_consent option"
  rq_payment_approval :: "payment_approval option"
  rq_fee_policy_approval :: "fee_policy_approval option"
  rq_fee_policy_notice :: "fee_policy_notice option"
  rq_payment_outcome :: "payment_outcome option"

section \<open>Drafts\<close>

datatype recipient_rule = ToFundOwner | ToSubject user_id bool

record inbox_notice =
  ic_title :: rstr
  ic_body :: rstr

text \<open>What a request asks to be queued, once its fields are accepted.\<close>

record relay_draft =
  dr_kind :: rstr
  dr_payload :: json
  dr_rule :: recipient_rule
  dr_notice :: "inbox_notice option"

definition wanted_mail :: "'m option \<Rightarrow> string \<Rightarrow> status + 'm" where
  "wanted_mail m msg = (case m of None \<Rightarrow> Inl (invalid msg) | Some x \<Rightarrow> Inr x)"

definition owner_draft :: "string \<Rightarrow> (rstr \<times> json) list \<Rightarrow> relay_draft" where
  "owner_draft kind pairs = \<lparr>dr_kind = lit kind, dr_payload = JObject pairs, dr_rule = ToFundOwner, dr_notice = None\<rparr>"

definition draft_payout_approval :: "rstr \<Rightarrow> relay_request \<Rightarrow> status + relay_draft" where
  "draft_payout_approval origin req =
     rbind (wanted_mail (rq_payout_approval req) ''payout_approval is required for this kind'') (\<lambda>mail.
     rbind (bounded (pa_consilium_id mail) 64 (lit ''consilium_id'')) (\<lambda>consilium_id.
     rbind (address (pa_initiator_email mail) (lit ''initiator_email'')) (\<lambda>initiator_email.
     rbind (rbind (bounded (pa_network mail) 64 (lit ''network'')) (\<lambda>s. no_link s (lit ''network''))) (\<lambda>network.
     rbind (bounded (pa_address mail) 128 (lit ''address'')) (\<lambda>addr.
     rbind (rbind (bounded (pa_amount mail) 64 (lit ''amount'')) (\<lambda>s. no_link s (lit ''amount''))) (\<lambda>amount.
     rbind (bounded (pa_memo mail) 500 (lit ''memo'')) (\<lambda>memo.
     rbind (bounded (pa_payload_hash mail) 128 (lit ''payload_hash'')) (\<lambda>payload_hash.
     rbind (approval_link origin (pa_approval_url mail)) (\<lambda>approval_url.
     rbind (bounded (pa_code mail) 64 (lit ''code'')) (\<lambda>code.
     Inr (owner_draft ''payout_approval''
       [(lit ''consilium_id'', JStr consilium_id), (lit ''initiator_email'', JStr initiator_email), (lit ''network'', JStr network),
        (lit ''address'', JStr addr), (lit ''amount'', JStr amount), (lit ''memo'', JStr memo),
        (lit ''payload_hash'', JStr payload_hash), (lit ''threshold'', JInt (int (pa_threshold mail))),
        (lit ''owner_count'', JInt (int (pa_owner_count mail))), (lit ''expires_at'', JInt (pa_expires_at mail)),
        (lit ''approval_url'', JStr approval_url), (lit ''code'', JStr code)])))))))))))"

text \<open>An outcome describes one thing: a rail, a payment, fee terms or a mark.\<close>

definition names_a_rail :: "payout_outcome \<Rightarrow> bool" where
  "names_a_rail m \<longleftrightarrow> po_network m \<noteq> [] \<or> po_address m \<noteq> []"

definition names_a_payment :: "payout_outcome \<Rightarrow> bool" where
  "names_a_payment m \<longleftrightarrow> po_source m \<noteq> [] \<or> po_destination m \<noteq> [] \<or> po_tier m \<noteq> []"

definition names_a_mark :: "payout_outcome \<Rightarrow> bool" where
  "names_a_mark m \<longleftrightarrow> po_mark m \<noteq> []"

definition names_fee_terms :: "payout_outcome \<Rightarrow> bool" where
  "names_fee_terms m \<longleftrightarrow> po_current m \<noteq> None \<or> po_proposed m \<noteq> None \<or> (po_fund m \<noteq> [] \<and> \<not> names_a_mark m)"

definition one_subject :: "payout_outcome \<Rightarrow> status + unit" where
  "one_subject m =
     rbind (ensure (length (filter id [names_a_rail m, names_a_payment m, names_fee_terms m, names_a_mark m]) \<le> 1)
       (invalid (''an outcome names either a rail (network, address), a payment (tier, source, destination), fee terms '' @
                 ''(fund, proposed), or a mark (fund, mark), not two''))) (\<lambda>_.
     rbind (ensure (\<not> (names_a_payment m \<and> (po_source m = [] \<or> po_destination m = [] \<or> po_tier m = [])))
       (invalid ''a payment outcome needs tier, source and destination together'')) (\<lambda>_.
     rbind (ensure (\<not> (names_fee_terms m \<and> (po_fund m = [] \<or> po_proposed m = None)))
       (invalid ''a fee terms outcome needs fund and proposed together'')) (\<lambda>_.
     ensure (\<not> (names_a_mark m \<and> po_fund m = [])) (invalid ''a valuation outcome needs fund and mark together''))))"

definition draft_payout_outcome :: "ext \<Rightarrow> relay_request \<Rightarrow> status + relay_draft" where
  "draft_payout_outcome E req =
     rbind (wanted_mail (rq_payout_outcome req) ''payout_outcome is required for this kind'') (\<lambda>m.
     rbind (bounded (po_outcome m) 64 (lit ''outcome'')) (\<lambda>ending.
     rbind (ensure (ending \<in> set OUTCOMES) (invalid ''outcome must be one of the consilium outcomes'')) (\<lambda>_.
     rbind (one_subject m) (\<lambda>_.
     rbind (bounded (po_consilium_id m) 64 (lit ''consilium_id'')) (\<lambda>consilium_id.
     rbind (rbind (bounded (po_network m) 64 (lit ''network'')) (\<lambda>s. no_link s (lit ''network''))) (\<lambda>network.
     rbind (bounded (po_address m) 128 (lit ''address'')) (\<lambda>addr.
     rbind (if names_a_payment m then payment_amount (po_amount m)
            else rbind (bounded (po_amount m) 64 (lit ''amount'')) (\<lambda>s. no_link s (lit ''amount''))) (\<lambda>amount.
     rbind (bounded (po_detail m) 500 (lit ''detail'')) (\<lambda>detail.
     rbind (if po_tier m = [] then Inr [] else payment_tier (po_tier m)) (\<lambda>tier.
     rbind (if names_a_payment m then payment_end E (po_source m) (lit ''source'') else Inr []) (\<lambda>source.
     rbind (if names_a_payment m then payment_end E (po_destination m) (lit ''destination'') else Inr []) (\<lambda>destination.
     rbind (line (po_reason m) 500 (lit ''reason'')) (\<lambda>reason.
     rbind (if names_fee_terms m \<or> names_a_mark m
            then rbind (required_line (po_fund m) 160 (lit ''fund'')) (\<lambda>s. no_url s (lit ''fund'')) else Inr []) (\<lambda>fund.
     rbind (current_fee_terms (po_current m)) (\<lambda>current.
     rbind (case po_proposed m of None \<Rightarrow> Inr JNull | Some t \<Rightarrow> fee_terms_json t (lit ''proposed'')) (\<lambda>proposed.
     rbind (if names_a_mark m then rbind (required_line (po_mark m) 64 (lit ''mark'')) (\<lambda>s. no_link s (lit ''mark'')) else Inr []) (\<lambda>mark.
     Inr (owner_draft ''payout_outcome''
       [(lit ''consilium_id'', JStr consilium_id), (lit ''outcome'', JStr ending), (lit ''network'', JStr network),
        (lit ''address'', JStr addr), (lit ''amount'', JStr amount), (lit ''detail'', JStr detail), (lit ''tier'', JStr tier),
        (lit ''source'', JStr source), (lit ''destination'', JStr destination), (lit ''reason'', JStr reason),
        (lit ''fund'', JStr fund), (lit ''current'', current), (lit ''proposed'', proposed), (lit ''mark'', JStr mark)]))))))))))))))))))"

definition draft_payment_approval :: "ext \<Rightarrow> rstr \<Rightarrow> relay_request \<Rightarrow> status + relay_draft" where
  "draft_payment_approval E origin req =
     rbind (wanted_mail (rq_payment_approval req) ''payment_approval is required for this kind'') (\<lambda>m.
     rbind (line (py_consilium_id m) 64 (lit ''consilium_id'')) (\<lambda>consilium_id.
     rbind (line (py_payment_id m) 64 (lit ''payment_id'')) (\<lambda>payment_id.
     rbind (address (py_initiator_email m) (lit ''initiator_email'')) (\<lambda>initiator_email.
     rbind (payment_tier (py_tier m)) (\<lambda>tier.
     rbind (payment_end E (py_source m) (lit ''source'')) (\<lambda>source.
     rbind (payment_end E (py_destination m) (lit ''destination'')) (\<lambda>destination.
     rbind (payment_amount (py_amount m)) (\<lambda>amount.
     rbind (required_line (py_reason m) 500 (lit ''reason'')) (\<lambda>reason.
     rbind (line (py_payload_hash m) 128 (lit ''payload_hash'')) (\<lambda>payload_hash.
     rbind (approval_link origin (py_approval_url m)) (\<lambda>approval_url.
     rbind (line (py_code m) 64 (lit ''code'')) (\<lambda>code.
     Inr (owner_draft ''payment_approval''
       [(lit ''consilium_id'', JStr consilium_id), (lit ''payment_id'', JStr payment_id),
        (lit ''initiator_email'', JStr initiator_email), (lit ''tier'', JStr tier), (lit ''source'', JStr source),
        (lit ''destination'', JStr destination), (lit ''amount'', JStr amount), (lit ''reason'', JStr reason),
        (lit ''payload_hash'', JStr payload_hash), (lit ''threshold'', JInt (int (py_threshold m))),
        (lit ''owner_count'', JInt (int (py_owner_count m))), (lit ''expires_at'', JInt (py_expires_at m)),
        (lit ''approval_url'', JStr approval_url), (lit ''code'', JStr code)])))))))))))))"

definition draft_payment_consent :: "ext \<Rightarrow> rstr \<Rightarrow> relay_request \<Rightarrow> status + relay_draft" where
  "draft_payment_consent E origin req =
     rbind (wanted_mail (rq_payment_consent req) ''payment_consent is required for this kind'') (\<lambda>m.
     rbind (payment_tier (pc_tier m)) (\<lambda>tier.
     rbind (parse_user_id E (pc_subject_user_id m) (lit ''subject_user_id'')) (\<lambda>subject.
     rbind (inbox_key_room (rq_dedupe_key req)) (\<lambda>_.
     rbind (address (pc_initiator_email m) (lit ''initiator_email'')) (\<lambda>initiator_email.
     rbind (payment_amount (pc_amount m)) (\<lambda>amount.
     let notice = \<lparr>ic_title = lit ''A payment needs your consent'',
        ic_body = initiator_email @ lit '' has opened a payment of '' @ amount @
          lit ''. What it is and where it goes, and the link to consent or refuse, are in the message sent to your email address.''\<rparr> in
     rbind (line (pc_payment_id m) 64 (lit ''payment_id'')) (\<lambda>payment_id.
     rbind (payment_end E (pc_source m) (lit ''source'')) (\<lambda>source.
     rbind (payment_end E (pc_destination m) (lit ''destination'')) (\<lambda>destination.
     rbind (required_line (pc_reason m) 500 (lit ''reason'')) (\<lambda>reason.
     rbind (line (pc_payload_hash m) 128 (lit ''payload_hash'')) (\<lambda>payload_hash.
     rbind (approval_link origin (pc_approval_url m)) (\<lambda>approval_url.
     rbind (line (pc_code m) 64 (lit ''code'')) (\<lambda>code.
     Inr \<lparr>dr_kind = lit ''payment_consent'', dr_payload = JObject
       [(lit ''payment_id'', JStr payment_id), (lit ''initiator_email'', JStr initiator_email), (lit ''tier'', JStr tier),
        (lit ''source'', JStr source), (lit ''destination'', JStr destination), (lit ''amount'', JStr amount),
        (lit ''reason'', JStr reason), (lit ''payload_hash'', JStr payload_hash), (lit ''expires_at'', JInt (pc_expires_at m)),
        (lit ''approval_url'', JStr approval_url), (lit ''code'', JStr code)],
        dr_rule = ToSubject subject False, dr_notice = Some notice\<rparr>)))))))))))))"

definition draft_fee_policy_approval :: "rstr \<Rightarrow> relay_request \<Rightarrow> status + relay_draft" where
  "draft_fee_policy_approval origin req =
     rbind (wanted_mail (rq_fee_policy_approval req) ''fee_policy_approval is required for this kind'') (\<lambda>m.
     rbind (wanted_mail (fa_proposed m) ''proposed terms are required'') (\<lambda>terms.
     rbind (line (fa_consilium_id m) 64 (lit ''consilium_id'')) (\<lambda>consilium_id.
     rbind (address (fa_initiator_email m) (lit ''initiator_email'')) (\<lambda>initiator_email.
     rbind (rbind (required_line (fa_fund m) 160 (lit ''fund'')) (\<lambda>s. no_url s (lit ''fund''))) (\<lambda>fund.
     rbind (current_fee_terms (fa_current m)) (\<lambda>current.
     rbind (fee_terms_json terms (lit ''proposed'')) (\<lambda>proposed.
     rbind (required_line (fa_reason m) 500 (lit ''reason'')) (\<lambda>reason.
     rbind (line (fa_payload_hash m) 128 (lit ''payload_hash'')) (\<lambda>payload_hash.
     rbind (approval_link origin (fa_approval_url m)) (\<lambda>approval_url.
     rbind (line (fa_code m) 64 (lit ''code'')) (\<lambda>code.
     Inr (owner_draft ''fee_policy_approval''
       [(lit ''consilium_id'', JStr consilium_id), (lit ''initiator_email'', JStr initiator_email), (lit ''fund'', JStr fund),
        (lit ''current'', current), (lit ''proposed'', proposed), (lit ''reason'', JStr reason),
        (lit ''payload_hash'', JStr payload_hash), (lit ''threshold'', JInt (int (fa_threshold m))),
        (lit ''owner_count'', JInt (int (fa_owner_count m))), (lit ''expires_at'', JInt (fa_expires_at m)),
        (lit ''approval_url'', JStr approval_url), (lit ''code'', JStr code)]))))))))))))"

definition draft_fee_policy_notice :: "ext \<Rightarrow> (int \<Rightarrow> (nat \<times> nat \<times> int) option) \<Rightarrow> relay_request \<Rightarrow> status + relay_draft" where
  "draft_fee_policy_notice E civil req =
     rbind (wanted_mail (rq_fee_policy_notice req) ''fee_policy_notice is required for this kind'') (\<lambda>m.
     rbind (wanted_mail (fn_proposed m) ''proposed terms are required'') (\<lambda>terms.
     rbind (parse_user_id E (fn_subject_user_id m) (lit ''subject_user_id'')) (\<lambda>subject.
     rbind (inbox_key_room (rq_dedupe_key req)) (\<lambda>_.
     rbind (rbind (required_line (fn_fund m) 160 (lit ''fund'')) (\<lambda>s. no_url s (lit ''fund''))) (\<lambda>fund.
     let notice = \<lparr>ic_title = lit ''The fee terms of '' @ fund @ lit '' are changing'',
        ic_body = lit ''New fee terms for '' @ fund @ lit '' take effect on '' @ fmt_ts civil (fn_effective_at m) @
          lit '': management fee '' @ pct_change (map_option ft_management_bps (fn_current m)) (ft_management_bps terms) @
          lit '', performance fee '' @ pct_change (map_option ft_performance_bps (fn_current m)) (ft_performance_bps terms) @
          lit ''. The full terms, now and next, are in the message sent to your email address.''\<rparr> in
     rbind (current_fee_terms (fn_current m)) (\<lambda>current.
     rbind (fee_terms_json terms (lit ''proposed'')) (\<lambda>proposed.
     rbind (cabinet_path (fn_link m)) (\<lambda>link.
     Inr \<lparr>dr_kind = lit ''fee_policy_notice'', dr_payload = JObject
       [(lit ''fund'', JStr fund), (lit ''current'', current), (lit ''proposed'', proposed),
        (lit ''effective_at'', JInt (fn_effective_at m)), (lit ''link'', JStr link)],
        dr_rule = ToSubject subject False, dr_notice = Some notice\<rparr>))))))))"

definition draft_payment_outcome ::
  "ext \<Rightarrow> 'z identity_db_scheme \<Rightarrow> user_id \<Rightarrow> relay_request \<Rightarrow> status + relay_draft" where
  "draft_payment_outcome E db addressee req =
     rbind (wanted_mail (rq_payment_outcome req) ''payment_outcome is required for this kind'') (\<lambda>m.
     rbind (parse_user_id E (pq_subject_user_id m) (lit ''subject_user_id'')) (\<lambda>subject.
     rbind (map_err domain_to_status (find_by_id E db subject)) (\<lambda>found.
     rbind (ensure (found \<noteq> None) (Status NotFoundCode (lit ''subject is not a user of this plane''))) (\<lambda>_.
     rbind (consent_ending (pq_outcome m) (pq_reason m)) (\<lambda>_.
     rbind (inbox_key_room (rq_dedupe_key req)) (\<lambda>_.
     rbind (money_amount (pq_amount m)) (\<lambda>amount.
     rbind (case uuid_parse E (pq_payment_id m) of None \<Rightarrow> Inl (invalid ''payment_id must be a UUID'') | Some i \<Rightarrow> Inr i) (\<lambda>payment_id.
     let to_subject = (addressee = subject);
         notice = (if to_subject then Some \<lparr>
           ic_title = (if pq_outcome m = lit ''TOKEN_BURNED'' then lit ''Your payment consent link was locked''
                       else lit ''A payment awaiting your consent was cancelled''),
           ic_body = lit ''A payment of '' @ amount @ lit '' from your account was cancelled, and no money moved. '' @
             lit ''What happened, and what to do about it, is in the message sent to your email address.''\<rparr> else None) in
     rbind (payment_tier (pq_tier m)) (\<lambda>tier.
     rbind (payment_end E (pq_source m) (lit ''source'')) (\<lambda>source.
     rbind (payment_end E (pq_destination m) (lit ''destination'')) (\<lambda>destination.
     Inr \<lparr>dr_kind = lit ''payment_outcome'', dr_payload = JObject
       [(lit ''audience'', JStr (if to_subject then lit ''subject'' else lit ''staff'')), (lit ''outcome'', JStr (pq_outcome m)),
        (lit ''reason'', JStr (pq_reason m)), (lit ''tier'', JStr tier), (lit ''source'', JStr source),
        (lit ''destination'', JStr destination), (lit ''amount'', JStr amount), (lit ''payment_id'', JStr (uuid_text E payment_id))],
        dr_rule = ToSubject subject True, dr_notice = notice\<rparr>)))))))))))"

definition relay_draft_of ::
  "ext \<Rightarrow> (int \<Rightarrow> (nat \<times> nat \<times> int) option) \<Rightarrow> rstr \<Rightarrow> 'z identity_db_scheme \<Rightarrow> user_id \<Rightarrow> relay_request \<Rightarrow> status + relay_draft" where
  "relay_draft_of E civil origin db addressee req =
     (if rq_kind req = 1 then draft_payout_approval origin req
      else if rq_kind req = 2 \<or> rq_kind req = 3 then draft_payout_outcome E req
      else if rq_kind req = 4 then draft_payment_consent E origin req
      else if rq_kind req = 5 then draft_payment_approval E origin req
      else if rq_kind req = 6 then draft_fee_policy_approval origin req
      else if rq_kind req = 7 then draft_fee_policy_notice E civil req
      else if rq_kind req = 8 then draft_payment_outcome E db addressee req
      else Inl (invalid ''kind must be a known governance mail kind''))"

section \<open>Sending\<close>

record mail_relay =
  mr_token :: "rstr option"
  mr_approval_origin :: rstr

definition mail_relay_new :: "rstr option \<Rightarrow> rstr \<Rightarrow> mail_relay" where
  "mail_relay_new token origin =
     \<lparr>mr_token = (case token of None \<Rightarrow> None | Some t \<Rightarrow> if t = [] then None else Some t),
      mr_approval_origin = trim_end_slash origin\<rparr>"

record relay_env =
  re_peek_at :: nat
  re_spend_at :: nat
  re_now :: int
  re_clock :: int
  re_subscriber :: nat
  re_unsubscribe_token :: rstr
  re_second_subscriber :: nat
  re_second_token :: rstr
  re_notification :: nat

definition SUBJECT_INBOX_TOPIC :: rstr where "SUBJECT_INBOX_TOPIC = lit ''account:money-movement''"

definition noun :: "rstr \<Rightarrow> rstr" where
  "noun kind = map (\<lambda>c. if c = 95 then 32 else c) kind"

definition may_receive :: "recipient_rule \<Rightarrow> rstr \<Rightarrow> user \<Rightarrow> status + unit" where
  "may_receive rule kind recipient =
     (case rule of
        ToFundOwner \<Rightarrow>
          rbind (ensure (us_role recipient = Owner)
            (Status FailedPrecondition (lit ''a governance mail may only be addressed to a fund owner''))) (\<lambda>_.
          ensure (us_email_verified recipient)
            (Status FailedPrecondition (lit ''a consilium mail may only be sent to a verified address'')))
      | ToSubject subject or_staff \<Rightarrow>
          (let staff = or_staff \<and> (us_role recipient = Admin \<or> us_role recipient = Owner);
               whom = (if or_staff then lit ''the person it names as its subject or to staff''
                       else lit ''the person it names as its subject'')
           in rbind (ensure (us_id recipient = subject \<or> staff)
                (Status FailedPrecondition (lit ''a '' @ noun kind @ lit '' may only be addressed to '' @ whom))) (\<lambda>_.
              ensure (us_email_verified recipient)
                (Status FailedPrecondition (lit ''a '' @ noun kind @ lit '' may only be sent to a verified address'')))))"

text \<open>Everything that may refuse the call before a row is written: the draft and its recipient.\<close>

definition relay_admitted ::
  "ext \<Rightarrow> (int \<Rightarrow> (nat \<times> nat \<times> int) option) \<Rightarrow> mail_relay \<Rightarrow> 'z identity_db_scheme \<Rightarrow> user_id \<Rightarrow> relay_request
     \<Rightarrow> status + (relay_draft \<times> user)" where
  "relay_admitted E civil r db addressee req =
     rbind (relay_draft_of E civil (mr_approval_origin r) db addressee req) (\<lambda>d.
     rbind (map_err domain_to_status (find_by_id E db addressee)) (\<lambda>found.
     rbind (case found of None \<Rightarrow> Inl (Status NotFoundCode (lit ''recipient is not a user of this plane'')) | Some u \<Rightarrow> Inr u) (\<lambda>u.
     rbind (may_receive (dr_rule d) (dr_kind d) u) (\<lambda>_. Inr (d, u)))))"

definition relay_addressee :: "ext \<Rightarrow> mail_relay \<Rightarrow> rstr option \<Rightarrow> relay_request \<Rightarrow> status + user_id" where
  "relay_addressee E r authorization req =
     rbind (authenticate_service (mr_token r) authorization (lit ''mail relay'')) (\<lambda>_.
     rbind (ensure (rq_dedupe_key req \<noteq> [] \<and> length (rq_dedupe_key req) \<le> 128)
       (invalid ''dedupe_key must be 1-128 characters'')) (\<lambda>_.
     parse_user_id E (rq_user_id req) (lit ''user_id'')))"

text \<open>The queue, the budget it spends, and the trace in the inbox, whose failure is only logged.\<close>

definition relay_queue ::
  "ext \<Rightarrow> relay_env \<Rightarrow> user_id \<Rightarrow> relay_request \<Rightarrow> relay_draft \<Rightarrow> user \<Rightarrow> rate_limiter \<times> 'z notify_db_scheme
     \<Rightarrow> (status + bool) \<times> (rate_limiter \<times> 'z notify_db_scheme)" where
  "relay_queue E env addressee req d u st =
     (case st of (l, db) \<Rightarrow>
      let (out, db) = enqueue_mail E (re_clock env) (re_subscriber env) (re_unsubscribe_token env) addressee
             (email_as_str (us_email u)) (us_email_verified u) (dr_kind d) (rq_dedupe_key req) (dr_payload d) db;
          trace = (\<lambda>db. case dr_notice d of
             None \<Rightarrow> db
           | Some n \<Rightarrow> snd (record_notification E (re_clock env) (re_second_subscriber env) (re_notification env) (re_second_token env)
                addressee (email_as_str (us_email u)) (us_email_verified u) SUBJECT_INBOX_TOPIC (dr_kind d)
                (ic_title n) (ic_body n) (INBOX_KEY_PREFIX @ rq_dedupe_key req) (re_now env) db))
      in case out of
           Inl e \<Rightarrow> (Inl (domain_to_status e), (l, db))
         | Inr Inserted \<Rightarrow> (Inr True, (limiter_record (re_spend_at env) l (user_text E addressee), trace db))
         | Inr SameMail \<Rightarrow> (Inr False, (l, trace db))
         | Inr Foreign \<Rightarrow> (Inl (Status AlreadyExists (lit ''dedupe_key already belongs to another mail'')), (l, db)))"

definition send_governance_mail ::
  "ext \<Rightarrow> (int \<Rightarrow> (nat \<times> nat \<times> int) option) \<Rightarrow> mail_relay \<Rightarrow> relay_env \<Rightarrow> rstr option \<Rightarrow> relay_request
     \<Rightarrow> rate_limiter \<times> 'z notify_db_scheme \<Rightarrow> (status + bool) \<times> (rate_limiter \<times> 'z notify_db_scheme)" where
  "send_governance_mail E civil r env authorization req st =
     (case relay_addressee E r authorization req of
        Inl e \<Rightarrow> (Inl e, st)
      | Inr addressee \<Rightarrow>
          (let (within, l) = limiter_peek (re_peek_at env) (fst st) (user_text E addressee); db = snd st
           in if \<not> within
              then (Inl (Status ResourceExhausted (lit ''too many governance mails for this recipient in the current window'')), (l, db))
              else case relay_admitted E civil r db addressee req of
                     Inl e \<Rightarrow> (Inl e, (l, db))
                   | Inr (d, u) \<Rightarrow> relay_queue E env addressee req d u (l, db)))"

end
