(* ===== verification/Relay_Safety.thy ===== *)
theory Relay_Safety
  imports Mail_Relay
begin

text \<open>
  What the mail relay guarantees against a compromised money plane: whom a mail reaches and at
  which address, how many of them, and that no field forges a line of it.
\<close>

section \<open>Drafts\<close>

lemma rbindE: "rbind r f = Inr y \<Longrightarrow> (\<And>x. r = Inr x \<Longrightarrow> f x = Inr y \<Longrightarrow> P) \<Longrightarrow> P"
  by (cases r) auto

named_theorems draft_defs "the drafts, unfolded"

lemmas [draft_defs] = draft_payout_approval_def draft_payout_outcome_def draft_payment_approval_def
  draft_payment_consent_def draft_fee_policy_approval_def draft_fee_policy_notice_def draft_payment_outcome_def

text \<open>The person a mail of the last kinds is about.\<close>

definition mail_subject :: "ext \<Rightarrow> relay_request \<Rightarrow> user_id option" where
  "mail_subject E req =
     (let raw = (if rq_kind req = 4 then map_option pc_subject_user_id (rq_payment_consent req)
                 else if rq_kind req = 7 then map_option fn_subject_user_id (rq_fee_policy_notice req)
                 else map_option pq_subject_user_id (rq_payment_outcome req))
      in Option.bind raw (\<lambda>s. map_option UserId (uuid_parse E s)))"

lemma wanted_Inr [result_simps]: "wanted_mail m msg = Inr x \<longleftrightarrow> m = Some x"
  by (simp add: wanted_mail_def split: option.split)

lemma parse_user_Inr [result_simps]: "parse_user_id E raw field = Inr i \<longleftrightarrow> map_option UserId (uuid_parse E raw) = Some i"
  by (simp add: parse_user_id_def split: option.split)

lemma owner_draft_simps [simp]:
  "dr_rule (owner_draft k f) = ToFundOwner" "dr_kind (owner_draft k f) = lit k" "dr_notice (owner_draft k f) = None"
  "dr_payload (owner_draft k f) = JObject f"
  by (simp_all add: owner_draft_def)

lemma owner_rules:
  "draft_payout_approval origin req = Inr d \<Longrightarrow> dr_rule d = ToFundOwner \<and> dr_kind d = lit ''payout_approval''"
  "draft_payout_outcome E req = Inr d \<Longrightarrow> dr_rule d = ToFundOwner \<and> dr_kind d = lit ''payout_outcome''"
  "draft_payment_approval E origin req = Inr d \<Longrightarrow> dr_rule d = ToFundOwner \<and> dr_kind d = lit ''payment_approval''"
  "draft_fee_policy_approval origin req = Inr d \<Longrightarrow> dr_rule d = ToFundOwner \<and> dr_kind d = lit ''fee_policy_approval''"
  unfolding draft_defs
  by (elim rbindE, simp only: sum.inject, hypsubst, simp only: owner_draft_simps simp_thms)+

lemma subject_rules:
  "draft_payment_consent E origin req = Inr d \<Longrightarrow>
     \<exists>m i. rq_payment_consent req = Some m \<and> map_option UserId (uuid_parse E (pc_subject_user_id m)) = Some i
       \<and> dr_rule d = ToSubject i False \<and> dr_kind d = lit ''payment_consent''"
  "draft_fee_policy_notice E civil req = Inr d \<Longrightarrow>
     \<exists>m i. rq_fee_policy_notice req = Some m \<and> map_option UserId (uuid_parse E (fn_subject_user_id m)) = Some i
       \<and> dr_rule d = ToSubject i False \<and> dr_kind d = lit ''fee_policy_notice''"
  "draft_payment_outcome E db addressee req = Inr d \<Longrightarrow>
     \<exists>m i. rq_payment_outcome req = Some m \<and> map_option UserId (uuid_parse E (pq_subject_user_id m)) = Some i
       \<and> dr_rule d = ToSubject i True \<and> dr_kind d = lit ''payment_outcome''"
  unfolding draft_defs Let_def
  by (elim rbindE, simp only: sum.inject wanted_Inr parse_user_Inr, hypsubst, rule exI, rule exI, intro conjI, rule refl, assumption, simp, simp)+

definition kind_name :: "int \<Rightarrow> rstr" where
  "kind_name k = (if k = 1 then lit ''payout_approval'' else if k = 2 \<or> k = 3 then lit ''payout_outcome''
     else if k = 4 then lit ''payment_consent'' else if k = 5 then lit ''payment_approval''
     else if k = 6 then lit ''fee_policy_approval'' else if k = 7 then lit ''fee_policy_notice'' else lit ''payment_outcome'')"

lemma draft_rule:
  assumes "relay_draft_of E civil origin db addressee req = Inr d"
  shows "rq_kind req \<in> {1..8}" and "dr_kind d = kind_name (rq_kind req)"
    and "dr_rule d = (if rq_kind req \<in> {1, 2, 3, 5, 6} then ToFundOwner
           else ToSubject (the (mail_subject E req)) (rq_kind req = 8))"
    and "rq_kind req \<in> {4, 7, 8} \<Longrightarrow> mail_subject E req \<noteq> None"
proof -
  show "rq_kind req \<in> {1..8}" using assms by (auto simp: relay_draft_of_def split: if_splits)
  then consider "rq_kind req = 1" | "rq_kind req = 2" | "rq_kind req = 3" | "rq_kind req = 4" | "rq_kind req = 5"
    | "rq_kind req = 6" | "rq_kind req = 7" | "rq_kind req = 8" by force
  then have "dr_kind d = kind_name (rq_kind req)
    \<and> dr_rule d = (if rq_kind req \<in> {1, 2, 3, 5, 6} then ToFundOwner else ToSubject (the (mail_subject E req)) (rq_kind req = 8))
    \<and> (rq_kind req \<in> {4, 7, 8} \<longrightarrow> mail_subject E req \<noteq> None)"
    using assms
    by cases (auto simp: relay_draft_of_def kind_name_def mail_subject_def dest!: owner_rules subject_rules)
  then show "dr_kind d = kind_name (rq_kind req)"
    "dr_rule d = (if rq_kind req \<in> {1, 2, 3, 5, 6} then ToFundOwner else ToSubject (the (mail_subject E req)) (rq_kind req = 8))"
    "rq_kind req \<in> {4, 7, 8} \<Longrightarrow> mail_subject E req \<noteq> None" by blast+
qed

section \<open>The queue\<close>

lemma upsert_mail: "upsert_subscriber E clock fresh token db i m v = Inr (db', s) \<Longrightarrow> db_deliveries db' = db_deliveries db"
  by (auto simp: upsert_subscriber_def Let_def split: if_splits option.splits)

lemma record_mail: "db_deliveries (snd (record_notification E clock fs fresh token i m v topic kind title body key at db)) = db_deliveries db"
  by (auto simp: record_notification_def transact_def rbind_def insert_inbox_def dest!: upsert_mail split: sum.splits option.splits if_splits prod.splits)

lemma enqueue_cases:
  assumes "enqueue_mail E clock fresh token i m v kind key payload db = (out, db')"
  shows "out \<noteq> Inr Inserted \<Longrightarrow> db_deliveries db' = db_deliveries db"
    and "out = Inr Inserted \<Longrightarrow> \<exists>d. db_deliveries db' = db_deliveries db @ [d] \<and> dl_recipient d = m \<and> dl_kind d = kind
      \<and> dl_dedupe_key d = Some key \<and> dl_payload d = Some payload \<and> dl_status d = lit ''pending''
      \<and> (\<forall>x\<in>set (db_deliveries db). dl_dedupe_key x \<noteq> Some key)"
  using assms
  by (auto simp: enqueue_mail_def enqueue_governance_mail_def queue_delivery_def Let_def rbind_Inr_iff find_None_iff_all
      dest!: upsert_mail split: sum.splits option.splits if_splits)

lemma relay_queue_cases:
  assumes "relay_queue E env addressee req d u (l, db) = (out, (l', db'))"
  shows "out \<noteq> Inr True \<Longrightarrow> db_deliveries db' = db_deliveries db \<and> l' = l"
    and "out = Inr True \<Longrightarrow> l' = limiter_record (re_spend_at env) l (user_text E addressee) \<and>
      (\<exists>x. db_deliveries db' = db_deliveries db @ [x] \<and> dl_recipient x = email_as_str (us_email u) \<and> dl_kind x = dr_kind d
        \<and> dl_dedupe_key x = Some (rq_dedupe_key req) \<and> dl_payload x = Some (dr_payload d)
        \<and> (\<forall>y\<in>set (db_deliveries db). dl_dedupe_key y \<noteq> Some (rq_dedupe_key req)))"
proof -
  obtain q db1 where q: "enqueue_mail E (re_clock env) (re_subscriber env) (re_unsubscribe_token env) addressee
      (email_as_str (us_email u)) (us_email_verified u) (dr_kind d) (rq_dedupe_key req) (dr_payload d) db = (q, db1)"
    by fastforce
  note cases = enqueue_cases [OF q]
  from assms q have run: "db_deliveries db' = db_deliveries db1" "out = Inr True \<longleftrightarrow> q = Inr Inserted"
    "l' = (if q = Inr Inserted then limiter_record (re_spend_at env) l (user_text E addressee) else l)"
    by (auto simp: relay_queue_def record_mail split: sum.splits governance_mail_queued.splits option.splits)
  show "out \<noteq> Inr True \<Longrightarrow> db_deliveries db' = db_deliveries db \<and> l' = l"
    using cases(1) run by simp
  show "out = Inr True \<Longrightarrow> l' = limiter_record (re_spend_at env) l (user_text E addressee) \<and>
      (\<exists>x. db_deliveries db' = db_deliveries db @ [x] \<and> dl_recipient x = email_as_str (us_email u) \<and> dl_kind x = dr_kind d
        \<and> dl_dedupe_key x = Some (rq_dedupe_key req) \<and> dl_payload x = Some (dr_payload d)
        \<and> (\<forall>y\<in>set (db_deliveries db). dl_dedupe_key y \<noteq> Some (rq_dedupe_key req)))"
    using cases(2) run by auto
qed

text \<open>A call either leaves the queue alone, or passed every check and reached it.\<close>

lemma send_cases:
  assumes "send_governance_mail E civil r env authorization req (l, db) = (out, (l', db'))"
  obtains (refused) "out \<noteq> Inr True" "db_deliveries db' = db_deliveries db" "l' = l"
    | (peeked) i l1 ok where "uuid_parse E (rq_user_id req) = Some (uid_raw i)" "out \<noteq> Inr True" "db_deliveries db' = db_deliveries db"
        "limiter_peek (re_peek_at env) l (user_text E i) = (ok, l1)" "l' = l1"
    | (queued) i l1 d u where "mr_token r \<noteq> None" "authorization = Some (lit ''Bearer '' @ the (mr_token r))"
        "uuid_parse E (rq_user_id req) = Some (uid_raw i)" "limiter_peek (re_peek_at env) l (user_text E i) = (True, l1)"
        "relay_admitted E civil r db i req = Inr (d, u)" "out = Inr True" "relay_queue E env i req d u (l1, db) = (Inr True, (l', db'))"
proof (cases "relay_addressee E r authorization req")
  case (Inl e)
  then show thesis using assms refused by (auto simp: send_governance_mail_def)
next
  case (Inr i)
  then have ok: "mr_token r \<noteq> None" "authorization = Some (lit ''Bearer '' @ the (mr_token r))"
    "uuid_parse E (rq_user_id req) = Some (uid_raw i)"
    by (auto simp: relay_addressee_def authenticate_service_def bearer_token_def result_simps strip_prefix_Some bind_eq_Some_conv
        split: option.splits)
  obtain within l1 where peek: "limiter_peek (re_peek_at env) l (user_text E i) = (within, l1)" by fastforce
  show thesis
  proof (cases "within \<and> (\<exists>d u. relay_admitted E civil r db i req = Inr (d, u))")
    case False
    then have "out \<noteq> Inr True" "db_deliveries db' = db_deliveries db" "l' = l1"
      using assms Inr peek by (auto simp: send_governance_mail_def split: if_splits sum.splits)
    then show thesis using peeked ok(3) peek by blast
  next
    case True
    then obtain d u where adm: "relay_admitted E civil r db i req = Inr (d, u)" by blast
    have run: "relay_queue E env i req d u (l1, db) = (out, (l', db'))"
      using assms Inr peek True adm by (auto simp: send_governance_mail_def)
    show thesis
    proof (cases "out = Inr True")
      case True
      then show thesis using queued [OF ok _ adm] peek \<open>within \<and> _\<close> run by simp
    next
      case False
      then show thesis using peeked [OF ok(3) False] relay_queue_cases(1) [OF run False] peek by blast
    qed
  qed
qed

lemma admitted_recipient:
  assumes "relay_admitted E civil r db i req = Inr (d, u)"
  shows "relay_draft_of E civil (mr_approval_origin r) db i req = Inr d" and "find_by_id E db i = Inr (Some u)" and "us_id u = i"
    and "us_email_verified u" and "dr_rule d = ToFundOwner \<Longrightarrow> us_role u = Owner"
    and "dr_rule d = ToSubject s b \<Longrightarrow> s = i \<or> b \<and> (us_role u = Admin \<or> us_role u = Owner)"
proof -
  obtain found where parts: "relay_draft_of E civil (mr_approval_origin r) db i req = Inr d" "find_by_id E db i = Inr found"
    "found = Some u" "may_receive (dr_rule d) (dr_kind d) u = Inr ()"
    using assms unfolding relay_admitted_def
    by (elim rbindE) (simp add: map_err_iff split: option.splits)
  then show "relay_draft_of E civil (mr_approval_origin r) db i req = Inr d" "find_by_id E db i = Inr (Some u)" "us_id u = i"
    by (auto dest: find_by_id_row)
  show "us_email_verified u" "dr_rule d = ToFundOwner \<Longrightarrow> us_role u = Owner"
    "dr_rule d = ToSubject s b \<Longrightarrow> s = i \<or> b \<and> (us_role u = Admin \<or> us_role u = Owner)"
    using parts(4) find_by_id_row [of E db i u] parts(2,3)
    by (cases "dr_rule d"; auto simp: may_receive_def result_simps Let_def)+
qed

section \<open>Whom a mail reaches\<close>

text \<open>C5. A mail of the money plane reaches only whom it may. If the relay reports a mail as queued,
  the caller held the shared secret, exactly one mail was added, under a key no mail had, and
  it goes to the verified address on record of the account the request names; for a consilium
  kind that account holds an owner seat, for a consent or a fee notice it is the person the mail
  is about, for the news of a dead consent that person or an admin or owner on record. In every
  other case the queue is left alone.\<close>

theorem mail_reaches_only_whom_it_may:
  assumes "send_governance_mail E civil r env authorization req (l, db) = (out, (l', db'))"
  shows "(out \<noteq> Inr True \<longrightarrow> db_deliveries db' = db_deliveries db)
    \<and> (out = Inr True \<longrightarrow> (\<exists>t i u x. mr_token r = Some t \<and> authorization = Some (lit ''Bearer '' @ t)
        \<and> uuid_parse E (rq_user_id req) = Some (uid_raw i) \<and> find_by_id E db i = Inr (Some u) \<and> us_email_verified u
        \<and> db_deliveries db' = db_deliveries db @ [x] \<and> dl_recipient x = email_as_str (us_email u)
        \<and> dl_kind x = kind_name (rq_kind req) \<and> dl_dedupe_key x = Some (rq_dedupe_key req)
        \<and> (\<forall>y\<in>set (db_deliveries db). dl_dedupe_key y \<noteq> Some (rq_dedupe_key req))
        \<and> (if rq_kind req \<in> {1, 2, 3, 5, 6} then us_role u = Owner
           else mail_subject E req = Some i \<or> rq_kind req = 8 \<and> us_role u \<in> {Admin, Owner})))"
  using assms
proof (cases rule: send_cases)
  case (queued i l1 d u)
  note adm = admitted_recipient [OF queued(5)]
  note rule = draft_rule [OF adm(1)]
  have who: "if rq_kind req \<in> {1, 2, 3, 5, 6} then us_role u = Owner
      else mail_subject E req = Some i \<or> rq_kind req = 8 \<and> us_role u \<in> {Admin, Owner}"
  proof (cases "rq_kind req \<in> {1, 2, 3, 5, 6}")
    case True
    then show ?thesis using rule(3) adm(5) by simp
  next
    case False
    then have "rq_kind req \<in> {4, 7, 8}" using rule(1) by auto
    then obtain s where "mail_subject E req = Some s" using rule(4) by auto
    with False show ?thesis using rule(3) adm(6) [of s "rq_kind req = 8"] by auto
  qed
  from relay_queue_cases(2) [OF queued(7) refl] obtain x where "db_deliveries db' = db_deliveries db @ [x]"
    "dl_recipient x = email_as_str (us_email u)" "dl_kind x = dr_kind d" "dl_dedupe_key x = Some (rq_dedupe_key req)"
    "\<forall>y\<in>set (db_deliveries db). dl_dedupe_key y \<noteq> Some (rq_dedupe_key req)" by blast
  with queued adm(2,4) rule(2) who show ?thesis by (auto intro!: exI [of _ i])
qed simp_all

section \<open>How many\<close>

text \<open>Calls one after another; the answers in order.\<close>

fun relay_run ::
  "ext \<Rightarrow> (int \<Rightarrow> (nat \<times> nat \<times> int) option) \<Rightarrow> mail_relay \<Rightarrow> (relay_env \<times> rstr option \<times> relay_request) list
     \<Rightarrow> rate_limiter \<times> 'z notify_db_scheme \<Rightarrow> (status + bool) list" where
  "relay_run E civil r [] st = []"
| "relay_run E civil r ((env, authorization, req) # calls) st =
     (let (out, st') = send_governance_mail E civil r env authorization req st in out # relay_run E civil r calls st')"

text \<open>The mails the calls queue for one account in one window of the limiter, by the time they were charged.\<close>

definition mails_in ::
  "ext \<Rightarrow> user_id \<Rightarrow> nat \<Rightarrow> nat \<Rightarrow> (relay_env \<times> rstr option \<times> relay_request) list \<Rightarrow> (status + bool) list \<Rightarrow> nat" where
  "mails_in E i secs b calls outs =
     length (filter (\<lambda>((env, authorization, req), out). uuid_parse E (rq_user_id req) = Some (uid_raw i) \<and> out = Inr True
       \<and> re_spend_at env div secs = b) (zip calls outs))"

definition call_times :: "(relay_env \<times> rstr option \<times> relay_request) list \<Rightarrow> nat list" where
  "call_times calls = concat (map (\<lambda>(env, authorization, req). [re_peek_at env, re_spend_at env]) calls)"

lemma call_times_Cons:
  "sorted (now # call_times ((env, a, req) # calls)) \<longleftrightarrow>
   now \<le> re_peek_at env \<and> re_peek_at env \<le> re_spend_at env \<and> sorted (re_spend_at env # call_times calls)"
  by (simp only: call_times_def list.map concat.simps prod.case append_Cons append_Nil sorted2)

lemma later_window_none:
  "sorted (now # call_times calls) \<Longrightarrow> b < now div secs \<Longrightarrow> mails_in E i secs b calls outs = 0"
proof (induction calls arbitrary: now outs)
  case (Cons call calls)
  obtain env a req where call: "call = (env, a, req)" by (cases call)
  have times: "now \<le> re_peek_at env" "re_peek_at env \<le> re_spend_at env" "sorted (re_spend_at env # call_times calls)"
    using Cons.prems(1) unfolding call call_times_Cons by simp_all
  then have late: "b < re_spend_at env div secs" using Cons.prems(2) by (meson div_le_mono order_less_le_trans order_trans)
  show ?case
  proof (cases outs)
    case (Cons out rest_outs)
    then show ?thesis using Cons.IH [OF times(3) late, of rest_outs] late by (simp add: mails_in_def call)
  qed (simp add: mails_in_def)
qed (simp add: mails_in_def)

text \<open>What one call does to the limiter: it stays within every budget, and a mail is charged to the window it
  is recorded in. A call whose check falls in an earlier window is the first of its window.\<close>

lemma call_charged:
  assumes ok: "limiter_ok now l" and times: "now \<le> re_peek_at env" "re_peek_at env \<le> re_spend_at env"
    and run: "send_governance_mail E civil r env a req (l, db) = (out, (l', db'))"
  shows "limiter_ok (re_spend_at env) l' \<and> rl_window_secs l' = rl_window_secs l \<and> rl_max l' = rl_max l
    \<and> (re_spend_at env div rl_window_secs l \<le> b \<longrightarrow>
        (if uuid_parse E (rq_user_id req) = Some (uid_raw i) \<and> out = Inr True \<and> re_spend_at env div rl_window_secs l = b then 1 else 0)
          + spent_in b l (user_text E i) \<le> spent_in b l' (user_text E i))"
  using run
proof (cases rule: send_cases)
  case refused
  then show ?thesis using limiter_ok_later [OF ok] times by simp
next
  case (peeked j l1 okay)
  note one = hit_ok [OF limiter_ok_later [OF ok times(1)] peeked(4) [unfolded limiter_peek_def]]
  have "re_peek_at env div rl_window_secs l \<le> re_spend_at env div rl_window_secs l" using times(2) by (rule div_le_mono)
  moreover have "spent_in b l (user_text E i) \<le> spent_in b l1 (user_text E i)"
    if "re_peek_at env div rl_window_secs l \<le> b"
  proof (cases "b = re_peek_at env div rl_window_secs l")
    case False
    with that limiter_ok_later [OF ok times(1)] show ?thesis by (simp add: limiter_ok_def)
  qed (use one in simp)
  ultimately show ?thesis using one limiter_ok_later [OF _ times(2), of l1] peeked(2,5) by simp
next
  case (queued j l1 d u)
  let ?p = "re_peek_at env div rl_window_secs l" and ?s = "re_spend_at env div rl_window_secs l"
  note one = hit_ok [OF limiter_ok_later [OF ok times(1)] queued(4) [unfolded limiter_peek_def]]
  obtain okay where two: "limiter_hit (re_spend_at env) l1 (user_text E j) True = (okay, l')"
    using relay_queue_cases(2) [OF queued(7) refl] by (metis limiter_record_def prod.collapse)
  have l1: "limiter_ok (re_spend_at env) l1" "rl_window_secs l1 = rl_window_secs l" "rl_max l1 = rl_max l"
    using one limiter_ok_later [OF _ times(2), of l1] by simp_all
  have ahead: "?p \<le> ?s" using times(2) by (rule div_le_mono)
  have early: "spent_in c l k = 0" "spent_in c l1 k = 0" if "?p < c" for c k
    using that limiter_ok_later [OF ok times(1)] one by (simp_all add: limiter_ok_def)
  have "spent_in ?s l1 (user_text E j) < rl_max l"
    using one early [of ?s] ahead by (cases "?p = ?s") auto
  then have "spent_in (re_spend_at env div rl_window_secs l1) l1 (user_text E j) < rl_max l1" by (simp add: l1)
  note spend = hit_ok [OF l1(1) two this]
  have "j = i" if "uuid_parse E (rq_user_id req) = Some (uid_raw i)"
    using that queued(3) by (metis option.inject user_id.expand)
  moreover have "spent_in b l (user_text E i) \<le> spent_in b l1 (user_text E i)" if "?s \<le> b"
    using one early [of b] ahead that by (cases "b = ?p") auto
  moreover have "spent_in b l1 (user_text E i) = 0" if "?s < b"
    using that ahead early by auto
  ultimately show ?thesis
    using spend l1 by (cases "b = ?s") auto
qed

lemma relay_budget:
  assumes "sorted (now # call_times calls)" and "limiter_ok now l"
  shows "mails_in E i (rl_window_secs l) b calls (relay_run E civil r calls (l, db)) + (if now div rl_window_secs l \<le> b then spent_in b l (user_text E i) else 0)
    \<le> rl_max l"
  using assms
proof (induction calls arbitrary: now l db)
  case Nil
  then show ?case by (simp add: mails_in_def limiter_ok_def)
next
  case (Cons call calls)
  obtain env a req where call: "call = (env, a, req)" by (cases call)
  obtain out l' db' where run: "send_governance_mail E civil r env a req (l, db) = (out, (l', db'))" by (metis prod.exhaust)
  have times: "now \<le> re_peek_at env" "re_peek_at env \<le> re_spend_at env" "sorted (re_spend_at env # call_times calls)"
    using Cons.prems(1) unfolding call call_times_Cons by simp_all
  note step = call_charged [OF Cons.prems(2) times(1,2) run, of b i]
  let ?W = "rl_window_secs l"
  have rest: "mails_in E i ?W b calls (relay_run E civil r calls (l', db'))
      + (if re_spend_at env div ?W \<le> b then spent_in b l' (user_text E i) else 0) \<le> rl_max l"
    using Cons.IH [OF times(3), of l' db'] step by simp
  let ?mine = "uuid_parse E (rq_user_id req) = Some (uid_raw i) \<and> out = Inr True \<and> re_spend_at env div ?W = b"
  have mails: "mails_in E i ?W b (call # calls) (relay_run E civil r (call # calls) (l, db))
      = (if ?mine then 1 else 0) + mails_in E i ?W b calls (relay_run E civil r calls (l', db'))"
    by (simp add: call run mails_in_def)
  show ?case
  proof (cases "re_spend_at env div ?W \<le> b")
    case True
    then show ?thesis using rest step unfolding mails by (auto split: if_splits)
  next
    case False
    then have "mails_in E i ?W b calls (relay_run E civil r calls (l', db')) = 0"
      by (intro later_window_none [OF times(3)]) simp
    then show ?thesis using False Cons.prems(2) unfolding mails by (auto simp: limiter_ok_def)
  qed
qed

text \<open>C6. A compromised money plane can mail one person only so often: whatever calls are made one after
  another from a fresh limiter on, at never decreasing times, mixed with calls for others, with
  any keys and payloads, and over any number of windows, in each window at most the configured
  number (which the limiter keeps below u32's maximum) queue a mail for the same account. A mail
  counts for the window its charge is recorded in.\<close>

theorem relay_budget_holds:
  assumes "sorted (concat (map (\<lambda>(env, authorization, req). [re_peek_at env, re_spend_at env]) calls))"
    and "most + 1 < 4294967296"
  shows "length (filter (\<lambda>((env, authorization, req), out). uuid_parse E (rq_user_id req) = Some (uid_raw i) \<and> out = Inr True
       \<and> re_spend_at env div max window 1 = b)
     (zip calls (relay_run E civil r calls (rate_limiter_new window most, db)))) \<le> most"
proof -
  have "sorted (0 # call_times calls)" using assms(1) by (simp add: call_times_def)
  moreover have "limiter_ok 0 (rate_limiter_new window most)"
    using assms(2) by (simp add: limiter_ok_def rate_limiter_new_def spent_in_def)
  ultimately show ?thesis
    using relay_budget [of 0 calls "rate_limiter_new window most" E i b civil r db]
    by (simp add: mails_in_def rate_limiter_new_def)
qed

section \<open>What a mail can say\<close>

fun json_texts :: "json \<Rightarrow> rstr list" where
  "json_texts (JStr s) = [s]"
| "json_texts (JObject kvs) = concat (map (\<lambda>kv. json_texts (snd kv)) kvs)"
| "json_texts _ = []"

definition whole_line :: "rstr \<Rightarrow> bool" where
  "whole_line s \<longleftrightarrow> \<not> list_ex breaks_or_hides s"

lemma graphic_line: "list_all is_ascii_graphic s \<Longrightarrow> whole_line s"
  by (auto simp: whole_line_def list_all_iff list_ex_iff is_ascii_graphic_def breaks_or_hides_def is_control_def)

named_theorems line_rules "accepted fields are whole lines"

lemma line_ok [line_rules]: "line v n f = Inr w \<Longrightarrow> whole_line w"
  by (auto simp: line_def result_simps whole_line_def)

lemma field_lines [line_rules]:
  "address v f = Inr w \<Longrightarrow> whole_line w"
  "required_line v n f = Inr w \<Longrightarrow> whole_line w"
  "payment_tier v = Inr w \<Longrightarrow> whole_line w"
  "payment_amount v = Inr w \<Longrightarrow> whole_line w"
  "money_amount v = Inr w \<Longrightarrow> whole_line w"
  "payment_end E v f = Inr w \<Longrightarrow> whole_line w"
  "approval_link origin v = Inr w \<Longrightarrow> whole_line w"
  unfolding address_def required_line_def payment_tier_def payment_amount_def money_amount_def payment_end_def approval_link_def
    no_url_def without_needles_def Let_def
  by (auto simp: result_simps split_paired_Ex dest: line_ok)

lemma url_line [line_rules]: "no_url v f = Inr w \<Longrightarrow> whole_line v \<Longrightarrow> whole_line w"
  by (auto simp: no_url_def without_needles_def result_simps)

lemma cabinet_line [line_rules]: "cabinet_path v = Inr w \<Longrightarrow> whole_line w"
proof -
  have "whole_line []" by (simp add: whole_line_def)
  moreover have "list_all is_ascii_graphic s" if "\<not> list_ex (\<lambda>c. is_whitespace c \<or> \<not> is_ascii_graphic c) s" for s
    using that by (auto simp: list_ex_iff list_all_iff)
  ultimately show "cabinet_path v = Inr w \<Longrightarrow> whole_line w"
    by (auto simp: cabinet_path_def result_simps split: if_splits intro: graphic_line)
qed

lemma terms_lines [line_rules]:
  "fee_terms_json t f = Inr j \<Longrightarrow> s \<in> set (json_texts j) \<Longrightarrow> whole_line s"
  "current_fee_terms c = Inr j \<Longrightarrow> s \<in> set (json_texts j) \<Longrightarrow> whole_line s"
proof -
  show terms: "fee_terms_json t f = Inr j \<Longrightarrow> s \<in> set (json_texts j) \<Longrightarrow> whole_line s" for t f
    unfolding fee_terms_json_def by (elim rbindE) (auto dest: line_ok)
  show "current_fee_terms c = Inr j \<Longrightarrow> s \<in> set (json_texts j) \<Longrightarrow> whole_line s"
    using terms by (auto simp: current_fee_terms_def split: option.splits)
qed

lemma ending_lines: "consent_ending a b = Inr u \<Longrightarrow> whole_line a \<and> whole_line b"
  by (auto simp: consent_ending_def split: if_splits; code_simp)

lemma audience_lines: "whole_line (lit ''subject'')" "whole_line (lit ''staff'')"
  by code_simp+

lemma draft_lines:
  assumes "relay_draft_of E civil origin db i req = Inr d" and "rq_kind req \<in> {4..8}"
    and "\<And>n. whole_line (uuid_text E n)" and "s \<in> set (json_texts (dr_payload d))"
  shows "whole_line s"
proof -
  consider "draft_payment_consent E origin req = Inr d" | "draft_payment_approval E origin req = Inr d"
    | "draft_fee_policy_approval origin req = Inr d" | "draft_fee_policy_notice E civil req = Inr d"
    | "draft_payment_outcome E db i req = Inr d"
    using assms(1,2) by (auto simp: relay_draft_of_def split: if_splits)
  then show ?thesis
  proof cases
    case 1
    then show ?thesis using assms(4) unfolding draft_payment_consent_def Let_def
      by (elim rbindE, simp only: sum.inject, hypsubst, simp, elim disjE) (simp_all add: line_rules)
  next
    case 2
    then show ?thesis using assms(4) unfolding draft_payment_approval_def
      by (elim rbindE, simp only: sum.inject, hypsubst, simp, elim disjE) (simp_all add: line_rules)
  next
    case 3
    then show ?thesis using assms(4) unfolding draft_fee_policy_approval_def
      by (elim rbindE, simp only: sum.inject, hypsubst, simp, elim disjE) (simp_all add: line_rules)
  next
    case 4
    then show ?thesis using assms(4) unfolding draft_fee_policy_notice_def Let_def
      by (elim rbindE, simp only: sum.inject, hypsubst, simp, elim disjE) (simp_all add: line_rules)
  next
    case 5
    then show ?thesis using assms(4) unfolding draft_payment_outcome_def Let_def
      by (elim rbindE, simp only: sum.inject, hypsubst, simp, elim disjE)
        (simp_all add: line_rules ending_lines audience_lines assms(3) split: if_splits)
  qed
qed

text \<open>The approval link of the kinds that carry one.\<close>

lemma draft_link:
  assumes "relay_draft_of E civil origin db i req = Inr d" and "payload_get (dr_payload d) ''approval_url'' = Some (JStr url)"
  shows "\<exists>raw. approval_link origin raw = Inr url"
proof -
  consider "draft_payout_approval origin req = Inr d" | "draft_payout_outcome E req = Inr d"
    | "draft_payment_consent E origin req = Inr d" | "draft_payment_approval E origin req = Inr d"
    | "draft_fee_policy_approval origin req = Inr d" | "draft_fee_policy_notice E civil req = Inr d"
    | "draft_payment_outcome E db i req = Inr d"
    using assms(1) by (auto simp: relay_draft_of_def split: if_splits)
  then show ?thesis
  proof cases
    case 1
    then show ?thesis using assms(2) unfolding draft_payout_approval_def
      by (elim rbindE, simp only: sum.inject, hypsubst, simp add: payload_get_def) blast
  next
    case 2
    then show ?thesis using assms(2) unfolding draft_payout_outcome_def
      by (elim rbindE, simp only: sum.inject, hypsubst, simp add: payload_get_def)
  next
    case 3
    then show ?thesis using assms(2) unfolding draft_payment_consent_def Let_def
      by (elim rbindE, simp only: sum.inject, hypsubst, simp add: payload_get_def) blast
  next
    case 4
    then show ?thesis using assms(2) unfolding draft_payment_approval_def
      by (elim rbindE, simp only: sum.inject, hypsubst, simp add: payload_get_def) blast
  next
    case 5
    then show ?thesis using assms(2) unfolding draft_fee_policy_approval_def
      by (elim rbindE, simp only: sum.inject, hypsubst, simp add: payload_get_def) blast
  next
    case 6
    then show ?thesis using assms(2) unfolding draft_fee_policy_notice_def Let_def
      by (elim rbindE, simp only: sum.inject, hypsubst, simp add: payload_get_def)
  next
    case 7
    then show ?thesis using assms(2) unfolding draft_payment_outcome_def Let_def
      by (elim rbindE, simp only: sum.inject, hypsubst, simp add: payload_get_def)
  qed
qed

text \<open>C7. No mail the relay queues can be made to say what this plane would not. In the payments',
  consents' and fee kinds no text of the queued payload holds a control character, a line break
  of any script or an invisible or reordering character, so none can forge a line; and whatever
  the kind, a queued approval link is printable ASCII and its host is the platform's own.\<close>

theorem relayed_texts_are_safe:
  assumes "send_governance_mail E civil r env authorization req (l, db) = (Inr True, (l', db'))"
    and "\<And>n. whole_line (uuid_text E n)"
    and "split_once (lit ''://'') (mr_approval_origin r) = Some (scheme, host)" and "list_all (\<lambda>c. c \<notin> {47, 63, 35, 92}) host"
  shows "\<exists>x p. db_deliveries db' = db_deliveries db @ [x] \<and> dl_payload x = Some p
    \<and> (rq_kind req \<in> {4..8} \<longrightarrow> (\<forall>s\<in>set (json_texts p). whole_line s))
    \<and> (\<forall>url. payload_get p ''approval_url'' = Some (JStr url) \<longrightarrow> list_all is_ascii_graphic url \<and> url_host url = Some host)"
  using assms(1)
proof (cases rule: send_cases)
  case (queued i l1 d u)
  note draft = admitted_recipient(1) [OF queued(5)]
  obtain x where x: "db_deliveries db' = db_deliveries db @ [x]" "dl_payload x = Some (dr_payload d)"
    using relay_queue_cases(2) [OF queued(7) refl] by blast
  have "list_all is_ascii_graphic url \<and> url_host url = Some host"
    if link: "payload_get (dr_payload d) ''approval_url'' = Some (JStr url)" for url
  proof -
    obtain raw where raw: "approval_link (mr_approval_origin r) raw = Inr url" using draft_link [OF draft link] by blast
    from approval_link_iff [OF assms(3,4), of raw url] raw show ?thesis by auto
  qed
  moreover have "\<forall>s\<in>set (json_texts (dr_payload d)). whole_line s" if "rq_kind req \<in> {4..8}"
    using draft_lines [OF draft that assms(2)] by blast
  ultimately show ?thesis using x by (intro exI [of _ x] exI [of _ "dr_payload d"]) simp
qed simp_all

end
