(* ===== verification/Relay_Samples.thy ===== *)
theory Relay_Samples
  imports Relay_Safety Governance_Samples
begin

text \<open>
  A payment put to an owner through the relay, and the properties of \<open>Relay_Safety\<close> at it.
\<close>

definition sample_relay :: mail_relay where
  "sample_relay = mail_relay_new (Some (lit ''secret'')) (lit ''https://fund/'')"

definition sample_env :: relay_env where
  "sample_env = \<lparr>re_peek_at = 100, re_spend_at = 100, re_now = 100, re_clock = 100, re_subscriber = 51,
     re_unsubscribe_token = lit ''u1'', re_second_subscriber = 52, re_second_token = lit ''u2'', re_notification = 53\<rparr>"

definition sample_payment :: payment_approval where
  "sample_payment = \<lparr>py_consilium_id = lit ''c1'', py_payment_id = lit ''p1'', py_initiator_email = lit ''bob@example.com'',
     py_tier = lit ''internal'', py_source = lit ''the fee allocation'', py_destination = lit ''AUM 12.5 USDT'',
     py_amount = lit ''12.5'', py_reason = lit ''rent'', py_payload_hash = lit ''h'', py_threshold = 2, py_owner_count = 3,
     py_expires_at = 900, py_approval_url = lit ''https://fund/approve/1'', py_code = lit ''K7''\<rparr>"

definition sample_request :: relay_request where
  "sample_request = \<lparr>rq_kind = 5, rq_user_id = lit ''1'', rq_dedupe_key = lit ''k1'', rq_payout_approval = None,
     rq_payout_outcome = None, rq_payment_consent = None, rq_payment_approval = Some sample_payment,
     rq_fee_policy_approval = None, rq_fee_policy_notice = None, rq_payment_outcome = None\<rparr>"

definition sample_owner_row :: user_row where
  "sample_owner_row = (stored 1 ''ada@example.com'' True)\<lparr>ur_role := lit ''owner''\<rparr>"

definition sample_plane :: notify_db where
  "sample_plane = empty_mail\<lparr>db_users := [sample_owner_row]\<rparr>"

definition relayed :: "(status + bool) \<times> rate_limiter \<times> notify_db" where
  "relayed = send_governance_mail ascii_ext (\<lambda>_. None) sample_relay sample_env (Some (lit ''Bearer secret'')) sample_request
     (rate_limiter_new 3600 1, sample_plane)"

lemma sample_admitted:
  "is_ok (relay_admitted ascii_ext (\<lambda>_. None) sample_relay sample_plane (UserId 1) sample_request)"
  by code_simp
lemma sample_queue_empty: "db_deliveries sample_plane = []" "db_subscribers sample_plane = []"
  by (simp_all add: sample_plane_def empty_mail_def)

lemma sample_addressee:
  "relay_addressee ascii_ext sample_relay (Some (lit ''Bearer secret'')) sample_request = Inr (UserId 1)"
  by code_simp

lemma sample_mailbox:
  "map_option (\<lambda>u. email_as_str (us_email u)) (projr (find_by_id ascii_ext sample_plane (UserId 1))) = Some (lit ''ada@example.com'')"
  by code_simp

lemma payment_kind_known: "lit ''payment_approval'' \<in> set delivery_kinds"
  by code_simp

lemma sample_within: "fst (limiter_peek 100 (rate_limiter_new 3600 1) k)"
  by (simp add: limiter_peek_def limiter_hit_def rate_limiter_new_def u32_add_def)

lemma sample_accepted:
  "fst relayed = Inr True"
proof -
  obtain p where p: "relay_admitted ascii_ext (\<lambda>_. None) sample_relay sample_plane (UserId 1) sample_request = Inr p"
    using sample_admitted by (cases "relay_admitted ascii_ext (\<lambda>_. None) sample_relay sample_plane (UserId 1) sample_request") auto
  obtain d u where du: "p = (d, u)" by (cases p)
  note adm = admitted_recipient [OF p [unfolded du]]
  have kind: "dr_kind d = lit ''payment_approval''"
    using draft_rule(2) [OF adm(1)] by (simp add: kind_name_def sample_request_def)
  have mail: "email_as_str (us_email u) = lit ''ada@example.com''"
    using sample_mailbox adm(2) by simp
  have queue: "fst (enqueue_mail ascii_ext c f t (UserId 1) (lit ''ada@example.com'') v (lit ''payment_approval'') (lit ''k1'') j sample_plane) = Inr Inserted"
    for c f t v j
    using sample_queue_empty payment_kind_known
    by (simp add: enqueue_mail_def upsert_subscriber_def subscriber_of_def enqueue_governance_mail_def queue_delivery_def
        delivery_violation_def Let_def)
  obtain ok l1 where peek: "limiter_peek 100 (rate_limiter_new 3600 1) (user_text ascii_ext (UserId 1)) = (ok, l1)"
    by fastforce
  have now: "re_peek_at sample_env = 100" by (simp add: sample_env_def)
  have "fst (relay_queue ascii_ext sample_env (UserId 1) sample_request d u (l1, sample_plane)) = Inr True"
    using queue by (simp add: relay_queue_def kind mail split_beta sample_request_def)
  then show ?thesis
    using sample_addressee sample_within [of "user_text ascii_ext (UserId 1)"] p du peek by (simp add: relayed_def send_governance_mail_def now)
qed

lemma sample_call:
  "send_governance_mail ascii_ext (\<lambda>_. None) sample_relay sample_env (Some (lit ''Bearer secret'')) sample_request
     (rate_limiter_new 3600 1, sample_plane) = (Inr True, (fst (snd relayed), snd (snd relayed)))"
  using sample_accepted by (simp add: relayed_def prod_eq_iff)

theorem mail_reaches_only_whom_it_may_witness:
  "\<exists>i u x. find_by_id ascii_ext sample_plane i = Inr (Some u) \<and> us_role u = Owner \<and> us_email_verified u
     \<and> db_deliveries (snd (snd relayed)) = db_deliveries sample_plane @ [x] \<and> dl_recipient x = email_as_str (us_email u)"
proof -
  have "rq_kind sample_request = 5" by (simp add: sample_request_def)
  then show ?thesis using mail_reaches_only_whom_it_may [OF sample_call] by simp blast
qed

definition sample_relay_calls :: "(relay_env \<times> rstr option \<times> relay_request) list" where
  "sample_relay_calls =
     [(sample_env, Some (lit ''Bearer secret''), sample_request), (sample_env, None, sample_request),
      (sample_env\<lparr>re_peek_at := 3500, re_spend_at := 3700\<rparr>, Some (lit ''Bearer secret''), sample_request\<lparr>rq_dedupe_key := lit ''k2''\<rparr>),
      (sample_env\<lparr>re_peek_at := 3800, re_spend_at := 3900\<rparr>, Some (lit ''Bearer secret''), sample_request\<lparr>rq_dedupe_key := lit ''k3''\<rparr>)]"

theorem relay_budget_holds_witness:
  "length (filter (\<lambda>((env, authorization, req), out). uuid_parse ascii_ext (rq_user_id req) = Some (uid_raw (UserId 1)) \<and> out = Inr True
       \<and> re_spend_at env div max 3600 1 = 1)
     (zip sample_relay_calls (relay_run ascii_ext (\<lambda>_. None) sample_relay sample_relay_calls (rate_limiter_new 3600 1, sample_plane)))) \<le> 1"
  by (rule relay_budget_holds) (simp_all add: sample_relay_calls_def sample_env_def)

lemma digits_whole: "whole_line (show_nat n)"
proof (rule graphic_line, induction n rule: show_nat.induct)
  case (1 n)
  then show ?case by (subst show_nat.simps) (auto simp: is_ascii_graphic_def list_all_iff)
qed

theorem relayed_texts_are_safe_witness:
  "\<exists>x p. db_deliveries (snd (snd relayed)) = db_deliveries sample_plane @ [x] \<and> dl_payload x = Some p
     \<and> (\<forall>s\<in>set (json_texts p). whole_line s)"
proof -
  have origin: "split_once (lit ''://'') (mr_approval_origin sample_relay) = Some (lit ''https'', lit ''fund'')" by code_simp
  have texts: "whole_line (uuid_text ascii_ext n)" for n using digits_whole by (simp add: ascii_ext_def)
  have host: "list_all (\<lambda>c. c \<notin> {47, 63, 35, 92}) (lit ''fund'')" by code_simp
  have "rq_kind sample_request = 5" by (simp add: sample_request_def)
  then show ?thesis using relayed_texts_are_safe [OF sample_call texts origin host] by simp blast
qed

end
