(* ===== verification/Session_Store.thy ===== *)
theory Session_Store
  imports Relay_Fields
begin

text \<open>
  \<open>auth/src/management.rs\<close>, the refresh families: an opaque handle \<open>family.secret\<close> whose secret
  is replaced at every use. This theory is the store kept in the process, \<open>InProcessRefreshStore\<close>,
  with the types both stores share. The map is an association list, whose order stands for the
  unspecified order of the hash map; the clock and the identifiers drawn are arguments. Times
  are seconds since the epoch, so far below \<open>2 ^ 64\<close> that the sums of the code cannot wrap.
\<close>

section \<open>Handles, bounds and answers\<close>

datatype auth_error =
    NotConfigured | Unreachable | MissingToken | InvalidToken | UnknownKid rstr | Provider rstr
  | ProviderUnavailable rstr | DirectoryRefused rstr | JwksFetch rstr

fun auth_status :: "auth_error \<Rightarrow> status" where
  "auth_status MissingToken = Status Unauthenticated (lit ''missing bearer token'')"
| "auth_status InvalidToken = Status Unauthenticated (lit ''invalid or expired token'')"
| "auth_status (UnknownKid _) = Status Unauthenticated (lit ''unknown signing key'')"
| "auth_status (Provider _) = Status Unauthenticated (lit ''identity provider rejected the request'')"
| "auth_status (ProviderUnavailable _) = Status Unavailable (lit ''identity provider unavailable'')"
| "auth_status (DirectoryRefused _) = Status Unauthenticated (lit ''user directory rejected the request'')"
| "auth_status NotConfigured = Status Unavailable (lit ''auth not configured'')"
| "auth_status Unreachable = Status Unavailable (lit ''auth service unavailable'')"
| "auth_status (JwksFetch _) = Status Unavailable (lit ''could not refresh signing keys'')"

record issued_refresh =
  ir_token :: rstr
  ir_expires_at :: nat

record session_bounds =
  bd_ttl_secs :: nat
  bd_max_session_secs :: nat
  bd_idle_timeout_secs :: nat

record rotated_refresh =
  ro_token_version_snapshot :: nat
  ro_refresh :: issued_refresh

record session_view =
  sv_id :: rstr
  sv_user_agent :: rstr
  sv_ip :: rstr
  sv_created_at :: nat
  sv_last_seen :: nat

datatype refresh_inspect = CurrentSecret rstr | ReusedSecret rstr | NoCredential

record family =
  fm_id :: rstr
  fm_user_id :: rstr
  fm_current :: rstr
  fm_prev :: "rstr option"
  fm_token_version :: nat
  fm_expires_at :: nat
  fm_absolute_expires_at :: nat
  fm_user_agent :: rstr
  fm_ip :: rstr
  fm_created_at :: nat
  fm_last_seen :: nat

type_synonym family_map = "(rstr \<times> family) list"

text \<open>What \<open>issue\<close> draws: the family, its first secret, its session id.\<close>

record session_draws =
  sd_family :: rstr
  sd_secret :: rstr
  sd_id :: rstr

definition handle_parts :: "rstr \<Rightarrow> (rstr \<times> rstr) option" where
  "handle_parts token = split_once (lit ''.'') token"

definition handle_text :: "rstr \<Rightarrow> rstr \<Rightarrow> rstr" where
  "handle_text fam secret = fam @ lit ''.'' @ secret"

text \<open>Equality of secrets; in constant time in the code.\<close>

definition ct_eq :: "rstr \<Rightarrow> rstr \<Rightarrow> bool" where
  "ct_eq a b \<longleftrightarrow> a = b"

definition family_expired :: "nat \<Rightarrow> session_bounds \<Rightarrow> family \<Rightarrow> bool" where
  "family_expired now b f \<longleftrightarrow>
     (let idle_expired = bd_idle_timeout_secs b \<noteq> 0 \<and> now - fm_last_seen f > bd_idle_timeout_secs b
      in now \<ge> fm_absolute_expires_at f \<or> idle_expired \<or> now \<ge> fm_expires_at f)"

section \<open>The operations\<close>

definition session_issue ::
  "nat \<Rightarrow> session_draws \<Rightarrow> rstr \<Rightarrow> nat \<Rightarrow> session_bounds \<Rightarrow> rstr \<Rightarrow> rstr \<Rightarrow> family_map \<Rightarrow> issued_refresh \<times> family_map" where
  "session_issue now d user version b agent ip m =
     (let expires_at = now + bd_ttl_secs b in
      (\<lparr>ir_token = handle_text (sd_family d) (sd_secret d), ir_expires_at = expires_at\<rparr>,
       AList.update (sd_family d)
         \<lparr>fm_id = sd_id d, fm_user_id = user, fm_current = sd_secret d, fm_prev = None, fm_token_version = version,
          fm_expires_at = expires_at, fm_absolute_expires_at = now + bd_max_session_secs b,
          fm_user_agent = agent, fm_ip = ip, fm_created_at = now, fm_last_seen = now\<rparr> m))"

definition session_rotate ::
  "nat \<Rightarrow> rstr \<Rightarrow> rstr \<Rightarrow> session_bounds \<Rightarrow> family_map \<Rightarrow> (auth_error + rotated_refresh) \<times> family_map" where
  "session_rotate now new_secret token b m =
     (case handle_parts token of
        None \<Rightarrow> (Inl InvalidToken, m)
      | Some (fam, secret) \<Rightarrow>
     (case map_of m fam of
        None \<Rightarrow> (Inl InvalidToken, m)
      | Some f \<Rightarrow>
          if family_expired now b f then (Inl InvalidToken, AList.delete fam m)
          else if ct_eq (fm_current f) secret
          then (let expires_at = now + bd_ttl_secs b in
                (Inr \<lparr>ro_token_version_snapshot = fm_token_version f,
                      ro_refresh = \<lparr>ir_token = handle_text fam new_secret, ir_expires_at = expires_at\<rparr>\<rparr>,
                 AList.update fam (f\<lparr>fm_prev := Some (fm_current f), fm_current := new_secret,
                   fm_expires_at := expires_at, fm_last_seen := now\<rparr>) m))
          else if (case fm_prev f of None \<Rightarrow> False | Some prev \<Rightarrow> ct_eq prev secret)
          then (Inl InvalidToken, AList.delete fam m)
          else (Inl InvalidToken, m)))"

definition session_inspect :: "nat \<Rightarrow> rstr \<Rightarrow> session_bounds \<Rightarrow> family_map \<Rightarrow> refresh_inspect" where
  "session_inspect now token b m =
     (case handle_parts token of
        None \<Rightarrow> NoCredential
      | Some (fam, secret) \<Rightarrow>
     (case map_of m fam of
        None \<Rightarrow> NoCredential
      | Some f \<Rightarrow>
          if family_expired now b f then NoCredential
          else if ct_eq (fm_current f) secret then CurrentSecret (fm_user_id f)
          else if (case fm_prev f of None \<Rightarrow> False | Some prev \<Rightarrow> ct_eq prev secret) then ReusedSecret (fm_user_id f)
          else NoCredential))"

definition session_revoke :: "rstr \<Rightarrow> family_map \<Rightarrow> family_map" where
  "session_revoke token m = (case handle_parts token of None \<Rightarrow> m | Some (fam, _) \<Rightarrow> AList.delete fam m)"

definition session_revoke_user :: "rstr \<Rightarrow> family_map \<Rightarrow> family_map" where
  "session_revoke_user user m = filter (\<lambda>(k, f). fm_user_id f \<noteq> user) m"

definition view_of :: "family \<Rightarrow> session_view" where
  "view_of f = \<lparr>sv_id = fm_id f, sv_user_agent = fm_user_agent f, sv_ip = fm_ip f,
     sv_created_at = fm_created_at f, sv_last_seen = fm_last_seen f\<rparr>"

definition session_list :: "nat \<Rightarrow> rstr \<Rightarrow> family_map \<Rightarrow> session_view list" where
  "session_list now user m = map view_of (filter (\<lambda>f. fm_user_id f = user \<and> now < fm_expires_at f) (map snd m))"

definition session_revoke_by_id :: "rstr \<Rightarrow> rstr \<Rightarrow> family_map \<Rightarrow> bool \<times> family_map" where
  "session_revoke_by_id user sid m =
     (case find (\<lambda>(k, f). fm_id f = sid \<and> fm_user_id f = user) m of
        None \<Rightarrow> (False, m)
      | Some (k, _) \<Rightarrow> (True, AList.delete k m))"

definition session_family_id_of :: "rstr \<Rightarrow> family_map \<Rightarrow> rstr option" where
  "session_family_id_of token m =
     (case handle_parts token of None \<Rightarrow> None | Some (fam, _) \<Rightarrow> map_option fm_id (map_of m fam))"

section \<open>Runs\<close>

datatype session_call =
    S_Issue session_draws rstr nat rstr rstr
  | S_Rotate rstr rstr
  | S_Inspect rstr
  | S_Revoke rstr
  | S_RevokeUser rstr
  | S_List rstr
  | S_RevokeById rstr rstr
  | S_FamilyId rstr

datatype session_answer =
    A_Issued issued_refresh
  | A_Rotated "auth_error + rotated_refresh"
  | A_Inspected refresh_inspect
  | A_Done
  | A_Views "session_view list"
  | A_Revoked bool
  | A_FamilyId "rstr option"

fun session_step :: "session_bounds \<Rightarrow> nat \<times> session_call \<Rightarrow> family_map \<Rightarrow> session_answer \<times> family_map" where
  "session_step b (now, S_Issue d user version agent ip) m = (let (r, m) = session_issue now d user version b agent ip m in (A_Issued r, m))"
| "session_step b (now, S_Rotate new_secret token) m = (let (r, m) = session_rotate now new_secret token b m in (A_Rotated r, m))"
| "session_step b (now, S_Inspect token) m = (A_Inspected (session_inspect now token b m), m)"
| "session_step b (now, S_Revoke token) m = (A_Done, session_revoke token m)"
| "session_step b (now, S_RevokeUser user) m = (A_Done, session_revoke_user user m)"
| "session_step b (now, S_List user) m = (A_Views (session_list now user m), m)"
| "session_step b (now, S_RevokeById user sid) m = (let (r, m) = session_revoke_by_id user sid m in (A_Revoked r, m))"
| "session_step b (now, S_FamilyId token) m = (A_FamilyId (session_family_id_of token m), m)"

fun session_run :: "session_bounds \<Rightarrow> (nat \<times> session_call) list \<Rightarrow> family_map \<Rightarrow> family_map" where
  "session_run b [] m = m"
| "session_run b (c # cs) m = session_run b cs (snd (session_step b c m))"

fun session_answers :: "session_bounds \<Rightarrow> (nat \<times> session_call) list \<Rightarrow> family_map \<Rightarrow> session_answer list" where
  "session_answers b [] m = []"
| "session_answers b (c # cs) m = fst (session_step b c m) # session_answers b cs (snd (session_step b c m))"

text \<open>The families and secrets a run draws.\<close>

fun drawn_families :: "(nat \<times> session_call) list \<Rightarrow> rstr list" where
  "drawn_families [] = []"
| "drawn_families ((now, S_Issue d user version agent ip) # cs) = sd_family d # drawn_families cs"
| "drawn_families (c # cs) = drawn_families cs"

fun drawn_secrets :: "(nat \<times> session_call) list \<Rightarrow> rstr list" where
  "drawn_secrets [] = []"
| "drawn_secrets ((now, S_Issue d user version agent ip) # cs) = sd_secret d # drawn_secrets cs"
| "drawn_secrets ((now, S_Rotate new_secret token) # cs) = new_secret # drawn_secrets cs"
| "drawn_secrets (c # cs) = drawn_secrets cs"

lemma session_run_append: "session_run b (xs @ ys) m = session_run b ys (session_run b xs m)"
  by (induction xs arbitrary: m) auto

end
