(* ===== verification/Session_Redis.thy ===== *)
theory Session_Redis
  imports Session_Store
begin

text \<open>
  \<open>auth/src/management.rs\<close>, the shared arm: \<open>RedisRefreshStore\<close>. A family is a hash of texts under
  \<open>refresh:fam:<family>\<close>, and a set under \<open>refresh:user:<user>\<close> indexes a user's families; both
  expire. The commands of Redis it sends are modelled as documented: \<open>HSET\<close> and \<open>SADD\<close> keep the
  expiry of a key that exists and create one without, an emptied set is no key, a key is gone
  from its expiry on. The commands of one operation see the key space of one instant, the
  operation's own clock; the two Lua scripts and the pipelines are atomic in the code as well.
  Lua's numbers are exact below \<open>2 ^ 53\<close>, far beyond any time here.
\<close>

section \<open>Numbers as texts\<close>

definition parse_number :: "rstr \<Rightarrow> nat option" where
  "parse_number s =
     (if s \<noteq> [] \<and> list_all is_ascii_digit s then Some (foldl (\<lambda>n c. 10 * n + nat (c - 48)) 0 s) else None)"

text \<open>The code's readers accept a few more texts; these fields hold only what the store wrote.\<close>

definition number_or_zero :: "rstr option \<Rightarrow> nat" where
  "number_or_zero v = (case Option.bind v parse_number of None \<Rightarrow> 0 | Some n \<Rightarrow> n)"

section \<open>Commands\<close>

datatype redis_value = RHash "(rstr \<times> rstr) list" | RSet "rstr list"

type_synonym redis_db = "(rstr \<times> (redis_value \<times> nat option)) list"

definition redis_entry :: "nat \<Rightarrow> rstr \<Rightarrow> redis_db \<Rightarrow> (redis_value \<times> nat option) option" where
  "redis_entry at key db =
     (case map_of db key of
        None \<Rightarrow> None
      | Some (v, None) \<Rightarrow> Some (v, None)
      | Some (v, Some e) \<Rightarrow> if at < e then Some (v, Some e) else None)"

definition redis_hgetall :: "nat \<Rightarrow> rstr \<Rightarrow> redis_db \<Rightarrow> (rstr \<times> rstr) list" where
  "redis_hgetall at key db = (case redis_entry at key db of Some (RHash h, _) \<Rightarrow> h | _ \<Rightarrow> [])"

definition redis_hget :: "nat \<Rightarrow> rstr \<Rightarrow> rstr \<Rightarrow> redis_db \<Rightarrow> rstr option" where
  "redis_hget at key field db = map_of (redis_hgetall at key db) field"

definition redis_hset :: "nat \<Rightarrow> rstr \<Rightarrow> (rstr \<times> rstr) list \<Rightarrow> redis_db \<Rightarrow> redis_db" where
  "redis_hset at key pairs db =
     (let expiry = (case redis_entry at key db of None \<Rightarrow> None | Some (_, e) \<Rightarrow> e)
      in AList.update key (RHash (fold (\<lambda>(k, v). AList.update k v) pairs (redis_hgetall at key db)), expiry) db)"

definition redis_expire_at :: "nat \<Rightarrow> rstr \<Rightarrow> nat \<Rightarrow> redis_db \<Rightarrow> redis_db" where
  "redis_expire_at at key t db =
     (case redis_entry at key db of None \<Rightarrow> db | Some (v, _) \<Rightarrow> AList.update key (v, Some t) db)"

definition redis_smembers :: "nat \<Rightarrow> rstr \<Rightarrow> redis_db \<Rightarrow> rstr list" where
  "redis_smembers at key db = (case redis_entry at key db of Some (RSet s, _) \<Rightarrow> s | _ \<Rightarrow> [])"

definition redis_sadd :: "nat \<Rightarrow> rstr \<Rightarrow> rstr \<Rightarrow> redis_db \<Rightarrow> redis_db" where
  "redis_sadd at key member db =
     (let expiry = (case redis_entry at key db of None \<Rightarrow> None | Some (_, e) \<Rightarrow> e)
      in AList.update key (RSet (List.insert member (redis_smembers at key db)), expiry) db)"

definition redis_del :: "rstr \<Rightarrow> redis_db \<Rightarrow> redis_db" where
  "redis_del key db = AList.delete key db"

definition redis_srem :: "nat \<Rightarrow> rstr \<Rightarrow> rstr \<Rightarrow> redis_db \<Rightarrow> redis_db" where
  "redis_srem at key member db =
     (case redis_entry at key db of
        Some (RSet s, e) \<Rightarrow>
          (let left = removeAll member s
           in if left = [] then redis_del key db else AList.update key (RSet left, e) db)
      | _ \<Rightarrow> db)"

section \<open>The store\<close>

definition FAM_PREFIX :: rstr where "FAM_PREFIX = lit ''refresh:fam:''"

definition fam_key :: "rstr \<Rightarrow> rstr" where "fam_key fam = FAM_PREFIX @ fam"

definition user_key :: "rstr \<Rightarrow> rstr" where "user_key user = lit ''refresh:user:'' @ user"

definition redis_issue ::
  "nat \<Rightarrow> session_draws \<Rightarrow> rstr \<Rightarrow> nat \<Rightarrow> session_bounds \<Rightarrow> rstr \<Rightarrow> rstr \<Rightarrow> redis_db \<Rightarrow> issued_refresh \<times> redis_db" where
  "redis_issue now d user version b agent ip db =
     (let expires_at = now + bd_ttl_secs b;
          absolute = now + bd_max_session_secs b;
          fam = sd_family d;
          db = redis_hset now (fam_key fam)
            [(lit ''id'', sd_id d), (lit ''user_id'', user), (lit ''current'', sd_secret d),
             (lit ''token_version'', show_nat version), (lit ''expires_at'', show_nat expires_at),
             (lit ''absolute_expires_at'', show_nat absolute), (lit ''user_agent'', agent), (lit ''ip'', ip),
             (lit ''created_at'', show_nat now), (lit ''last_seen'', show_nat now)] db;
          db = redis_expire_at now (fam_key fam) absolute db;
          db = redis_sadd now (user_key user) fam db;
          db = redis_expire_at now (user_key user) absolute db
      in (\<lparr>ir_token = handle_text fam (sd_secret d), ir_expires_at = expires_at\<rparr>, db))"

definition delete_family :: "nat \<Rightarrow> rstr \<Rightarrow> rstr \<Rightarrow> redis_db \<Rightarrow> redis_db" where
  "delete_family now fam user db = redis_srem now (user_key user) fam (redis_del (fam_key fam) db)"

text \<open>\<open>ROTATE_SCRIPT\<close>: the texts it returns, none for nil. A script that compares a number it could
  not read fails.\<close>

definition rotate_script ::
  "nat \<Rightarrow> rstr \<Rightarrow> rstr \<Rightarrow> nat \<Rightarrow> rstr \<Rightarrow> nat \<Rightarrow> redis_db \<Rightarrow> (auth_error + rstr list) \<times> redis_db" where
  "rotate_script now key secret idle new_secret expires_at db =
     (let h = redis_hgetall now key db in
      if h = [] then (Inr [], db)
      else
     (case (Option.bind (map_of h (lit ''absolute_expires_at'')) parse_number, Option.bind (map_of h (lit ''expires_at'')) parse_number,
            Option.bind (map_of h (lit ''last_seen'')) parse_number) of
        (Some absolute, Some expires, Some last_seen) \<Rightarrow>
          if now \<ge> absolute \<or> now \<ge> expires \<or> (idle \<noteq> 0 \<and> int now - int last_seen > int idle)
          then (Inr [], redis_del key db)
          else if map_of h (lit ''current'') = Some secret
          then (Inr [lit ''ok'', (case map_of h (lit ''user_id'') of None \<Rightarrow> [] | Some u \<Rightarrow> u),
                     (case map_of h (lit ''token_version'') of None \<Rightarrow> [] | Some v \<Rightarrow> v)],
                redis_hset now key [(lit ''prev'', secret), (lit ''current'', new_secret),
                  (lit ''expires_at'', show_nat expires_at), (lit ''last_seen'', show_nat now)] db)
          else if map_of h (lit ''prev'') = Some secret
          then (Inr [lit ''reuse'', (case map_of h (lit ''user_id'') of None \<Rightarrow> [] | Some u \<Rightarrow> u)], db)
          else (Inr [], db)
      | _ \<Rightarrow> (Inl Unreachable, db)))"

definition redis_rotate ::
  "nat \<Rightarrow> rstr \<Rightarrow> rstr \<Rightarrow> session_bounds \<Rightarrow> redis_db \<Rightarrow> (auth_error + rotated_refresh) \<times> redis_db" where
  "redis_rotate now new_secret token b db =
     (case handle_parts token of
        None \<Rightarrow> (Inl InvalidToken, db)
      | Some (fam, secret) \<Rightarrow>
          (let expires_at = now + bd_ttl_secs b;
               (outcome, db) = rotate_script now (fam_key fam) secret (bd_idle_timeout_secs b) new_secret expires_at db
           in case outcome of
                Inl e \<Rightarrow> (Inl e, db)
              | Inr [tag, user, version] \<Rightarrow>
                  if tag = lit ''ok''
                  then (Inr \<lparr>ro_token_version_snapshot = number_or_zero (Some version),
                          ro_refresh = \<lparr>ir_token = handle_text fam new_secret, ir_expires_at = expires_at\<rparr>\<rparr>, db)
                  else (Inl InvalidToken, db)
              | Inr [tag, user] \<Rightarrow>
                  if tag = lit ''reuse'' then (Inl InvalidToken, delete_family now fam user db) else (Inl InvalidToken, db)
              | _ \<Rightarrow> (Inl InvalidToken, db)))"

definition redis_user_of :: "nat \<Rightarrow> rstr \<Rightarrow> redis_db \<Rightarrow> rstr option" where
  "redis_user_of now token db =
     (case handle_parts token of None \<Rightarrow> None | Some (fam, _) \<Rightarrow> redis_hget now (fam_key fam) (lit ''user_id'') db)"

definition redis_inspect :: "nat \<Rightarrow> rstr \<Rightarrow> session_bounds \<Rightarrow> redis_db \<Rightarrow> refresh_inspect" where
  "redis_inspect now token b db =
     (case handle_parts token of
        None \<Rightarrow> NoCredential
      | Some (fam, secret) \<Rightarrow>
          (let h = redis_hgetall now (fam_key fam) db in
           if h = [] then NoCredential
           else
             (let absolute = number_or_zero (map_of h (lit ''absolute_expires_at''));
                  expires = number_or_zero (map_of h (lit ''expires_at''));
                  last_seen = number_or_zero (map_of h (lit ''last_seen''));
                  idle_expired = bd_idle_timeout_secs b \<noteq> 0 \<and> now - last_seen > bd_idle_timeout_secs b;
                  user = (case map_of h (lit ''user_id'') of None \<Rightarrow> [] | Some u \<Rightarrow> u)
              in if now \<ge> absolute \<or> idle_expired \<or> now \<ge> expires then NoCredential
                 else if (case map_of h (lit ''current'') of None \<Rightarrow> False | Some current \<Rightarrow> ct_eq current secret) then CurrentSecret user
                 else if (case map_of h (lit ''prev'') of None \<Rightarrow> False | Some prev \<Rightarrow> ct_eq prev secret) then ReusedSecret user
                 else NoCredential)))"

definition redis_revoke :: "nat \<Rightarrow> rstr \<Rightarrow> redis_db \<Rightarrow> redis_db" where
  "redis_revoke now token db =
     (case handle_parts token of
        None \<Rightarrow> db
      | Some (fam, _) \<Rightarrow>
     (case redis_user_of now token db of None \<Rightarrow> db | Some user \<Rightarrow> delete_family now fam user db))"

text \<open>\<open>REVOKE_USER_SCRIPT\<close>.\<close>

definition redis_revoke_user :: "nat \<Rightarrow> rstr \<Rightarrow> redis_db \<Rightarrow> redis_db" where
  "redis_revoke_user now user db =
     redis_del (user_key user) (fold (\<lambda>fam. redis_del (FAM_PREFIX @ fam)) (redis_smembers now (user_key user) db) db)"

definition text_or_empty :: "rstr option \<Rightarrow> rstr" where
  "text_or_empty v = (case v of None \<Rightarrow> [] | Some s \<Rightarrow> s)"

definition view_of_hash :: "(rstr \<times> rstr) list \<Rightarrow> session_view" where
  "view_of_hash h =
     \<lparr>sv_id = text_or_empty (map_of h (lit ''id'')), sv_user_agent = text_or_empty (map_of h (lit ''user_agent'')),
      sv_ip = text_or_empty (map_of h (lit ''ip'')), sv_created_at = number_or_zero (map_of h (lit ''created_at'')),
      sv_last_seen = number_or_zero (map_of h (lit ''last_seen''))\<rparr>"

text \<open>The families whose hash is gone are pruned from the index on the way.\<close>

definition redis_list :: "nat \<Rightarrow> rstr \<Rightarrow> redis_db \<Rightarrow> session_view list \<times> redis_db" where
  "redis_list now user db =
     (let families = redis_smembers now (user_key user) db;
          hash_of = (\<lambda>fam. redis_hgetall now (fam_key fam) db);
          stale = filter (\<lambda>fam. hash_of fam = []) families;
          shown = filter (\<lambda>fam. hash_of fam \<noteq> [] \<and> now < number_or_zero (map_of (hash_of fam) (lit ''expires_at''))) families
      in (map (\<lambda>fam. view_of_hash (hash_of fam)) shown, fold (\<lambda>fam. redis_srem now (user_key user) fam) stale db))"

definition redis_revoke_by_id :: "nat \<Rightarrow> rstr \<Rightarrow> rstr \<Rightarrow> redis_db \<Rightarrow> bool \<times> redis_db" where
  "redis_revoke_by_id now user sid db =
     (case find (\<lambda>fam. redis_hget now (fam_key fam) (lit ''id'') db = Some sid) (redis_smembers now (user_key user) db) of
        None \<Rightarrow> (False, db)
      | Some fam \<Rightarrow> (True, delete_family now fam user db))"

definition redis_family_id_of :: "nat \<Rightarrow> rstr \<Rightarrow> redis_db \<Rightarrow> rstr option" where
  "redis_family_id_of now token db =
     (case handle_parts token of None \<Rightarrow> None | Some (fam, _) \<Rightarrow> redis_hget now (fam_key fam) (lit ''id'') db)"

section \<open>Either arm\<close>

datatype refresh_store = InProcess family_map | Redis redis_db

fun redis_step :: "session_bounds \<Rightarrow> nat \<times> session_call \<Rightarrow> redis_db \<Rightarrow> session_answer \<times> redis_db" where
  "redis_step b (now, S_Issue d user version agent ip) db = (let (r, db) = redis_issue now d user version b agent ip db in (A_Issued r, db))"
| "redis_step b (now, S_Rotate new_secret token) db = (let (r, db) = redis_rotate now new_secret token b db in (A_Rotated r, db))"
| "redis_step b (now, S_Inspect token) db = (A_Inspected (redis_inspect now token b db), db)"
| "redis_step b (now, S_Revoke token) db = (A_Done, redis_revoke now token db)"
| "redis_step b (now, S_RevokeUser user) db = (A_Done, redis_revoke_user now user db)"
| "redis_step b (now, S_List user) db = (let (r, db) = redis_list now user db in (A_Views r, db))"
| "redis_step b (now, S_RevokeById user sid) db = (let (r, db) = redis_revoke_by_id now user sid db in (A_Revoked r, db))"
| "redis_step b (now, S_FamilyId token) db = (A_FamilyId (redis_family_id_of now token db), db)"

fun store_step :: "session_bounds \<Rightarrow> nat \<times> session_call \<Rightarrow> refresh_store \<Rightarrow> session_answer \<times> refresh_store" where
  "store_step b c (InProcess m) = (let (a, m) = session_step b c m in (a, InProcess m))"
| "store_step b c (Redis db) = (let (a, db) = redis_step b c db in (a, Redis db))"

fun redis_run :: "session_bounds \<Rightarrow> (nat \<times> session_call) list \<Rightarrow> redis_db \<Rightarrow> redis_db" where
  "redis_run b [] db = db"
| "redis_run b (c # cs) db = redis_run b cs (snd (redis_step b c db))"

fun redis_answers :: "session_bounds \<Rightarrow> (nat \<times> session_call) list \<Rightarrow> redis_db \<Rightarrow> session_answer list" where
  "redis_answers b [] db = []"
| "redis_answers b (c # cs) db = fst (redis_step b c db) # redis_answers b cs (snd (redis_step b c db))"

end
