(* ===== verification/Session_Safety.thy ===== *)
theory Session_Safety
  imports Session_Store
begin

text \<open>What the session store guarantees, whatever is asked of it in whatever order.\<close>

section \<open>One call, seen from one family\<close>

abbreviation families_once :: "family_map \<Rightarrow> bool" where
  "families_once m \<equiv> distinct (map fst m)"

lemma kept_under_filter:
  "families_once m \<Longrightarrow> map_of (filter (\<lambda>(k, f). P f) m) fam = Option.bind (map_of m fam) (\<lambda>f. if P f then Some f else None)"
  by (induction m) (auto simp: map_of_eq_None_iff [THEN iffD2] split: option.split)

lemma families_once_step: "families_once m \<Longrightarrow> families_once (snd (session_step b c m))"
proof -
  have "inj_on fst (set m)" if "families_once m" using that by (simp add: distinct_map)
  then have filt: "families_once (filter P m)" if "families_once m" for P
    using that by (metis distinct_map_filter)
  assume "families_once m"
  then show ?thesis
    by (cases "(b, c, m)" rule: session_step.cases)
      (auto simp: session_issue_def session_rotate_def session_revoke_def session_revoke_user_def session_revoke_by_id_def Let_def
        distinct_update distinct_delete filt split: option.splits prod.splits)
qed

lemma families_once_run: "families_once m \<Longrightarrow> families_once (session_run b cs m)"
  by (induction cs arbitrary: m) (auto simp: families_once_step)

definition opened_family :: "nat \<Rightarrow> session_bounds \<Rightarrow> session_draws \<Rightarrow> rstr \<Rightarrow> nat \<Rightarrow> rstr \<Rightarrow> rstr \<Rightarrow> family" where
  "opened_family now b d user version agent ip =
     \<lparr>fm_id = sd_id d, fm_user_id = user, fm_current = sd_secret d, fm_prev = None, fm_token_version = version,
      fm_expires_at = now + bd_ttl_secs b, fm_absolute_expires_at = now + bd_max_session_secs b,
      fm_user_agent = agent, fm_ip = ip, fm_created_at = now, fm_last_seen = now\<rparr>"

definition rotated_family :: "nat \<Rightarrow> session_bounds \<Rightarrow> rstr \<Rightarrow> family \<Rightarrow> family" where
  "rotated_family now b new_secret f =
     f\<lparr>fm_prev := Some (fm_current f), fm_current := new_secret, fm_expires_at := now + bd_ttl_secs b, fm_last_seen := now\<rparr>"

lemma rotate_cases:
  assumes "session_rotate now new_secret token b m = (r, m')"
  obtains (ok) fam secret f where "handle_parts token = Some (fam, secret)" "map_of m fam = Some f" "\<not> family_expired now b f"
      "fm_current f = secret" "m' = AList.update fam (rotated_family now b new_secret f) m"
      "r = Inr \<lparr>ro_token_version_snapshot = fm_token_version f,
             ro_refresh = \<lparr>ir_token = handle_text fam new_secret, ir_expires_at = now + bd_ttl_secs b\<rparr>\<rparr>"
    | (ended) fam secret f where "handle_parts token = Some (fam, secret)" "map_of m fam = Some f"
        "family_expired now b f \<or> fm_current f \<noteq> secret \<and> fm_prev f = Some secret" "m' = AList.delete fam m" "r = Inl InvalidToken"
    | (refused) "m' = m" "r = Inl InvalidToken"
        "\<And>fam secret f. handle_parts token = Some (fam, secret) \<Longrightarrow> map_of m fam = Some f \<Longrightarrow>
           \<not> family_expired now b f \<and> fm_current f \<noteq> secret \<and> fm_prev f \<noteq> Some secret"
proof (cases "\<exists>fam secret f. handle_parts token = Some (fam, secret) \<and> map_of m fam = Some f")
  case False
  then have "m' = m \<and> r = Inl InvalidToken"
    using assms by (auto simp: session_rotate_def split: option.splits prod.splits)
  with False show thesis using refused by blast
next
  case True
  then obtain fam secret f where parts: "handle_parts token = Some (fam, secret)" "map_of m fam = Some f" by blast
  consider "family_expired now b f \<or> fm_current f \<noteq> secret \<and> fm_prev f = Some secret"
    | "\<not> family_expired now b f" "fm_current f = secret"
    | "\<not> family_expired now b f" "fm_current f \<noteq> secret" "fm_prev f \<noteq> Some secret" by blast
  then show thesis
  proof cases
    case 1
    then have "m' = AList.delete fam m \<and> r = Inl InvalidToken"
      using assms parts by (auto simp: session_rotate_def ct_eq_def split: option.splits if_splits)
    with 1 parts show thesis using ended by blast
  next
    case 2
    then show thesis using assms ok [OF parts] by (simp add: session_rotate_def parts ct_eq_def rotated_family_def Let_def)
  next
    case 3
    then have "m' = m \<and> r = Inl InvalidToken"
      using assms parts by (auto simp: session_rotate_def ct_eq_def split: option.splits if_splits)
    with 3 parts show thesis by (intro refused) auto
  qed
qed

text \<open>The four things a call can do to a family.\<close>

lemma step_family:
  assumes step: "session_step b (now, c) m = (a, m')" and once: "families_once m"
  obtains (same) "map_of m' fam = map_of m fam"
    | (gone) "map_of m' fam = None"
    | (opened) d user version agent ip where "c = S_Issue d user version agent ip" "sd_family d = fam"
        "map_of m' fam = Some (opened_family now b d user version agent ip)"
    | (rotated) new_secret token secret f where "c = S_Rotate new_secret token" "handle_parts token = Some (fam, secret)"
        "map_of m fam = Some f" "\<not> family_expired now b f" "fm_current f = secret" "map_of m' fam = Some (rotated_family now b new_secret f)"
proof (cases c)
  case (S_Issue d user version agent ip)
  then show thesis using step that(1) that(3) [OF S_Issue]
    by (cases "sd_family d = fam") (auto simp: session_issue_def opened_family_def update_conv' Let_def)
next
  case (S_Rotate new_secret token)
  then obtain r where r: "session_rotate now new_secret token b m = (r, m')" using step by (auto split: prod.splits)
  from r show thesis
  proof (cases rule: rotate_cases)
    case (ok g secret f)
    then show thesis using that(1) that(4) [OF S_Rotate] by (cases "g = fam") (auto simp: update_conv')
  next
    case (ended g secret f)
    then show thesis using that(1,2) by (cases "g = fam") (auto simp: delete_conv')
  next
    case refused
    then show thesis using that(1) by simp
  qed
next
  case (S_Revoke token)
  then have m': "m' = session_revoke token m" using step by simp
  show thesis
  proof (cases "handle_parts token")
    case None
    with m' show thesis using that(1) by (simp add: session_revoke_def)
  next
    case (Some p)
    with m' show thesis using that(1,2) by (cases "fst p = fam") (auto simp: session_revoke_def delete_conv' split: prod.splits)
  qed
next
  case (S_RevokeUser user)
  then have "map_of m' fam = Option.bind (map_of m fam) (\<lambda>f. if fm_user_id f \<noteq> user then Some f else None)"
    using step kept_under_filter [OF once, of "\<lambda>f. fm_user_id f \<noteq> user"] by (simp add: session_revoke_user_def)
  then show thesis using that(1,2) by (cases "map_of m fam") (auto split: if_splits)
next
  case (S_RevokeById user sid)
  then have "m' = m \<or> (\<exists>k. m' = AList.delete k m)"
    using step by (auto simp: session_revoke_by_id_def split: option.splits prod.splits)
  then show thesis using that(1,2) by (auto simp: delete_conv' split: if_splits) metis
qed (use step that(1) in auto)

section \<open>A handle works once\<close>

definition current_of :: "family_map \<Rightarrow> rstr \<Rightarrow> rstr option" where
  "current_of m fam = map_option fm_current (map_of m fam)"

text \<open>How often a run answers a handle with a rotation.\<close>

definition rotations :: "session_bounds \<Rightarrow> (nat \<times> session_call) list \<Rightarrow> family_map \<Rightarrow> rstr \<Rightarrow> nat" where
  "rotations b cs m token =
     length (filter (\<lambda>((now, c), a). (\<exists>s r. c = S_Rotate s token \<and> a = A_Rotated (Inr r))) (zip cs (session_answers b cs m)))"

lemma rotations_simps [simp]:
  "rotations b [] m token = 0"
  "rotations b (c # cs) m token =
     (if (\<exists>s r. snd c = S_Rotate s token \<and> fst (session_step b c m) = A_Rotated (Inr r)) then 1 else 0)
     + rotations b cs (snd (session_step b c m)) token"
  by (auto simp: rotations_def split: prod.splits)

lemma drawn_step: "drawn_secrets (c # cs) =
    (case snd c of S_Issue d u v ag ip \<Rightarrow> [sd_secret d] | S_Rotate s t \<Rightarrow> [s] | _ \<Rightarrow> []) @ drawn_secrets cs"
  by (cases c) (simp split: session_call.split)

lemma current_step:
  assumes "families_once m" and "current_of (snd (session_step b c m)) fam = Some s"
  shows "current_of m fam = Some s \<or> s \<in> set (drawn_secrets [c])"
proof -
  obtain now call a m' where c: "c = (now, call)" and st: "session_step b (now, call) m = (a, m')" by (metis prod.exhaust)
  from st assms(1) show ?thesis
    by (cases rule: step_family [where fam = fam])
      (use assms(2) c st in \<open>auto simp: current_of_def opened_family_def rotated_family_def drawn_step\<close>)
qed

lemma spent_handle_stays_spent:
  assumes "families_once m" and "handle_parts token = Some (fam, s)" and "current_of m fam \<noteq> Some s" and "s \<notin> set (drawn_secrets cs)"
  shows "rotations b cs m token = 0"
  using assms(1,3,4)
proof (induction cs arbitrary: m)
  case Nil
  then show ?case by simp
next
  case (Cons c cs)
  have no: "fst (session_step b c m) \<noteq> A_Rotated (Inr r)" if rot: "snd c = S_Rotate new token" for new r
  proof -
    obtain now where c: "c = (now, S_Rotate new token)" using rot by (metis prod.collapse)
    show ?thesis using assms(2) Cons.prems(2)
      by (auto simp: c session_rotate_def current_of_def ct_eq_def Let_def split: option.splits)
  qed
  have "s \<notin> set (drawn_secrets [c])" "s \<notin> set (drawn_secrets cs)" using Cons.prems(3) by (auto simp: drawn_step)
  then have "current_of (snd (session_step b c m)) fam \<noteq> Some s" using current_step [OF Cons.prems(1)] Cons.prems(2) by blast
  with no show ?case using Cons.IH [OF families_once_step [OF Cons.prems(1)]] \<open>s \<notin> set (drawn_secrets cs)\<close> by auto
qed

lemma handle_once:
  assumes "families_once m" and "distinct (drawn_secrets cs)" and "\<And>fam s. current_of m fam = Some s \<Longrightarrow> s \<notin> set (drawn_secrets cs)"
  shows "rotations b cs m token \<le> 1"
  using assms
proof (induction cs arbitrary: m)
  case Nil
  then show ?case by simp
next
  case (Cons c cs)
  note once = families_once_step [OF Cons.prems(1), of b c]
  have dist: "distinct (drawn_secrets cs)" "set (drawn_secrets [c]) \<inter> set (drawn_secrets cs) = {}"
    using Cons.prems(2) by (auto simp: drawn_step)
  have fresh: "s \<notin> set (drawn_secrets cs)" if "current_of (snd (session_step b c m)) fam = Some s" for fam s
    using current_step [OF Cons.prems(1) that] Cons.prems(3) dist(2) by (auto simp: drawn_step)
  show ?case
  proof (cases "\<exists>new r. snd c = S_Rotate new token \<and> fst (session_step b c m) = A_Rotated (Inr r)")
    case False
    have "rotations b cs (snd (session_step b c m)) token \<le> 1" by (rule Cons.IH [OF once dist(1) fresh])
    with False show ?thesis by (auto simp del: One_nat_def)
  next
    case True
    then obtain now new r where c: "c = (now, S_Rotate new token)" and r: "fst (session_rotate now new token b m) = Inr r"
      by (cases c) (auto split: prod.splits)
    obtain m' where rot: "session_rotate now new token b m = (Inr r, m')" using r by (metis prod.collapse)
    then show ?thesis
    proof (cases rule: rotate_cases)
      case (ok fam secret f)
      have cur: "current_of m fam = Some secret" using ok by (simp add: current_of_def)
      then have "secret \<notin> set (drawn_secrets (c # cs))" using Cons.prems(3) by blast
      moreover have "current_of m' fam = Some new" using ok by (simp add: current_of_def update_conv' rotated_family_def)
      ultimately have "rotations b cs m' token = 0"
        using spent_handle_stays_spent [OF _ ok(1), of m' cs b] once rot c by (auto simp: drawn_step)
      then show ?thesis using rot c by simp
    qed simp_all
  qed
qed

text \<open>C11. A refresh handle works once. Over any run of the store from empty, of any calls with any
  tokens at any times, one and the same handle is answered with a new one at most once, as long
  as no secret is drawn twice.\<close>

theorem handle_works_once:
  assumes "distinct (drawn_secrets cs)"
  shows "rotations b cs [] token \<le> 1"
  by (rule handle_once) (use assms in \<open>auto simp: current_of_def\<close>)

section \<open>A replay ends the session\<close>

lemma gone_step:
  assumes "families_once m" and "map_of m fam = None" and "fam \<notin> set (drawn_families [c])"
  shows "map_of (snd (session_step b c m)) fam = None"
proof -
  obtain now call a m' where c: "c = (now, call)" and st: "session_step b (now, call) m = (a, m')" by (metis prod.exhaust)
  from st assms(1) show ?thesis
    by (cases rule: step_family [where fam = fam]) (use assms(2,3) c st in auto)
qed

lemma drawn_families_step: "set (drawn_families (c # cs)) = set (drawn_families [c]) \<union> set (drawn_families cs)"
  by (cases "c # cs" rule: drawn_families.cases) auto

lemma gone_run:
  assumes "families_once m" and "map_of m fam = None" and "fam \<notin> set (drawn_families cs)"
  shows "map_of (session_run b cs m) fam = None"
  using assms
proof (induction cs arbitrary: m)
  case (Cons c cs)
  then have out: "fam \<notin> set (drawn_families [c])" "fam \<notin> set (drawn_families cs)" using drawn_families_step [of c cs] by blast+
  with Cons.IH [OF families_once_step [OF Cons.prems(1)] gone_step [OF Cons.prems(1,2)]] show ?case by simp
qed simp

lemma gone_is_dead:
  assumes "map_of m fam = None" and "handle_parts token = Some (fam, s)"
  shows "session_rotate now new token b m = (Inl InvalidToken, m)" and "session_inspect now token b m = NoCredential"
    and "session_family_id_of token m = None"
  using assms by (simp_all add: session_rotate_def session_inspect_def session_family_id_of_def)

text \<open>C12. A replay ends the session, for good. If a handle was answered with a new one and the
  store was not asked about its family in between, presenting the old handle again is refused,
  and from then on, whatever is asked, no handle of that family, the new one included, is
  rotated, recognised or resolved: both the thief and the owner are out.\<close>

theorem replay_ends_session:
  assumes "session_rotate t1 new token b m1 = (Inr r, m2)" and "handle_parts token = Some (fam, s)" and "new \<noteq> s"
    and "families_once m1" and "map_of m3 fam = map_of m2 fam" and "families_once m3"
    and "fam \<notin> set (drawn_families rest)" and "handle_parts other = Some (fam, s')"
  shows "fst (session_rotate t2 new2 token b m3) = Inl InvalidToken
    \<and> (let m = session_run b rest (snd (session_rotate t2 new2 token b m3))
       in fst (session_rotate t3 new3 other b m) = Inl InvalidToken \<and> session_inspect t3 other b m = NoCredential
          \<and> session_family_id_of other m = None)"
proof -
  obtain f where f: "map_of m3 fam = Some f" "fm_current f = new" "fm_prev f = Some s"
    using assms(1)
  proof (cases rule: rotate_cases)
    case (ok g secret f)
    then show thesis using that [of "rotated_family t1 b new f"] assms(2,5) by (simp add: update_conv' rotated_family_def)
  qed simp_all
  obtain r2 m4 where rot: "session_rotate t2 new2 token b m3 = (r2, m4)" by fastforce
  have "map_of m4 fam = None \<and> r2 = Inl InvalidToken"
    using rot by (cases rule: rotate_cases) (use f assms(2,3) in \<open>auto simp: delete_conv'\<close>)
  moreover have "families_once m4" using families_once_step [OF assms(6), of b "(t2, S_Rotate new2 token)"] rot by simp
  ultimately show ?thesis
    using gone_run [of m4 fam rest b] gone_is_dead [OF _ assms(8)] assms(7) rot by (simp add: Let_def)
qed

text \<open>Only the last secret replaced is remembered: an older one is refused, and nothing happens to
  the family.\<close>

lemma older_secret_unnoticed:
  assumes "map_of m fam = Some f" and "handle_parts token = Some (fam, s)" and "\<not> family_expired now b f"
    and "fm_current f \<noteq> s" and "fm_prev f \<noteq> Some s"
  shows "session_rotate now new token b m = (Inl InvalidToken, m)" and "session_inspect now token b m = NoCredential"
  using assms by (auto simp: session_rotate_def session_inspect_def ct_eq_def split: option.splits)

section \<open>Deadlines\<close>

definition stamped :: "session_bounds \<Rightarrow> nat \<Rightarrow> rstr \<Rightarrow> nat \<Rightarrow> rstr \<Rightarrow> family \<Rightarrow> bool" where
  "stamped b t user version sid f \<longleftrightarrow> fm_absolute_expires_at f = t + bd_max_session_secs b \<and> fm_user_id f = user
     \<and> fm_token_version f = version \<and> fm_id f = sid \<and> fm_created_at f = t"

lemma stamped_step:
  assumes "families_once m" and "fam \<notin> set (drawn_families [c])" and "\<forall>f. map_of m fam = Some f \<longrightarrow> stamped b t user version sid f"
  shows "\<forall>f. map_of (snd (session_step b c m)) fam = Some f \<longrightarrow> stamped b t user version sid f"
proof -
  obtain now call a m' where c: "c = (now, call)" and st: "session_step b (now, call) m = (a, m')" by (metis prod.exhaust)
  from st assms(1) show ?thesis
    by (cases rule: step_family [where fam = fam]) (use assms(2,3) c st in \<open>auto simp: stamped_def rotated_family_def\<close>)
qed

lemma stamped_run:
  assumes "families_once m" and "fam \<notin> set (drawn_families cs)" and "\<forall>f. map_of m fam = Some f \<longrightarrow> stamped b t user version sid f"
  shows "\<forall>f. map_of (session_run b cs m) fam = Some f \<longrightarrow> stamped b t user version sid f"
  using assms
proof (induction cs arbitrary: m)
  case (Cons c cs)
  then have out: "fam \<notin> set (drawn_families [c])" "fam \<notin> set (drawn_families cs)" using drawn_families_step [of c cs] by blast+
  with Cons.IH [OF families_once_step [OF Cons.prems(1)] _ stamped_step [OF Cons.prems(1)]] Cons.prems(3) show ?case by simp
qed simp

text \<open>C14. Nothing keeps a session alive past its deadline or changes whose it is. Whatever ran before
  a sign-in and after it, a handle of the family it opened is recognised only before the sign-in
  plus the longest session, as the user who signed in, and rotating it answers with the session
  version of that sign-in; its session id never changes.\<close>

theorem session_keeps_its_stamp:
  assumes "fam = sd_family d" and "fam \<notin> set (drawn_families rest)" and "handle_parts token = Some (fam, s)"
    and "m = session_run b (earlier @ (t0, S_Issue d user version agent ip) # rest) []"
  shows "(\<forall>u. session_inspect t token b m = CurrentSecret u \<longrightarrow> u = user \<and> t < t0 + bd_max_session_secs b)
    \<and> (\<forall>r. fst (session_rotate t new token b m) = Inr r \<longrightarrow>
         ro_token_version_snapshot r = version \<and> t < t0 + bd_max_session_secs b)
    \<and> (\<forall>i. session_family_id_of token m = Some i \<longrightarrow> i = sd_id d)"
proof -
  let ?m0 = "session_run b earlier []" and ?m1 = "snd (session_step b (t0, S_Issue d user version agent ip) (session_run b earlier []))"
  have once: "families_once ?m0" by (rule families_once_run) simp
  have "\<forall>f. map_of ?m1 fam = Some f \<longrightarrow> stamped b t0 user version (sd_id d) f"
    by (simp add: session_issue_def update_conv' Let_def assms(1) stamped_def)
  from stamped_run [OF families_once_step [OF once] assms(2) this]
  have "\<forall>f. map_of m fam = Some f \<longrightarrow> stamped b t0 user version (sd_id d) f"
    by (simp only: assms(4) session_run_append session_run.simps)
  then show ?thesis
    by (auto simp: session_inspect_def session_rotate_def session_family_id_of_def assms(3) family_expired_def stamped_def Let_def
        split: option.splits if_splits)
qed

end
