(* ===== verification/Session_Refinement.thy ===== *)
theory Session_Refinement
  imports Session_Redis Session_Safety
begin

text \<open>
  The two stores of refresh families answer alike: a relation between the map of the process and
  the keys of Redis that every call preserves, as long as the clock does not go back.
\<close>

section \<open>Keys\<close>

lemma parse_show: "parse_number (show_nat n) = Some n"
proof -
  have digits: "show_nat n \<noteq> [] \<and> list_all is_ascii_digit (show_nat n) \<and> foldl (\<lambda>n c. 10 * n + nat (c - 48)) 0 (show_nat n) = n"
  proof (induction n rule: show_nat.induct)
    case (1 n)
    show ?case
    proof (cases "n < 10")
      case True
      then show ?thesis by (subst (1 2 3) show_nat.simps) (simp add: is_ascii_digit_def)
    next
      case False
      with 1 show ?thesis by (subst (1 2 3) show_nat.simps) (auto simp: is_ascii_digit_def list_all_iff)
    qed
  qed
  then show ?thesis by (simp add: parse_number_def)
qed

definition alive :: "nat \<Rightarrow> redis_value \<times> nat option \<Rightarrow> bool" where
  "alive at x \<longleftrightarrow> (case snd x of None \<Rightarrow> True | Some e \<Rightarrow> at < e)"

lemma alive_simps [simp]: "alive at (v, None)" "alive at (v, Some e) \<longleftrightarrow> at < e"
  by (simp_all add: alive_def)

lemma entry_bind: "redis_entry at k db = Option.bind (map_of db k) (\<lambda>x. if alive at x then Some x else None)"
  by (auto simp: redis_entry_def split: option.split prod.split)

lemma entry_alive: "redis_entry at k db = Some x \<Longrightarrow> alive at x"
  by (auto simp: entry_bind bind_eq_Some_conv split: if_splits)

lemma entry_later:
  "at \<le> at' \<Longrightarrow> redis_entry at' k db = Option.bind (redis_entry at k db) (\<lambda>x. if alive at' x then Some x else None)"
  by (cases "map_of db k") (auto simp: entry_bind alive_def split: option.splits)

lemma entry_update [simp]:
  "redis_entry at k (AList.update k' x db) = (if k = k' then (if alive at x then Some x else None) else redis_entry at k db)"
  by (simp add: entry_bind update_conv')

lemma entry_del [simp]: "redis_entry at k (redis_del k' db) = (if k = k' then None else redis_entry at k db)"
  by (simp add: entry_bind redis_del_def delete_conv')

lemma entry_hset:
  "redis_entry at k (redis_hset at k' pairs db) =
     (if k = k' then Some (RHash (fold (\<lambda>(k, v). AList.update k v) pairs (redis_hgetall at k' db)), Option.bind (redis_entry at k' db) snd)
      else redis_entry at k db)"
  by (auto simp: redis_hset_def Let_def alive_def dest: entry_alive split: option.splits prod.splits)

lemma entry_expire:
  "redis_entry at k (redis_expire_at at k' t db) =
     (if k = k' then Option.bind (redis_entry at k' db) (\<lambda>(v, _). if at < t then Some (v, Some t) else None) else redis_entry at k db)"
  by (auto simp: redis_expire_at_def split: option.splits prod.splits)

lemma entry_sadd:
  "redis_entry at k (redis_sadd at k' x db) =
     (if k = k' then Some (RSet (List.insert x (redis_smembers at k' db)), Option.bind (redis_entry at k' db) snd)
      else redis_entry at k db)"
  by (auto simp: redis_sadd_def Let_def alive_def dest: entry_alive split: option.splits prod.splits)

lemma entry_srem:
  "redis_entry at k (redis_srem at k' x db) =
     (if k = k' then
        (case redis_entry at k' db of Some (RSet s, e) \<Rightarrow> if removeAll x s = [] then None else Some (RSet (removeAll x s), e) | y \<Rightarrow> y)
      else redis_entry at k db)"
  by (auto simp: redis_srem_def Let_def alive_def dest: entry_alive split: option.splits prod.splits redis_value.splits)

lemma keys_apart [simp]: "fam_key a \<noteq> user_key u" "user_key u \<noteq> fam_key a" "fam_key a = fam_key b \<longleftrightarrow> a = b" "user_key u = user_key w \<longleftrightarrow> u = w"
  by (auto simp: fam_key_def user_key_def FAM_PREFIX_def lit_def)

section \<open>The relation\<close>

definition holds :: "(rstr \<times> rstr) list \<Rightarrow> family \<Rightarrow> bool" where
  "holds h f \<longleftrightarrow> map_of h (lit ''id'') = Some (fm_id f) \<and> map_of h (lit ''user_id'') = Some (fm_user_id f)
     \<and> map_of h (lit ''current'') = Some (fm_current f) \<and> map_of h (lit ''prev'') = fm_prev f
     \<and> map_of h (lit ''token_version'') = Some (show_nat (fm_token_version f))
     \<and> map_of h (lit ''expires_at'') = Some (show_nat (fm_expires_at f))
     \<and> map_of h (lit ''absolute_expires_at'') = Some (show_nat (fm_absolute_expires_at f))
     \<and> map_of h (lit ''user_agent'') = Some (fm_user_agent f) \<and> map_of h (lit ''ip'') = Some (fm_ip f)
     \<and> map_of h (lit ''created_at'') = Some (show_nat (fm_created_at f))
     \<and> map_of h (lit ''last_seen'') = Some (show_nat (fm_last_seen f))"

definition within :: "nat \<Rightarrow> family_map \<Rightarrow> rstr \<Rightarrow> family \<Rightarrow> bool" where
  "within now m fam f \<longleftrightarrow> map_of m fam = Some f \<and> now < fm_absolute_expires_at f"

definition hashes_match :: "nat \<Rightarrow> family_map \<Rightarrow> redis_db \<Rightarrow> bool" where
  "hashes_match now m db \<longleftrightarrow>
     (\<forall>fam f. within now m fam f \<longrightarrow>
        (\<exists>h. redis_entry now (fam_key fam) db = Some (RHash h, Some (fm_absolute_expires_at f)) \<and> holds h f))
     \<and> (\<forall>fam. (\<nexists>f. within now m fam f) \<longrightarrow> redis_entry now (fam_key fam) db = None)"

definition indexed :: "nat \<Rightarrow> family_map \<Rightarrow> redis_db \<Rightarrow> bool" where
  "indexed now m db \<longleftrightarrow>
     (\<forall>fam f. within now m fam f \<longrightarrow>
        (\<exists>s e. redis_entry now (user_key (fm_user_id f)) db = Some (RSet s, Some e) \<and> fam \<in> set s \<and> fm_absolute_expires_at f \<le> e))"

definition index_sound :: "nat \<Rightarrow> rstr set \<Rightarrow> family_map \<Rightarrow> redis_db \<Rightarrow> bool" where
  "index_sound now used m db \<longleftrightarrow>
     (\<forall>u x. redis_entry now (user_key u) db = Some x \<longrightarrow>
        (\<exists>s e. x = (RSet s, Some e) \<and> distinct s \<and> set s \<subseteq> used \<and> (\<forall>fam\<in>set s. \<forall>f. map_of m fam = Some f \<longrightarrow> fm_user_id f = u)))"

definition map_sound :: "nat \<Rightarrow> session_bounds \<Rightarrow> rstr set \<Rightarrow> rstr set \<Rightarrow> family_map \<Rightarrow> bool" where
  "map_sound now b used ids m \<longleftrightarrow> families_once m \<and> fst ` set m \<subseteq> used
     \<and> (\<forall>fam f. map_of m fam = Some f \<longrightarrow> fm_absolute_expires_at f \<le> now + bd_max_session_secs b \<and> fm_id f \<in> ids)
     \<and> (\<forall>fam fam' f f'. map_of m fam = Some f \<and> map_of m fam' = Some f' \<and> fm_id f = fm_id f' \<longrightarrow> fam = fam')"

definition alike :: "nat \<Rightarrow> session_bounds \<Rightarrow> rstr set \<Rightarrow> rstr set \<Rightarrow> family_map \<Rightarrow> redis_db \<Rightarrow> bool" where
  "alike now b used ids m db \<longleftrightarrow> map_sound now b used ids m \<and> hashes_match now m db \<and> indexed now m db \<and> index_sound now used m db"

lemma alike_empty: "alike now b used ids [] []"
  by (simp add: alike_def map_sound_def hashes_match_def indexed_def index_sound_def within_def redis_entry_def)

lemma within_later: "now \<le> now' \<Longrightarrow> within now' m fam f \<Longrightarrow> within now m fam f"
  by (simp add: within_def)

lemma alike_later:
  assumes "alike now b used ids m db" and le: "now \<le> now'"
  shows "alike now' b used ids m db"
proof -
  have "map_sound now' b used ids m" using assms unfolding alike_def map_sound_def by (meson add_le_mono1 le_trans)
  moreover have "hashes_match now' m db"
    unfolding hashes_match_def
  proof (intro conjI allI impI)
    fix fam f assume w: "within now' m fam f"
    then obtain h where "redis_entry now (fam_key fam) db = Some (RHash h, Some (fm_absolute_expires_at f))" "holds h f"
      using assms(1) within_later [OF le w] unfolding alike_def hashes_match_def by blast
    then show "\<exists>h. redis_entry now' (fam_key fam) db = Some (RHash h, Some (fm_absolute_expires_at f)) \<and> holds h f"
      using w by (simp add: entry_later [OF le] within_def)
  next
    fix fam assume none: "\<nexists>f. within now' m fam f"
    show "redis_entry now' (fam_key fam) db = None"
    proof (cases "\<exists>f. within now m fam f")
      case True
      then obtain f h where "within now m fam f" "redis_entry now (fam_key fam) db = Some (RHash h, Some (fm_absolute_expires_at f))"
        using assms(1) unfolding alike_def hashes_match_def by blast
      with none show ?thesis by (auto simp: entry_later [OF le] within_def)
    next
      case False
      then have "redis_entry now (fam_key fam) db = None" using assms(1) unfolding alike_def hashes_match_def by blast
      then show ?thesis by (simp add: entry_later [OF le])
    qed
  qed
  moreover have "indexed now' m db"
    unfolding indexed_def
  proof (intro allI impI)
    fix fam f assume w: "within now' m fam f"
    then obtain s e where "redis_entry now (user_key (fm_user_id f)) db = Some (RSet s, Some e)" "fam \<in> set s" "fm_absolute_expires_at f \<le> e"
      using assms(1) within_later [OF le w] unfolding alike_def indexed_def by blast
    then show "\<exists>s e. redis_entry now' (user_key (fm_user_id f)) db = Some (RSet s, Some e) \<and> fam \<in> set s \<and> fm_absolute_expires_at f \<le> e"
      using w by (simp add: entry_later [OF le] within_def)
  qed
  moreover have "index_sound now' used m db"
    unfolding index_sound_def
  proof (intro allI impI)
    fix u x assume "redis_entry now' (user_key u) db = Some x"
    then have "redis_entry now (user_key u) db = Some x" by (auto simp: entry_later [OF le] bind_eq_Some_conv split: if_splits)
    then show "\<exists>s e. x = (RSet s, Some e) \<and> distinct s \<and> set s \<subseteq> used \<and> (\<forall>fam\<in>set s. \<forall>f. map_of m fam = Some f \<longrightarrow> fm_user_id f = u)"
      using assms(1) unfolding alike_def index_sound_def by blast
  qed
  ultimately show ?thesis by (simp add: alike_def)
qed

section \<open>Removing families\<close>

text \<open>A family leaves both stores; an index entry of a family that is in neither may go too.\<close>

lemma map_sound_sub:
  assumes "map_sound now b used ids m" and "families_once m'" and "\<And>fam. map_of m' fam = map_of m fam \<or> map_of m' fam = None"
  shows "map_sound now b used ids m'"
proof -
  have sub: "map_of m' fam = Some f \<Longrightarrow> map_of m fam = Some f" for fam f using assms(3) [of fam] by auto
  then have "dom (map_of m') \<subseteq> dom (map_of m)" by (auto simp: dom_def)
  then have "fst ` set m' \<subseteq> fst ` set m" by (simp add: dom_map_of_conv_image_fst)
  with assms(1,2) sub show ?thesis
    unfolding map_sound_def by (elim conjE, intro conjI allI impI) (assumption, fast, meson+)
qed

lemma alike_sub:
  assumes "alike now b used ids m db" and "families_once m'" and "\<And>fam. map_of m' fam = map_of m fam \<or> map_of m' fam = None"
    and "\<And>fam. redis_entry now (fam_key fam) db' = (if \<exists>f. within now m' fam f then redis_entry now (fam_key fam) db else None)"
    and "\<And>u. redis_entry now (user_key u) db' = redis_entry now (user_key u) db
           \<or> redis_entry now (user_key u) db' = None \<and> (\<forall>fam f. within now m' fam f \<longrightarrow> fm_user_id f \<noteq> u)
           \<or> (\<exists>s s' e. redis_entry now (user_key u) db = Some (RSet s, e) \<and> redis_entry now (user_key u) db' = Some (RSet s', e)
               \<and> distinct s' \<and> set s' \<subseteq> set s \<and> (\<forall>fam f. within now m' fam f \<and> fam \<in> set s \<longrightarrow> fam \<in> set s'))"
  shows "alike now b used ids m' db'"
proof -
  have sub: "within now m' fam f \<Longrightarrow> within now m fam f" for fam f using assms(3) [of fam] by (auto simp: within_def)
  have ms: "map_sound now b used ids m" and hm: "hashes_match now m db" and ix: "indexed now m db" and sound: "index_sound now used m db"
    using assms(1) by (simp_all add: alike_def)
  have "hashes_match now m' db'"
    unfolding hashes_match_def
  proof (intro conjI allI impI)
    fix fam f assume w: "within now m' fam f"
    from hm sub [OF w] have "\<exists>h. redis_entry now (fam_key fam) db = Some (RHash h, Some (fm_absolute_expires_at f)) \<and> holds h f"
      unfolding hashes_match_def by blast
    with w show "\<exists>h. redis_entry now (fam_key fam) db' = Some (RHash h, Some (fm_absolute_expires_at f)) \<and> holds h f"
      using assms(4) [of fam] by auto
  qed (simp add: assms(4))
  moreover have "indexed now m' db'"
    unfolding indexed_def
  proof (intro allI impI)
    fix fam f assume w: "within now m' fam f"
    obtain s e where "redis_entry now (user_key (fm_user_id f)) db = Some (RSet s, Some e)" "fam \<in> set s" "fm_absolute_expires_at f \<le> e"
      using ix sub [OF w] unfolding indexed_def by blast
    with assms(5) [of "fm_user_id f"] w
    show "\<exists>s e. redis_entry now (user_key (fm_user_id f)) db' = Some (RSet s, Some e) \<and> fam \<in> set s \<and> fm_absolute_expires_at f \<le> e"
      by auto
  qed
  moreover have "index_sound now used m' db'"
    unfolding index_sound_def
  proof (intro allI impI)
    fix u x assume x: "redis_entry now (user_key u) db' = Some x"
    have own: "map_of m' fam = Some f \<Longrightarrow> map_of m fam = Some f" for fam f using assms(3) [of fam] by auto
    from assms(5) [of u] x obtain s s' e where old: "redis_entry now (user_key u) db = Some (RSet s, e)" and new: "x = (RSet s', e)"
      "distinct s'" "set s' \<subseteq> set s"
      using sound unfolding index_sound_def by (metis (no_types, lifting) option.inject option.distinct(1) order_refl)
    from sound old obtain t where "e = Some t" "set s \<subseteq> used" "\<forall>fam\<in>set s. \<forall>f. map_of m fam = Some f \<longrightarrow> fm_user_id f = u"
      unfolding index_sound_def by blast
    with new own show "\<exists>s e. x = (RSet s, Some e) \<and> distinct s \<and> set s \<subseteq> used \<and> (\<forall>fam\<in>set s. \<forall>f. map_of m' fam = Some f \<longrightarrow> fm_user_id f = u)"
      by (intro exI [of _ s'] exI [of _ t]) auto
  qed
  ultimately show ?thesis using map_sound_sub [OF ms assms(2,3)] by (simp add: alike_def)
qed

lemma alikeD:
  assumes "alike now b used ids m db"
  shows "map_sound now b used ids m" "hashes_match now m db" "indexed now m db" "index_sound now used m db" "families_once m"
  using assms by (simp_all add: alike_def map_sound_def)

lemma hash_within:
  assumes "alike now b used ids m db" and "within now m fam f"
  shows "\<exists>h. redis_entry now (fam_key fam) db = Some (RHash h, Some (fm_absolute_expires_at f)) \<and> holds h f"
  using assms unfolding alike_def hashes_match_def by blast

lemma hash_gone: "alike now b used ids m db \<Longrightarrow> \<nexists>f. within now m fam f \<Longrightarrow> redis_entry now (fam_key fam) db = None"
  unfolding alike_def hashes_match_def by blast

lemma within_delete: "within now (AList.delete fam m) g f \<longleftrightarrow> g \<noteq> fam \<and> within now m g f"
  by (auto simp: within_def delete_conv')

lemma alike_drop:
  assumes "alike now b used ids m db"
  shows "alike now b used ids (AList.delete fam m) (redis_del (fam_key fam) db)"
proof (rule alike_sub [OF assms])
  show "redis_entry now (fam_key g) (redis_del (fam_key fam) db) =
      (if \<exists>f. within now (AList.delete fam m) g f then redis_entry now (fam_key g) db else None)" for g
    using hash_gone [OF assms, of g] by (auto simp: within_delete)
qed (use alikeD(5) [OF assms] in \<open>auto simp: distinct_delete delete_conv'\<close>)

lemma alike_forget:
  assumes "alike now b used ids m db" and gone: "\<nexists>f. within now m fam f"
  shows "alike now b used ids (AList.delete fam m) db"
proof (rule alike_sub [OF assms(1)])
  show "redis_entry now (fam_key g) db = (if \<exists>f. within now (AList.delete fam m) g f then redis_entry now (fam_key g) db else None)" for g
    using hash_gone [OF assms(1), of g] gone by (auto simp: within_delete)
qed (use alikeD(5) [OF assms(1)] in \<open>auto simp: distinct_delete delete_conv'\<close>)

lemma alike_unindex:
  assumes "alike now b used ids m db" and gone: "\<nexists>f. within now m fam f"
  shows "alike now b used ids m (redis_srem now (user_key user) fam db)"
proof (rule alike_sub [OF assms(1)])
  show "redis_entry now (fam_key g) (redis_srem now (user_key user) fam db) =
      (if \<exists>f. within now m g f then redis_entry now (fam_key g) db else None)" for g
    using hash_gone [OF assms(1), of g] by (auto simp: entry_srem)
  show "redis_entry now (user_key u) (redis_srem now (user_key user) fam db) = redis_entry now (user_key u) db
      \<or> redis_entry now (user_key u) (redis_srem now (user_key user) fam db) = None \<and> (\<forall>g f. within now m g f \<longrightarrow> fm_user_id f \<noteq> u)
      \<or> (\<exists>s s' e. redis_entry now (user_key u) db = Some (RSet s, e) \<and> redis_entry now (user_key u) (redis_srem now (user_key user) fam db) = Some (RSet s', e)
          \<and> distinct s' \<and> set s' \<subseteq> set s \<and> (\<forall>g f. within now m g f \<and> g \<in> set s \<longrightarrow> g \<in> set s'))" for u
  proof (cases "redis_entry now (user_key u) db = None \<or> u \<noteq> user")
    case True
    then show ?thesis by (auto simp: entry_srem split: option.split)
  next
    case False
    then obtain s e where s: "redis_entry now (user_key u) db = Some (RSet s, Some e)" "distinct s" and u: "u = user"
      using alikeD(4) [OF assms(1)] unfolding index_sound_def by blast
    have new: "redis_entry now (user_key u) (redis_srem now (user_key user) fam db)
        = (if removeAll fam s = [] then None else Some (RSet (removeAll fam s), Some e))"
      using s u by (simp add: entry_srem)
    show ?thesis
    proof (cases "removeAll fam s = []")
      case True
      have "fm_user_id f \<noteq> u" if w: "within now m g f" for g f
      proof
        assume "fm_user_id f = u"
        then have "g \<in> set s" using alikeD(3) [OF assms(1)] w s unfolding indexed_def by fastforce
        moreover have "set s \<subseteq> {fam}" using True by (metis Diff_eq_empty_iff set_empty set_removeAll)
        ultimately show False using gone w by blast
      qed
      with new True show ?thesis by auto
    next
      case False
      then show ?thesis using new s gone by (auto simp: distinct_removeAll)
    qed
  qed
qed (use alikeD(5) [OF assms(1)] in auto)

lemma alike_delete_family:
  assumes "alike now b used ids m db"
  shows "alike now b used ids (AList.delete fam m) (delete_family now fam user db)"
  unfolding delete_family_def
  by (rule alike_unindex [OF alike_drop [OF assms]]) (simp add: within_delete)

section \<open>Opening and rotating\<close>

lemma members_sound:
  assumes "alike now b used ids m db"
  shows "distinct (redis_smembers now (user_key u) db)" "set (redis_smembers now (user_key u) db) \<subseteq> used"
    "\<forall>fam\<in>set (redis_smembers now (user_key u) db). \<forall>f. map_of m fam = Some f \<longrightarrow> fm_user_id f = u"
proof -
  have "distinct (redis_smembers now (user_key u) db) \<and> set (redis_smembers now (user_key u) db) \<subseteq> used
    \<and> (\<forall>fam\<in>set (redis_smembers now (user_key u) db). \<forall>f. map_of m fam = Some f \<longrightarrow> fm_user_id f = u)"
  proof (cases "redis_entry now (user_key u) db")
    case None
    then show ?thesis by (simp add: redis_smembers_def)
  next
    case (Some x)
    then show ?thesis using alikeD(4) [OF assms] unfolding index_sound_def redis_smembers_def by fastforce
  qed
  then show "distinct (redis_smembers now (user_key u) db)" "set (redis_smembers now (user_key u) db) \<subseteq> used"
    "\<forall>fam\<in>set (redis_smembers now (user_key u) db). \<forall>f. map_of m fam = Some f \<longrightarrow> fm_user_id f = u" by blast+
qed

lemma hset_map: "map_of (fold (\<lambda>(k, v). AList.update k v) pairs h) = map_of h ++ map_of (rev pairs)"
  by (induction pairs arbitrary: h) (auto simp: update_conv' fun_eq_iff map_add_def split: option.split)

lemma alike_issue:
  assumes al: "alike now b used ids m db" and fresh: "sd_family d \<notin> used" "sd_id d \<notin> ids"
  shows "alike now b (insert (sd_family d) used) (insert (sd_id d) ids)
      (snd (session_issue now d user version b agent ip m)) (snd (redis_issue now d user version b agent ip db))"
    and "fst (session_issue now d user version b agent ip m) = fst (redis_issue now d user version b agent ip db)"
proof -
  show "fst (session_issue now d user version b agent ip m) = fst (redis_issue now d user version b agent ip db)"
    by (simp add: session_issue_def redis_issue_def Let_def)
  let ?fam = "sd_family d" and ?m = "snd (session_issue now d user version b agent ip m)"
    and ?db = "snd (redis_issue now d user version b agent ip db)"
  define f where "f = opened_family now b d user version agent ip"
  note parts = alikeD [OF al]
  have new: "map_of m ?fam = None"
    using parts(1) fresh(1) by (auto simp: map_sound_def map_of_eq_None_iff)
  have none: "redis_entry now (fam_key ?fam) db = None" by (rule hash_gone [OF al]) (simp add: within_def new)
  have m: "map_of ?m = (map_of m)(?fam \<mapsto> f)"
    by (simp add: session_issue_def f_def opened_family_def update_conv' Let_def)
  have abs: "fm_absolute_expires_at f = now + bd_max_session_secs b" "fm_user_id f = user" "fm_id f = sd_id d"
    by (simp_all add: f_def opened_family_def)
  have w: "within now ?m g h \<longleftrightarrow> (if g = ?fam then h = f \<and> 0 < bd_max_session_secs b else within now m g h)" for g h
    using abs(1) by (cases "h = f") (auto simp: within_def m)
  have dies: "\<not> within now m g h" if "bd_max_session_secs b = 0" for g h
    using parts(1) that by (auto simp: map_sound_def within_def) (metis add.right_neutral leD)
  obtain h where h: "redis_entry now (fam_key ?fam) ?db = (if 0 < bd_max_session_secs b then Some (RHash h, Some (now + bd_max_session_secs b)) else None)"
    "holds h f"
    by (rule that [of "fold (\<lambda>(k, v). AList.update k v)
            [(lit ''id'', sd_id d), (lit ''user_id'', user), (lit ''current'', sd_secret d),
             (lit ''token_version'', show_nat version), (lit ''expires_at'', show_nat (now + bd_ttl_secs b)),
             (lit ''absolute_expires_at'', show_nat (now + bd_max_session_secs b)), (lit ''user_agent'', agent), (lit ''ip'', ip),
             (lit ''created_at'', show_nat now), (lit ''last_seen'', show_nat now)] []"])
      (simp add: redis_issue_def Let_def entry_expire entry_sadd entry_hset none redis_hgetall_def,
       simp only: holds_def hset_map, simp add: f_def opened_family_def)
  have fams: "redis_entry now (fam_key g) ?db = redis_entry now (fam_key g) db" if "g \<noteq> ?fam" for g
    using that by (simp add: redis_issue_def Let_def entry_expire entry_sadd entry_hset)
  let ?old = "redis_smembers now (user_key user) db"
  have usr: "redis_entry now (user_key user) ?db =
      (if 0 < bd_max_session_secs b then Some (RSet (List.insert ?fam ?old), Some (now + bd_max_session_secs b)) else None)"
    by (simp add: redis_issue_def Let_def entry_expire entry_sadd entry_hset redis_smembers_def)
  have others: "redis_entry now (user_key u) ?db = redis_entry now (user_key u) db" if "u \<noteq> user" for u
    using that by (simp add: redis_issue_def Let_def entry_expire entry_sadd entry_hset)
  have old: "distinct ?old" "set ?old \<subseteq> used" "\<forall>g\<in>set ?old. \<forall>h. map_of m g = Some h \<longrightarrow> fm_user_id h = user"
    using members_sound [OF al] by blast+
  have cap: "fm_absolute_expires_at h \<le> now + bd_max_session_secs b" if "within now m g h" for g h
    using parts(1) that unfolding map_sound_def within_def by blast
  have "map_sound now b (insert ?fam used) (insert (sd_id d) ids) ?m"
  proof -
    have once: "families_once ?m" using families_once_step [OF parts(5), of b "(now, S_Issue d user version agent ip)"] by (simp add: split_beta)
    have "fst ` set ?m \<subseteq> insert ?fam used"
      using parts(1) m by (simp add: map_sound_def flip: dom_map_of_conv_image_fst) (simp add: dom_map_of_conv_image_fst subset_insertI2)
    moreover have "fm_absolute_expires_at h \<le> now + bd_max_session_secs b \<and> fm_id h \<in> insert (sd_id d) ids" if "map_of ?m g = Some h" for g h
      using that parts(1) abs by (auto simp: m map_sound_def split: if_splits)
    moreover have "g = g'" if "map_of ?m g = Some h" "map_of ?m g' = Some h'" "fm_id h = fm_id h'" for g g' h h'
    proof -
      have old: "fm_id h \<in> ids" if "map_of m g = Some h" for g h using parts(1) that by (simp add: map_sound_def)
      show ?thesis using that parts(1) abs fresh(2) old by (auto simp: m map_sound_def split: if_splits) metis+
    qed
    ultimately show ?thesis using once unfolding map_sound_def by blast
  qed
  moreover have "hashes_match now ?m ?db"
    unfolding hashes_match_def
  proof (intro conjI allI impI)
    fix g k assume "within now ?m g k"
    then show "\<exists>h. redis_entry now (fam_key g) ?db = Some (RHash h, Some (fm_absolute_expires_at k)) \<and> holds h k"
      using h abs fams hash_within [OF al] by (cases "g = ?fam") (auto simp: w)
  next
    fix g assume "\<nexists>k. within now ?m g k"
    then show "redis_entry now (fam_key g) ?db = None"
      using h fams hash_gone [OF al, of g] by (cases "g = ?fam") (auto simp: w)
  qed
  moreover have "indexed now ?m ?db"
    unfolding indexed_def
  proof (intro allI impI)
    fix g k assume k: "within now ?m g k"
    show "\<exists>s e. redis_entry now (user_key (fm_user_id k)) ?db = Some (RSet s, Some e) \<and> g \<in> set s \<and> fm_absolute_expires_at k \<le> e"
    proof (cases "g = ?fam")
      case True
      with k show ?thesis by (simp add: w usr abs)
    next
      case False
      then have k: "within now m g k" using k by (simp add: w)
      obtain s e where s: "redis_entry now (user_key (fm_user_id k)) db = Some (RSet s, Some e)" "g \<in> set s" "fm_absolute_expires_at k \<le> e"
        using parts(3) k unfolding indexed_def by blast
      show ?thesis
      proof (cases "fm_user_id k = user")
        case True
        with s have "g \<in> set ?old" by (simp add: redis_smembers_def)
        moreover have "0 < bd_max_session_secs b" using dies k by blast
        ultimately show ?thesis using True cap [OF k] by (simp add: usr)
      qed (use s others in auto)
    qed
  qed
  moreover have "index_sound now (insert ?fam used) ?m ?db"
    unfolding index_sound_def
  proof (intro allI impI)
    fix u x assume x: "redis_entry now (user_key u) ?db = Some x"
    show "\<exists>s e. x = (RSet s, Some e) \<and> distinct s \<and> set s \<subseteq> insert ?fam used \<and> (\<forall>g\<in>set s. \<forall>k. map_of ?m g = Some k \<longrightarrow> fm_user_id k = u)"
    proof (cases "u = user")
      case True
      with x have "x = (RSet (List.insert ?fam ?old), Some (now + bd_max_session_secs b))" by (simp add: usr split: if_splits)
      with old True show ?thesis by (auto simp: m abs)
    next
      case False
      with x others obtain s e where "x = (RSet s, Some e)" "distinct s" "set s \<subseteq> used" "\<forall>g\<in>set s. \<forall>k. map_of m g = Some k \<longrightarrow> fm_user_id k = u"
        using parts(4) unfolding index_sound_def by metis
      with fresh(1) show ?thesis by (auto simp: m)
    qed
  qed
  ultimately show "alike now b (insert ?fam used) (insert (sd_id d) ids) ?m ?db" by (simp add: alike_def)
qed

lemma alike_replace:
  assumes al: "alike now b used ids m db" and f: "within now m fam f"
    and same: "fm_absolute_expires_at f' = fm_absolute_expires_at f" "fm_user_id f' = fm_user_id f" "fm_id f' = fm_id f"
    and h: "redis_entry now (fam_key fam) db' = Some (RHash h, Some (fm_absolute_expires_at f))" "holds h f'"
    and others: "\<And>g. g \<noteq> fam \<Longrightarrow> redis_entry now (fam_key g) db' = redis_entry now (fam_key g) db"
      "\<And>u. redis_entry now (user_key u) db' = redis_entry now (user_key u) db"
  shows "alike now b used ids (AList.update fam f' m) db'"
proof -
  let ?m = "AList.update fam f' m"
  note parts = alikeD [OF al]
  have m: "map_of ?m = (map_of m)(fam \<mapsto> f')" by (simp add: update_conv')
  have mf: "map_of m fam = Some f" and lt: "now < fm_absolute_expires_at f" using f by (simp_all add: within_def)
  have w: "within now ?m g k \<longleftrightarrow> (if g = fam then k = f' else within now m g k)" for g k
    using lt same(1) by (auto simp: within_def m)
  have "map_sound now b used ids ?m"
  proof -
    have "dom (map_of ?m) = dom (map_of m)" using mf by (auto simp: m)
    then have "fst ` set ?m \<subseteq> used" using parts(1) by (simp add: map_sound_def dom_map_of_conv_image_fst)
    moreover have "fm_absolute_expires_at k \<le> now + bd_max_session_secs b \<and> fm_id k \<in> ids" if "map_of ?m g = Some k" for g k
      using that parts(1) mf same by (auto simp: m map_sound_def split: if_splits)
    moreover have "g = g'" if g: "map_of ?m g = Some k" "map_of ?m g' = Some k'" and ids: "fm_id k = fm_id k'" for g g' k k'
    proof -
      obtain j j' where "map_of m g = Some j" "map_of m g' = Some j'" "fm_id j = fm_id k" "fm_id j' = fm_id k'"
        using g mf same(3) by (auto simp: m split: if_splits)
      with ids parts(1) show ?thesis unfolding map_sound_def by metis
    qed
    moreover have "families_once ?m" using parts(5) by (simp add: distinct_update)
    ultimately show ?thesis unfolding map_sound_def by blast
  qed
  moreover have "hashes_match now ?m db'"
    unfolding hashes_match_def
  proof (intro conjI allI impI)
    fix g k assume "within now ?m g k"
    then show "\<exists>h. redis_entry now (fam_key g) db' = Some (RHash h, Some (fm_absolute_expires_at k)) \<and> holds h k"
      using h same(1) others(1) hash_within [OF al] by (cases "g = fam") (auto simp: w)
  next
    fix g assume "\<nexists>k. within now ?m g k"
    then show "redis_entry now (fam_key g) db' = None"
      using others(1) hash_gone [OF al, of g] by (cases "g = fam") (auto simp: w)
  qed
  moreover have "indexed now ?m db'"
    using parts(3) f same by (auto simp: indexed_def w others(2))
  moreover have "index_sound now used ?m db'"
    using parts(4) mf same(2) by (fastforce simp: index_sound_def m others(2))
  ultimately show ?thesis by (simp add: alike_def)
qed

lemma read_hash:
  assumes "redis_entry now (fam_key fam) db = Some (RHash h, Some e)" and "holds h f"
  shows "redis_hgetall now (fam_key fam) db = h" "h \<noteq> []"
  using assms by (auto simp: redis_hgetall_def holds_def)

lemma read_nothing: "redis_entry now (fam_key fam) db = None \<Longrightarrow> redis_hgetall now (fam_key fam) db = []"
  by (simp add: redis_hgetall_def)

lemma same_expiry:
  "family_expired now b f \<longleftrightarrow> now \<ge> fm_absolute_expires_at f \<or> now \<ge> fm_expires_at f
     \<or> (bd_idle_timeout_secs b \<noteq> 0 \<and> int now - int (fm_last_seen f) > int (bd_idle_timeout_secs b))"
  by (auto simp: family_expired_def Let_def)

lemma script_on_family:
  assumes "redis_entry now (fam_key fam) db = Some (RHash h, Some e)" and "holds h f"
  shows "rotate_script now (fam_key fam) secret (bd_idle_timeout_secs b) new_secret expires_at db =
     (if family_expired now b f then (Inr [], redis_del (fam_key fam) db)
      else if fm_current f = secret
      then (Inr [lit ''ok'', fm_user_id f, show_nat (fm_token_version f)],
            redis_hset now (fam_key fam) [(lit ''prev'', secret), (lit ''current'', new_secret),
              (lit ''expires_at'', show_nat expires_at), (lit ''last_seen'', show_nat now)] db)
      else if fm_prev f = Some secret then (Inr [lit ''reuse'', fm_user_id f], db)
      else (Inr [], db))"
  using assms(2) unfolding rotate_script_def read_hash(1) [OF assms] Let_def
  by (simp add: holds_def read_hash(2) [OF assms] parse_show same_expiry)

lemma alike_rotate:
  assumes al: "alike now b used ids m db"
  shows "fst (redis_rotate now new token b db) = fst (session_rotate now new token b m)
    \<and> alike now b used ids (snd (session_rotate now new token b m)) (snd (redis_rotate now new token b db))"
proof (cases "\<exists>fam s f. handle_parts token = Some (fam, s) \<and> map_of m fam = Some f")
  case False
  then have "redis_entry now (fam_key fam) db = None" if "handle_parts token = Some (fam, s)" for fam s
    using that by (intro hash_gone [OF al]) (auto simp: within_def)
  with False al show ?thesis
    by (auto simp: session_rotate_def redis_rotate_def rotate_script_def read_nothing Let_def split: option.split prod.split)
next
  case True
  then obtain fam s f where tok: "handle_parts token = Some (fam, s)" and f: "map_of m fam = Some f" by blast
  show ?thesis
  proof (cases "now < fm_absolute_expires_at f")
    case False
    then have gone: "\<nexists>f. within now m fam f" using f by (simp add: within_def)
    have "family_expired now b f" using False by (simp add: family_expired_def Let_def)
    then show ?thesis
      using alike_forget [OF al gone] read_nothing [OF hash_gone [OF al gone]] tok f
      by (simp add: session_rotate_def redis_rotate_def rotate_script_def Let_def)
  next
    case True
    then have w: "within now m fam f" using f by (simp add: within_def)
    obtain h where h: "redis_entry now (fam_key fam) db = Some (RHash h, Some (fm_absolute_expires_at f))" "holds h f"
      using hash_within [OF al w] by blast
    note script = script_on_family [OF h, of s b new "now + bd_ttl_secs b"]
    consider (expired) "family_expired now b f" | (hit) "\<not> family_expired now b f" "fm_current f = s"
      | (reuse) "\<not> family_expired now b f" "fm_current f \<noteq> s" "fm_prev f = Some s"
      | (wrong) "\<not> family_expired now b f" "fm_current f \<noteq> s" "fm_prev f \<noteq> Some s" by blast
    then show ?thesis
    proof cases
      case expired
      with alike_drop [OF al] script tok f show ?thesis by (simp add: session_rotate_def redis_rotate_def Let_def)
    next
      case hit
      let ?f = "rotated_family now b new f"
      let ?pairs = "[(lit ''prev'', s), (lit ''current'', new), (lit ''expires_at'', show_nat (now + bd_ttl_secs b)), (lit ''last_seen'', show_nat now)]"
      have "holds (fold (\<lambda>(k, v). AList.update k v) ?pairs h) ?f"
        using h(2) hit(2) unfolding holds_def hset_map by (simp add: rotated_family_def)
      then have "alike now b used ids (AList.update fam ?f m) (redis_hset now (fam_key fam) ?pairs db)"
        by (intro alike_replace [OF al w, where h = "fold (\<lambda>(k, v). AList.update k v) ?pairs h"])
          (simp_all add: entry_hset h(1) read_hash [OF h] rotated_family_def)
      then show ?thesis using hit script tok f
        by (simp add: session_rotate_def redis_rotate_def Let_def ct_eq_def rotated_family_def number_or_zero_def parse_show)
    next
      case reuse
      with alike_delete_family [OF al] script tok f show ?thesis by (simp add: session_rotate_def redis_rotate_def Let_def ct_eq_def)
    next
      case wrong
      with al script tok f show ?thesis
        by (auto simp: session_rotate_def redis_rotate_def Let_def ct_eq_def split: option.split)
    qed
  qed
qed

lemma alike_inspect:
  assumes al: "alike now b used ids m db"
  shows "redis_inspect now token b db = session_inspect now token b m"
proof (cases "\<exists>fam s f. handle_parts token = Some (fam, s) \<and> map_of m fam = Some f")
  case False
  then have "redis_entry now (fam_key fam) db = None" if "handle_parts token = Some (fam, s)" for fam s
    using that by (intro hash_gone [OF al]) (auto simp: within_def)
  with False show ?thesis
    by (auto simp: session_inspect_def redis_inspect_def read_nothing Let_def split: option.split prod.split)
next
  case True
  then obtain fam s f where tok: "handle_parts token = Some (fam, s)" and f: "map_of m fam = Some f" by blast
  show ?thesis
  proof (cases "now < fm_absolute_expires_at f")
    case False
    then have gone: "\<nexists>f. within now m fam f" using f by (simp add: within_def)
    with False show ?thesis
      using read_nothing [OF hash_gone [OF al gone]] tok f
      by (simp add: session_inspect_def redis_inspect_def family_expired_def Let_def)
  next
    case True
    then obtain h where h: "redis_entry now (fam_key fam) db = Some (RHash h, Some (fm_absolute_expires_at f))" "holds h f"
      using hash_within [OF al] f by (auto simp: within_def)
    from h(2) show ?thesis
      by (simp add: session_inspect_def redis_inspect_def tok f read_hash [OF h] Let_def holds_def number_or_zero_def parse_show family_expired_def
          split: option.split)
  qed
qed

end
