(* ===== verification/Session_Agreement.thy ===== *)
theory Session_Agreement
  imports Session_Refinement
begin

text \<open>Every call on the two stores, and their agreement over whole runs.\<close>

section \<open>The other calls\<close>

lemma hget_within:
  assumes "alike now b used ids m db"
  shows "redis_hget now (fam_key fam) (lit ''user_id'') db = (if \<exists>f. within now m fam f then map_option fm_user_id (map_of m fam) else None)"
    and "redis_hget now (fam_key fam) (lit ''id'') db = (if \<exists>f. within now m fam f then map_option fm_id (map_of m fam) else None)"
proof -
  have "redis_hget now (fam_key fam) (lit ''user_id'') db = (if \<exists>f. within now m fam f then map_option fm_user_id (map_of m fam) else None)
     \<and> redis_hget now (fam_key fam) (lit ''id'') db = (if \<exists>f. within now m fam f then map_option fm_id (map_of m fam) else None)"
  proof (cases "\<exists>f. within now m fam f")
    case True
    then obtain f h where w: "within now m fam f" and h: "redis_entry now (fam_key fam) db = Some (RHash h, Some (fm_absolute_expires_at f))" "holds h f"
      using hash_within [OF assms] by blast
    have "map_of m fam = Some f" using w by (simp add: within_def)
    with True h(2) show ?thesis by (simp add: redis_hget_def read_hash [OF h] holds_def)
  next
    case False
    then show ?thesis using hash_gone [OF assms False] by (simp add: redis_hget_def read_nothing)
  qed
  then show "redis_hget now (fam_key fam) (lit ''user_id'') db = (if \<exists>f. within now m fam f then map_option fm_user_id (map_of m fam) else None)"
    "redis_hget now (fam_key fam) (lit ''id'') db = (if \<exists>f. within now m fam f then map_option fm_id (map_of m fam) else None)" by blast+
qed

lemma alike_revoke:
  assumes al: "alike now b used ids m db"
  shows "alike now b used ids (session_revoke token m) (redis_revoke now token db)"
proof (cases "handle_parts token")
  case None
  with al show ?thesis by (simp add: session_revoke_def redis_revoke_def)
next
  case (Some p)
  obtain fam s where p: "p = (fam, s)" by (cases p)
  show ?thesis
  proof (cases "\<exists>f. within now m fam f")
    case True
    then obtain f where f: "map_of m fam = Some f" by (auto simp: within_def)
    with True alike_delete_family [OF al, of fam "fm_user_id f"] Some p show ?thesis
      by (simp add: session_revoke_def redis_revoke_def redis_user_of_def hget_within [OF al])
  next
    case False
    then have "redis_user_of now token db = None" using Some p by (auto simp: redis_user_of_def hget_within [OF al])
    with alike_forget [OF al False] Some p show ?thesis by (simp add: session_revoke_def redis_revoke_def)
  qed
qed

lemma entry_dels:
  "redis_entry at k (fold (\<lambda>fam. redis_del (FAM_PREFIX @ fam)) fams db) = (if k \<in> fam_key ` set fams then None else redis_entry at k db)"
  by (induction fams arbitrary: db) (auto simp: fam_key_def)

lemma members_within:
  assumes "alike now b used ids m db" and "within now m fam f"
  shows "fam \<in> set (redis_smembers now (user_key (fm_user_id f)) db)"
proof -
  obtain s e where "redis_entry now (user_key (fm_user_id f)) db = Some (RSet s, Some e)" "fam \<in> set s"
    using assms unfolding alike_def indexed_def by blast
  then show ?thesis by (simp add: redis_smembers_def)
qed

lemma alike_revoke_user:
  assumes al: "alike now b used ids m db"
  shows "alike now b used ids (session_revoke_user user m) (redis_revoke_user now user db)"
proof -
  let ?m = "session_revoke_user user m" and ?s = "redis_smembers now (user_key user) db"
  have once: "families_once ?m" using families_once_step [OF alikeD(5) [OF al], of b "(now, S_RevokeUser user)"] by simp
  have m: "map_of ?m fam = Option.bind (map_of m fam) (\<lambda>f. if fm_user_id f \<noteq> user then Some f else None)" for fam
    using kept_under_filter [OF alikeD(5) [OF al], of "\<lambda>f. fm_user_id f \<noteq> user"] by (simp add: session_revoke_user_def)
  have w: "within now ?m g f \<longleftrightarrow> within now m g f \<and> fm_user_id f \<noteq> user" for g f
    by (auto simp: within_def m bind_eq_Some_conv)
  show ?thesis
  proof (rule alike_sub [OF al once])
    show "map_of ?m fam = map_of m fam \<or> map_of ?m fam = None" for fam
      by (cases "map_of m fam") (auto simp: m)
    show "redis_entry now (fam_key g) (redis_revoke_user now user db)
        = (if \<exists>f. within now ?m g f then redis_entry now (fam_key g) db else None)" for g
    proof (cases "\<exists>f. within now m g f")
      case True
      then obtain f where f: "within now m g f" by blast
      have only: "k = f" if "within now m g k" for k using that f by (simp add: within_def)
      show ?thesis
      proof (cases "fm_user_id f = user")
        case True
        then have "g \<in> set ?s" using members_within [OF al f] by simp
        moreover have "\<nexists>k. within now ?m g k" using True only by (auto simp: w)
        ultimately show ?thesis by (simp add: redis_revoke_user_def entry_dels)
      next
        case False
        then have "g \<notin> set ?s" using members_sound(3) [OF al, of user] f by (auto simp: within_def)
        moreover have "within now ?m g f" using f False by (simp add: w)
        ultimately show ?thesis by (auto simp: redis_revoke_user_def entry_dels)
      qed
    next
      case False
      then show ?thesis using hash_gone [OF al False] by (auto simp: redis_revoke_user_def entry_dels w)
    qed
    show "redis_entry now (user_key u) (redis_revoke_user now user db) = redis_entry now (user_key u) db
        \<or> redis_entry now (user_key u) (redis_revoke_user now user db) = None \<and> (\<forall>g f. within now ?m g f \<longrightarrow> fm_user_id f \<noteq> u)
        \<or> (\<exists>s s' e. redis_entry now (user_key u) db = Some (RSet s, e) \<and> redis_entry now (user_key u) (redis_revoke_user now user db) = Some (RSet s', e)
            \<and> distinct s' \<and> set s' \<subseteq> set s \<and> (\<forall>g f. within now ?m g f \<and> g \<in> set s \<longrightarrow> g \<in> set s'))" for u
      by (cases "u = user") (auto simp: redis_revoke_user_def entry_dels w)
  qed
qed

lemma alike_list:
  assumes al: "alike now b used ids m db"
  shows "alike now b used ids m (snd (redis_list now user db))"
    and "(\<forall>fam f. map_of m fam = Some f \<longrightarrow> now < fm_absolute_expires_at f) \<Longrightarrow>
      set (fst (redis_list now user db)) = set (session_list now user m)"
proof -
  let ?s = "redis_smembers now (user_key user) db" and ?h = "\<lambda>fam. redis_hgetall now (fam_key fam) db"
  have gone: "\<nexists>f. within now m fam f" if "?h fam = []" for fam
    using that hash_within [OF al] read_hash by metis
  have "alike now b used ids m (fold (\<lambda>fam. redis_srem now (user_key user) fam) stale db)"
    if "\<forall>fam\<in>set stale. \<nexists>f. within now m fam f" for stale
    using that al by (induction stale arbitrary: db) (simp_all add: alike_unindex)
  from this [of "filter (\<lambda>fam. ?h fam = []) ?s"] gone show "alike now b used ids m (snd (redis_list now user db))"
    by (simp add: redis_list_def Let_def)
  assume all: "\<forall>fam f. map_of m fam = Some f \<longrightarrow> now < fm_absolute_expires_at f"
  have read: "?h fam \<noteq> [] \<and> view_of_hash (?h fam) = view_of f \<and> number_or_zero (map_of (?h fam) (lit ''expires_at'')) = fm_expires_at f"
    if w: "within now m fam f" for fam f
  proof -
    obtain h where h: "redis_entry now (fam_key fam) db = Some (RHash h, Some (fm_absolute_expires_at f))" "holds h f"
      using hash_within [OF al w] by blast
    from h(2) show ?thesis
      by (simp add: read_hash [OF h] view_of_hash_def view_of_def text_or_empty_def number_or_zero_def holds_def parse_show)
  qed
  show "set (fst (redis_list now user db)) = set (session_list now user m)"
  proof (intro equalityI subsetI)
    fix v assume "v \<in> set (fst (redis_list now user db))"
    then obtain fam where fam: "fam \<in> set ?s" "?h fam \<noteq> []" "now < number_or_zero (map_of (?h fam) (lit ''expires_at''))" "v = view_of_hash (?h fam)"
      by (auto simp: redis_list_def Let_def)
    obtain f where w: "within now m fam f"
      using fam(2) hash_gone [OF al] read_nothing by blast
    then have f: "map_of m fam = Some f" by (simp add: within_def)
    then have "fm_user_id f = user" using members_sound(3) [OF al] fam(1) by blast
    with read [OF w] fam f show "v \<in> set (session_list now user m)"
      by (force simp: session_list_def dest: map_of_SomeD)
  next
    fix v assume "v \<in> set (session_list now user m)"
    then obtain fam f where f: "(fam, f) \<in> set m" "fm_user_id f = user" "now < fm_expires_at f" "v = view_of f"
      by (auto simp: session_list_def)
    then have "map_of m fam = Some f" using alikeD(5) [OF al] by (simp add: map_of_is_SomeI)
    then have w: "within now m fam f" using all by (simp add: within_def)
    from members_within [OF al w] read [OF w] f show "v \<in> set (fst (redis_list now user db))"
      by (force simp: redis_list_def Let_def)
  qed
qed

lemma alike_revoke_by_id:
  assumes al: "alike now b used ids m db"
  shows "alike now b used ids (snd (session_revoke_by_id user sid m)) (snd (redis_revoke_by_id now user sid db))"
    and "(\<forall>fam f. map_of m fam = Some f \<longrightarrow> now < fm_absolute_expires_at f) \<Longrightarrow>
      fst (redis_revoke_by_id now user sid db) = fst (session_revoke_by_id user sid m)"
proof -
  let ?r = "find (\<lambda>fam. redis_hget now (fam_key fam) (lit ''id'') db = Some sid) (redis_smembers now (user_key user) db)"
  let ?p = "find (\<lambda>(k, f). fm_id f = sid \<and> fm_user_id f = user) m"
  have once: "families_once m" by (rule alikeD(5) [OF al])
  have r: "\<exists>f. within now m fam f \<and> fm_id f = sid \<and> fm_user_id f = user" if "?r = Some fam" for fam
  proof -
    have "fam \<in> set (redis_smembers now (user_key user) db)" "redis_hget now (fam_key fam) (lit ''id'') db = Some sid"
      using that by (auto simp: find_Some_iff)
    then show ?thesis using members_sound(3) [OF al] by (fastforce simp: hget_within [OF al] within_def split: if_splits)
  qed
  have no_r: "fm_id f \<noteq> sid \<or> fm_user_id f \<noteq> user" if "?r = None" "within now m fam f" for fam f
    using that members_within [OF al that(2)] by (auto simp: find_None_iff hget_within [OF al] within_def)
  have p: "map_of m k = Some f \<and> fm_id f = sid \<and> fm_user_id f = user" if "?p = Some (k, f)" for k f
    using that once by (auto simp: find_Some_iff) (metis map_of_is_SomeI nth_mem)
  have no_p: "fm_id f \<noteq> sid \<or> fm_user_id f \<noteq> user" if "?p = None" "map_of m k = Some f" for k f
    using that by (auto simp: find_None_iff dest: map_of_SomeD)
  have unique: "k = k'" if "map_of m k = Some f" "map_of m k' = Some f'" "fm_id f = fm_id f'" for k k' f f'
    using that alikeD(1) [OF al] unfolding map_sound_def by blast
  have both: "alike now b used ids (snd (session_revoke_by_id user sid m)) (snd (redis_revoke_by_id now user sid db))
    \<and> ((\<forall>fam f. map_of m fam = Some f \<longrightarrow> now < fm_absolute_expires_at f) \<longrightarrow>
      fst (redis_revoke_by_id now user sid db) = fst (session_revoke_by_id user sid m))"
  proof (cases ?r)
    case (Some fam)
    then obtain f where f: "map_of m fam = Some f" "fm_id f = sid" "fm_user_id f = user" using r by (auto simp: within_def)
    then obtain k f' where k: "?p = Some (k, f')" using no_p by (cases ?p) auto
    then have "k = fam" using p [OF k] unique f by simp
    with k Some alike_delete_family [OF al] show ?thesis by (simp add: session_revoke_by_id_def redis_revoke_by_id_def)
  next
    case None
    show ?thesis
    proof (cases ?p)
      case None
      with al \<open>?r = None\<close> show ?thesis by (simp add: session_revoke_by_id_def redis_revoke_by_id_def)
    next
      case (Some q)
      obtain k f where q: "q = (k, f)" by (cases q)
      note f = p [OF Some [unfolded q]]
      then have gone: "\<not> now < fm_absolute_expires_at f" using no_r [OF None, of k f] by (auto simp: within_def)
      then have "\<nexists>f. within now m k f" using f by (simp add: within_def)
      from alike_forget [OF al this] Some q None f gone show ?thesis
        by (auto simp: session_revoke_by_id_def redis_revoke_by_id_def)
    qed
  qed
  from both show "alike now b used ids (snd (session_revoke_by_id user sid m)) (snd (redis_revoke_by_id now user sid db))" by blast
  from both show "(\<forall>fam f. map_of m fam = Some f \<longrightarrow> now < fm_absolute_expires_at f) \<Longrightarrow>
      fst (redis_revoke_by_id now user sid db) = fst (session_revoke_by_id user sid m)" by blast
qed

lemma alike_family_id:
  assumes "alike now b used ids m db" and "\<forall>fam f. map_of m fam = Some f \<longrightarrow> now < fm_absolute_expires_at f"
  shows "redis_family_id_of now token db = session_family_id_of token m"
  using assms(2)
  by (auto simp: redis_family_id_of_def session_family_id_of_def hget_within [OF assms(1)] within_def split: option.split)

section \<open>Whole runs\<close>

fun drawn_ids :: "(nat \<times> session_call) list \<Rightarrow> rstr list" where
  "drawn_ids [] = []"
| "drawn_ids ((now, S_Issue d user version agent ip) # cs) = sd_id d # drawn_ids cs"
| "drawn_ids (c # cs) = drawn_ids cs"

text \<open>The calls that open, use or end a session by its handle or its user.\<close>

fun credential_call :: "session_call \<Rightarrow> bool" where
  "credential_call (S_List _) = False"
| "credential_call (S_RevokeById _ _) = False"
| "credential_call (S_FamilyId _) = False"
| "credential_call _ = True"

text \<open>Lists of sessions have no order.\<close>

fun same_answer :: "session_answer \<Rightarrow> session_answer \<Rightarrow> bool" where
  "same_answer (A_Views v) (A_Views w) \<longleftrightarrow> set v = set w"
| "same_answer a a' \<longleftrightarrow> a = a'"

lemma same_answer_refl [simp]: "same_answer a a"
  by (cases a) auto

abbreviation none_past_cap :: "nat \<Rightarrow> family_map \<Rightarrow> bool" where
  "none_past_cap now m \<equiv> \<forall>fam f. map_of m fam = Some f \<longrightarrow> now < fm_absolute_expires_at f"

lemma alike_step:
  assumes al: "alike now b used ids m db" and fresh: "set (drawn_families [(now, c)]) \<inter> used = {}" "set (drawn_ids [(now, c)]) \<inter> ids = {}"
  shows "alike now b (used \<union> set (drawn_families [(now, c)])) (ids \<union> set (drawn_ids [(now, c)]))
      (snd (session_step b (now, c) m)) (snd (redis_step b (now, c) db))
    \<and> (credential_call c \<or> none_past_cap now m \<longrightarrow> same_answer (fst (session_step b (now, c) m)) (fst (redis_step b (now, c) db)))"
proof (cases c)
  case (S_Issue d user version agent ip)
  with alike_issue [OF al] fresh show ?thesis by (simp add: split_beta)
next
  case (S_Rotate new token)
  with alike_rotate [OF al] show ?thesis by (simp add: split_beta)
next
  case (S_Inspect token)
  with alike_inspect [OF al] al show ?thesis by simp
next
  case (S_Revoke token)
  with alike_revoke [OF al] show ?thesis by simp
next
  case (S_RevokeUser user)
  with alike_revoke_user [OF al] show ?thesis by simp
next
  case (S_List user)
  with alike_list [OF al] show ?thesis by (simp add: split_beta)
next
  case (S_RevokeById user sid)
  with alike_revoke_by_id [OF al] show ?thesis by (simp add: split_beta)
next
  case (S_FamilyId token)
  with alike_family_id [OF al] al show ?thesis by simp
qed

lemma drawn_ids_step: "drawn_ids (c # cs) = drawn_ids [c] @ drawn_ids cs"
  by (cases "c # cs" rule: drawn_ids.cases) auto

lemma drawn_families_append: "drawn_families (c # cs) = drawn_families [c] @ drawn_families cs"
  by (cases "c # cs" rule: drawn_families.cases) auto

lemma alike_runs:
  assumes "alike now b used ids m db" and "sorted (now # map fst cs)"
    and "distinct (drawn_families cs)" "set (drawn_families cs) \<inter> used = {}" and "distinct (drawn_ids cs)" "set (drawn_ids cs) \<inter> ids = {}"
    and "i < length cs" and "credential_call (snd (cs ! i)) \<or> none_past_cap (fst (cs ! i)) (session_run b (take i cs) m)"
  shows "same_answer (session_answers b cs m ! i) (redis_answers b cs db ! i)"
  using assms
proof (induction cs arbitrary: now used ids m db i)
  case (Cons c cs)
  obtain t call where c: "c = (t, call)" by (cases c)
  have al: "alike t b used ids m db" using alike_later [OF Cons.prems(1)] Cons.prems(2) c by simp
  note fams = drawn_families_append [of c cs] and sids = drawn_ids_step [of c cs]
  note step = alike_step [OF al, of call]
  have fresh: "set (drawn_families [c]) \<inter> used = {}" "set (drawn_ids [c]) \<inter> ids = {}"
    using Cons.prems(4,6) fams sids by auto
  show ?case
  proof (cases i)
    case 0
    with step fresh c Cons.prems(8) show ?thesis by auto
  next
    case (Suc j)
    have "same_answer (session_answers b cs (snd (session_step b c m)) ! j) (redis_answers b cs (snd (redis_step b c db)) ! j)"
    proof (rule Cons.IH)
      show "alike t b (used \<union> set (drawn_families [c])) (ids \<union> set (drawn_ids [c])) (snd (session_step b c m)) (snd (redis_step b c db))"
        using step fresh c by blast
      show "sorted (t # map fst cs)" using Cons.prems(2) c by simp
      show "distinct (drawn_families cs)" "set (drawn_families cs) \<inter> (used \<union> set (drawn_families [c])) = {}"
        using Cons.prems(3,4) by (auto simp: fams)
      show "distinct (drawn_ids cs)" "set (drawn_ids cs) \<inter> (ids \<union> set (drawn_ids [c])) = {}"
        using Cons.prems(5,6) by (auto simp: sids)
      show "j < length cs" using Cons.prems(7) Suc by simp
      show "credential_call (snd (cs ! j)) \<or> none_past_cap (fst (cs ! j)) (session_run b (take j cs) (snd (session_step b c m)))"
        using Cons.prems(8) Suc by simp
    qed
    then show ?thesis by (simp add: Suc)
  qed
qed simp

text \<open>C10. The two stores of refresh families are interchangeable. On the same calls at the same,
  never decreasing times, with no family and no session id drawn twice, Redis answers every
  sign-in, rotation, inspection and revocation as the map of the process does; and it answers
  lists of sessions, revocations by id and lookups of ids alike too, whenever the process holds
  no family past its absolute deadline.\<close>

theorem stores_agree:
  assumes "sorted (map fst cs)" and "distinct (drawn_families cs)" and "distinct (drawn_ids cs)" and "i < length cs"
    and "credential_call (snd (cs ! i)) \<or> none_past_cap (fst (cs ! i)) (session_run b (take i cs) [])"
  shows "same_answer (session_answers b cs [] ! i) (redis_answers b cs [] ! i)"
  by (rule alike_runs [OF alike_empty [of 0 b "{}" "{}"]]) (use assms in auto)

section \<open>Ending every session of a user\<close>

lemma alike_after_run:
  assumes "alike now b used ids m db" and "sorted (now # map fst cs)"
    and "distinct (drawn_families cs)" "set (drawn_families cs) \<inter> used = {}" and "distinct (drawn_ids cs)" "set (drawn_ids cs) \<inter> ids = {}"
    and "\<forall>x\<in>set cs. fst x \<le> t" and "now \<le> t"
  shows "\<exists>used' ids'. alike t b used' ids' (session_run b cs m) (redis_run b cs db)"
  using assms
proof (induction cs arbitrary: now used ids m db)
  case Nil
  then show ?case by simp (blast intro: alike_later)
next
  case (Cons c cs)
  obtain t0 call where c: "c = (t0, call)" by (cases c)
  have al: "alike t0 b used ids m db" using alike_later [OF Cons.prems(1)] Cons.prems(2) c by simp
  note fams = drawn_families_append [of c cs] and sids = drawn_ids_step [of c cs]
  have fresh: "set (drawn_families [c]) \<inter> used = {}" "set (drawn_ids [c]) \<inter> ids = {}"
    using Cons.prems(4,6) fams sids by auto
  have "\<exists>used' ids'. alike t b used' ids' (session_run b cs (snd (session_step b c m))) (redis_run b cs (snd (redis_step b c db)))"
  proof (rule Cons.IH)
    show "alike t0 b (used \<union> set (drawn_families [c])) (ids \<union> set (drawn_ids [c])) (snd (session_step b c m)) (snd (redis_step b c db))"
      using alike_step [OF al, of call] fresh c by blast
    show "sorted (t0 # map fst cs)" using Cons.prems(2) c by simp
    show "distinct (drawn_families cs)" "set (drawn_families cs) \<inter> (used \<union> set (drawn_families [c])) = {}"
      using Cons.prems(3,4) by (auto simp: fams)
    show "distinct (drawn_ids cs)" "set (drawn_ids cs) \<inter> (ids \<union> set (drawn_ids [c])) = {}"
      using Cons.prems(5,6) by (auto simp: sids)
    show "\<forall>x\<in>set cs. fst x \<le> t" "t0 \<le> t" using Cons.prems(7) c by auto
  qed
  then show ?case by simp
qed

fun store_run :: "session_bounds \<Rightarrow> (nat \<times> session_call) list \<Rightarrow> refresh_store \<Rightarrow> refresh_store" where
  "store_run b [] st = st"
| "store_run b (c # cs) st = store_run b cs (snd (store_step b c st))"

lemma store_run_arms:
  "store_run b cs (InProcess m) = InProcess (session_run b cs m)"
  "store_run b cs (Redis db) = Redis (redis_run b cs db)"
  by (induction cs arbitrary: m db) (simp_all add: split_beta)

definition signs_in :: "rstr \<Rightarrow> nat \<times> session_call \<Rightarrow> bool" where
  "signs_in user c \<longleftrightarrow> (\<exists>d version agent ip. snd c = S_Issue d user version agent ip)"

lemma no_sessions_run:
  assumes "families_once m" and "\<forall>fam f. map_of m fam = Some f \<longrightarrow> fm_user_id f \<noteq> user" and "\<forall>c\<in>set cs. \<not> signs_in user c"
  shows "\<forall>fam f. map_of (session_run b cs m) fam = Some f \<longrightarrow> fm_user_id f \<noteq> user"
  using assms
proof (induction cs arbitrary: m)
  case (Cons c cs)
  have "fm_user_id f \<noteq> user" if f: "map_of (snd (session_step b c m)) fam = Some f" for fam f
  proof -
    obtain now call a m' where c: "c = (now, call)" and st: "session_step b (now, call) m = (a, m')" by (metis prod.exhaust)
    from st Cons.prems(1) show ?thesis
      by (cases rule: step_family [where fam = fam])
        (use f c st Cons.prems(2,3) in \<open>fastforce simp: opened_family_def rotated_family_def signs_in_def\<close>)+
  qed
  then have "\<forall>fam f. map_of (snd (session_step b c m)) fam = Some f \<longrightarrow> fm_user_id f \<noteq> user" by blast
  from Cons.IH [OF families_once_step [OF Cons.prems(1)] this] Cons.prems(3) show ?case by simp
qed simp

text \<open>C13. Signing a user out everywhere leaves nothing behind. After it no handle is recognised as that
  user's, whatever the store is asked under one configuration of the session bounds, until that
  user signs in again: in the store of the process at any times and with any draws; in Redis at
  never decreasing times, with no family and no session id drawn twice. (In Redis the configuration
  must not change: a sign-out after the bounds were lowered misses older sessions.)\<close>

theorem logout_everywhere:
  assumes "cs = earlier @ (t0, S_RevokeUser user) # rest" and "\<forall>c\<in>set rest. \<not> signs_in user c"
  shows "fst (store_step b (t, S_Inspect token) (store_run b cs (InProcess []))) \<noteq> A_Inspected (CurrentSecret user)
    \<and> (sorted (map fst cs @ [t]) \<and> distinct (drawn_families cs) \<and> distinct (drawn_ids cs) \<longrightarrow>
        fst (store_step b (t, S_Inspect token) (store_run b cs (Redis []))) \<noteq> A_Inspected (CurrentSecret user))"
proof -
  let ?m = "session_run b cs []"
  have once: "families_once (session_run b earlier [])" by (rule families_once_run) simp
  have "\<forall>fam f. map_of (session_revoke_user user (session_run b earlier [])) fam = Some f \<longrightarrow> fm_user_id f \<noteq> user"
    using kept_under_filter [OF once, of "\<lambda>f. fm_user_id f \<noteq> user"]
    by (auto simp: session_revoke_user_def bind_eq_Some_conv split: if_splits)
  from no_sessions_run [OF _ this assms(2), of b] families_once_step [OF once, of b "(t0, S_RevokeUser user)"]
  have none: "\<forall>fam f. map_of ?m fam = Some f \<longrightarrow> fm_user_id f \<noteq> user"
    by (simp add: assms(1) session_run_append)
  then have here: "session_inspect t token b ?m \<noteq> CurrentSecret user"
    by (auto simp: session_inspect_def Let_def split: option.splits if_splits prod.splits)
  have "redis_inspect t token b (redis_run b cs []) \<noteq> CurrentSecret user"
    if "sorted (map fst cs @ [t])" "distinct (drawn_families cs)" "distinct (drawn_ids cs)"
  proof -
    have "\<exists>used ids. alike t b used ids ?m (redis_run b cs [])"
      using alike_after_run [OF alike_empty [of 0 b "{}" "{}"], of cs t] that by (auto simp: sorted_append)
    then obtain used ids where "alike t b used ids ?m (redis_run b cs [])" by blast
    from alike_inspect [OF this] here show ?thesis by simp
  qed
  with here show ?thesis by (simp add: store_run_arms)
qed

end
