(* ===== verification/Session_Samples.thy ===== *)
theory Session_Samples
  imports Session_Agreement
begin

text \<open>Concrete runs of the refresh families, and where the two stores differ.\<close>

definition sample_bounds :: session_bounds where
  "sample_bounds = \<lparr>bd_ttl_secs = 100, bd_max_session_secs = 50, bd_idle_timeout_secs = 0\<rparr>"

definition sample_opening :: "nat \<Rightarrow> session_draws" where
  "sample_opening n = \<lparr>sd_family = lit ''f'' @ show_nat n, sd_secret = lit ''s'' @ show_nat n, sd_id = lit ''i'' @ show_nat n\<rparr>"

definition sample_sign_in :: "nat \<Rightarrow> nat \<Rightarrow> string \<Rightarrow> nat \<times> session_call" where
  "sample_sign_in t n user = (t, S_Issue (sample_opening n) (lit user) 3 (lit ''firefox'') (lit ''1.2.3.4''))"

definition sample_session_calls :: "(nat \<times> session_call) list" where
  "sample_session_calls = [sample_sign_in 0 1 ''ada'', sample_sign_in 1 2 ''bob'', (10, S_Rotate (lit ''s3'') (lit ''f1.s1'')),
     (20, S_Rotate (lit ''s4'') (lit ''f1.s1''))]"

text \<open>The process still lists a session past its absolute deadline; Redis does not.\<close>

lemma past_deadline_listed:
  "length (session_list 60 (lit ''ada'') (session_run sample_bounds [sample_sign_in 0 1 ''ada''] [])) = 1"
  "fst (redis_list 60 (lit ''ada'') (redis_run sample_bounds [sample_sign_in 0 1 ''ada''] [])) = []"
  "session_inspect 60 (lit ''f1.s1'') sample_bounds (session_run sample_bounds [sample_sign_in 0 1 ''ada''] []) = NoCredential"
  by code_simp+

text \<open>When the longest session is configured shorter, a new sign-in shortens the life of the index,
  and signing out everywhere then misses the sessions opened before the change.\<close>

definition shortened :: redis_db where
  "shortened = redis_run (sample_bounds\<lparr>bd_max_session_secs := 5\<rparr>) [sample_sign_in 1 2 ''ada'', (20, S_RevokeUser (lit ''ada''))]
     (redis_run sample_bounds [sample_sign_in 0 1 ''ada''] [])"

lemma sign_out_misses_older:
  "redis_inspect 21 (lit ''f1.s1'') (sample_bounds\<lparr>bd_max_session_secs := 5\<rparr>) shortened = CurrentSecret (lit ''ada'')"
  by code_simp

theorem handle_works_once_witness:
  "rotations sample_bounds sample_session_calls [] (lit ''f1.s1'') \<le> 1"
  by (rule handle_works_once) code_simp

theorem session_keeps_its_stamp_witness:
  "session_inspect 30 (lit ''f1.s3'') sample_bounds (session_run sample_bounds (take 3 sample_session_calls) []) = CurrentSecret (lit ''ada'')
   \<and> session_inspect 60 (lit ''f1.s3'') sample_bounds (session_run sample_bounds (take 3 sample_session_calls) []) \<noteq> CurrentSecret (lit ''ada'')"
proof -
  have fam: "sd_family (sample_opening 1) \<notin> set (drawn_families (drop 1 (take 3 sample_session_calls)))"
    "handle_parts (lit ''f1.s3'') = Some (sd_family (sample_opening 1), lit ''s3'')" by code_simp+
  have "take 3 sample_session_calls = [] @ (0, S_Issue (sample_opening 1) (lit ''ada'') 3 (lit ''firefox'') (lit ''1.2.3.4''))
      # drop 1 (take 3 sample_session_calls)"
    by (simp add: sample_session_calls_def sample_sign_in_def)
  then have "session_run sample_bounds (take 3 sample_session_calls) [] = session_run sample_bounds
      ([] @ (0, S_Issue (sample_opening 1) (lit ''ada'') 3 (lit ''firefox'') (lit ''1.2.3.4'')) # drop 1 (take 3 sample_session_calls)) []"
    by (rule arg_cong)
  from session_keeps_its_stamp [OF refl fam this, of 60]
  have "\<not> session_inspect 60 (lit ''f1.s3'') sample_bounds (session_run sample_bounds (take 3 sample_session_calls) []) = CurrentSecret (lit ''ada'')"
    unfolding sample_bounds_def [THEN arg_cong, of bd_max_session_secs] by fastforce
  then show ?thesis by (intro conjI) code_simp
qed

theorem replay_ends_session_witness:
  "fst (session_rotate 20 (lit ''s4'') (lit ''f1.s1'') sample_bounds (session_run sample_bounds (take 3 sample_session_calls) [])) = Inl InvalidToken"
proof -
  let ?m1 = "session_run sample_bounds (take 2 sample_session_calls) []" and ?m2 = "session_run sample_bounds (take 3 sample_session_calls) []"
  obtain r where r: "fst (session_rotate 10 (lit ''s3'') (lit ''f1.s1'') sample_bounds ?m1) = Inr r"
  proof -
    have "is_ok (fst (session_rotate 10 (lit ''s3'') (lit ''f1.s1'') sample_bounds ?m1))" by code_simp
    then show thesis using that by (cases "fst (session_rotate 10 (lit ''s3'') (lit ''f1.s1'') sample_bounds ?m1)") auto
  qed
  have step: "?m2 = snd (session_rotate 10 (lit ''s3'') (lit ''f1.s1'') sample_bounds ?m1)"
    by (simp add: sample_session_calls_def sample_sign_in_def split_beta numeral_3_eq_3 numeral_2_eq_2)
  have parts: "handle_parts (lit ''f1.s1'') = Some (lit ''f1'', lit ''s1'')" "lit ''s3'' \<noteq> lit ''s1''" by code_simp+
  have once: "families_once ?m1" "families_once ?m2" by (rule families_once_run, simp)+
  have rot: "session_rotate 10 (lit ''s3'') (lit ''f1.s1'') sample_bounds ?m1 = (Inr r, ?m2)" using r step by (simp add: prod_eq_iff)
  from replay_ends_session [OF rot parts once(1) refl once(2), of "[]" "lit ''f1.s1''" "lit ''s1''" 20 "lit ''s4''"] parts(1)
  show ?thesis by simp
qed

theorem stores_agree_witness:
  "same_answer (session_answers sample_bounds sample_session_calls [] ! 3) (redis_answers sample_bounds sample_session_calls [] ! 3)"
proof -
  have "sorted (map fst sample_session_calls)" "distinct (drawn_families sample_session_calls)" "distinct (drawn_ids sample_session_calls)"
    "3 < length sample_session_calls" "credential_call (snd (sample_session_calls ! 3))"
    by code_simp+
  then show ?thesis using stores_agree by blast
qed

theorem logout_everywhere_witness:
  "fst (store_step sample_bounds (30, S_Inspect (lit ''f1.s3''))
     (store_run sample_bounds (sample_session_calls @ [(25, S_RevokeUser (lit ''ada''))]) (Redis []))) \<noteq> A_Inspected (CurrentSecret (lit ''ada''))"
proof -
  let ?cs = "sample_session_calls @ [(25, S_RevokeUser (lit ''ada''))]"
  have "sorted (map fst ?cs @ [30])" "distinct (drawn_families ?cs)" "distinct (drawn_ids ?cs)" by code_simp+
  then show ?thesis
    using logout_everywhere [of ?cs sample_session_calls 25 "lit ''ada''" "[]" sample_bounds 30 "lit ''f1.s3''"] by simp
qed

end
