(* ===== verification/Spec2Isabelle.thy ===== *)
theory Spec2Isabelle
  imports Proposal_Liveness Access_Gate Service_Samples Relay_Samples Session_Samples
begin

text \<open>
  Concierge, the identity and governance plane of a fund, as a shallow embedding: the Rust
  of \<open>src/domain\<close>, \<open>src/iam\<close>, \<open>src/runner\<close> and the session store of \<open>src/auth\<close>
  translated to functions of HOL, with the properties that make it correct.

  The program. \<open>domain\<close> holds the rules, free of I/O: the user account, profile fields and
  identifiers, seats and their permissions, and the three consilia (owners deciding to take a
  seat, to grant one, or about a person's standing). \<open>iam\<close> is the algebra of permission
  patterns, tenant catalogs and grants. \<open>runner\<close> keeps all of it in Postgres and serves it
  over gRPC: the directory of accounts, the store of the consilia, notifications and the mail
  queue with its dispatcher, the relay through which the money plane has mail written, and the
  gate in front of every handler. The money plane learns of accounts from an outbox written in
  the transaction that changes the account. \<open>auth\<close> keeps the refresh families behind the
  browser's sessions, in the process or in Redis.

  From code to theory. Every theory names the file it translates in its first lines.

  \<^item> \<open>Prelude\<close>: strings as lists of code points, errors as the left of a sum (\<open>rbind\<close> is
    the question mark operator), saturating integers, ids, runs of operations, the codec
    locale of stored enumerations.
  \<^item> \<open>Consilium\<close>, \<open>Proposals\<close> (\<open>domain/src/governance.rs\<close>): votes, ballots, the two
    passing rules, the lifecycle, the three aggregates. \<open>Proposal_Runs\<close>,
    \<open>Proposal_Safety\<close> and \<open>Proposal_Liveness\<close>: any sequence of their methods, who must
    have agreed, what is final, what can still be reached.
  \<^item> \<open>Scopes\<close> (\<open>iam\<close>, \<open>domain/src/iam.rs\<close>), \<open>Seats\<close> (\<open>domain/src/authz.rs\<close>): patterns,
    catalogs, grant targets, seats.
  \<^item> \<open>Profile\<close>, \<open>Accounts\<close> (\<open>domain/src/users.rs\<close>, \<open>domain/src/auth.rs\<close>): parsed fields
    and the account aggregate with its holds and suspensions.
  \<^item> \<open>Directory_Store\<close>, \<open>Directory_Laws\<close>, \<open>Directory_Safety\<close>, \<open>Directory_Runs\<close>
    (\<open>runner/src/infrastructure/users.rs\<close>): the users table, outbox and action log as lists
    of rows, every operation a transaction over them; writes as a step relation.
  \<^item> \<open>Notification_Store\<close>, \<open>Mail_Dispatch\<close>, \<open>Mail_Safety\<close>, \<open>Mail_Runs\<close>,
    \<open>Notification_Service\<close> (\<open>runner/src/infrastructure/notifications.rs\<close>,
    \<open>runner/src/dispatch.rs\<close>, \<open>runner/src/notification.rs\<close>): subscribers, inbox, queue,
    dispatcher, rate limiter and handlers.
  \<^item> \<open>Access_Gate\<close> (\<open>runner/src/authz.rs\<close>): who a request acts as.
  \<^item> \<open>Consilium_Tables\<close>, \<open>Consilium_Store\<close>, \<open>Consilium_Laws\<close>, \<open>Consilium_Stores\<close>
    (\<open>runner/src/infrastructure/governance.rs\<close>): the proposals in their tables, and the
    transactions in which a verdict and its consequence are committed together.
  \<^item> \<open>Genesis\<close> (\<open>runner/src/genesis.rs\<close>): the seeding of an empty owner registry.
  \<^item> \<open>Consilium_Runs\<close>, \<open>Consilium_Safety\<close>, \<open>Consilium_Moves\<close>, \<open>Consilium_Guarantees\<close>,
    \<open>Invitation_Guesses\<close>, \<open>Governance_Samples\<close>: runs of the store, genesis and the directory
    together, from an empty database on: the owner floor, the executed proposal behind every
    seat and verdict, overdue proposals, the audit log, the guesses at a mailed code; a fund
    founded and governed at which these apply.
  \<^item> \<open>Governance_Service\<close>, \<open>Service_Samples\<close> (\<open>runner/src/governance.rs\<close>): the handlers of
    the signed-in service and of the mailed link, as functions from a request and the caller
    the gate named to a status or an answer: for whom a caller can act, and which one call of the
    store each request spells.
  \<^item> \<open>Relay_Fields\<close>, \<open>Relay_Labels\<close>, \<open>Mail_Relay\<close>, \<open>Relay_Safety\<close>, \<open>Relay_Samples\<close>
    (the same file's relay): the checks on each field, the rooms of addressees and budgets, and
    what a compromised money plane cannot have written, to whom, and how often.
  \<^item> \<open>Session_Store\<close>, \<open>Session_Safety\<close>, \<open>Session_Redis\<close>, \<open>Session_Refinement\<close>,
    \<open>Session_Agreement\<close>, \<open>Session_Samples\<close> (\<open>auth/src/management.rs\<close>): refresh families in
    the process and in Redis, what rotation, replay and revocation guarantee, and that the two
    stores answer alike over whole runs while the clock does not go back.

  State and operations. A component's state is a record, extended by the components above it:
  \<open>identity_db\<close> (accounts), \<open>notify_db\<close> (mail), \<open>consilium_db\<close> (proposals). An operation
  takes the state and returns its result with the new state; \<open>transact\<close> is a transaction:
  an error leaves the state it began with. A statement the database refuses is a
  \<open>Repository\<close> error. Row locks, the governance revision and advisory locks make the modelled
  transactions follow one another, so a run is a list of calls. Requests of the services and of
  the relay are modelled one after another, although between the check of the relay's budget and
  its charge another request may run. A pass of the dispatcher is one step under an environment
  that may fail it anywhere; a settlement that outlives its lease is a step of its own. The commands of
  Redis are modelled as documented, a store operation at one instant and its two scripts
  (rotation and logout everywhere) command by command. What the code draws (ids, tokens, clocks) is an argument, times are naturals
  far below the width they have.

  Parameters. The record \<open>ext\<close> holds what is not under \<open>src\<close>: Unicode case mapping and
  classes, the phone number crate, UUID text, SHA-256, error texts of Postgres. Rendering of
  mail templates, the transport and what fails in a pass are parameters of the dispatcher.

  Lemmas. Locales state the contracts (\<open>str_codec\<close>, \<open>decisive_rule\<close>,
  \<open>lifecycle_aggregate\<close>, \<open>aggregate_store\<close>, \<open>command_policy\<close>, \<open>proposal_store\<close> and
  others) and are interpreted on the code's definitions; invariants are proved per kind of
  write and hold of every run. The numbered properties (C1 and on) are the claims.

  Bounds and fuel. No definition needs fuel: loops are recursions over the rows or the list
  they walk. The reader of the paging property counts its requests, and the property states the
  number that suffices.

  Not modelled: the gRPC, HTTP and cookie layers beyond the handlers named above, cryptography
  and third-party identity providers, HTML rendering, the endless loops around the
  dispatcher and the sweep of holds, foreign keys of audit rows, the paged list query of the
  directory, and the parts the component list of the manifest names as not modelled.
\<close>

end
